(* ===== verification/Slot_Pool.thy ===== *)
theory Slot_Pool
  imports Prelude
begin

text \<open>
  The slot pool of the key-value cache, \<^verbatim>\<open>crates/openlake_io/src/kv.rs\<close>: a fixed set of
  slots that are free, reserved (pending, with a deadline) or bound to a key hash. Bound slots
  are threaded through a doubly linked list kept in two index arrays (least recently used
  first), which is what eviction follows.

  The first part transcribes the pool operation by operation. An index out of range and the
  \<open>expect\<close> of \<open>evict_one\<close> are panics (\<^const>\<open>None\<close>). The clock is an argument. The order in
  which \<open>HashMap::retain\<close> visits the pending entries is an argument as well, since the
  standard library leaves it open.

  The second part states what the pool promises: an abstract cache whose recency order is a
  list of (slot, key) pairs, and a simulation between the two. Invariance, absence of panics
  and the caching behaviour follow from the simulation.
\<close>

subsection \<open>The pool\<close>

type_synonym key_hash = "8 word list"
type_synonym instant = nat

definition NIL :: nat where
  "NIL = 4294967295"

record slot_pool =
  free :: "nat list"
  by_hash :: "key_hash \<Rightarrow> nat option"
  by_slot :: "nat \<Rightarrow> key_hash option"
  pending :: "nat \<Rightarrow> instant option"
  reserve_ttl :: nat
  lru_prev :: "nat list"
  lru_next :: "nat list"
  lru_head :: nat
  lru_tail :: nat

definition pool_new :: "nat \<Rightarrow> nat \<Rightarrow> slot_pool" where
  "pool_new slot_count ttl =
     \<lparr>free = [0..<slot_count],
      by_hash = Map.empty,
      by_slot = Map.empty,
      pending = Map.empty,
      reserve_ttl = ttl,
      lru_prev = replicate slot_count NIL,
      lru_next = replicate slot_count NIL,
      lru_head = NIL,
      lru_tail = NIL\<rparr>"

definition lru_attach_tail :: "slot_pool \<Rightarrow> nat \<Rightarrow> slot_pool option" where
  "lru_attach_tail p slot = do {
     prev \<leftarrow> arr_set (lru_prev p) slot (lru_tail p);
     nxt \<leftarrow> arr_set (lru_next p) slot NIL;
     let p1 = p\<lparr>lru_prev := prev, lru_next := nxt\<rparr>;
     p2 \<leftarrow> (if lru_tail p1 \<noteq> NIL
            then do { nxt2 \<leftarrow> arr_set (lru_next p1) (lru_tail p1) slot;
                      Some (p1\<lparr>lru_next := nxt2\<rparr>) }
            else Some (p1\<lparr>lru_head := slot\<rparr>));
     Some (p2\<lparr>lru_tail := slot\<rparr>)
   }"

definition lru_detach :: "slot_pool \<Rightarrow> nat \<Rightarrow> slot_pool option" where
  "lru_detach p slot = do {
     pv \<leftarrow> arr_get (lru_prev p) slot;
     if pv = NIL \<and> lru_head p \<noteq> slot then Some p
     else do {
       nx \<leftarrow> arr_get (lru_next p) slot;
       p1 \<leftarrow> (if pv \<noteq> NIL
              then do { nxt \<leftarrow> arr_set (lru_next p) pv nx; Some (p\<lparr>lru_next := nxt\<rparr>) }
              else Some (p\<lparr>lru_head := nx\<rparr>));
       p2 \<leftarrow> (if nx \<noteq> NIL
              then do { prv \<leftarrow> arr_set (lru_prev p1) nx pv; Some (p1\<lparr>lru_prev := prv\<rparr>) }
              else Some (p1\<lparr>lru_tail := pv\<rparr>));
       prv \<leftarrow> arr_set (lru_prev p2) slot NIL;
       nxt \<leftarrow> arr_set (lru_next p2) slot NIL;
       Some (p2\<lparr>lru_prev := prv, lru_next := nxt\<rparr>)
     }
   }"

definition touch :: "slot_pool \<Rightarrow> nat \<Rightarrow> slot_pool option" where
  "touch p slot = do { p1 \<leftarrow> lru_detach p slot; lru_attach_tail p1 slot }"

definition evict_one :: "slot_pool \<Rightarrow> (nat option \<times> slot_pool) option" where
  "evict_one p =
     (let slot = lru_head p in
      if slot = NIL then Some (None, p)
      else do {
        hash \<leftarrow> by_slot p slot;
        let p1 = p\<lparr>by_slot := (by_slot p)(slot := None),
                   by_hash := (by_hash p)(hash := None)\<rparr>;
        p2 \<leftarrow> lru_detach p1 slot;
        Some (Some slot, p2)
      })"

definition reclaim_expired :: "instant \<Rightarrow> nat list \<Rightarrow> slot_pool \<Rightarrow> slot_pool" where
  "reclaim_expired now ord p =
     (let live = (\<lambda>s. case pending p s of Some deadline \<Rightarrow> now < deadline | None \<Rightarrow> False) in
      p\<lparr>free := free p @ filter (\<lambda>s. \<not> live s) ord,
        pending := (\<lambda>s. if live s then pending p s else None)\<rparr>)"

definition pop_or_evict :: "slot_pool \<Rightarrow> (nat option \<times> slot_pool) option" where
  "pop_or_evict p =
     (case free p of
        s # rest \<Rightarrow> Some (Some s, p\<lparr>free := rest\<rparr>)
      | [] \<Rightarrow> evict_one p)"

text \<open>
  The loop of \<open>reserve\<close>: one clock reading per granted slot, \<open>count\<close> iterations at most.
\<close>

fun reserve_loop :: "(nat \<Rightarrow> instant) \<Rightarrow> nat \<Rightarrow> nat \<Rightarrow> slot_pool \<Rightarrow> (nat list \<times> slot_pool) option"
  where
  "reserve_loop clk i 0 p = Some ([], p)"
| "reserve_loop clk i (Suc k) p = do {
     (r, p1) \<leftarrow> pop_or_evict p;
     (case r of
        None \<Rightarrow> Some ([], p1)
      | Some slot \<Rightarrow> do {
          let p2 = p1\<lparr>pending := (pending p1)(slot \<mapsto> clk i + reserve_ttl p1)\<rparr>;
          (out, p3) \<leftarrow> reserve_loop clk (Suc i) k p2;
          Some (slot # out, p3)
        })
   }"

definition reserve :: "instant \<Rightarrow> nat list \<Rightarrow> (nat \<Rightarrow> instant) \<Rightarrow> nat \<Rightarrow> slot_pool
    \<Rightarrow> (nat list \<times> slot_pool) option" where
  "reserve now ord clk cnt p =
     (let p1 = (if length (free p) < cnt then reclaim_expired now ord p else p)
      in reserve_loop clk 0 cnt p1)"

definition commit :: "nat \<Rightarrow> key_hash \<Rightarrow> slot_pool \<Rightarrow> (bool \<times> slot_pool) option" where
  "commit slot_idx key p =
     (if by_slot p slot_idx = Some key then do {
        p1 \<leftarrow> touch (p\<lparr>pending := (pending p)(slot_idx := None)\<rparr>) slot_idx;
        Some (True, p1)
      }
      else if pending p slot_idx = None then Some (False, p)
      else do {
        let p1 = p\<lparr>pending := (pending p)(slot_idx := None),
                   by_slot := (by_slot p)(slot_idx \<mapsto> key)\<rparr>;
        let p2 = p1\<lparr>by_hash := (by_hash p1)(key \<mapsto> slot_idx)\<rparr>;
        p3 \<leftarrow> (case by_hash p1 key of
                 Some prev_slot \<Rightarrow> do {
                   q \<leftarrow> lru_detach (p2\<lparr>by_slot := (by_slot p2)(prev_slot := None)\<rparr>) prev_slot;
                   Some (q\<lparr>free := free q @ [prev_slot]\<rparr>)
                 }
               | None \<Rightarrow> Some p2);
        p4 \<leftarrow> lru_attach_tail p3 slot_idx;
        Some (True, p4)
      })"

definition lookup :: "key_hash \<Rightarrow> slot_pool \<Rightarrow> (nat option \<times> slot_pool) option" where
  "lookup key p =
     (case by_hash p key of
        None \<Rightarrow> Some (None, p)
      | Some slot \<Rightarrow> do { p1 \<leftarrow> touch p slot; Some (Some slot, p1) })"

definition release :: "nat \<Rightarrow> slot_pool \<Rightarrow> slot_pool option" where
  "release slot_idx p =
     (case by_slot p slot_idx of
        Some hash \<Rightarrow> do {
          p1 \<leftarrow> lru_detach (p\<lparr>by_slot := (by_slot p)(slot_idx := None),
                             by_hash := (by_hash p)(hash := None)\<rparr>) slot_idx;
          Some (p1\<lparr>free := free p1 @ [slot_idx]\<rparr>)
        }
      | None \<Rightarrow>
          (if pending p slot_idx \<noteq> None
           then Some (p\<lparr>pending := (pending p)(slot_idx := None), free := free p @ [slot_idx]\<rparr>)
           else Some p))"

definition clear :: "slot_pool \<Rightarrow> slot_pool" where
  "clear p =
     p\<lparr>free := [0..<length (lru_prev p)],
       by_hash := Map.empty,
       by_slot := Map.empty,
       pending := Map.empty,
       lru_prev := replicate (length (lru_prev p)) NIL,
       lru_next := replicate (length (lru_next p)) NIL,
       lru_head := NIL,
       lru_tail := NIL\<rparr>"

text \<open>The byte-level entry points: a key of the wrong length is skipped, respectively not found.\<close>

definition key_hash_try_from :: "8 word list \<Rightarrow> key_hash option" where
  "key_hash_try_from kh = (if length kh = 54 then Some kh else None)"

fun commit_bytes :: "(nat \<times> 8 word list) list \<Rightarrow> slot_pool \<Rightarrow> slot_pool option" where
  "commit_bytes [] p = Some p"
| "commit_bytes ((slot, kh) # es) p =
     (case key_hash_try_from kh of
        Some k \<Rightarrow> do { (_, p1) \<leftarrow> commit slot k p; commit_bytes es p1 }
      | None \<Rightarrow> commit_bytes es p)"

fun lookup_bytes :: "8 word list list \<Rightarrow> slot_pool \<Rightarrow> (nat option list \<times> slot_pool) option" where
  "lookup_bytes [] p = Some ([], p)"
| "lookup_bytes (k # ks) p = do {
     (r, p1) \<leftarrow> (case key_hash_try_from k of
                    Some kh \<Rightarrow> lookup kh p
                  | None \<Rightarrow> Some (None, p));
     (rs, p2) \<leftarrow> lookup_bytes ks p1;
     Some (r # rs, p2)
   }"

fun release_all :: "nat list \<Rightarrow> slot_pool \<Rightarrow> slot_pool option" where
  "release_all [] p = Some p"
| "release_all (s # ss) p = do { p1 \<leftarrow> release s p; release_all ss p1 }"

subsection \<open>The linked list in the arrays\<close>

text \<open>
  \<open>lru_repr p xs\<close>: the arrays hold exactly the list \<open>xs\<close>. Every element's predecessor and
  successor are its neighbours in \<open>xs\<close>, the two ends are the head and the tail, and the
  slots outside \<open>xs\<close> have no links.
\<close>

definition last_or :: "nat list \<Rightarrow> nat" where
  "last_or xs = (if xs = [] then NIL else last xs)"

definition hd_or :: "nat list \<Rightarrow> nat" where
  "hd_or xs = (if xs = [] then NIL else hd xs)"

definition linked :: "nat list \<Rightarrow> nat list \<Rightarrow> nat list \<Rightarrow> bool" where
  "linked prev nxt xs \<longleftrightarrow>
     (\<forall>ys s zs. xs = ys @ s # zs \<longrightarrow> prev ! s = last_or ys \<and> nxt ! s = hd_or zs)"

definition lru_repr :: "slot_pool \<Rightarrow> nat list \<Rightarrow> bool" where
  "lru_repr p xs \<longleftrightarrow>
     length (lru_next p) = length (lru_prev p) \<and> length (lru_prev p) \<le> NIL \<and>
     distinct xs \<and> set xs \<subseteq> {..<length (lru_prev p)} \<and>
     lru_head p = hd_or xs \<and> lru_tail p = last_or xs \<and>
     linked (lru_prev p) (lru_next p) xs \<and>
     (\<forall>s < length (lru_prev p). s \<notin> set xs \<longrightarrow> lru_prev p ! s = NIL \<and> lru_next p ! s = NIL)"

lemma last_or_simps [simp]:
  "last_or [] = NIL" "last_or (xs @ [x]) = x" "last_or (xs @ y # ys) = last_or (y # ys)"
  "last_or [x] = x" "last_or (x # y # xs) = last_or (y # xs)"
  by (simp_all add: last_or_def)

lemma hd_or_simps [simp]: "hd_or [] = NIL" "hd_or (x # xs) = x"
  "hd_or (x # xs @ ys) = x"
  by (simp_all add: hd_or_def)

lemma last_or_in: "xs \<noteq> [] \<Longrightarrow> last_or xs \<in> set xs"
  by (simp add: last_or_def)

lemma hd_or_in: "xs \<noteq> [] \<Longrightarrow> hd_or xs \<in> set xs"
  by (simp add: hd_or_def)

lemma linkedD: "linked prev nxt (ys @ s # zs) \<Longrightarrow> prev ! s = last_or ys \<and> nxt ! s = hd_or zs"
  by (auto simp: linked_def)

lemma lru_repr_bound: "lru_repr p xs \<Longrightarrow> s \<in> set xs \<Longrightarrow> s < length (lru_prev p) \<and> s \<noteq> NIL"
  by (auto simp: lru_repr_def)

text \<open>Appending at the tail.\<close>

lemma linked_snoc:
  assumes "linked prev nxt xs" "s \<notin> set xs" "distinct xs"
    and "s < length prev" "s < length nxt" "set xs \<subseteq> {..<length nxt}"
  shows "linked (prev[s := last_or xs])
     (if xs = [] then nxt[s := NIL] else (nxt[s := NIL])[last xs := s]) (xs @ [s])"
  unfolding linked_def
proof (intro allI impI)
  fix ys t zs
  assume eq: "xs @ [s] = ys @ t # zs"
  show "prev[s := last_or xs] ! t = last_or ys \<and>
    (if xs = [] then nxt[s := NIL] else (nxt[s := NIL])[last xs := s]) ! t = hd_or zs"
  proof (cases zs rule: rev_cases)
    case Nil
    with eq have "ys = xs" "t = s" by auto
    moreover have "xs \<noteq> [] \<Longrightarrow> last xs \<noteq> s" using assms(2) last_in_set by metis
    ultimately show ?thesis using Nil assms by (auto simp: nth_list_update)
  next
    case (snoc ws w)
    with eq have xs: "xs = ys @ t # ws" and w: "w = s" by auto
    from linkedD [OF assms(1) [unfolded xs]]
    have "prev ! t = last_or ys" "nxt ! t = hd_or ws" by auto
    moreover have "t \<noteq> s" using assms(2) xs by auto
    moreover have "t = last xs \<longleftrightarrow> ws = []"
      using assms(3) xs by (auto simp: last_append)
    ultimately show ?thesis
      using xs w snoc assms(6) by (cases ws) (auto simp: nth_list_update)
  qed
qed

text \<open>The list operations touch the links only.\<close>

definition links_only :: "slot_pool \<Rightarrow> slot_pool \<Rightarrow> bool" where
  "links_only p q \<longleftrightarrow>
     free q = free p \<and> by_hash q = by_hash p \<and> by_slot q = by_slot p \<and>
     pending q = pending p \<and> reserve_ttl q = reserve_ttl p \<and>
     length (lru_prev q) = length (lru_prev p)"

lemma attach_tail_repr:
  assumes "lru_repr p xs" "s \<notin> set xs" "s < length (lru_prev p)"
  shows "\<exists>q. lru_attach_tail p s = Some q \<and> lru_repr q (xs @ [s]) \<and> links_only p q"
proof (cases "xs = []")
  case True
  with assms linked_snoc [of "lru_prev p" "lru_next p" xs s] show ?thesis
    by (auto simp: lru_repr_def lru_attach_tail_def links_only_def nth_list_update)
next
  case False
  then have "last_or xs \<in> set xs" by (rule last_or_in)
  with assms have b: "last_or xs < length (lru_next p)" "last_or xs \<noteq> NIL"
    by (auto simp: lru_repr_def)
  then have "lru_attach_tail p s =
      Some (p\<lparr>lru_prev := (lru_prev p)[s := last_or xs],
              lru_next := ((lru_next p)[s := NIL])[last_or xs := s], lru_tail := s\<rparr>)"
    using assms by (simp add: lru_attach_tail_def lru_repr_def)
  then show ?thesis
    using assms b False linked_snoc [of "lru_prev p" "lru_next p" xs s]
    by (auto simp: lru_repr_def links_only_def nth_list_update last_or_def hd_or_def)
qed

text \<open>Unlinking an element.\<close>

lemma linked_remove:
  assumes "linked prev nxt (ys @ s # zs)" "distinct (ys @ s # zs)"
    and "set (ys @ s # zs) \<subseteq> {..<length nxt}" "length prev = length nxt"
  defines "nxt' \<equiv> (if ys = [] then nxt else nxt[last ys := hd_or zs])"
    and "prev' \<equiv> (if zs = [] then prev else prev[hd zs := last_or ys])"
  shows "linked (prev'[s := NIL]) (nxt'[s := NIL]) (ys @ zs)"
  unfolding linked_def
proof (intro allI impI)
  fix as t bs
  assume "ys @ zs = as @ t # bs"
  then consider cs where "ys = as @ t # cs" "bs = cs @ zs"
    | cs where "zs = cs @ t # bs" "as = ys @ cs"
    by (auto simp: append_eq_append_conv2 Cons_eq_append_conv append_eq_Cons_conv)
  then show "prev'[s := NIL] ! t = last_or as \<and> nxt'[s := NIL] ! t = hd_or bs"
  proof cases
    case 1
    with assms linkedD [of prev nxt as t "cs @ s # zs"] show ?thesis
      by (cases cs rule: rev_cases; cases zs) (auto simp: nth_list_update hd_or_def hd_append)
  next
    case 2
    with assms linkedD [of prev nxt "ys @ s # cs" t bs] show ?thesis
      by (cases cs; cases ys rule: rev_cases) (auto simp: nth_list_update last_or_def)
  qed
qed

lemma detach_repr:
  assumes "lru_repr p (ys @ s # zs)"
  shows "\<exists>q. lru_detach p s = Some q \<and> lru_repr q (ys @ zs) \<and> links_only p q"
proof -
  let ?prev = "(if zs = [] then lru_prev p else (lru_prev p)[hd zs := last_or ys])[s := NIL]"
  let ?nxt = "(if ys = [] then lru_next p else (lru_next p)[last ys := hd_or zs])[s := NIL]"
  let ?q = "p\<lparr>lru_prev := ?prev, lru_next := ?nxt, lru_head := hd_or (ys @ zs),
              lru_tail := last_or (ys @ zs)\<rparr>"
  have ln: "linked (lru_prev p) (lru_next p) (ys @ s # zs)"
    and dist: "distinct (ys @ s # zs)"
    and sub: "set (ys @ s # zs) \<subseteq> {..<length (lru_next p)}"
    and len: "length (lru_prev p) = length (lru_next p)" "length (lru_next p) \<le> NIL"
    and ends: "lru_head p = hd_or (ys @ s # zs)" "lru_tail p = last_or (ys @ s # zs)"
    and out: "\<And>t. t < length (lru_prev p) \<Longrightarrow> t \<notin> set (ys @ s # zs) \<Longrightarrow>
      lru_prev p ! t = NIL \<and> lru_next p ! t = NIL"
    using assms by (auto simp: lru_repr_def)
  have ps: "lru_prev p ! s = last_or ys" "lru_next p ! s = hd_or zs"
    using linkedD [OF ln] by auto
  have lt: "t < length (lru_next p) \<and> t \<noteq> NIL" if "t \<in> set (ys @ s # zs)" for t
    using that sub len by auto
  have bnd: "s < length (lru_next p)" "s \<noteq> NIL"
    "ys \<noteq> [] \<Longrightarrow> last ys < length (lru_next p) \<and> last ys \<noteq> NIL"
    "zs \<noteq> [] \<Longrightarrow> hd zs < length (lru_next p) \<and> hd zs \<noteq> NIL"
    using lt [of s] lt [of "last ys"] lt [of "hd zs"] by simp_all
  have keep: "ys \<noteq> [] \<Longrightarrow> hd_or (ys @ zs) = lru_head p" "zs \<noteq> [] \<Longrightarrow> last_or (ys @ zs) = lru_tail p"
    using ends by (simp_all add: hd_or_def last_or_def)
  have "lru_detach p s = Some ?q"
  proof (cases "ys = []"; cases "zs = []")
  qed (use ps ends bnd keep len in \<open>simp_all add: lru_detach_def hd_or_def last_or_def\<close>)
  moreover have "lru_repr ?q (ys @ zs)"
    unfolding lru_repr_def
  proof (intro conjI)
    show "linked (lru_prev ?q) (lru_next ?q) (ys @ zs)"
      using linked_remove [OF ln dist sub len(1)] by simp
    show "\<forall>t < length (lru_prev ?q). t \<notin> set (ys @ zs) \<longrightarrow>
        lru_prev ?q ! t = NIL \<and> lru_next ?q ! t = NIL"
    proof (intro allI impI)
      fix t assume t: "t < length (lru_prev ?q)" "t \<notin> set (ys @ zs)"
      then have "ys \<noteq> [] \<Longrightarrow> t \<noteq> last ys" "zs \<noteq> [] \<Longrightarrow> t \<noteq> hd zs" by auto
      with t out [of t] bnd len show "lru_prev ?q ! t = NIL \<and> lru_next ?q ! t = NIL"
        by (cases "ys = []"; cases "zs = []"; cases "t = s") (simp_all add: nth_list_update)
    qed
  qed (use dist sub len in auto)
  ultimately show ?thesis
    by (auto simp: links_only_def)
qed

lemma detach_repr_mem:
  assumes "lru_repr p xs" "s \<in> set xs"
  shows "\<exists>q. lru_detach p s = Some q \<and> lru_repr q (filter (\<lambda>t. t \<noteq> s) xs) \<and> links_only p q"
proof -
  from assms(2) obtain ys zs where xs: "xs = ys @ s # zs" by (meson split_list)
  with assms(1) have "s \<notin> set ys" "s \<notin> set zs" by (auto simp: lru_repr_def)
  then have "filter (\<lambda>t. t \<noteq> s) ys = ys" "filter (\<lambda>t. t \<noteq> s) zs = zs"
    by (auto intro: filter_True)
  with xs have "filter (\<lambda>t. t \<noteq> s) xs = ys @ zs" by simp
  with detach_repr [of p ys s zs] assms(1) xs show ?thesis by simp
qed

lemma touch_repr:
  assumes "lru_repr p xs" "s \<in> set xs"
  shows "\<exists>q. touch p s = Some q \<and> lru_repr q (filter (\<lambda>t. t \<noteq> s) xs @ [s]) \<and> links_only p q"
proof -
  obtain q where q: "lru_detach p s = Some q" "lru_repr q (filter (\<lambda>t. t \<noteq> s) xs)" "links_only p q"
    using detach_repr_mem [OF assms] by auto
  moreover have "s < length (lru_prev q)"
    using assms q(3) lru_repr_bound by (auto simp: links_only_def)
  ultimately show ?thesis
    using attach_tail_repr [OF q(2), of s] by (auto simp: touch_def links_only_def)
qed

subsection \<open>The abstract cache\<close>

text \<open>
  What the pool is meant to be: free slots in queue order, reservations with a deadline, and
  the bound (slot, key) pairs in recency order, least recently used first.
\<close>

record cache =
  c_size :: nat
  c_free :: "nat list"
  c_pending :: "nat \<Rightarrow> instant option"
  c_ttl :: nat
  c_lru :: "(nat \<times> key_hash) list"

definition drop_slot :: "nat \<Rightarrow> (nat \<times> key_hash) list \<Rightarrow> (nat \<times> key_hash) list" where
  "drop_slot s l = filter (\<lambda>e. fst e \<noteq> s) l"

definition drop_key :: "key_hash \<Rightarrow> (nat \<times> key_hash) list \<Rightarrow> (nat \<times> key_hash) list" where
  "drop_key k l = filter (\<lambda>e. snd e \<noteq> k) l"

definition slot_of :: "(nat \<times> key_hash) list \<Rightarrow> key_hash \<Rightarrow> nat option" where
  "slot_of l = map_of (map prod.swap l)"

definition c_new :: "nat \<Rightarrow> nat \<Rightarrow> cache" where
  "c_new n ttl = \<lparr>c_size = n, c_free = [0..<n], c_pending = Map.empty, c_ttl = ttl, c_lru = []\<rparr>"

definition c_take :: "cache \<Rightarrow> nat option \<times> cache" where
  "c_take c =
     (case c_free c of
        s # rest \<Rightarrow> (Some s, c\<lparr>c_free := rest\<rparr>)
      | [] \<Rightarrow> (case c_lru c of
                 [] \<Rightarrow> (None, c)
               | (s, _) # l \<Rightarrow> (Some s, c\<lparr>c_lru := l\<rparr>)))"

fun c_reserve_loop :: "(nat \<Rightarrow> instant) \<Rightarrow> nat \<Rightarrow> nat \<Rightarrow> cache \<Rightarrow> nat list \<times> cache" where
  "c_reserve_loop clk i 0 c = ([], c)"
| "c_reserve_loop clk i (Suc k) c =
     (case c_take c of
        (None, c1) \<Rightarrow> ([], c1)
      | (Some s, c1) \<Rightarrow>
          (let (out, c2) = c_reserve_loop clk (Suc i) k
                 (c1\<lparr>c_pending := (c_pending c1)(s \<mapsto> clk i + c_ttl c1)\<rparr>)
           in (s # out, c2)))"

definition c_reclaim :: "instant \<Rightarrow> nat list \<Rightarrow> cache \<Rightarrow> cache" where
  "c_reclaim now ord c =
     (let live = (\<lambda>s. case c_pending c s of Some d \<Rightarrow> now < d | None \<Rightarrow> False) in
      c\<lparr>c_free := c_free c @ filter (\<lambda>s. \<not> live s) ord,
        c_pending := (\<lambda>s. if live s then c_pending c s else None)\<rparr>)"

definition c_reserve :: "instant \<Rightarrow> nat list \<Rightarrow> (nat \<Rightarrow> instant) \<Rightarrow> nat \<Rightarrow> cache \<Rightarrow> nat list \<times> cache"
  where
  "c_reserve now ord clk k c =
     c_reserve_loop clk 0 k (if length (c_free c) < k then c_reclaim now ord c else c)"

definition c_commit :: "nat \<Rightarrow> key_hash \<Rightarrow> cache \<Rightarrow> bool \<times> cache" where
  "c_commit s k c =
     (if (s, k) \<in> set (c_lru c) then (True, c\<lparr>c_lru := drop_slot s (c_lru c) @ [(s, k)]\<rparr>)
      else if c_pending c s = None then (False, c)
      else (True, c\<lparr>c_pending := (c_pending c)(s := None),
                    c_free := c_free c @ (case slot_of (c_lru c) k of None \<Rightarrow> [] | Some t \<Rightarrow> [t]),
                    c_lru := drop_key k (c_lru c) @ [(s, k)]\<rparr>))"

definition c_lookup :: "key_hash \<Rightarrow> cache \<Rightarrow> nat option \<times> cache" where
  "c_lookup k c =
     (case slot_of (c_lru c) k of
        None \<Rightarrow> (None, c)
      | Some s \<Rightarrow> (Some s, c\<lparr>c_lru := drop_key k (c_lru c) @ [(s, k)]\<rparr>))"

definition c_release :: "nat \<Rightarrow> cache \<Rightarrow> cache" where
  "c_release s c =
     (if s \<in> fst ` set (c_lru c)
      then c\<lparr>c_lru := drop_slot s (c_lru c), c_free := c_free c @ [s]\<rparr>
      else if c_pending c s \<noteq> None
      then c\<lparr>c_free := c_free c @ [s], c_pending := (c_pending c)(s := None)\<rparr>
      else c)"

definition cache_wf :: "cache \<Rightarrow> bool" where
  "cache_wf c \<longleftrightarrow>
     distinct (c_free c @ map fst (c_lru c)) \<and> distinct (map snd (c_lru c)) \<and>
     dom (c_pending c) \<inter> (set (c_free c) \<union> fst ` set (c_lru c)) = {} \<and>
     set (c_free c) \<union> dom (c_pending c) \<union> fst ` set (c_lru c) = {..<c_size c}"

definition pool_rel :: "slot_pool \<Rightarrow> cache \<Rightarrow> bool" where
  "pool_rel p c \<longleftrightarrow>
     length (lru_prev p) = c_size c \<and> free p = c_free c \<and> pending p = c_pending c \<and> reserve_ttl p = c_ttl c \<and>
     by_slot p = map_of (c_lru c) \<and> by_hash p = slot_of (c_lru c) \<and>
     lru_repr p (map fst (c_lru c)) \<and> cache_wf c"

subsubsection \<open>Lists of pairs with distinct slots and distinct keys\<close>

lemma map_of_drop_slot: "map_of (drop_slot s l) = (map_of l)(s := None)"
  by (simp add: drop_slot_def map_of_filter_neq)

lemma slot_of_drop_key: "slot_of (drop_key k l) = (slot_of l)(k := None)"
  by (induction l) (auto simp: drop_key_def slot_of_def fun_eq_iff)

lemma map_fst_drop_slot: "map fst (drop_slot s l) = filter (\<lambda>t. t \<noteq> s) (map fst l)"
  by (induction l) (auto simp: drop_slot_def)

lemma slot_of_Some:
  "distinct (map snd l) \<Longrightarrow> slot_of l k = Some s \<longleftrightarrow> (s, k) \<in> set l"
proof -
  assume d: "distinct (map snd l)"
  have "map fst (map prod.swap l) = map snd l" by (simp add: o_def)
  with d have "slot_of l k = Some s \<longleftrightarrow> (k, s) \<in> set (map prod.swap l)"
    by (simp only: slot_of_def map_of_eq_Some_iff)
  then show ?thesis by (simp add: image_iff) (metis prod.swap_def fst_swap snd_swap prod.collapse swap_simp)
qed

lemma slot_of_None: "slot_of l k = None \<longleftrightarrow> k \<notin> snd ` set l"
  by (simp add: slot_of_def map_of_eq_None_iff image_image)

lemma drop_key_eq_drop_slot:
  assumes "(s, k) \<in> set l" "distinct (map fst l)" "distinct (map snd l)"
  shows "drop_key k l = drop_slot s l"
  unfolding drop_key_def drop_slot_def
proof (rule filter_cong [OF refl])
  fix e assume e: "e \<in> set l"
  then have "fst e = s \<Longrightarrow> snd e = k" "snd e = k \<Longrightarrow> fst e = s"
    using assms inj_onD [of fst "set l" e "(s, k)"] inj_onD [of snd "set l" e "(s, k)"]
    by (auto simp: distinct_map)
  then show "(snd e \<noteq> k) = (fst e \<noteq> s)" by blast
qed

lemma map_of_snoc: "s \<notin> fst ` set l \<Longrightarrow> map_of (l @ [(s, k)]) = (map_of l)(s \<mapsto> k)"
  by (simp add: map_add_comm [of "[_ \<mapsto> _]"] dom_map_of_conv_image_fst)

lemma slot_of_snoc: "k \<notin> snd ` set l \<Longrightarrow> slot_of (l @ [(s, k)]) = (slot_of l)(k \<mapsto> s)"
  using map_of_snoc [of k "map prod.swap l" s] by (simp add: slot_of_def image_image)

lemma set_drop: "set (drop_slot s l) = {e \<in> set l. fst e \<noteq> s}"
  "set (drop_key k l) = {e \<in> set l. snd e \<noteq> k}"
  by (auto simp: drop_slot_def drop_key_def)

lemma distinct_drop:
  "distinct (map fst l) \<Longrightarrow> distinct (map fst (drop_slot s l))"
  "distinct (map snd l) \<Longrightarrow> distinct (map snd (drop_slot s l))"
  "distinct (map fst l) \<Longrightarrow> distinct (map fst (drop_key k l))"
  "distinct (map snd l) \<Longrightarrow> distinct (map snd (drop_key k l))"
  by (simp_all add: drop_slot_def drop_key_def distinct_map_filter)

subsection \<open>The pool refines the cache\<close>

lemmas rel_defs = pool_rel_def cache_wf_def links_only_def

lemma pool_relI:
  assumes "length (lru_prev p) = c_size c" "free p = c_free c" "pending p = c_pending c" "reserve_ttl p = c_ttl c"
    "by_slot p = map_of (c_lru c)" "by_hash p = slot_of (c_lru c)"
    "lru_repr p (map fst (c_lru c))" "cache_wf c"
  shows "pool_rel p c"
  using assms by (simp add: pool_rel_def)

lemma lru_repr_upd [simp]:
  "lru_repr (p\<lparr>free := a\<rparr>) xs = lru_repr p xs"
  "lru_repr (p\<lparr>pending := b\<rparr>) xs = lru_repr p xs"
  "lru_repr (p\<lparr>by_slot := d\<rparr>) xs = lru_repr p xs"
  "lru_repr (p\<lparr>by_hash := e\<rparr>) xs = lru_repr p xs"
  by (simp_all add: lru_repr_def)

lemma new_rel: "n \<le> NIL \<Longrightarrow> pool_rel (pool_new n ttl) (c_new n ttl)"
  by (auto simp: pool_rel_def cache_wf_def pool_new_def c_new_def lru_repr_def linked_def slot_of_def)

lemma touch_rel:
  assumes rel: "pool_rel p c" and mem: "(s, k) \<in> set (c_lru c)"
  shows "\<exists>q. touch p s = Some q \<and> pool_rel q (c\<lparr>c_lru := drop_slot s (c_lru c) @ [(s, k)]\<rparr>)"
proof -
  let ?l = "c_lru c"
  have d: "distinct (map fst ?l)" "distinct (map snd ?l)" using rel by (auto simp: rel_defs)
  have key: "drop_slot s ?l = drop_key k ?l" using drop_key_eq_drop_slot [OF mem d] by simp
  obtain q where q: "touch p s = Some q"
    "lru_repr q (filter (\<lambda>t. t \<noteq> s) (map fst ?l) @ [s])" "links_only p q"
    using touch_repr [of p "map fst ?l" s] rel mem by (force simp: pool_rel_def)
  have fs: "s \<notin> fst ` set (drop_slot s ?l)" and ks: "k \<notin> snd ` set (drop_key k ?l)"
    by (auto simp: set_drop)
  have m: "map_of (drop_slot s ?l @ [(s, k)]) = map_of ?l"
    using d mem by (simp add: map_of_snoc [OF fs] map_of_drop_slot fun_upd_idem del: map_of_append)
  have sl: "slot_of (drop_slot s ?l @ [(s, k)]) = slot_of ?l"
    using slot_of_snoc [OF ks, of s] d mem
    by (simp add: key slot_of_drop_key slot_of_Some fun_upd_idem)
  have im: "fst ` set (drop_slot s ?l @ [(s, k)]) = fst ` set ?l"
    using mem by (force simp: set_drop)
  have ds: "distinct (map fst (drop_slot s ?l @ [(s, k)]))"
    "distinct (map snd (drop_slot s ?l @ [(s, k)]))"
    using fs ks d distinct_drop(1,2) [of ?l s] by (auto simp: key)
  have wf: "cache_wf (c\<lparr>c_lru := drop_slot s ?l @ [(s, k)]\<rparr>)"
    using rel q(3) ds im
    unfolding pool_rel_def cache_wf_def links_only_def by (simp del: map_append)
  have "pool_rel q (c\<lparr>c_lru := drop_slot s ?l @ [(s, k)]\<rparr>)"
    by (rule pool_relI; use rel q(2,3) m sl wf in
        \<open>simp add: pool_rel_def links_only_def map_fst_drop_slot del: map_of_append\<close>)
  with q(1) show ?thesis by blast
qed

lemma take_None_rel:
  assumes "pool_rel p c" "c_take c = (None, c1)"
  shows "pop_or_evict p = Some (None, p) \<and> c1 = c"
  using assms
  by (auto simp: c_take_def pop_or_evict_def evict_one_def pool_rel_def lru_repr_def Let_def
      split: list.splits)

lemma evict_rel:
  assumes rel: "pool_rel p c" and l: "c_lru c = (s, k) # l"
  shows "\<exists>q. evict_one p = Some (Some s, q) \<and> reserve_ttl q = c_ttl c \<and> pending q = c_pending c \<and>
    pool_rel (q\<lparr>pending := (c_pending c)(s \<mapsto> d)\<rparr>)
             (c\<lparr>c_lru := l, c_pending := (c_pending c)(s \<mapsto> d)\<rparr>)"
proof -
  let ?p1 = "p\<lparr>by_slot := (by_slot p)(s := None), by_hash := (by_hash p)(k := None)\<rparr>"
  have d: "s \<notin> fst ` set l" "k \<notin> snd ` set l" "s \<notin> set (map fst l)"
    using rel l by (auto simp: rel_defs)
  have repr: "lru_repr ?p1 (s # map fst l)" using rel l by (simp add: pool_rel_def)
  then have hd: "lru_head p = s" "s \<noteq> NIL"
    using lru_repr_bound [OF repr, of s] by (auto simp: lru_repr_def)
  obtain q where q: "lru_detach ?p1 s = Some q" "lru_repr q (map fst l)" "links_only ?p1 q"
    using detach_repr [of ?p1 "[]" s "map fst l"] repr by auto
  have "by_slot q = map_of l" "by_hash q = slot_of l"
    using q(3) rel l d
    by (auto simp: links_only_def pool_rel_def slot_of_def map_of_eq_None_iff fun_upd_idem_iff
        image_image)
  moreover have "cache_wf (c\<lparr>c_lru := l, c_pending := (c_pending c)(s \<mapsto> d)\<rparr>)"
    using rel l q(3) d by (auto simp: rel_defs)
  moreover have "evict_one p = Some (Some s, q)"
    using hd rel l q(1) by (simp add: evict_one_def pool_rel_def)
  ultimately show ?thesis
    using q(2,3) rel by (auto simp: pool_rel_def links_only_def)
qed

lemma take_Some_rel:
  assumes rel: "pool_rel p c" and c1: "c_take c = (Some s, c1)"
  shows "\<exists>q. pop_or_evict p = Some (Some s, q) \<and> reserve_ttl q = c_ttl c1 \<and>
    pending q = c_pending c1 \<and>
    pool_rel (q\<lparr>pending := (c_pending c1)(s \<mapsto> d)\<rparr>) (c1\<lparr>c_pending := (c_pending c1)(s \<mapsto> d)\<rparr>)"
proof (cases "c_free c")
  case Nil
  then obtain k l where "c_lru c = (s, k) # l" "c1 = c\<lparr>c_lru := l\<rparr>"
    using c1 by (auto simp: c_take_def split: list.splits)
  with evict_rel [OF rel, of s k l d] Nil rel show ?thesis
    by (auto simp: pop_or_evict_def pool_rel_def)
next
  case (Cons t rest)
  with c1 have c1: "c1 = c\<lparr>c_free := rest\<rparr>" "t = s" by (simp_all add: c_take_def)
  have "cache_wf (c1\<lparr>c_pending := (c_pending c1)(s \<mapsto> d)\<rparr>)"
    using rel Cons c1 by (simp add: pool_rel_def cache_wf_def)
  with c1 Cons rel show ?thesis by (simp add: pop_or_evict_def pool_rel_def)
qed

lemma reserve_loop_rel:
  assumes "pool_rel p c" "c_reserve_loop clk i n c = (out, c')"
  shows "\<exists>q. reserve_loop clk i n p = Some (out, q) \<and> pool_rel q c'"
  using assms
proof (induction n arbitrary: i p c out c')
  case 0
  then show ?case by simp
next
  case (Suc n)
  obtain r c1 where r: "c_take c = (r, c1)" by fastforce
  show ?case
  proof (cases r)
    case None
    with Suc.prems r take_None_rel [OF Suc.prems(1), of c1] show ?thesis by auto
  next
    case (Some s)
    let ?c2 = "c1\<lparr>c_pending := (c_pending c1)(s \<mapsto> clk i + c_ttl c1)\<rparr>"
    obtain out' c2 where loop: "c_reserve_loop clk (Suc i) n ?c2 = (out', c2)" by fastforce
    obtain q where q: "pop_or_evict p = Some (Some s, q)" "reserve_ttl q = c_ttl c1"
        "pending q = c_pending c1"
        "pool_rel (q\<lparr>pending := (c_pending c1)(s \<mapsto> clk i + c_ttl c1)\<rparr>) ?c2"
      using take_Some_rel [OF Suc.prems(1), of s c1] r Some by blast
    from Suc.IH [OF q(4) loop] Suc.prems(2) r Some loop q show ?thesis by auto
  qed
qed

lemma cache_wf_expire:
  assumes wf: "cache_wf c" and V: "dom P \<subseteq> dom (c_pending c)"
    and E: "distinct es" "set es = dom (c_pending c) - dom P"
  shows "cache_wf (c\<lparr>c_free := c_free c @ es, c_pending := P\<rparr>)"
proof -
  have "set (c_free c) \<inter> set es = {}" "set es \<inter> fst ` set (c_lru c) = {}" "dom P \<inter> set es = {}"
    "dom P \<inter> set (c_free c) = {}" "dom P \<inter> fst ` set (c_lru c) = {}"
    "set es \<union> dom P = dom (c_pending c)"
    using wf V E(2) unfolding cache_wf_def by blast+
  moreover from this have "set (c_free c) \<union> set es \<union> dom P \<union> fst ` set (c_lru c) = {..<c_size c}"
    using wf by (simp add: cache_wf_def Un_assoc)
  ultimately show ?thesis using wf E(1)
    by (simp add: cache_wf_def Int_Un_distrib Int_Un_distrib2)
qed

lemma reclaim_rel:
  assumes "pool_rel p c" "distinct ord" "set ord = dom (pending p)"
  shows "pool_rel (reclaim_expired now ord p) (c_reclaim now ord c)"
proof -
  let ?live = "\<lambda>s. case c_pending c s of Some d \<Rightarrow> now < d | None \<Rightarrow> False"
  let ?P = "\<lambda>s. if ?live s then c_pending c s else None"
  have "set (filter (\<lambda>s. \<not> ?live s) ord) = dom (c_pending c) - dom ?P"
    using assms by (auto simp: pool_rel_def split: option.splits if_splits)
  moreover have "dom ?P \<subseteq> dom (c_pending c)" by (auto split: if_splits)
  ultimately have "cache_wf (c_reclaim now ord c)"
    unfolding c_reclaim_def Let_def
    using assms by (intro cache_wf_expire) (auto simp: pool_rel_def)
  with assms show ?thesis
    by (auto simp: pool_rel_def reclaim_expired_def c_reclaim_def Let_def)
qed

theorem reserve_rel:
  assumes "pool_rel p c" "distinct ord" "set ord = dom (pending p)"
    "c_reserve now ord clk k c = (out, c')"
  shows "\<exists>q. reserve now ord clk k p = Some (out, q) \<and> pool_rel q c'"
proof -
  let ?p = "if length (free p) < k then reclaim_expired now ord p else p"
  let ?c = "if length (c_free c) < k then c_reclaim now ord c else c"
  have "free p = c_free c" using assms(1) by (simp add: pool_rel_def)
  then have "pool_rel ?p ?c"
    using assms(1) reclaim_rel [OF assms(1-3)] by simp
  from reserve_loop_rel [OF this] assms(4) show ?thesis
    by (auto simp: reserve_def c_reserve_def Let_def)
qed

lemma lookup_rel:
  assumes rel: "pool_rel p c" and "c_lookup k c = (r, c')"
  shows "\<exists>q. lookup k p = Some (r, q) \<and> pool_rel q c'"
proof (cases "slot_of (c_lru c) k")
  case None
  with assms show ?thesis by (auto simp: lookup_def c_lookup_def pool_rel_def)
next
  case (Some s)
  have d: "distinct (map fst (c_lru c))" "distinct (map snd (c_lru c))"
    using rel by (auto simp: rel_defs)
  have mem: "(s, k) \<in> set (c_lru c)" using Some d by (simp add: slot_of_Some)
  have "by_hash p k = Some s" using rel Some by (simp add: pool_rel_def)
  moreover have "r = Some s" "c' = c\<lparr>c_lru := drop_slot s (c_lru c) @ [(s, k)]\<rparr>"
    using assms(2) Some drop_key_eq_drop_slot [OF mem d] by (simp_all add: c_lookup_def)
  ultimately show ?thesis using touch_rel [OF rel mem] by (auto simp: lookup_def)
qed

lemma release_rel:
  assumes rel: "pool_rel p c"
  shows "\<exists>q. release s p = Some q \<and> pool_rel q (c_release s c)"
proof (cases "map_of (c_lru c) s")
  case None
  then have s: "s \<notin> fst ` set (c_lru c)" by (simp add: map_of_eq_None_iff)
  have wf: "cache_wf c" using rel by (simp add: pool_rel_def)
  have "cache_wf (c_release s c)"
  proof (cases "c_pending c s")
    case (Some d)
    then have "set [s] = dom (c_pending c) - dom ((c_pending c)(s := None))" by auto
    from cache_wf_expire [OF wf _ _ this] Some s show ?thesis by (simp add: c_release_def)
  qed (use wf s in \<open>simp add: c_release_def\<close>)
  with rel s None show ?thesis
    by (auto simp: release_def c_release_def pool_rel_def)
next
  case (Some k)
  let ?l = "c_lru c"
  let ?p1 = "p\<lparr>by_slot := (by_slot p)(s := None), by_hash := (by_hash p)(k := None)\<rparr>"
  have d: "distinct (map fst ?l)" "distinct (map snd ?l)" using rel by (auto simp: rel_defs)
  have mem: "(s, k) \<in> set ?l" using Some by (rule map_of_SomeD)
  then have smem: "s \<in> fst ` set ?l" by force
  obtain q where q: "lru_detach ?p1 s = Some q"
      "lru_repr q (filter (\<lambda>t. t \<noteq> s) (map fst ?l))" "links_only ?p1 q"
    using detach_repr_mem [of ?p1 "map fst ?l" s] rel smem by (auto simp: pool_rel_def)
  have maps: "by_slot q = map_of (drop_slot s ?l)" "by_hash q = slot_of (drop_slot s ?l)"
    using q(3) rel drop_key_eq_drop_slot [OF mem d] slot_of_drop_key [of k ?l]
    by (simp_all add: links_only_def pool_rel_def map_of_drop_slot)
  have im: "fst ` set ?l = insert s (fst ` set (drop_slot s ?l))" "s \<notin> fst ` set (drop_slot s ?l)"
    using smem by (auto simp: set_drop)
  have "cache_wf (c_release s c)"
    using rel q(3) d smem im
    unfolding pool_rel_def cache_wf_def links_only_def c_release_def
    by (simp add: distinct_drop)
  then have "pool_rel (q\<lparr>free := free q @ [s]\<rparr>) (c_release s c)"
    using rel q(2,3) maps smem
    by (simp add: pool_rel_def links_only_def c_release_def map_fst_drop_slot)
  with q(1) Some rel show ?thesis by (simp add: release_def pool_rel_def)
qed

lemma clear_rel: "pool_rel p c \<Longrightarrow> pool_rel (clear p) (c_new (c_size c) (c_ttl c))"
  by (auto simp: pool_rel_def cache_wf_def clear_def c_new_def lru_repr_def linked_def slot_of_def)

lemma commit_fresh_rel:
  assumes rel: "pool_rel p c" and pend: "c_pending c s \<noteq> None" and fresh: "slot_of (c_lru c) k = None"
  shows "\<exists>q. commit s k p = Some (True, q) \<and> pool_rel q (snd (c_commit s k c))"
proof -
  let ?l = "c_lru c"
  let ?p2 = "p\<lparr>pending := (pending p)(s := None), by_slot := (by_slot p)(s \<mapsto> k),
               by_hash := (by_hash p)(k \<mapsto> s)\<rparr>"
  have s: "s \<notin> fst ` set ?l" "s < length (lru_prev p)" "s \<notin> set (c_free c)"
    using rel pend by (auto simp: pool_rel_def cache_wf_def)
  have k: "k \<notin> snd ` set ?l" using fresh by (simp add: slot_of_None)
  then have dk: "drop_key k ?l = ?l" by (force simp: drop_key_def intro!: filter_True)
  obtain q where q: "lru_attach_tail ?p2 s = Some q" "lru_repr q (map fst ?l @ [s])" "links_only ?p2 q"
    using attach_tail_repr [of ?p2 "map fst ?l" s] rel s by (auto simp: pool_rel_def)
  have c': "c_commit s k c = (True, c\<lparr>c_pending := (c_pending c)(s := None), c_lru := ?l @ [(s, k)]\<rparr>)"
    using k pend fresh dk by (force simp: c_commit_def)
  have "cache_wf (snd (c_commit s k c))"
    using rel q(3) s k pend unfolding c' pool_rel_def cache_wf_def links_only_def
    by (simp add: insert_absorb) blast
  then have "pool_rel q (snd (c_commit s k c))"
    using rel q(2,3) unfolding c' pool_rel_def links_only_def
    by (simp add: map_of_snoc [OF s(1)] slot_of_snoc [OF k] del: map_of_append)
  moreover have "by_slot p s \<noteq> Some k" "pending p s \<noteq> None" "by_hash p k = None"
    using rel s(1) pend fresh by (auto simp: pool_rel_def dest: map_of_SomeD intro: rev_image_eqI)
  ultimately show ?thesis using q(1) by (simp add: commit_def Let_def)
qed

lemma commit_rebind_rel:
  assumes rel: "pool_rel p c" and pend: "c_pending c s \<noteq> None"
    and old: "slot_of (c_lru c) k = Some t"
  shows "\<exists>q. commit s k p = Some (True, q) \<and> pool_rel q (snd (c_commit s k c))"
proof -
  let ?l = "c_lru c" and ?l' = "drop_slot t (c_lru c)"
  let ?p2 = "p\<lparr>pending := (pending p)(s := None), by_hash := (by_hash p)(k \<mapsto> s),
               by_slot := ((by_slot p)(s \<mapsto> k))(t := None)\<rparr>"
  have d: "distinct (map fst ?l)" "distinct (map snd ?l)" using rel by (auto simp: rel_defs)
  have mem: "(t, k) \<in> set ?l" using old d by (simp add: slot_of_Some)
  then have t: "t \<in> fst ` set ?l" by force
  have s: "s \<notin> fst ` set ?l" "s < length (lru_prev p)" "s \<notin> set (c_free c)" "s \<noteq> t"
    using rel pend t by (auto simp: pool_rel_def cache_wf_def)
  have dk: "drop_key k ?l = ?l'" by (rule drop_key_eq_drop_slot [OF mem d])
  have "k \<notin> snd ` set (drop_key k ?l)" by (auto simp: set_drop)
  then have fresh: "s \<notin> fst ` set ?l'" "k \<notin> snd ` set ?l'" "t \<notin> fst ` set ?l'"
    using s(1) by (auto simp: dk set_drop)
  obtain q1 where q1: "lru_detach ?p2 t = Some q1" "lru_repr q1 (map fst ?l')" "links_only ?p2 q1"
    using detach_repr_mem [of ?p2 "map fst ?l" t] rel t
    by (auto simp: pool_rel_def map_fst_drop_slot)
  let ?q1 = "q1\<lparr>free := free q1 @ [t]\<rparr>"
  obtain q where q: "lru_attach_tail ?q1 s = Some q" "lru_repr q (map fst ?l' @ [s])" "links_only ?q1 q"
    using attach_tail_repr [of ?q1 "map fst ?l'" s] q1 s fresh
    by (auto simp: links_only_def)
  have c': "c_commit s k c = (True, c\<lparr>c_pending := (c_pending c)(s := None),
      c_free := c_free c @ [t], c_lru := ?l' @ [(s, k)]\<rparr>)"
    using s(1) pend old dk by (force simp: c_commit_def)
  have im: "fst ` set ?l = insert t (fst ` set ?l')" using t by (auto simp: set_drop)
  have "cache_wf (snd (c_commit s k c))"
    using rel q(3) q1(3) s fresh pend d im
    unfolding c' pool_rel_def cache_wf_def links_only_def
    by (simp add: distinct_drop) blast
  moreover have "(by_slot p)(s \<mapsto> k, t := None) = (map_of ?l')(s \<mapsto> k)"
    "(by_hash p)(k \<mapsto> s) = (slot_of ?l')(k \<mapsto> s)"
    using rel s(4) slot_of_drop_key [of k ?l]
    by (simp_all add: pool_rel_def map_of_drop_slot fun_upd_twist dk)
  ultimately have "pool_rel q (snd (c_commit s k c))"
    using rel q(2,3) q1(3) unfolding c' pool_rel_def links_only_def
    by (simp add: map_of_snoc [OF fresh(1)] slot_of_snoc [OF fresh(2)] del: map_of_append)
  moreover have "by_slot p s \<noteq> Some k" "pending p s \<noteq> None" "by_hash p k = Some t"
    using rel s(1) pend old by (auto simp: pool_rel_def dest: map_of_SomeD intro: rev_image_eqI)
  ultimately show ?thesis using q(1) q1(1) by (simp add: commit_def Let_def)
qed

theorem commit_rel:
  assumes rel: "pool_rel p c" and "c_commit s k c = (b, c')"
  shows "\<exists>q. commit s k p = Some (b, q) \<and> pool_rel q c'"
proof (cases "(s, k) \<in> set (c_lru c)")
  case True
  have "s \<in> fst ` set (c_lru c)" using True by force
  then have "s \<notin> dom (c_pending c)" using rel unfolding pool_rel_def cache_wf_def by blast
  then have "by_slot p s = Some k" "c_pending c s = None"
    using rel True by (auto simp: pool_rel_def cache_wf_def)
  moreover have "p\<lparr>pending := (pending p)(s := None)\<rparr> = p"
    using rel calculation by (simp add: pool_rel_def fun_upd_idem)
  ultimately show ?thesis
    using touch_rel [OF rel True] True assms(2) by (auto simp: commit_def c_commit_def)
next
  case False
  then have no: "by_slot p s \<noteq> Some k"
    using rel by (auto simp: pool_rel_def dest: map_of_SomeD)
  show ?thesis
  proof (cases "c_pending c s = None")
    case True
    with no False rel assms(2) show ?thesis by (auto simp: commit_def c_commit_def pool_rel_def)
  next
    case pend: False
    with False assms(2) have "b = True" "c' = snd (c_commit s k c)" by (auto simp: c_commit_def)
    with commit_fresh_rel [OF rel pend] commit_rebind_rel [OF rel pend] show ?thesis
      by (cases "slot_of (c_lru c) k") auto
  qed
qed

subsection \<open>Sequences of calls\<close>

text \<open>
  One call of the pool, with the values the runtime supplies to \<open>reserve\<close>: the clock read by
  \<open>reclaim_expired\<close>, the iteration order of the \<open>pending\<close> hash map, and the clock read
  for every granted slot. \<open>call_ok\<close> says that the iteration order enumerates the map.
\<close>

datatype pool_call =
    Reserve instant "nat list" "nat \<Rightarrow> instant" nat
  | Commit nat key_hash
  | Lookup key_hash
  | Release nat
  | Clear

datatype pool_reply = Slots "nat list" | Accepted bool | Slot "nat option" | Done

fun pool_exec :: "pool_call \<Rightarrow> slot_pool \<Rightarrow> (pool_reply \<times> slot_pool) option" where
  "pool_exec (Reserve now ord clk k) p = do { (out, q) \<leftarrow> reserve now ord clk k p; Some (Slots out, q) }"
| "pool_exec (Commit s k) p = do { (b, q) \<leftarrow> commit s k p; Some (Accepted b, q) }"
| "pool_exec (Lookup k) p = do { (r, q) \<leftarrow> lookup k p; Some (Slot r, q) }"
| "pool_exec (Release s) p = do { q \<leftarrow> release s p; Some (Done, q) }"
| "pool_exec Clear p = Some (Done, clear p)"

fun cache_exec :: "pool_call \<Rightarrow> cache \<Rightarrow> pool_reply \<times> cache" where
  "cache_exec (Reserve now ord clk k) c = map_prod Slots id (c_reserve now ord clk k c)"
| "cache_exec (Commit s k) c = map_prod Accepted id (c_commit s k c)"
| "cache_exec (Lookup k) c = map_prod Slot id (c_lookup k c)"
| "cache_exec (Release s) c = (Done, c_release s c)"
| "cache_exec Clear c = (Done, c_new (c_size c) (c_ttl c))"

fun call_ok :: "pool_call \<Rightarrow> slot_pool \<Rightarrow> bool" where
  "call_ok (Reserve now ord clk k) p \<longleftrightarrow> distinct ord \<and> set ord = dom (pending p)"
| "call_ok _ p \<longleftrightarrow> True"

inductive pool_reach :: "nat \<Rightarrow> nat \<Rightarrow> slot_pool \<Rightarrow> bool" for n ttl where
  start: "pool_reach n ttl (pool_new n ttl)"
| call: "pool_reach n ttl p \<Longrightarrow> call_ok ev p \<Longrightarrow> pool_exec ev p = Some (r, q) \<Longrightarrow> pool_reach n ttl q"

lemma exec_rel:
  assumes "pool_rel p c" "call_ok ev p"
  shows "\<exists>q. pool_exec ev p = Some (fst (cache_exec ev c), q) \<and>
             pool_rel q (snd (cache_exec ev c))"
proof (cases ev)
  case (Reserve now ord clk k)
  obtain out c' where "c_reserve now ord clk k c = (out, c')" by fastforce
  with reserve_rel [OF assms(1)] assms(2) Reserve show ?thesis by fastforce
next
  case (Commit s k)
  obtain b c' where "c_commit s k c = (b, c')" by fastforce
  with commit_rel [OF assms(1)] Commit show ?thesis by fastforce
next
  case (Lookup k)
  obtain r c' where "c_lookup k c = (r, c')" by fastforce
  with lookup_rel [OF assms(1)] Lookup show ?thesis by fastforce
next
  case (Release s)
  with release_rel [OF assms(1), of s] show ?thesis by auto
next
  case Clear
  with clear_rel [OF assms(1)] show ?thesis by simp
qed

lemma take_size: "c_size (snd (c_take c)) = c_size c"
  by (auto simp: c_take_def split: list.splits)

lemma reserve_loop_size: "c_size (snd (c_reserve_loop clk i k c)) = c_size c"
  by (induction k arbitrary: i c) (auto simp: case_prod_beta take_size split: option.splits prod.splits)

lemma exec_size: "c_size (snd (cache_exec ev c)) = c_size c"
  by (cases ev)
    (auto simp: c_reserve_def reserve_loop_size c_reclaim_def c_commit_def c_lookup_def c_release_def
      c_new_def Let_def split: option.splits)

lemma reach_rel:
  assumes "pool_reach n ttl p" "n \<le> NIL"
  shows "\<exists>c. pool_rel p c \<and> c_size c = n"
  using assms
proof (induction rule: pool_reach.induct)
  case start
  have "c_size (c_new n ttl) = n" by (simp add: c_new_def)
  with new_rel [OF start, of ttl] show ?case by blast
next
  case (call p ev r q)
  then obtain c where c: "pool_rel p c" "c_size c = n" by blast
  from exec_rel [OF c(1) call(2)] call(3) have "pool_rel q (snd (cache_exec ev c))" by simp
  with c(2) exec_size show ?case by metis
qed

subsection \<open>What each call does\<close>

definition pool_inv :: "slot_pool \<Rightarrow> bool" where
  "pool_inv p \<longleftrightarrow> (\<exists>c. pool_rel p c)"

lemma reach_inv: "pool_reach n ttl p \<Longrightarrow> n \<le> NIL \<Longrightarrow> pool_inv p"
  using reach_rel unfolding pool_inv_def by blast

lemma rel_bound: "pool_rel p c \<Longrightarrow> by_hash p k = Some s \<longleftrightarrow> (s, k) \<in> set (c_lru c)"
  by (simp add: pool_rel_def cache_wf_def slot_of_Some)

lemma rel_slot: "pool_rel p c \<Longrightarrow> by_slot p s = Some k \<longleftrightarrow> (s, k) \<in> set (c_lru c)"
  by (simp add: pool_rel_def cache_wf_def)

lemma inv_maps: "pool_inv p \<Longrightarrow> by_hash p k = Some s \<longleftrightarrow> by_slot p s = Some k"
  by (auto simp: pool_inv_def rel_bound rel_slot)

lemma inv_partition:
  assumes "pool_inv p"
  shows "distinct (free p)" "set (free p) \<inter> dom (pending p) = {}" "set (free p) \<inter> dom (by_slot p) = {}"
    "dom (pending p) \<inter> dom (by_slot p) = {}"
    "set (free p) \<union> dom (pending p) \<union> dom (by_slot p) = {..<length (lru_prev p)}"
proof -
  obtain c where c: "pool_rel p c" using assms by (auto simp: pool_inv_def)
  then have eqs: "dom (by_slot p) = fst ` set (c_lru c)" "free p = c_free c" "pending p = c_pending c"
    "length (lru_prev p) = c_size c"
    by (simp_all add: pool_rel_def dom_map_of_conv_image_fst)
  have wf: "cache_wf c" using c by (simp add: pool_rel_def)
  show "distinct (free p)" "set (free p) \<inter> dom (by_slot p) = {}"
    "set (free p) \<union> dom (pending p) \<union> dom (by_slot p) = {..<length (lru_prev p)}"
    using wf by (simp_all add: eqs cache_wf_def)
  show "set (free p) \<inter> dom (pending p) = {}" "dom (pending p) \<inter> dom (by_slot p) = {}"
    using wf unfolding eqs cache_wf_def by blast+
qed

lemma inv_pending: "pool_inv p \<Longrightarrow> pending p s \<noteq> None \<Longrightarrow> by_slot p s = None \<and> s \<notin> set (free p)"
  using inv_partition(2,4) [of p] by (auto simp: disjoint_iff domIff)

lemma inv_bound: "pool_inv p \<Longrightarrow> by_slot p s = Some k \<Longrightarrow> pending p s = None \<and> s \<notin> set (free p)"
  using inv_partition(3,4) [of p] by (fastforce simp: disjoint_iff domIff)

lemma drop_slot_same:
  assumes "(s, k) \<in> set l" "distinct (map fst l)" "distinct (map snd l)"
  shows "map_of (drop_slot s l @ [(s, k)]) = map_of l"
    "slot_of (drop_slot s l @ [(s, k)]) = slot_of l"
proof -
  have fs: "s \<notin> fst ` set (drop_slot s l)" by (auto simp: set_drop)
  have "k \<notin> snd ` set (drop_key k l)" by (auto simp: set_drop)
  then have ks: "k \<notin> snd ` set (drop_slot s l)" by (simp add: drop_key_eq_drop_slot [OF assms])
  show "map_of (drop_slot s l @ [(s, k)]) = map_of l"
    using assms by (simp add: map_of_snoc [OF fs] map_of_drop_slot fun_upd_idem del: map_of_append)
  show "slot_of (drop_slot s l @ [(s, k)]) = slot_of l"
    using slot_of_snoc [OF ks, of s] assms slot_of_drop_key [of k l]
    by (simp add: drop_key_eq_drop_slot [OF assms] slot_of_Some fun_upd_idem)
qed

lemma lookup_spec:
  assumes "pool_inv p"
  shows "\<exists>q. lookup k p = Some (by_hash p k, q) \<and> pool_inv q \<and> by_hash q = by_hash p \<and>
    by_slot q = by_slot p \<and> pending q = pending p \<and> free q = free p"
proof -
  obtain c where c: "pool_rel p c" using assms by (auto simp: pool_inv_def)
  let ?c = "snd (c_lookup k c)"
  have d: "distinct (map fst (c_lru c))" "distinct (map snd (c_lru c))"
    using c by (auto simp: rel_defs)
  obtain q where q: "lookup k p = Some (fst (c_lookup k c), q)" "pool_rel q ?c"
    using lookup_rel [OF c, of k "fst (c_lookup k c)" ?c] by auto
  have "map_of (c_lru ?c) = map_of (c_lru c)" "slot_of (c_lru ?c) = slot_of (c_lru c)"
    using drop_slot_same [OF _ d] drop_key_eq_drop_slot [OF _ d]
    by (auto simp: c_lookup_def slot_of_Some [OF d(2)] split: option.splits simp del: map_of_append)
  moreover have "fst (c_lookup k c) = by_hash p k" "c_free ?c = c_free c" "c_pending ?c = c_pending c"
    using c by (auto simp: c_lookup_def pool_rel_def split: option.splits)
  ultimately show ?thesis using q c by (auto simp: pool_inv_def pool_rel_def)
qed

lemma commit_spec:
  assumes "pool_inv p"
  shows "\<exists>b q. commit s k p = Some (b, q) \<and> pool_inv q \<and>
    b = (by_slot p s = Some k \<or> pending p s \<noteq> None) \<and> (\<not> b \<longrightarrow> q = p) \<and>
    (b \<longrightarrow> by_hash q = (by_hash p)(k \<mapsto> s) \<and> pending q = (pending p)(s := None))"
proof -
  obtain c where c: "pool_rel p c" using assms by (auto simp: pool_inv_def)
  let ?c = "snd (c_commit s k c)" and ?b = "fst (c_commit s k c)"
  have d: "distinct (map fst (c_lru c))" "distinct (map snd (c_lru c))"
    using c by (auto simp: rel_defs)
  obtain q where q: "commit s k p = Some (?b, q)" "pool_rel q ?c"
    using commit_rel [OF c, of s k ?b ?c] by auto
  have b: "?b = (by_slot p s = Some k \<or> pending p s \<noteq> None)"
    using c by (auto simp: c_commit_def rel_slot) (auto simp: pool_rel_def)
  have no: "\<not> ?b \<Longrightarrow> q = p"
    using q(1) b by (simp add: commit_def split: if_splits)
  have fresh: "k \<notin> snd ` set (drop_key k (c_lru c))" by (auto simp: set_drop)
  have "slot_of (c_lru ?c) = (slot_of (c_lru c))(k \<mapsto> s)" if ?b
    using that drop_slot_same [OF _ d] slot_of_snoc [OF fresh, of s] slot_of_drop_key [of k "c_lru c"]
    by (auto simp: c_commit_def slot_of_Some [OF d(2)] fun_upd_idem split: if_splits)
  moreover have pend: "pending p = c_pending c" using c by (simp add: pool_rel_def)
  have "(s, k) \<in> set (c_lru c) \<Longrightarrow> c_pending c s = None"
    using inv_bound [OF assms, of s] rel_slot [OF c, of s k] pend by auto
  then have "c_pending ?c = (c_pending c)(s := None)" if ?b
    using that by (auto simp: c_commit_def fun_upd_idem split: if_splits)
  ultimately show ?thesis using q c b no by (auto simp: pool_inv_def pool_rel_def)
qed

lemma release_spec:
  assumes "pool_inv p"
  shows "\<exists>q. release s p = Some q \<and> pool_inv q \<and> pending q = (pending p)(s := None) \<and>
    by_slot q = (by_slot p)(s := None) \<and>
    set (free q) = set (free p) \<union> (if by_slot p s \<noteq> None \<or> pending p s \<noteq> None then {s} else {})"
proof -
  obtain c where c: "pool_rel p c" using assms by (auto simp: pool_inv_def)
  obtain q where q: "release s p = Some q" "pool_rel q (c_release s c)"
    using release_rel [OF c] by blast
  have eqs: "by_slot p = map_of (c_lru c)" "free p = c_free c" "pending p = c_pending c"
    using c by (simp_all add: pool_rel_def)
  have eqs': "by_slot q = map_of (c_lru (c_release s c))" "free q = c_free (c_release s c)"
    "pending q = c_pending (c_release s c)"
    using q(2) by (simp_all add: pool_rel_def)
  have iff: "by_slot p s = None \<longleftrightarrow> s \<notin> fst ` set (c_lru c)"
    by (simp add: eqs map_of_eq_None_iff)
  have "by_slot p s \<noteq> None \<Longrightarrow> pending p s = None"
    using inv_bound [OF assms, of s] by auto
  then have "pending q = (pending p)(s := None)" "by_slot q = (by_slot p)(s := None)"
    "set (free q) = set (free p) \<union> (if by_slot p s \<noteq> None \<or> pending p s \<noteq> None then {s} else {})"
    using iff unfolding eqs' by (auto simp: eqs c_release_def map_of_drop_slot fun_upd_idem)
  with q show ?thesis by (auto simp: pool_inv_def)
qed

text \<open>
  A reservation takes the first \<open>k\<close> slots of the free queue followed by the bound slots in
  recency order, and evicts exactly the bindings of the slots it took from the latter.
\<close>

lemma reserve_loop_exact:
  "fst (c_reserve_loop clk i k c) = take k (c_free c @ map fst (c_lru c))"
  "c_free (snd (c_reserve_loop clk i k c)) = drop k (c_free c)"
  "c_lru (snd (c_reserve_loop clk i k c)) = drop (k - length (c_free c)) (c_lru c)"
proof (induction k arbitrary: i c)
  case (Suc k)
  case 1
  show ?case using Suc
    by (cases "c_free c"; cases "c_lru c") (auto simp: c_take_def case_prod_beta)
  case 2
  show ?case using Suc
    by (cases "c_free c"; cases "c_lru c") (auto simp: c_take_def case_prod_beta)
  case 3
  show ?case using Suc
    by (cases "c_free c"; cases "c_lru c") (auto simp: c_take_def case_prod_beta)
qed simp_all

lemma reserve_loop_pending:
  "s \<notin> set (fst (c_reserve_loop clk i k c)) \<Longrightarrow>
   c_pending (snd (c_reserve_loop clk i k c)) s = c_pending c s"
proof (induction k arbitrary: i c)
  case (Suc k)
  have "c_pending (snd (c_take c)) = c_pending c"
    by (auto simp: c_take_def split: list.splits)
  with Suc show ?case by (auto simp: case_prod_beta split: option.splits)
qed simp

lemma reserve_loop_granted:
  assumes "distinct (c_free c @ map fst (c_lru c))"
  shows "set (fst (c_reserve_loop clk i k c)) \<subseteq> dom (c_pending (snd (c_reserve_loop clk i k c)))"
  using assms
proof (induction k arbitrary: i c)
  case (Suc k)
  obtain r c1 where r: "c_take c = (r, c1)" by fastforce
  show ?case
  proof (cases r)
    case (Some s)
    let ?c2 = "c1\<lparr>c_pending := (c_pending c1)(s \<mapsto> clk i + c_ttl c1)\<rparr>"
    have split: "c_free c @ map fst (c_lru c) = s # c_free ?c2 @ map fst (c_lru ?c2)"
      using r Some by (auto simp: c_take_def split: list.splits)
    then have d: "distinct (c_free ?c2 @ map fst (c_lru ?c2))" "s \<notin> set (c_free ?c2 @ map fst (c_lru ?c2))"
      using Suc.prems by simp_all
    have "s \<notin> set (fst (c_reserve_loop clk (Suc i) k ?c2))"
      using d(2) unfolding reserve_loop_exact(1) by (meson in_set_takeD)
    from reserve_loop_pending [OF this] Suc.IH [OF d(1)] r Some show ?thesis
      by (auto simp: case_prod_beta)
  qed (use r in simp)
qed simp

definition refill_free :: "instant \<Rightarrow> nat list \<Rightarrow> nat \<Rightarrow> slot_pool \<Rightarrow> nat list" where
  "refill_free now ord k p =
     free p @ (if length (free p) < k
               then filter (\<lambda>s. case pending p s of Some d \<Rightarrow> d \<le> now | None \<Rightarrow> True) ord else [])"

lemma reserve_spec:
  assumes inv: "pool_inv p" and ord: "distinct ord" "set ord = dom (pending p)"
  shows "\<exists>q xs. reserve now ord clk k p = Some (take k (refill_free now ord k p @ xs), q) \<and> pool_inv q \<and>
    lru_repr p xs \<and> lru_repr q (drop (k - length (refill_free now ord k p)) xs) \<and>
    free q = drop k (refill_free now ord k p) \<and> distinct (refill_free now ord k p @ xs) \<and>
    set (take k (refill_free now ord k p @ xs)) \<subseteq> dom (pending q) \<and>
    (\<forall>s d. pending p s = Some d \<longrightarrow> now < d \<longrightarrow>
       s \<notin> set (take k (refill_free now ord k p @ xs)) \<and> pending q s = Some d)"
proof -
  obtain c where c: "pool_rel p c" using inv by (auto simp: pool_inv_def)
  let ?c1 = "if length (c_free c) < k then c_reclaim now ord c else c"
  let ?r = "c_reserve now ord clk k c" and ?f = "refill_free now ord k p"
  have eqs: "free p = c_free c" "pending p = c_pending c" using c by (simp_all add: pool_rel_def)
  obtain q where q: "reserve now ord clk k p = Some (fst ?r, q)" "pool_rel q (snd ?r)"
    using reserve_rel [OF c ord, of now clk k "fst ?r" "snd ?r"] by auto
  have f: "c_free ?c1 = ?f" "c_lru ?c1 = c_lru c"
    using ord(2)
    by (auto simp: refill_free_def eqs c_reclaim_def Let_def not_less intro!: filter_cong
        split: option.splits)
  have out: "fst ?r = take k (?f @ map fst (c_lru c))"
    by (simp only: c_reserve_def reserve_loop_exact f)
  have q': "free q = drop k ?f" "lru_repr q (drop (k - length ?f) (map fst (c_lru c)))"
    using q(2) by (simp_all only: pool_rel_def c_reserve_def reserve_loop_exact f drop_map)
  have wf1: "cache_wf ?c1"
    using c reclaim_rel [OF c ord] by (simp add: pool_rel_def)
  have granted: "set (fst ?r) \<subseteq> dom (pending q)"
    using q(2) reserve_loop_granted [of ?c1 clk 0 k] wf1
    by (simp only: pool_rel_def c_reserve_def cache_wf_def)
  have "s \<notin> set (fst ?r) \<and> pending q s = Some d" if "pending p s = Some d" "now < d" for s d
  proof -
    have pc: "c_pending ?c1 s = Some d" using that by (auto simp: eqs c_reclaim_def Let_def)
    then have "s \<notin> set (c_free ?c1 @ map fst (c_lru ?c1))"
      using wf1 unfolding cache_wf_def by (metis (no_types, lifting) IntI Un_iff domI empty_iff set_append set_map)
    then have no: "s \<notin> set (fst ?r)"
      unfolding c_reserve_def reserve_loop_exact(1) by (meson in_set_takeD)
    from reserve_loop_pending [OF this [unfolded c_reserve_def]] pc no q(2) show ?thesis
      by (simp only: pool_rel_def c_reserve_def) simp
  qed
  moreover have "distinct (?f @ map fst (c_lru c))"
    using wf1 unfolding cache_wf_def f by blast
  moreover have "pool_inv q" "lru_repr p (map fst (c_lru c))"
    using q(2) c by (auto simp: pool_inv_def pool_rel_def)
  ultimately show ?thesis using q(1) q' granted unfolding out by blast
qed

subsection \<open>Properties\<close>

text \<open>
  C3: the pool refines the recency cache. Every pool reached from \<open>new\<close> by any sequence of
  calls represents an abstract cache of the same size, and every further call (with an
  iteration order that enumerates the pending map) returns without a panic, gives the reply
  the cache gives and leads to a pool that represents the cache's next state.
\<close>

theorem pool_refines_cache:
  assumes "pool_reach n ttl p" "n \<le> NIL"
  shows "\<exists>c. pool_rel p c \<and> c_size c = n \<and>
    (\<forall>ev. call_ok ev p \<longrightarrow>
       (\<exists>q. pool_exec ev p = Some (fst (cache_exec ev c), q) \<and> pool_rel q (snd (cache_exec ev c))))"
  using reach_rel [OF assms] exec_rel by blast

theorem pool_refines_cache_witness:
  "\<exists>c. pool_rel (pool_new 2 60) c \<and> c_size c = 2 \<and>
    (\<forall>ev. call_ok ev (pool_new 2 60) \<longrightarrow>
       (\<exists>q. pool_exec ev (pool_new 2 60) = Some (fst (cache_exec ev c), q) \<and>
            pool_rel q (snd (cache_exec ev c))))"
  by (rule pool_refines_cache [OF pool_reach.start]) (simp add: NIL_def)

text \<open>
  C25: in every reachable pool each of the \<open>n\<close> slots is in exactly one of three places, the free
  queue (once), the reservations, or the bindings, and the two binding maps are inverse to
  each other.
\<close>

theorem pool_slots_partition:
  assumes "pool_reach n ttl p" "n \<le> NIL"
  shows "distinct (free p) \<and> set (free p) \<inter> dom (pending p) = {} \<and>
    set (free p) \<inter> dom (by_slot p) = {} \<and> dom (pending p) \<inter> dom (by_slot p) = {} \<and>
    set (free p) \<union> dom (pending p) \<union> dom (by_slot p) = {..<n} \<and>
    (\<forall>k s. by_hash p k = Some s \<longleftrightarrow> by_slot p s = Some k)"
proof -
  obtain c where "pool_rel p c" "c_size c = n" using reach_rel [OF assms] by blast
  then have "length (lru_prev p) = n" by (simp add: pool_rel_def)
  with inv_partition [OF reach_inv [OF assms]] inv_maps [OF reach_inv [OF assms]] show ?thesis by simp
qed

theorem pool_slots_partition_witness:
  "set (free (pool_new 3 60)) \<union> dom (pending (pool_new 3 60)) \<union> dom (by_slot (pool_new 3 60)) = {..<3}"
  using pool_slots_partition [OF pool_reach.start, of 3 60] by (simp add: NIL_def)

text \<open>
  Reservations are granted in order and are exclusive. A reservation of \<open>k\<close> slots on a
  reachable pool returns the first \<open>k\<close> of the free queue (extended by the expired
  reservations when it is too short) followed by the bound slots from least to most
  recently used, and records each granted slot as reserved. It never hands out a slot whose
  earlier reservation has not expired, and leaves that reservation alone.
\<close>

theorem reserve_in_order_and_exclusive:
  assumes "pool_reach n ttl p" "n \<le> NIL" "distinct ord" "set ord = dom (pending p)"
  shows "\<exists>q xs out. reserve now ord clk k p = Some (out, q) \<and> lru_repr p xs \<and>
    out = take k (refill_free now ord k p @ xs) \<and> distinct out \<and> set out \<subseteq> dom (pending q) \<and>
    free q = drop k (refill_free now ord k p) \<and>
    lru_repr q (drop (k - length (refill_free now ord k p)) xs) \<and>
    (\<forall>s d. pending p s = Some d \<longrightarrow> now < d \<longrightarrow> s \<notin> set out \<and> pending q s = Some d)"
  using reserve_spec [OF reach_inv [OF assms(1,2)] assms(3,4), of now clk k] distinct_take by blast

theorem reserve_in_order_and_exclusive_witness:
  "\<exists>q xs out. reserve 5 [] (\<lambda>_. 5) 2 (pool_new 3 60) = Some (out, q) \<and> lru_repr (pool_new 3 60) xs \<and>
    out = take 2 (refill_free 5 [] 2 (pool_new 3 60) @ xs) \<and> distinct out \<and> set out \<subseteq> dom (pending q) \<and>
    free q = drop 2 (refill_free 5 [] 2 (pool_new 3 60)) \<and>
    lru_repr q (drop (2 - length (refill_free 5 [] 2 (pool_new 3 60))) xs) \<and>
    (\<forall>s d. pending (pool_new 3 60) s = Some d \<longrightarrow> 5 < d \<longrightarrow> s \<notin> set out \<and> pending q s = Some d)"
  by (rule reserve_in_order_and_exclusive [OF pool_reach.start]) (simp_all add: NIL_def pool_new_def)

text \<open>
  What is committed is found. Committing a reserved slot of a reachable pool succeeds, a
  lookup of the key then returns that slot, and every other key keeps its binding.
\<close>

theorem commit_then_lookup:
  assumes "pool_reach n ttl p" "n \<le> NIL" "pending p s \<noteq> None"
  shows "\<exists>q q'. commit s k p = Some (True, q) \<and> lookup k q = Some (Some s, q') \<and>
    (\<forall>k'. k' \<noteq> k \<longrightarrow> by_hash q' k' = by_hash p k')"
proof -
  obtain q where q: "commit s k p = Some (True, q)" "pool_inv q" "by_hash q = (by_hash p)(k \<mapsto> s)"
    using commit_spec [OF reach_inv [OF assms(1,2)], of s k] assms(3) by auto
  from lookup_spec [OF q(2), of k] q show ?thesis by auto
qed

lemma reach_reserved_example:
  "pool_reach 2 60 (snd (the (reserve 5 [] (\<lambda>_. 5) 1 (pool_new 2 60))))"
  by (rule pool_reach.call [OF pool_reach.start, of "Reserve 5 [] (\<lambda>_. 5) 1" _ _ "Slots [0]"])
    (auto simp: pool_new_def reserve_def pop_or_evict_def upt_rec)

theorem commit_then_lookup_witness:
  "\<exists>q q'. commit 0 [7] (snd (the (reserve 5 [] (\<lambda>_. 5) 1 (pool_new 2 60)))) = Some (True, q) \<and>
    lookup [7] q = Some (Some 0, q') \<and>
    (\<forall>k'. k' \<noteq> [7] \<longrightarrow>
       by_hash q' k' = by_hash (snd (the (reserve 5 [] (\<lambda>_. 5) 1 (pool_new 2 60)))) k')"
  by (rule commit_then_lookup [OF reach_reserved_example])
    (simp_all add: NIL_def pool_new_def reserve_def pop_or_evict_def upt_rec)

end
