(* ===== verification/Kv_Engine.thy ===== *)
theory Kv_Engine
  imports Slot_Pool "HOL-Library.AList"
begin

text \<open>
  The key-value service above the slot pool: the \<open>KvSlab\<close> trait with its shared-memory and
  RDMA implementations (\<^verbatim>\<open>crates/openlake_io/src/kv.rs\<close>, \<^verbatim>\<open>kv_slab.rs\<close>), the request
  dispatcher \<open>serve_tcp\<close>, the engine that creates the slab on the first attach
  (\<^verbatim>\<open>crates/openlake_storage/src/kv_engine.rs\<close>) and the table of attached RDMA clients
  (\<^verbatim>\<open>kv_backend.rs\<close>).

  A trait object is a record of methods over a state; \<open>serve_tcp\<close> and the engine are written
  against it. The locale \<open>kv_slab_contract\<close> is what these clients rely on; it is
  interpreted on both slab types, whose methods are those of the slot pool.
\<close>

subsection \<open>The slab trait and its implementations\<close>

text \<open>What the runtime supplies to a reservation: see \<^const>\<open>reserve\<close>.\<close>

type_synonym reserve_env = "instant \<times> nat list \<times> (nat \<Rightarrow> instant)"

record 's kv_slab =
  kv_reserve :: "reserve_env \<Rightarrow> nat \<Rightarrow> 's \<Rightarrow> (nat list \<times> 's) option"
  kv_commit :: "(nat \<times> 8 word list) list \<Rightarrow> 's \<Rightarrow> 's option"
  kv_lookup :: "8 word list list \<Rightarrow> 's \<Rightarrow> (nat option list \<times> 's) option"
  kv_release :: "nat list \<Rightarrow> 's \<Rightarrow> 's option"
  kv_reset :: "'s \<Rightarrow> 's"
  kv_slot_bytes :: "'s \<Rightarrow> nat"
  kv_slot_count :: "'s \<Rightarrow> nat"
  kv_shm_name :: "'s \<Rightarrow> string option"

record host_slab =
  hs_slots :: slot_pool
  hs_name :: string
  hs_slot_bytes :: nat
  hs_slot_count :: nat

text \<open>
  \<open>shm_create\<close> stands for the mapping of the shared memory object, which is a system call:
  it succeeds or gives an error message.
\<close>

definition host_slab_new :: "(string \<Rightarrow> nat \<Rightarrow> string option) \<Rightarrow> nat \<Rightarrow> nat
    \<Rightarrow> nat \<Rightarrow> nat \<Rightarrow> nat \<Rightarrow> (host_slab, string) result" where
  "host_slab_new shm_create pid sq slot_bytes slot_count ttl =
     (let name = ''/openlake_kv_'' @ show_nat pid @ ''_'' @ show_nat sq in
      case shm_create name (slot_bytes * slot_count) of
        Some e \<Rightarrow> Err e
      | None \<Rightarrow> Ok \<lparr>hs_slots = pool_new slot_count ttl, hs_name = name,
                    hs_slot_bytes = slot_bytes, hs_slot_count = slot_count\<rparr>)"

definition host_reserve :: "reserve_env \<Rightarrow> nat \<Rightarrow> host_slab \<Rightarrow> (nat list \<times> host_slab) option" where
  "host_reserve env k s =
     (case env of (now, ord, clk) \<Rightarrow> do {
        (out, p) \<leftarrow> reserve now ord clk k (hs_slots s);
        Some (out, s\<lparr>hs_slots := p\<rparr>)
      })"

definition host_commit :: "(nat \<times> 8 word list) list \<Rightarrow> host_slab \<Rightarrow> host_slab option" where
  "host_commit es s = do { p \<leftarrow> commit_bytes es (hs_slots s); Some (s\<lparr>hs_slots := p\<rparr>) }"

definition host_lookup :: "8 word list list \<Rightarrow> host_slab \<Rightarrow> (nat option list \<times> host_slab) option"
  where
  "host_lookup ks s = do { (r, p) \<leftarrow> lookup_bytes ks (hs_slots s); Some (r, s\<lparr>hs_slots := p\<rparr>) }"

definition host_release :: "nat list \<Rightarrow> host_slab \<Rightarrow> host_slab option" where
  "host_release ss s = do { p \<leftarrow> release_all ss (hs_slots s); Some (s\<lparr>hs_slots := p\<rparr>) }"

definition host_reset :: "host_slab \<Rightarrow> host_slab" where
  "host_reset s = s\<lparr>hs_slots := clear (hs_slots s)\<rparr>"

definition host_slab_ops :: "host_slab kv_slab" where
  "host_slab_ops =
     \<lparr>kv_reserve = host_reserve, kv_commit = host_commit, kv_lookup = host_lookup,
      kv_release = host_release, kv_reset = host_reset, kv_slot_bytes = hs_slot_bytes,
      kv_slot_count = hs_slot_count, kv_shm_name = (\<lambda>s. Some (hs_name s))\<rparr>"

text \<open>
  The RDMA slab: its buffers are registered device memory, of which the base address, the
  remote key and the sizes are visible here.
\<close>

record rdma_slab =
  rs_slots :: slot_pool
  rs_base :: "64 word"
  rs_rkey :: "32 word"
  rs_buf_size :: nat
  rs_buf_cnt :: nat

definition rdma_slab_new :: "(nat \<Rightarrow> nat \<Rightarrow> (64 word \<times> 32 word, string) result)
    \<Rightarrow> nat \<Rightarrow> nat \<Rightarrow> nat \<Rightarrow> (rdma_slab, string) result" where
  "rdma_slab_new buffers_new slot_bytes slot_count ttl =
     and_then (buffers_new slot_count slot_bytes) (\<lambda>(base, rkey).
       Ok \<lparr>rs_slots = pool_new (slot_count mod 2 ^ 32) ttl, rs_base = base, rs_rkey = rkey,
           rs_buf_size = slot_bytes, rs_buf_cnt = slot_count\<rparr>)"

definition rdma_reserve :: "reserve_env \<Rightarrow> nat \<Rightarrow> rdma_slab \<Rightarrow> (nat list \<times> rdma_slab) option" where
  "rdma_reserve env k s =
     (case env of (now, ord, clk) \<Rightarrow> do {
        (out, p) \<leftarrow> reserve now ord clk k (rs_slots s);
        Some (out, s\<lparr>rs_slots := p\<rparr>)
      })"

definition rdma_commit :: "(nat \<times> 8 word list) list \<Rightarrow> rdma_slab \<Rightarrow> rdma_slab option" where
  "rdma_commit es s = do { p \<leftarrow> commit_bytes es (rs_slots s); Some (s\<lparr>rs_slots := p\<rparr>) }"

definition rdma_lookup :: "8 word list list \<Rightarrow> rdma_slab \<Rightarrow> (nat option list \<times> rdma_slab) option"
  where
  "rdma_lookup ks s = do { (r, p) \<leftarrow> lookup_bytes ks (rs_slots s); Some (r, s\<lparr>rs_slots := p\<rparr>) }"

definition rdma_release :: "nat list \<Rightarrow> rdma_slab \<Rightarrow> rdma_slab option" where
  "rdma_release ss s = do { p \<leftarrow> release_all ss (rs_slots s); Some (s\<lparr>rs_slots := p\<rparr>) }"

definition rdma_reset :: "rdma_slab \<Rightarrow> rdma_slab" where
  "rdma_reset s = s\<lparr>rs_slots := clear (rs_slots s)\<rparr>"

definition rdma_slab_ops :: "rdma_slab kv_slab" where
  "rdma_slab_ops =
     \<lparr>kv_reserve = rdma_reserve, kv_commit = rdma_commit, kv_lookup = rdma_lookup,
      kv_release = rdma_release, kv_reset = rdma_reset,
      kv_slot_bytes = (\<lambda>s. rs_buf_size s mod 2 ^ 32),
      kv_slot_count = (\<lambda>s. rs_buf_cnt s mod 2 ^ 32), kv_shm_name = (\<lambda>_. None)\<rparr>"

subsection \<open>Requests\<close>

datatype kv_request =
    KvAttach nat
  | KvReserve nat
  | KvCommit "(nat \<times> 8 word list) list"
  | KvLookup "8 word list list"
  | KvRelease "nat list"
  | KvReset

datatype kv_response =
    KvAttached string nat nat
  | KvReserved "nat list"
  | KvLooked "nat option list"
  | KvOk
  | KvErr string

fun serve_tcp :: "'s kv_slab \<Rightarrow> reserve_env \<Rightarrow> kv_request \<Rightarrow> 's \<Rightarrow> (kv_response \<times> 's) option" where
  "serve_tcp ops env (KvAttach _) s =
     Some (case kv_shm_name ops s of
             Some name \<Rightarrow> KvAttached name (kv_slot_bytes ops s) (kv_slot_count ops s)
           | None \<Rightarrow> KvErr ''slab is not shm-backed'', s)"
| "serve_tcp ops env (KvReserve cnt) s = do {
     (out, t) \<leftarrow> kv_reserve ops env cnt s;
     Some (KvReserved out, t)
   }"
| "serve_tcp ops env (KvCommit es) s = do { t \<leftarrow> kv_commit ops es s; Some (KvOk, t) }"
| "serve_tcp ops env (KvLookup ks) s = do { (r, t) \<leftarrow> kv_lookup ops ks s; Some (KvLooked r, t) }"
| "serve_tcp ops env (KvRelease ss) s = do { t \<leftarrow> kv_release ops ss s; Some (KvOk, t) }"
| "serve_tcp ops env KvReset s = Some (KvOk, kv_reset ops s)"

subsection \<open>The engine\<close>

text \<open>
  The engine's slab is created on the first attach with a positive slot size, when the engine
  is host backed. \<open>mk\<close> is the slab's constructor, from the slot size, the slot count and the
  reservation time-out. The cast of the slot count to 32 bits truncates.
\<close>

record 's kv_engine =
  ke_slab :: "'s option"
  ke_capacity_bytes :: nat
  ke_reserve_ttl :: nat
  ke_host_backed :: bool

definition engine_new_tcp :: "nat \<Rightarrow> nat \<Rightarrow> 's kv_engine" where
  "engine_new_tcp cap ttl =
     \<lparr>ke_slab = None, ke_capacity_bytes = cap, ke_reserve_ttl = ttl, ke_host_backed = True\<rparr>"

definition engine_new_rdma :: "nat \<Rightarrow> nat \<Rightarrow> 's kv_engine" where
  "engine_new_rdma cap ttl =
     \<lparr>ke_slab = None, ke_capacity_bytes = cap, ke_reserve_ttl = ttl, ke_host_backed = False\<rparr>"

definition slab_slot_count :: "nat \<Rightarrow> nat \<Rightarrow> nat" where
  "slab_slot_count cap slot_bytes = max (cap div slot_bytes) 1 mod 2 ^ 32"

definition no_slab_msg :: string where
  "no_slab_msg = ''no kv slab yet: call attach first for client discovery/exchange''"

definition ensure_slab :: "(nat \<Rightarrow> nat \<Rightarrow> nat \<Rightarrow> ('s, string) result) \<Rightarrow> kv_request
    \<Rightarrow> 's kv_engine \<Rightarrow> ('s kv_engine, string) result" where
  "ensure_slab mk req e =
     (case req of
        KvAttach slot_bytes \<Rightarrow>
          if ke_host_backed e \<and> slot_bytes > 0 \<and> ke_slab e = None
          then (case mk slot_bytes (slab_slot_count (ke_capacity_bytes e) slot_bytes) (ke_reserve_ttl e) of
                  Inr s \<Rightarrow> Ok (e\<lparr>ke_slab := Some s\<rparr>)
                | Inl msg \<Rightarrow> Err (''kv slab create: '' @ msg))
          else Ok e
      | _ \<Rightarrow> Ok e)"

definition engine_serve_tcp :: "'s kv_slab \<Rightarrow> (nat \<Rightarrow> nat \<Rightarrow> nat \<Rightarrow> ('s, string) result)
    \<Rightarrow> reserve_env \<Rightarrow> kv_request \<Rightarrow> 's kv_engine \<Rightarrow> (kv_response \<times> 's kv_engine) option" where
  "engine_serve_tcp ops mk env req e =
     (case ensure_slab mk req e of
        Inl msg \<Rightarrow> Some (KvErr msg, e)
      | Inr e1 \<Rightarrow>
          (case ke_slab e1 of
             Some s \<Rightarrow> do {
               (resp, t) \<leftarrow> serve_tcp ops env req s;
               Some (resp, e1\<lparr>ke_slab := Some t\<rparr>)
             }
           | None \<Rightarrow>
               Some (case req of
                       KvAttach _ \<Rightarrow> KvAttached [] 0 0
                     | _ \<Rightarrow> KvErr no_slab_msg, e1)))"

subsection \<open>RDMA clients\<close>

record slab_meta =
  sm_slab_base :: "64 word"
  sm_rkey :: "32 word"
  sm_slot_bytes :: nat

record local_rdma_endpoint =
  le_runtime_id :: nat
  le_dct_num :: "32 word"
  le_gid :: "8 word list"
  le_dc_key :: "64 word"
  le_lid :: nat
  le_kv_slab :: "slab_meta option"

record peer_endpoint =
  pe_node_id :: nat
  pe_gid :: "8 word list"
  pe_dct_num :: "32 word"
  pe_dc_key :: "64 word"
  pe_lid :: nat
  pe_kv_slab :: "slab_meta option"

definition to_peer :: "nat \<Rightarrow> local_rdma_endpoint \<Rightarrow> peer_endpoint" where
  "to_peer node_id ep =
     \<lparr>pe_node_id = node_id, pe_gid = le_gid ep, pe_dct_num = le_dct_num ep,
      pe_dc_key = le_dc_key ep, pe_lid = le_lid ep, pe_kv_slab = le_kv_slab ep\<rparr>"

text \<open>The peers are a hash map: an association list with one entry per key.\<close>

record kv_backend =
  kb_peers :: "((nat \<times> nat) \<times> peer_endpoint \<times> nat) list"
  kb_cap :: nat

definition backend_new :: "nat \<Rightarrow> kv_backend" where
  "backend_new cap = \<lparr>kb_peers = [], kb_cap = cap\<rparr>"

definition backend_attach :: "nat \<Rightarrow> local_rdma_endpoint \<Rightarrow> nat \<Rightarrow> kv_backend
    \<Rightarrow> (kv_backend, string) result" where
  "backend_attach cid ep epoch b =
     (let key = (cid, le_runtime_id ep);
          insert_peer = b\<lparr>kb_peers := AList.update key (to_peer cid ep, epoch) (kb_peers b)\<rparr> in
      case map_of (kb_peers b) key of
        Some (held_ep, e) \<Rightarrow>
          if pe_gid held_ep \<noteq> le_gid ep \<and> e \<ge> epoch
          then Err (''client id '' @ show_nat cid @ '' held by another endpoint'')
          else Ok insert_peer
      | None \<Rightarrow>
          if length (kb_peers b) \<ge> kb_cap b
          then Err (''at capacity ('' @ show_nat (kb_cap b) @ '' clients)'')
          else Ok insert_peer)"

definition backend_peer_at :: "nat \<Rightarrow> nat \<Rightarrow> kv_backend \<Rightarrow> peer_endpoint option" where
  "backend_peer_at node_id runtime_id b = map_option fst (map_of (kb_peers b) (node_id, runtime_id))"

record rdma_engine = "rdma_slab kv_engine" +
  re_backend :: kv_backend
  re_registry :: "local_rdma_endpoint list"
  re_notified :: "(nat \<times> nat) list"

text \<open>
  Attaching registers the endpoints in order and stops at the first refusal; the endpoints
  before it stay registered. \<open>re_notified\<close> records the calls of the \<open>on_attach\<close> hook.
\<close>

fun attach_endpoints :: "nat \<Rightarrow> nat \<Rightarrow> local_rdma_endpoint list \<Rightarrow> rdma_engine
    \<Rightarrow> (unit, string) result \<times> rdma_engine" where
  "attach_endpoints client epoch [] e = (Ok (), e)"
| "attach_endpoints client epoch (ep # eps) e =
     (case backend_attach client ep epoch (re_backend e) of
        Inl msg \<Rightarrow> (Err msg, e)
      | Inr b \<Rightarrow> attach_endpoints client epoch eps
                  (e\<lparr>re_backend := b, re_notified := re_notified e @ [(client, le_runtime_id ep)]\<rparr>))"

definition rdma_attach :: "(nat \<Rightarrow> nat \<Rightarrow> (64 word \<times> 32 word, string) result) \<Rightarrow> nat
    \<Rightarrow> local_rdma_endpoint list \<Rightarrow> nat \<Rightarrow> nat \<Rightarrow> rdma_engine \<Rightarrow> (unit, string) result \<times> rdma_engine" where
  "rdma_attach buffers_new client eps epoch slot_bytes e =
     (case attach_endpoints client epoch eps e of
        (Inl msg, e1) \<Rightarrow> (Err msg, e1)
      | (Inr _, e1) \<Rightarrow>
          if slot_bytes > 0 \<and> ke_slab e1 = None
          then (let slot_count = max (ke_capacity_bytes e1 div slot_bytes) 1 in
                case rdma_slab_new buffers_new slot_bytes slot_count (ke_reserve_ttl e1) of
                  Inl msg \<Rightarrow> (Err (''rdma slab create: '' @ msg), e1)
                | Inr s \<Rightarrow>
                    (let meta = \<lparr>sm_slab_base = rs_base s, sm_rkey = rs_rkey s,
                                 sm_slot_bytes = kv_slot_bytes rdma_slab_ops s\<rparr> in
                     (Ok (), e1\<lparr>ke_slab := Some s,
                        re_registry := map (\<lambda>ep. ep\<lparr>le_kv_slab := Some meta\<rparr>) (re_registry e1)\<rparr>)))
          else (Ok (), e1))"

datatype rdma_request =
    BatchReserve nat
  | BatchCommit "(nat \<times> 8 word list) list"
  | BatchLookup "8 word list list"
  | BatchRelease "nat list"
  | ResetReq
  | ForeignReq

datatype rdma_response =
    BatchReserved "nat list"
  | BatchCommitted
  | BatchLookedUp "nat option list"
  | BatchReleased
  | ResetDone
  | GenericErr string

text \<open>
  \<open>handle\<close> serves the batch requests; the other request kinds are \<open>unreachable!\<close> here, the
  server routes them elsewhere.
\<close>

definition kv_handle :: "reserve_env \<Rightarrow> rdma_request \<Rightarrow> rdma_engine
    \<Rightarrow> (rdma_response \<times> rdma_engine) option" where
  "kv_handle env req e =
     (case ke_slab e of
        None \<Rightarrow> Some (GenericErr no_slab_msg, e)
      | Some s \<Rightarrow>
          (case req of
             BatchReserve cnt \<Rightarrow> do {
               (out, t) \<leftarrow> kv_reserve rdma_slab_ops env cnt s;
               Some (BatchReserved out, e\<lparr>ke_slab := Some t\<rparr>)
             }
           | BatchCommit es \<Rightarrow> do {
               t \<leftarrow> kv_commit rdma_slab_ops es s;
               Some (BatchCommitted, e\<lparr>ke_slab := Some t\<rparr>)
             }
           | BatchLookup ks \<Rightarrow> do {
               (r, t) \<leftarrow> kv_lookup rdma_slab_ops ks s;
               Some (BatchLookedUp r, e\<lparr>ke_slab := Some t\<rparr>)
             }
           | BatchRelease ss \<Rightarrow> do {
               t \<leftarrow> kv_release rdma_slab_ops ss s;
               Some (BatchReleased, e\<lparr>ke_slab := Some t\<rparr>)
             }
           | ResetReq \<Rightarrow> Some (ResetDone, e\<lparr>ke_slab := Some (kv_reset rdma_slab_ops s)\<rparr>)
           | ForeignReq \<Rightarrow> None))"

subsection \<open>The batch operations of the pool\<close>

definition bound :: "slot_pool \<Rightarrow> 8 word list \<Rightarrow> nat option" where
  "bound p k = (if length k = 54 then by_hash p k else None)"

definition held :: "slot_pool \<Rightarrow> nat set" where
  "held p = dom (pending p)"

lemma commit_bytes_total: "pool_inv p \<Longrightarrow> \<exists>q. commit_bytes es p = Some q \<and> pool_inv q"
proof (induction es p rule: commit_bytes.induct)
  case (2 slot kh es p)
  obtain b q where "commit slot kh p = Some (b, q)" "pool_inv q"
    using commit_spec [OF 2(3), of slot kh] by blast
  with 2 show ?case by (auto simp: key_hash_try_from_def)
qed simp

lemma commit_bytes_binds:
  assumes "pool_inv p" "distinct (map fst es)" "distinct (map snd es)" "fst ` set es \<subseteq> held p"
    "\<forall>k \<in> snd ` set es. length k = 54" "commit_bytes es p = Some q"
  shows "bound q = bound p ++ map_of (map prod.swap es)"
  using assms
proof (induction es arbitrary: p)
  case Nil
  then show ?case by simp
next
  case (Cons e es)
  obtain slot kh where e: "e = (slot, kh)" by fastforce
  have kh: "length kh = 54" "slot \<in> held p" using Cons.prems(4,5) e by simp_all
  obtain p1 where p1: "commit slot kh p = Some (True, p1)" "pool_inv p1"
      "by_hash p1 = (by_hash p)(kh \<mapsto> slot)" "pending p1 = (pending p)(slot := None)"
    using commit_spec [OF Cons.prems(1), of slot kh] kh(2) by (auto simp: held_def)
  have q: "commit_bytes es p1 = Some q"
    using Cons.prems(6) e kh(1) p1(1) by (simp add: key_hash_try_from_def)
  have "fst ` set es \<subseteq> held p1"
    using Cons.prems(2,4) e by (auto simp: held_def p1(4))
  then have IH: "bound q = bound p1 ++ map_of (map prod.swap es)"
    using Cons.IH [OF p1(2) _ _ _ _ q] Cons.prems(2,3,5) by simp
  have "map_of (map prod.swap es) kh = None"
    using Cons.prems(3) e by (force simp: map_of_eq_None_iff)
  moreover have "bound p1 = (bound p)(kh \<mapsto> slot)"
    using p1(3) kh(1) by (simp add: bound_def fun_eq_iff)
  ultimately show ?case
    unfolding IH e by (simp add: fun_eq_iff map_add_def split: option.split)
qed

lemma lookup_bytes_spec:
  "pool_inv p \<Longrightarrow> \<exists>q. lookup_bytes ks p = Some (map (bound p) ks, q) \<and> pool_inv q \<and>
     by_hash q = by_hash p \<and> pending q = pending p"
proof (induction ks arbitrary: p)
  case (Cons k ks)
  obtain p1 where p1: "(case key_hash_try_from k of Some kh \<Rightarrow> lookup kh p | None \<Rightarrow> Some (None, p))
      = Some (bound p k, p1)" "pool_inv p1" "by_hash p1 = by_hash p" "pending p1 = pending p"
    using lookup_spec [OF Cons.prems, of k] Cons.prems
    by (cases "length k = 54") (auto simp: key_hash_try_from_def bound_def)
  moreover have "bound p1 = bound p" using p1(3) by (simp add: bound_def fun_eq_iff)
  ultimately show ?case using Cons.IH [OF p1(2)] by auto
qed simp

lemma release_all_spec:
  "pool_inv p \<Longrightarrow> \<exists>q. release_all ss p = Some q \<and> pool_inv q \<and>
     by_slot q = (\<lambda>s. if s \<in> set ss then None else by_slot p s) \<and>
     pending q = (\<lambda>s. if s \<in> set ss then None else pending p s)"
proof (induction ss arbitrary: p)
  case (Cons s ss)
  obtain p1 where p1: "release s p = Some p1" "pool_inv p1" "pending p1 = (pending p)(s := None)"
      "by_slot p1 = (by_slot p)(s := None)"
    using release_spec [OF Cons.prems, of s] by auto
  from Cons.IH [OF p1(2)] p1(1,3,4) show ?case by (auto simp: fun_eq_iff)
qed simp

lemma clear_spec:
  "pool_inv p \<Longrightarrow> pool_inv (clear p) \<and> bound (clear p) = Map.empty \<and> held (clear p) = {}"
  using clear_rel by (auto simp: pool_inv_def bound_def held_def clear_def)

lemma new_spec:
  "n \<le> NIL \<Longrightarrow> pool_inv (pool_new n ttl) \<and> bound (pool_new n ttl) = Map.empty \<and> held (pool_new n ttl) = {}"
  using new_rel by (auto simp: pool_inv_def bound_def held_def pool_new_def)

lemma reserve_held:
  assumes "pool_inv p" "distinct ord" "set ord = held p"
  shows "\<exists>out q. reserve now ord clk k p = Some (out, q) \<and> pool_inv q \<and> distinct out \<and>
    set out \<subseteq> held q \<and> length out \<le> k"
proof -
  have ord: "set ord = dom (pending p)" using assms(3) by (simp add: held_def)
  obtain q xs where q: "reserve now ord clk k p = Some (take k (refill_free now ord k p @ xs), q)"
      "pool_inv q" "set (take k (refill_free now ord k p @ xs)) \<subseteq> dom (pending q)"
      "distinct (refill_free now ord k p @ xs)"
    using reserve_spec [OF assms(1,2) ord, of now clk k] by blast
  from q(4) have "distinct (take k (refill_free now ord k p @ xs))" by (rule distinct_take)
  with q show ?thesis unfolding held_def by fastforce
qed

subsection \<open>The contract of a slab and what its clients get from it\<close>

text \<open>
  \<open>slots_held\<close> are the reserved slots, \<open>slot_bound\<close> the bindings. The laws are those of the
  trait's methods as the clients use them: every method returns and keeps the invariant;
  a batch of commits of held slots binds each key; a lookup reports the bindings and changes
  none; released slots are neither held nor bound; a reset forgets everything.
\<close>

locale kv_slab_contract =
  fixes ops :: "'s kv_slab" and inv :: "'s \<Rightarrow> bool"
    and slots_held :: "'s \<Rightarrow> nat set" and slot_bound :: "'s \<Rightarrow> 8 word list \<Rightarrow> nat option"
  assumes reserve_law: "inv s \<Longrightarrow> distinct ord \<Longrightarrow> set ord = slots_held s \<Longrightarrow>
      \<exists>out t. kv_reserve ops (now, ord, clk) k s = Some (out, t) \<and> inv t \<and> distinct out \<and>
        set out \<subseteq> slots_held t \<and> length out \<le> k"
    and commit_law: "inv s \<Longrightarrow> \<exists>t. kv_commit ops es s = Some t \<and> inv t"
    and commit_binds: "inv s \<Longrightarrow> distinct (map fst es) \<Longrightarrow> distinct (map snd es) \<Longrightarrow>
      fst ` set es \<subseteq> slots_held s \<Longrightarrow> \<forall>k \<in> snd ` set es. length k = 54 \<Longrightarrow>
      kv_commit ops es s = Some t \<Longrightarrow> slot_bound t = slot_bound s ++ map_of (map prod.swap es)"
    and lookup_law: "inv s \<Longrightarrow> \<exists>t. kv_lookup ops ks s = Some (map (slot_bound s) ks, t) \<and> inv t \<and>
      slot_bound t = slot_bound s \<and> slots_held t = slots_held s"
    and release_law: "inv s \<Longrightarrow> \<exists>t. kv_release ops ss s = Some t \<and> inv t \<and>
      slots_held t = slots_held s - set ss \<and>
      slot_bound t = (\<lambda>k. case slot_bound s k of
                            Some x \<Rightarrow> if x \<in> set ss then None else Some x | None \<Rightarrow> None)"
    and reset_law: "inv s \<Longrightarrow> inv (kv_reset ops s) \<and> slot_bound (kv_reset ops s) = Map.empty \<and>
      slots_held (kv_reset ops s) = {}"
begin

lemma serve_total:
  assumes "inv s" "distinct ord" "set ord = slots_held s"
  shows "\<exists>r t. serve_tcp ops (now, ord, clk) req s = Some (r, t) \<and> inv t"
proof (cases req)
  case (KvReserve k)
  with reserve_law [OF assms, of now clk k] show ?thesis by auto
next
  case (KvCommit es)
  with commit_law [OF assms(1), of es] show ?thesis by auto
next
  case (KvLookup ks)
  with lookup_law [OF assms(1), of ks] show ?thesis by auto
next
  case (KvRelease ss)
  with release_law [OF assms(1), of ss] show ?thesis by auto
qed (use assms reset_law in auto)

text \<open>A block stored under a reserved slot is found again, whatever else is stored with it.\<close>

lemma store_then_load:
  assumes inv: "inv s" and len: "length ks = length ss" and dist: "distinct ss" "distinct ks"
    and held: "set ss \<subseteq> slots_held s" and keys: "\<forall>k \<in> set ks. length k = 54"
  shows "\<exists>t u. serve_tcp ops env (KvCommit (zip ss ks)) s = Some (KvOk, t) \<and> inv t \<and>
    serve_tcp ops env' (KvLookup ks) t = Some (KvLooked (map Some ss), u)"
proof -
  obtain t where t: "kv_commit ops (zip ss ks) s = Some t" "inv t"
    using commit_law [OF inv] by blast
  have snd: "snd ` set (zip ss ks) = set ks" "fst ` set (zip ss ks) = set ss"
    using len by (metis list.set_map map_snd_zip) (metis len list.set_map map_fst_zip)
  have "slot_bound t = slot_bound s ++ map_of (map prod.swap (zip ss ks))"
    by (rule commit_binds [OF inv _ _ _ _ t(1)]) (use len dist held keys snd in auto)
  also have "map prod.swap (zip ss ks) = zip ks ss"
    by (rule nth_equalityI) (use len in auto)
  finally have "map (slot_bound t) ks = map Some ss"
    using len dist(2) by (auto simp: list_eq_iff_nth_eq map_of_zip_nth map_add_def)
  with lookup_law [OF t(2), of ks] t show ?thesis by auto
qed

end

text \<open>The engine adds the constructor: a fresh slab of a 32-bit slot count satisfies the invariant.\<close>

locale kv_engine_contract = kv_slab_contract ops inv slots_held slot_bound
  for ops :: "'s kv_slab" and inv slots_held slot_bound +
  fixes mk :: "nat \<Rightarrow> nat \<Rightarrow> nat \<Rightarrow> ('s, string) result"
  assumes mk_law: "mk slot_bytes slot_count ttl = Ok s \<Longrightarrow> slot_count < 2 ^ 32 \<Longrightarrow>
    inv s \<and> slots_held s = {} \<and> slot_bound s = Map.empty"
begin

lemma ensure_slab_inv:
  assumes "pred_option inv (ke_slab e)" "ensure_slab mk req e = Ok e1"
  shows "pred_option inv (ke_slab e1)"
  using assms mk_law
  by (auto simp: ensure_slab_def slab_slot_count_def split: kv_request.splits if_splits sum.splits)

lemma engine_total:
  assumes "pred_option inv (ke_slab e)" "distinct ord"
    "set ord = (case ke_slab e of None \<Rightarrow> {} | Some s \<Rightarrow> slots_held s)"
  shows "\<exists>r e'. engine_serve_tcp ops mk (now, ord, clk) req e = Some (r, e') \<and> pred_option inv (ke_slab e')"
proof (cases "ensure_slab mk req e")
  case (Inl msg)
  with assms show ?thesis by (simp add: engine_serve_tcp_def)
next
  case (Inr e1)
  show ?thesis
  proof (cases "ke_slab e1")
    case None
    with Inr show ?thesis by (simp add: engine_serve_tcp_def)
  next
    case (Some s)
    have "inv s" using ensure_slab_inv [OF assms(1) Inr] Some by simp
    moreover have "set ord = slots_held s"
      using Inr assms(3) Some mk_law
      by (auto simp: ensure_slab_def slab_slot_count_def split: kv_request.splits if_splits sum.splits)
    ultimately obtain r t where "serve_tcp ops (now, ord, clk) req s = Some (r, t)" "inv t"
      using serve_total assms(2) by blast
    with Inr Some show ?thesis by (simp add: engine_serve_tcp_def)
  qed
qed

end

subsubsection \<open>Both slabs satisfy the contract\<close>

lemma pool_release_bound:
  assumes "pool_inv p" "pool_inv q" "by_slot q = (\<lambda>s. if s \<in> set ss then None else by_slot p s)"
  shows "bound q = (\<lambda>k. case bound p k of
    Some x \<Rightarrow> if x \<in> set ss then None else Some x | None \<Rightarrow> None)"
proof
  fix k
  have iff: "by_hash q k = Some x \<longleftrightarrow> by_hash p k = Some x \<and> x \<notin> set ss" for x
    using inv_maps [OF assms(1), of k x] inv_maps [OF assms(2), of k x] assms(3) by simp
  have "by_hash q k = (case by_hash p k of
      Some x \<Rightarrow> if x \<in> set ss then None else Some x | None \<Rightarrow> None)"
  proof (cases "by_hash q k")
    case None
    with iff [of "the (by_hash p k)"] show ?thesis by (cases "by_hash p k") simp_all
  next
    case (Some y)
    with iff [of y] show ?thesis by simp
  qed
  then show "bound q k = (case bound p k of
      Some x \<Rightarrow> if x \<in> set ss then None else Some x | None \<Rightarrow> None)"
    by (simp add: bound_def)
qed

text \<open>A slab that keeps its slots in a pool and passes every method on to it.\<close>

locale pool_backed =
  fixes ops :: "'s kv_slab" and get :: "'s \<Rightarrow> slot_pool" and put :: "slot_pool \<Rightarrow> 's \<Rightarrow> 's"
  assumes get_put: "get (put p s) = p"
    and reserve_eq: "kv_reserve ops (now, ord, clk) k s =
      do { (out, p) \<leftarrow> reserve now ord clk k (get s); Some (out, put p s) }"
    and commit_eq: "kv_commit ops es s = do { p \<leftarrow> commit_bytes es (get s); Some (put p s) }"
    and lookup_eq: "kv_lookup ops ks s = do { (r, p) \<leftarrow> lookup_bytes ks (get s); Some (r, put p s) }"
    and release_eq: "kv_release ops ss s = do { p \<leftarrow> release_all ss (get s); Some (put p s) }"
    and reset_eq: "kv_reset ops s = put (clear (get s)) s"
begin

lemmas method_eqs = get_put reserve_eq commit_eq lookup_eq release_eq reset_eq

end

sublocale pool_backed \<subseteq> kv_slab_contract ops "\<lambda>s. pool_inv (get s)" "\<lambda>s. held (get s)" "\<lambda>s. bound (get s)"
proof unfold_locales
  fix s ord now clk k es t ks ss
  assume inv: "pool_inv (get s)"
  show "\<exists>out t. kv_reserve ops (now, ord, clk) k s = Some (out, t) \<and> pool_inv (get t) \<and>
      distinct out \<and> set out \<subseteq> held (get t) \<and> length out \<le> k"
    if "distinct ord" "set ord = held (get s)"
    using reserve_held [OF inv that, of now clk k] by (auto simp: method_eqs)
  show "\<exists>t. kv_commit ops es s = Some t \<and> pool_inv (get t)"
    using commit_bytes_total [OF inv, of es] by (auto simp: method_eqs)
  show "bound (get t) = bound (get s) ++ map_of (map prod.swap es)"
    if "distinct (map fst es)" "distinct (map snd es)" "fst ` set es \<subseteq> held (get s)"
      "\<forall>k \<in> snd ` set es. length k = 54" "kv_commit ops es s = Some t"
    using commit_bytes_binds [OF inv that(1-4)] that(5)
    by (auto simp: method_eqs split: Option.bind_splits)
  show "\<exists>t. kv_lookup ops ks s = Some (map (bound (get s)) ks, t) \<and> pool_inv (get t) \<and>
      bound (get t) = bound (get s) \<and> held (get t) = held (get s)"
    using lookup_bytes_spec [OF inv, of ks] by (auto simp: method_eqs bound_def held_def fun_eq_iff)
  show "\<exists>t. kv_release ops ss s = Some t \<and> pool_inv (get t) \<and> held (get t) = held (get s) - set ss \<and>
      bound (get t) = (\<lambda>k. case bound (get s) k of
        Some x \<Rightarrow> if x \<in> set ss then None else Some x | None \<Rightarrow> None)"
    using release_all_spec [OF inv, of ss] pool_release_bound [OF inv]
    by (auto simp: method_eqs held_def split: if_splits)
  show "pool_inv (get (kv_reset ops s)) \<and> bound (get (kv_reset ops s)) = Map.empty \<and>
      held (get (kv_reset ops s)) = {}"
    using clear_spec [OF inv] by (simp add: method_eqs)
qed

interpretation host: pool_backed host_slab_ops hs_slots "\<lambda>p s. s\<lparr>hs_slots := p\<rparr>"
  by unfold_locales
    (simp_all add: host_slab_ops_def host_reserve_def host_commit_def host_lookup_def
      host_release_def host_reset_def)

interpretation rdma: pool_backed rdma_slab_ops rs_slots "\<lambda>p s. s\<lparr>rs_slots := p\<rparr>"
  by unfold_locales
    (simp_all add: rdma_slab_ops_def rdma_reserve_def rdma_commit_def rdma_lookup_def
      rdma_release_def rdma_reset_def)

interpretation host_eng: kv_engine_contract host_slab_ops "\<lambda>s. pool_inv (hs_slots s)"
  "\<lambda>s. held (hs_slots s)" "\<lambda>s. bound (hs_slots s)" "host_slab_new shm_create pid sq"
  for shm_create pid sq
proof unfold_locales
  fix slot_bytes slot_count ttl s
  assume "host_slab_new shm_create pid sq slot_bytes slot_count ttl = Ok s" "slot_count < 2 ^ 32"
  then show "pool_inv (hs_slots s) \<and> held (hs_slots s) = {} \<and> bound (hs_slots s) = Map.empty"
    using new_spec [of slot_count ttl]
    by (auto simp: host_slab_new_def Let_def NIL_def split: option.splits)
qed

interpretation rdma_eng: kv_engine_contract rdma_slab_ops "\<lambda>s. pool_inv (rs_slots s)"
  "\<lambda>s. held (rs_slots s)" "\<lambda>s. bound (rs_slots s)" "rdma_slab_new buffers_new"
  for buffers_new
proof unfold_locales
  fix slot_bytes slot_count ttl s
  assume "rdma_slab_new buffers_new slot_bytes slot_count ttl = Ok s" "slot_count < 2 ^ 32"
  then show "pool_inv (rs_slots s) \<and> held (rs_slots s) = {} \<and> bound (rs_slots s) = Map.empty"
    using new_spec [of slot_count ttl]
    by (auto simp: rdma_slab_new_def NIL_def and_then_eq_Ok)
qed

subsection \<open>The table of attached clients\<close>

definition backend_wf :: "kv_backend \<Rightarrow> bool" where
  "backend_wf b \<longleftrightarrow> distinct (map fst (kb_peers b)) \<and> length (kb_peers b) \<le> kb_cap b"

lemma length_update:
  "length (AList.update k v xs) = (if map_of xs k = None then Suc (length xs) else length xs)"
  by (induction xs) auto

lemma backend_attach_wf:
  assumes "backend_wf b" "backend_attach cid ep epoch b = Ok b'"
  shows "backend_wf b' \<and> kb_cap b' = kb_cap b"
  using assms
  by (auto simp: backend_wf_def backend_attach_def Let_def length_update distinct_update
      split: option.splits if_splits)

lemma attach_endpoints_wf:
  "backend_wf (re_backend e) \<Longrightarrow> backend_wf (re_backend (snd (attach_endpoints client epoch eps e))) \<and>
     kb_cap (re_backend (snd (attach_endpoints client epoch eps e))) = kb_cap (re_backend e)"
  by (induction client epoch eps e rule: attach_endpoints.induct)
    (auto split: sum.splits dest: backend_attach_wf)

subsection \<open>Properties\<close>

text \<open>
  C18: no request crashes the key-value engine. On an engine whose slab, if any, is a
  well-formed shared-memory slab, every request (attach, reserve, commit, lookup, release,
  reset, with any arguments) returns a response and leaves the engine well-formed.
\<close>

theorem kv_engine_never_panics:
  assumes "pred_option (\<lambda>s. pool_inv (hs_slots s)) (ke_slab e)" "distinct ord"
    "set ord = (case ke_slab e of None \<Rightarrow> {} | Some s \<Rightarrow> held (hs_slots s))"
  shows "\<exists>r e'. engine_serve_tcp host_slab_ops (host_slab_new shm_create pid sq) (now, ord, clk) req e
      = Some (r, e') \<and> pred_option (\<lambda>s. pool_inv (hs_slots s)) (ke_slab e')"
  by (rule host_eng.engine_total [OF assms])

theorem kv_engine_never_panics_witness:
  "\<exists>r e'. engine_serve_tcp host_slab_ops (host_slab_new (\<lambda>_ _. None) 1 0) (5, [], \<lambda>_. 5)
      (KvAttach 4096) (engine_new_tcp 65536 60) = Some (r, e') \<and>
      pred_option (\<lambda>s. pool_inv (hs_slots s)) (ke_slab e')"
  by (rule kv_engine_never_panics) (simp_all add: engine_new_tcp_def)

text \<open>
  C14: what a client stores it can load. When a batch of distinct keys of 54 bytes is
  committed to distinct slots the client holds, the request succeeds, and the lookup of the
  batch that follows reports exactly these slots.
\<close>

theorem kv_store_then_load:
  assumes "pool_inv (hs_slots s)" "length ks = length ss" "distinct ss" "distinct ks"
    "set ss \<subseteq> held (hs_slots s)" "\<forall>k \<in> set ks. length k = 54"
  shows "\<exists>t u. serve_tcp host_slab_ops env (KvCommit (zip ss ks)) s = Some (KvOk, t) \<and>
    serve_tcp host_slab_ops env' (KvLookup ks) t = Some (KvLooked (map Some ss), u)"
  using host.store_then_load [OF assms] by blast

definition example_slab :: host_slab where
  "example_slab = \<lparr>hs_slots = snd (the (reserve 5 [] (\<lambda>_. 5) 1 (pool_new 2 60))), hs_name = [],
     hs_slot_bytes = 64, hs_slot_count = 2\<rparr>"

theorem kv_store_then_load_witness:
  "\<exists>t u. serve_tcp host_slab_ops (0, [], \<lambda>_. 0) (KvCommit (zip [0] [replicate 54 7])) example_slab
        = Some (KvOk, t) \<and>
      serve_tcp host_slab_ops (0, [], \<lambda>_. 0) (KvLookup [replicate 54 7]) t
        = Some (KvLooked (map Some [0]), u)"
  by (rule kv_store_then_load)
    (use reach_inv [OF reach_reserved_example] in
      \<open>simp_all add: example_slab_def NIL_def held_def pool_new_def reserve_def pop_or_evict_def upt_rec\<close>)

text \<open>
  C39: the table of attached RDMA clients never outgrows its capacity and has one entry per
  (client, runtime) pair, whatever endpoints attach, with a successful or a refused attach.
\<close>

theorem rdma_clients_bounded:
  assumes "backend_wf (re_backend e)" "rdma_attach buffers_new client eps epoch slot_bytes e = (r, e')"
  shows "length (kb_peers (re_backend e')) \<le> kb_cap (re_backend e) \<and>
    distinct (map fst (kb_peers (re_backend e')))"
proof -
  have "re_backend e' = re_backend (snd (attach_endpoints client epoch eps e))"
    using assms(2) by (auto simp: rdma_attach_def Let_def split: prod.splits sum.splits if_splits)
  with attach_endpoints_wf [OF assms(1), of client epoch eps] show ?thesis
    by (simp add: backend_wf_def)
qed

definition example_endpoint :: local_rdma_endpoint where
  "example_endpoint = \<lparr>le_runtime_id = 1, le_dct_num = 2, le_gid = replicate 16 0, le_dc_key = 3,
     le_lid = 4, le_kv_slab = None\<rparr>"

definition example_rdma_engine :: rdma_engine where
  "example_rdma_engine = \<lparr>ke_slab = None, ke_capacity_bytes = 65536, ke_reserve_ttl = 60,
     ke_host_backed = False, re_backend = backend_new 1, re_registry = [], re_notified = []\<rparr>"

theorem rdma_clients_bounded_witness:
  "length (kb_peers (re_backend (snd (rdma_attach (\<lambda>_ _. Err []) 7 [example_endpoint] 0 0
      example_rdma_engine)))) \<le> 1"
  using rdma_clients_bounded [of example_rdma_engine "\<lambda>_ _. Err []" 7 "[example_endpoint]" 0 0]
  by (simp add: backend_wf_def example_rdma_engine_def backend_new_def rdma_attach_def
      backend_attach_def example_endpoint_def)

end
