(* ===== verification/Io_Types.thy ===== *)
theory Io_Types
  imports Prelude
begin

text \<open>
  The data that crosses the storage boundary: the error types of the two lower layers
  (\<^verbatim>\<open>crates/openlake_io/src/error.rs\<close>, \<^verbatim>\<open>crates/openlake_storage/src/error.rs\<close>), the record of
  one object version on one drive and its parts, the bucket record with its framed encoding,
  and the small option types of the storage trait (\<^verbatim>\<open>crates/openlake_io/src/types.rs\<close>).

  MessagePack and CRC-32C are external: the codec of the bucket record takes them as
  arguments.
\<close>

subsection \<open>Errors\<close>

datatype io_kind =
    NotFound | AlreadyExists | ConnectionRefused | TimedOut | InvalidData | InvalidInput
  | UnexpectedEof | WriteZero | OtherKind

datatype io_error =
    VolumeNotFound string
  | VolumeExists string
  | VolumeNotEmpty string
  | FileNotFound string string
  | FileAlreadyExists string string
  | FileVersionNotFound string string string
  | CorruptMetadata string string string
  | UnsupportedMetadataVersion nat nat
  | BitrotCheckFailed string string
  | InvalidArgument string
  | Unsupported string
  | Encode string
  | Decode string
  | Io io_kind string

fun show_io_error :: "io_error \<Rightarrow> string" where
  "show_io_error (VolumeNotFound v) = ''volume not found: '' @ v"
| "show_io_error (VolumeExists v) = ''volume already exists: '' @ v"
| "show_io_error (VolumeNotEmpty v) = ''volume not empty: '' @ v"
| "show_io_error (FileNotFound v p) = ''file not found: '' @ v @ ''/'' @ p"
| "show_io_error (FileAlreadyExists v p) = ''file already exists: '' @ v @ ''/'' @ p"
| "show_io_error (FileVersionNotFound v p i) = ''file version not found: '' @ v @ ''/'' @ p @ ''@'' @ i"
| "show_io_error (CorruptMetadata v p m) = ''corrupt xl.meta at '' @ v @ ''/'' @ p @ '': '' @ m"
| "show_io_error (UnsupportedMetadataVersion f m) =
     ''unsupported xl.meta version '' @ show_nat f @ '' (max '' @ show_nat m @ '')''"
| "show_io_error (BitrotCheckFailed v p) = ''bitrot check failed at '' @ v @ ''/'' @ p"
| "show_io_error (InvalidArgument s) = ''invalid argument: '' @ s"
| "show_io_error (Unsupported s) = ''unsupported operation: '' @ s"
| "show_io_error (Encode s) = ''encode: '' @ s"
| "show_io_error (Decode s) = ''decode: '' @ s"
| "show_io_error (Io k msg) = ''io: '' @ msg"

datatype storage_error =
    BucketNotFound string
  | BucketAlreadyExists string
  | BucketNotEmpty string
  | ObjectNotFound string string
  | VersionNotFound string string string
  | InvalidBucketName string
  | InvalidObjectKey string
  | LockTimeout string
  | LockLost string
  | InconsistentMeta string string string
  | InsufficientOnlineDrives string string string
  | SIo io_error

subsection \<open>Object versions\<close>

record checksum_info =
  ci_part_number :: int
  ci_algorithm :: string
  ci_hash :: "byte list"

record erasure_info =
  ei_algorithm :: string
  ei_data_blocks :: nat
  ei_parity_blocks :: nat
  ei_block_size :: nat
  ei_index :: nat
  ei_distribution :: "nat list"
  ei_checksums :: "checksum_info list"

record object_part_info =
  op_etag :: string
  op_number :: int
  op_size :: int
  op_actual_size :: int
  op_mod_time_ms :: nat
  op_index :: "byte list"
  op_checksums :: "(string \<times> string) list"

text \<open>
  Maps with ordered keys are association lists in key order. The inline payload is a rope, a
  list of byte spans.
\<close>

record file_info =
  fi_volume :: string
  fi_name :: string
  fi_version_id :: string
  fi_is_latest :: bool
  fi_deleted :: bool
  fi_data_dir :: string
  fi_xl_v1 :: bool
  fi_mod_time_ms :: nat
  fi_size :: int
  fi_mode :: nat
  fi_written_by_version :: nat
  fi_metadata :: "(string \<times> string) list"
  fi_meta_sys :: "(string \<times> byte list) list"
  fi_parts :: "object_part_info list"
  fi_erasure :: erasure_info
  fi_data :: "byte list list option"
  fi_num_versions :: int
  fi_fresh :: bool
  fi_idx :: int
  fi_checksum :: "byte list"
  fi_versioned :: bool

datatype version_type = VtObject | VtDeleteMarker

definition erasure_default :: erasure_info where
  "erasure_default = \<lparr>ei_algorithm = [], ei_data_blocks = 0, ei_parity_blocks = 0, ei_block_size = 0,
     ei_index = 0, ei_distribution = [], ei_checksums = []\<rparr>"

definition file_info_default :: file_info where
  "file_info_default = \<lparr>fi_volume = [], fi_name = [], fi_version_id = [], fi_is_latest = False,
     fi_deleted = False, fi_data_dir = [], fi_xl_v1 = False, fi_mod_time_ms = 0, fi_size = 0,
     fi_mode = 0, fi_written_by_version = 0, fi_metadata = [], fi_meta_sys = [], fi_parts = [],
     fi_erasure = erasure_default, fi_data = None, fi_num_versions = 0, fi_fresh = False,
     fi_idx = 0, fi_checksum = [], fi_versioned = False\<rparr>"

subsection \<open>Buckets\<close>

datatype versioning_status = Unversioned | Enabled | Suspended

definition NULL_VERSION_ID :: string where
  "NULL_VERSION_ID = ''null''"

record bucket_meta =
  bm_created_ms :: nat
  bm_versioning_status :: versioning_status
  bm_versioning_updated_ms :: nat
  bm_object_lock_enabled :: bool

definition bucket_meta_new :: "nat \<Rightarrow> bool \<Rightarrow> bucket_meta" where
  "bucket_meta_new created_ms object_lock_enabled =
     \<lparr>bm_created_ms = created_ms,
      bm_versioning_status = (if object_lock_enabled then Enabled else Unversioned),
      bm_versioning_updated_ms = created_ms,
      bm_object_lock_enabled = object_lock_enabled\<rparr>"

text \<open>\<open>fresh\<close> is the random identifier drawn by the call.\<close>

definition next_version_id :: "string \<Rightarrow> bucket_meta \<Rightarrow> string" where
  "next_version_id fresh m =
     (case bm_versioning_status m of
        Enabled \<Rightarrow> fresh
      | Unversioned \<Rightarrow> NULL_VERSION_ID
      | Suspended \<Rightarrow> NULL_VERSION_ID)"

definition BUCKET_META_MAGIC :: "byte list" where
  "BUCKET_META_MAGIC = [80, 66, 75, 77]"

definition BUCKET_META_HEADER_BYTES :: nat where
  "BUCKET_META_HEADER_BYTES = 4 + 2 + 2 + 4"

definition BUCKET_META_TRAILER_BYTES :: nat where
  "BUCKET_META_TRAILER_BYTES = 4"

definition bucket_meta_encode :: "(bucket_meta \<Rightarrow> (byte list, string) result) \<Rightarrow> (byte list \<Rightarrow> 32 word)
    \<Rightarrow> bucket_meta \<Rightarrow> (byte list, io_error) result" where
  "bucket_meta_encode to_vec crc32c m =
     and_then (map_err Encode (to_vec m)) (\<lambda>body.
       let out = BUCKET_META_MAGIC @ le_bytes 2 1 @ le_bytes 2 1
                   @ le_bytes 4 (length body mod 2 ^ 32) @ body in
       Ok (out @ le_bytes 4 (unat (crc32c out))))"

definition show_crc :: "32 word \<Rightarrow> string" where
  "show_crc c = ''0x'' @ hex_digits 8 (unat c)"

definition bucket_meta_decode :: "(byte list \<Rightarrow> (bucket_meta, string) result) \<Rightarrow> (byte list \<Rightarrow> 32 word)
    \<Rightarrow> byte list \<Rightarrow> (bucket_meta, io_error) result" where
  "bucket_meta_decode from_slice crc32c bytes =
     (if length bytes < BUCKET_META_HEADER_BYTES + BUCKET_META_TRAILER_BYTES
      then Err (Decode (''bucket meta too short ('' @ show_nat (length bytes) @ '' bytes)''))
      else if take 4 bytes \<noteq> BUCKET_META_MAGIC then Err (Decode ''bucket meta bad magic'')
      else let format_v = of_le [bytes ! 4, bytes ! 5] in
      if format_v \<noteq> 1
      then Err (Decode (''bucket meta unknown format_version '' @ show_nat format_v))
      else let schema_v = of_le [bytes ! 6, bytes ! 7] in
      if schema_v \<noteq> 1
      then Err (Decode (''bucket meta unknown schema_version '' @ show_nat schema_v))
      else let body_len = of_le [bytes ! 8, bytes ! 9, bytes ! 10, bytes ! 11];
               expected = BUCKET_META_HEADER_BYTES + body_len + BUCKET_META_TRAILER_BYTES in
      if length bytes \<noteq> expected
      then Err (Decode (''bucket meta size mismatch (got '' @ show_nat (length bytes)
                          @ '', expected '' @ show_nat expected @ '')''))
      else let h = BUCKET_META_HEADER_BYTES + body_len;
               crc_recorded = word_of_nat (of_le [bytes ! h, bytes ! (h + 1), bytes ! (h + 2), bytes ! (h + 3)]);
               crc_computed = crc32c (take h bytes) in
      if crc_recorded \<noteq> crc_computed
      then Err (Decode (''bucket meta crc mismatch (recorded '' @ show_crc crc_recorded
                          @ '', computed '' @ show_crc crc_computed @ '')''))
      else map_err Decode (from_slice (take body_len (drop BUCKET_META_HEADER_BYTES bytes))))"

subsection \<open>Options and results of the storage trait\<close>

record delete_options =
  do_force_del_marker :: bool
  do_undo_write :: bool

record rename_data_resp =
  rd_sign :: "byte list"
  rd_old_data_dir :: string

record disk_info =
  di_total :: nat
  di_used :: nat
  di_free :: nat
  di_endpoint :: string
  di_mount_path :: string
  di_id :: string

datatype bitrot_algorithm = BitrotNone | Blake3 | HighwayHash256

record format_json =
  fj_version :: nat
  fj_format :: string
  fj_id :: "128 word"
  fj_set_drive_count :: nat
  fj_this_disk :: nat

subsection \<open>The frame of the bucket record\<close>

text \<open>The bytes that \<open>encode\<close> writes around a body.\<close>

definition bucket_frame :: "(byte list \<Rightarrow> 32 word) \<Rightarrow> byte list \<Rightarrow> byte list" where
  "bucket_frame crc32c body =
     (let out = BUCKET_META_MAGIC @ le_bytes 2 1 @ le_bytes 2 1 @ le_bytes 4 (length body) @ body in
      out @ le_bytes 4 (unat (crc32c out)))"

lemma length_bucket_frame: "length (bucket_frame crc body) = 16 + length body"
  by (simp add: bucket_frame_def BUCKET_META_MAGIC_def Let_def)

lemma two_at: "i + 2 \<le> length xs \<Longrightarrow> [xs ! i, xs ! (i + 1)] = take 2 (drop i xs)"
  by (rule nth_equalityI) (auto simp: less_Suc_eq numeral_2_eq_2)

lemma four_at:
  "i + 4 \<le> length xs \<Longrightarrow> [xs ! i, xs ! (i + 1), xs ! (i + 2), xs ! (i + 3)] = take 4 (drop i xs)"
  by (rule nth_equalityI) (auto simp: less_Suc_eq numeral_eq_Suc)

text \<open>The decoder accepts exactly the framed bodies, and reads the body back.\<close>

lemma decode_Ok_iff:
  "bucket_meta_decode from_slice crc bytes = Ok m \<longleftrightarrow>
     (let n = of_le (take 4 (drop 8 bytes)) in
      length bytes = 16 + n \<and> take 4 bytes = BUCKET_META_MAGIC \<and>
      of_le (take 2 (drop 4 bytes)) = 1 \<and> of_le (take 2 (drop 6 bytes)) = 1 \<and>
      word_of_nat (of_le (take 4 (drop (12 + n) bytes))) = crc (take (12 + n) bytes) \<and>
      from_slice (take n (drop 12 bytes)) = Ok m)"
proof (cases "16 \<le> length bytes")
  case True
  obtain n where n: "of_le (take 4 (drop 8 bytes)) = n" by simp
  have at: "[bytes ! 4, bytes ! 5] = take 2 (drop 4 bytes)" "[bytes ! 6, bytes ! 7] = take 2 (drop 6 bytes)"
    "[bytes ! 8, bytes ! 9, bytes ! 10, bytes ! 11] = take 4 (drop 8 bytes)"
    using two_at [of 4 bytes] two_at [of 6 bytes] four_at [of 8 bytes] True by simp_all
  have crc: "[bytes ! (12 + n), bytes ! (12 + n + 1), bytes ! (12 + n + 2), bytes ! (12 + n + 3)]
      = take 4 (drop (12 + n) bytes)" if "length bytes = 16 + n"
    by (rule four_at) (simp add: that)
  have h: "4 + 2 + 2 + 4 = (12::nat)" "12 + n + 4 = 16 + n" "\<not> length bytes < 12 + 4"
    using True by simp_all
  show ?thesis
    unfolding bucket_meta_decode_def Let_def at BUCKET_META_HEADER_BYTES_def
      BUCKET_META_TRAILER_BYTES_def if_Err_eq_Ok map_err_eq_Ok n h not_not
    using crc h(3) by metis
next
  case False
  then show ?thesis
    by (simp add: bucket_meta_decode_def BUCKET_META_HEADER_BYTES_def BUCKET_META_TRAILER_BYTES_def
        Let_def)
qed

lemma decode_is_frame:
  assumes "bucket_meta_decode from_slice crc bytes = Ok m"
  shows "\<exists>body. bytes = bucket_frame crc body \<and> length body < 2 ^ 32 \<and> from_slice body = Ok m"
proof -
  obtain n where n: "of_le (take 4 (drop 8 bytes)) = n" by simp
  have c: "length bytes = 16 + n" "take 4 bytes = BUCKET_META_MAGIC"
    "of_le (take 2 (drop 4 bytes)) = 1" "of_le (take 2 (drop 6 bytes)) = 1"
    "word_of_nat (of_le (take 4 (drop (12 + n) bytes))) = crc (take (12 + n) bytes)"
    "from_slice (take n (drop 12 bytes)) = Ok m"
    using assms unfolding decode_Ok_iff Let_def n by blast+
  have n32: "n < 2 ^ 32" using of_le_lt [of "take 4 (drop 8 bytes)"] c(1) n by simp
  have f: "take 2 (drop 4 bytes) = le_bytes 2 1" "take 2 (drop 6 bytes) = le_bytes 2 1"
    "take 4 (drop 8 bytes) = le_bytes 4 n"
    using le_bytes_of_le [of "take 2 (drop 4 bytes)" 2] le_bytes_of_le [of "take 2 (drop 6 bytes)" 2]
      le_bytes_of_le [of "take 4 (drop 8 bytes)" 4]
    by (simp_all add: c(1,3,4) n)
  have split: "take (12 + n) bytes = take 4 bytes @ take 2 (drop 4 bytes) @ take 2 (drop 6 bytes)
      @ take 4 (drop 8 bytes) @ take n (drop 12 bytes)"
    using take_add [of 4 "8 + n" bytes] take_add [of 2 "6 + n" "drop 4 bytes"]
      take_add [of 2 "4 + n" "drop 6 bytes"] take_add [of 4 n "drop 8 bytes"] by simp
  have len: "length (take n (drop 12 bytes)) = n" using c(1) by simp
  have out: "BUCKET_META_MAGIC @ le_bytes 2 1 @ le_bytes 2 1 @ le_bytes 4 n @ take n (drop 12 bytes)
      = take (12 + n) bytes"
    by (simp only: split c(2) f)
  have "of_le (drop (12 + n) bytes) = unat (crc (take (12 + n) bytes))"
    using of_le_lt [of "drop (12 + n) bytes"] c(1,5)
    by (simp add: unat_of_nat take_bit_nat_eq_self flip: c(5))
  then have "drop (12 + n) bytes = le_bytes 4 (unat (crc (take (12 + n) bytes)))"
    using le_bytes_of_le [of "drop (12 + n) bytes" 4] c(1) by simp
  then have "bytes = bucket_frame crc (take n (drop 12 bytes))"
    unfolding bucket_frame_def Let_def len out by (metis append_take_drop_id)
  then show ?thesis using len n32 c(6) by metis
qed

lemma frame_decodes:
  assumes "length body < 2 ^ 32"
  shows "bucket_meta_decode from_slice crc (bucket_frame crc body) = map_err Decode (from_slice body)"
proof -
  define out where "out = BUCKET_META_MAGIC @ le_bytes 2 1 @ le_bytes 2 1 @ le_bytes 4 (length body) @ body"
  obtain bytes where bytes: "bucket_frame crc body = bytes" by simp
  then have b: "bytes = out @ le_bytes 4 (unat (crc out))"
    by (simp add: bucket_frame_def out_def Let_def)
  have m: "length BUCKET_META_MAGIC = 4" by (simp add: BUCKET_META_MAGIC_def)
  have len: "length out = 12 + length body" "length bytes = 16 + length body"
    using m by (simp_all add: b) (simp_all add: out_def)
  have parts: "take 4 bytes = BUCKET_META_MAGIC" "take 2 (drop 4 bytes) = le_bytes 2 1"
    "take 2 (drop 6 bytes) = le_bytes 2 1" "take 4 (drop 8 bytes) = le_bytes 4 (length body)"
    "take (length body) (drop 12 bytes) = body"
    by (simp_all add: b out_def m)
  have crc: "take (12 + length body) bytes = out"
    "take 4 (drop (12 + length body) bytes) = le_bytes 4 (unat (crc out))"
    using len by (simp_all add: b)
  have at: "[bytes ! 4, bytes ! 5] = le_bytes 2 1" "[bytes ! 6, bytes ! 7] = le_bytes 2 1"
    "[bytes ! 8, bytes ! 9, bytes ! 10, bytes ! 11] = le_bytes 4 (length body)"
    using two_at [of 4 bytes] two_at [of 6 bytes] four_at [of 8 bytes] len parts by simp_all
  have at4: "[bytes ! (12 + length body), bytes ! (12 + length body + 1), bytes ! (12 + length body + 2),
      bytes ! (12 + length body + 3)] = le_bytes 4 (unat (crc out))"
    using four_at [of "12 + length body" bytes] len crc(2) by simp
  have "unat (crc out) < 2 ^ 32" using unsigned_less [where 'a = nat, of "crc out"] by simp
  then have le: "of_le (le_bytes 2 1) = 1" "of_le (le_bytes 4 (length body)) = length body"
    "word_of_nat (of_le (le_bytes 4 (unat (crc out)))) = crc out"
    using assms by simp_all
  have h: "4 + 2 + 2 + 4 = (12::nat)" by simp
  show ?thesis
    unfolding bytes bucket_meta_decode_def Let_def BUCKET_META_HEADER_BYTES_def
      BUCKET_META_TRAILER_BYTES_def h at le at4 crc parts len(2)
    by simp
qed

text \<open>
  The bucket record survives encoding, and nothing else is accepted. A byte string decodes to
  a record exactly when it is the frame (magic, format and schema versions, 32-bit length,
  body, checksum of all of that) of a body that MessagePack decodes to the record; and what
  \<open>encode\<close> writes decodes to the record, given that MessagePack reads back what it writes.
  Truncated, extended, re-versioned and checksum-violating bytes are all errors.
\<close>

theorem bucket_meta_codec:
  assumes "\<And>m body. to_vec m = Ok body \<Longrightarrow> from_slice body = Ok m"
    and "\<And>m body. to_vec m = Ok body \<Longrightarrow> length body < 2 ^ 32"
  shows "(bucket_meta_decode from_slice crc bytes = Ok m \<longleftrightarrow>
      (\<exists>body. bytes = bucket_frame crc body \<and> length body < 2 ^ 32 \<and> from_slice body = Ok m)) \<and>
    (bucket_meta_encode to_vec crc m = Ok enc \<longrightarrow> bucket_meta_decode from_slice crc enc = Ok m)"
proof (intro conjI iffI impI)
  assume "\<exists>body. bytes = bucket_frame crc body \<and> length body < 2 ^ 32 \<and> from_slice body = Ok m"
  then obtain body where "bytes = bucket_frame crc body" "length body < 2 ^ 32" "from_slice body = Ok m"
    by blast
  with frame_decodes [of body from_slice crc] show "bucket_meta_decode from_slice crc bytes = Ok m" by simp
next
  assume "bucket_meta_encode to_vec crc m = Ok enc"
  then obtain body where body: "to_vec m = Ok body" "enc = bucket_frame crc body"
    using assms(2)
    by (auto simp: bucket_meta_encode_def bucket_frame_def Let_def and_then_eq_Ok map_err_eq_Ok)
  with frame_decodes [OF assms(2) [OF body(1)], of from_slice crc] assms(1) [OF body(1)]
  show "bucket_meta_decode from_slice crc enc = Ok m" by simp
qed (rule decode_is_frame)

text \<open>A small concrete body format for the witness: one byte per field.\<close>

definition tiny_to_vec :: "bucket_meta \<Rightarrow> (byte list, string) result" where
  "tiny_to_vec m = (if m = bucket_meta_new 7 True then Ok [1] else Err ''unsupported'')"

definition tiny_from_slice :: "byte list \<Rightarrow> (bucket_meta, string) result" where
  "tiny_from_slice bs = (if bs = [1] then Ok (bucket_meta_new 7 True) else Err ''bad body'')"

theorem bucket_meta_codec_witness:
  "bucket_meta_encode tiny_to_vec (\<lambda>bs. word_of_nat (length bs)) (bucket_meta_new 7 True)
     = Ok (bucket_frame (\<lambda>bs. word_of_nat (length bs)) [1]) \<and>
   bucket_meta_decode tiny_from_slice (\<lambda>bs. word_of_nat (length bs))
     (bucket_frame (\<lambda>bs. word_of_nat (length bs)) [1]) = Ok (bucket_meta_new 7 True)"
proof -
  have enc: "bucket_meta_encode tiny_to_vec (\<lambda>bs. word_of_nat (length bs)) (bucket_meta_new 7 True)
     = Ok (bucket_frame (\<lambda>bs. word_of_nat (length bs)) [1])"
    by (simp add: bucket_meta_encode_def tiny_to_vec_def bucket_frame_def Let_def)
  have "bucket_meta_decode tiny_from_slice (\<lambda>bs. word_of_nat (length bs))
      (bucket_frame (\<lambda>bs. word_of_nat (length bs)) [1]) = Ok (bucket_meta_new 7 True)"
    by (rule bucket_meta_codec [THEN conjunct2, THEN mp, OF _ _ enc])
      (auto simp: tiny_to_vec_def tiny_from_slice_def split: if_splits)
  with enc show ?thesis by simp
qed

end
