(* ===== verification/Lock_Plane.thy ===== *)
theory Lock_Plane
  imports Io_Types
begin

text \<open>
  The distributed lock: the per-node lock server (\<^verbatim>\<open>crates/openlake_server/src/lock_server.rs\<close>)
  and the voting client (\<^verbatim>\<open>crates/openlake_storage/src/dsync.rs\<close>).

  A server is a map from resources to the identifier that holds it and the time of the last
  refresh. Peers are reached through the \<open>LockPeer\<close> trait, here a record of methods; the client
  and the network are written against it. Every call takes the clock reading of the serving
  node. A link to a peer may be up, down, or lose the reply.

  The locale \<open>lock_peer_contract\<close> states what the client relies on (a peer has one holder per
  resource, until a known expiry). Its consequences are the exclusion results; it is
  interpreted on the lock server.
\<close>

subsection \<open>The lock server\<close>

record lock_entry =
  le_uid :: string
  le_last_refresh :: nat

record lock_server =
  ls_locks :: "string \<Rightarrow> lock_entry option"
  ls_validity :: nat

definition DEFAULT_VALIDITY :: nat where
  "DEFAULT_VALIDITY = 60000"

definition with_validity :: "nat \<Rightarrow> lock_server" where
  "with_validity v = \<lparr>ls_locks = Map.empty, ls_validity = v\<rparr>"

definition lock_server_new :: lock_server where
  "lock_server_new = with_validity DEFAULT_VALIDITY"

text \<open>\<open>saturating_duration_since\<close> is the truncating subtraction of natural numbers.\<close>

definition entry_live :: "nat \<Rightarrow> nat \<Rightarrow> lock_entry \<Rightarrow> bool" where
  "entry_live v now e \<longleftrightarrow> now - le_last_refresh e < v"

definition ls_acquire :: "nat \<Rightarrow> string \<Rightarrow> string \<Rightarrow> nat \<Rightarrow> lock_server \<Rightarrow> bool \<times> lock_server" where
  "ls_acquire now resource uid ttl_ms s =
     (let grant = (True, s\<lparr>ls_locks := (ls_locks s)(resource \<mapsto> \<lparr>le_uid = uid, le_last_refresh = now\<rparr>)\<rparr>) in
      case ls_locks s resource of
        Some e \<Rightarrow> if entry_live (ls_validity s) now e then (False, s) else grant
      | None \<Rightarrow> grant)"

definition ls_refresh :: "nat \<Rightarrow> string \<Rightarrow> string \<Rightarrow> lock_server \<Rightarrow> bool \<times> lock_server" where
  "ls_refresh now resource uid s =
     (case ls_locks s resource of
        Some e \<Rightarrow>
          if le_uid e = uid
          then (True, s\<lparr>ls_locks := (ls_locks s)(resource \<mapsto> e\<lparr>le_last_refresh := now\<rparr>)\<rparr>)
          else (False, s)
      | None \<Rightarrow> (False, s))"

definition ls_release :: "string \<Rightarrow> string \<Rightarrow> lock_server \<Rightarrow> lock_server" where
  "ls_release resource uid s =
     (case ls_locks s resource of
        Some e \<Rightarrow> if le_uid e = uid then s\<lparr>ls_locks := (ls_locks s)(resource := None)\<rparr> else s
      | None \<Rightarrow> s)"

definition ls_expire_old :: "nat \<Rightarrow> lock_server \<Rightarrow> nat \<times> lock_server" where
  "ls_expire_old now s =
     (let kept = (\<lambda>r. case ls_locks s r of
                        Some e \<Rightarrow> if entry_live (ls_validity s) now e then Some e else None
                      | None \<Rightarrow> None) in
      (card (dom (ls_locks s)) - card (dom kept), s\<lparr>ls_locks := kept\<rparr>))"

subsection \<open>Peers and the network\<close>

record 's lock_peer =
  lp_acquire :: "nat \<Rightarrow> string \<Rightarrow> string \<Rightarrow> nat \<Rightarrow> 's \<Rightarrow> bool \<times> 's"
  lp_release :: "string \<Rightarrow> string \<Rightarrow> 's \<Rightarrow> 's"
  lp_refresh :: "nat \<Rightarrow> string \<Rightarrow> string \<Rightarrow> 's \<Rightarrow> bool \<times> 's"
  lp_sweep :: "nat \<Rightarrow> 's \<Rightarrow> 's"

definition local_lock_peer :: "lock_server lock_peer" where
  "local_lock_peer =
     \<lparr>lp_acquire = ls_acquire, lp_release = ls_release, lp_refresh = ls_refresh,
      lp_sweep = (\<lambda>now s. snd (ls_expire_old now s))\<rparr>"

datatype link = Up | Down | ReplyLost

text \<open>
  A message as a peer receives it, with the peer's index and clock: any interleaving of the
  traffic of any number of clients and of the sweepers is a list of these.
\<close>

datatype lock_msg =
    AcquireMsg string string
  | RefreshMsg string string
  | ReleaseMsg string string
  | SweepMsg

type_synonym delivery = "nat \<times> nat \<times> lock_msg"

fun receive :: "'s lock_peer \<Rightarrow> nat \<Rightarrow> nat \<Rightarrow> lock_msg \<Rightarrow> 's \<Rightarrow> bool \<times> 's" where
  "receive ops lease t (AcquireMsg r u) s = lp_acquire ops t r u lease s"
| "receive ops lease t (RefreshMsg r u) s = lp_refresh ops t r u s"
| "receive ops lease t (ReleaseMsg r u) s = (True, lp_release ops r u s)"
| "receive ops lease t SweepMsg s = (True, lp_sweep ops t s)"

text \<open>The peers that grant the resource to \<open>u\<close> in the course of the deliveries.\<close>

fun grants :: "'s lock_peer \<Rightarrow> nat \<Rightarrow> string \<Rightarrow> string \<Rightarrow> delivery list \<Rightarrow> 's list \<Rightarrow> nat list" where
  "grants ops lease r u [] w = []"
| "grants ops lease r u ((i, t, m) # ds) w =
     (if i < length w
      then (let (ok, s) = receive ops lease t m (w ! i);
                rest = grants ops lease r u ds (w[i := s]) in
            if ok \<and> m = AcquireMsg r u then i # rest else rest)
      else grants ops lease r u ds w)"

subsection \<open>The client\<close>

definition DEFAULT_LEASE_MS :: nat where
  "DEFAULT_LEASE_MS = 30000"

definition dsync_quorum :: "nat \<Rightarrow> nat" where
  "dsync_quorum n = n div 2 + 1"

text \<open>
  One vote: the acquire request goes to every peer; the peers whose positive reply arrives are
  counted. \<open>i\<close> is the index of the first peer of the list.
\<close>

fun vote :: "'s lock_peer \<Rightarrow> (nat \<Rightarrow> link) \<Rightarrow> (nat \<Rightarrow> nat) \<Rightarrow> string \<Rightarrow> string \<Rightarrow> nat \<Rightarrow> 's list
    \<Rightarrow> nat list \<times> 's list" where
  "vote ops lk clk r u i [] = ([], [])"
| "vote ops lk clk r u i (s # ss) =
     (let (ok, s1) = (if lk i = Down then (False, s)
                      else lp_acquire ops (clk i) r u DEFAULT_LEASE_MS s);
          (granted, ss1) = vote ops lk clk r u (Suc i) ss in
      (if ok \<and> lk i = Up then i # granted else granted, s1 # ss1))"

text \<open>Release requests to the given peers, as far as the links carry them.\<close>

fun release_at :: "'s lock_peer \<Rightarrow> (nat \<Rightarrow> link) \<Rightarrow> string \<Rightarrow> string \<Rightarrow> nat list \<Rightarrow> 's list \<Rightarrow> 's list" where
  "release_at ops lk r u [] w = w"
| "release_at ops lk r u (i # is) w =
     release_at ops lk r u is
       (if i < length w \<and> lk i \<noteq> Down then w[i := lp_release ops r u (w ! i)] else w)"

record lock_guard =
  lg_resource :: string
  lg_uid :: string
  lg_lost :: bool
  lg_stop :: bool

text \<open>
  What the environment contributes to one attempt: the fresh identifier, the state of the links
  during the vote, the peers' clocks, the links during the release, and the client's clock
  afterwards.
\<close>

record attempt =
  at_uid :: string
  at_links :: "nat \<Rightarrow> link"
  at_clocks :: "nat \<Rightarrow> nat"
  at_release_links :: "nat \<Rightarrow> link"
  at_now :: nat

text \<open>
  The loop of \<open>acquire\<close> over the attempts the environment offers; \<^const>\<open>None\<close> means that the
  call is still retrying after these attempts.
\<close>

fun dsync_acquire :: "'s lock_peer \<Rightarrow> nat \<Rightarrow> nat \<Rightarrow> string \<Rightarrow> attempt list \<Rightarrow> 's list
    \<Rightarrow> (lock_guard, storage_error) result option \<times> 's list" where
  "dsync_acquire ops quorum deadline r [] w = (None, w)"
| "dsync_acquire ops quorum deadline r (a # as) w =
     (let (granted, w1) = vote ops (at_links a) (at_clocks a) r (at_uid a) 0 w in
      if length granted \<ge> quorum
      then (Some (Ok \<lparr>lg_resource = r, lg_uid = at_uid a, lg_lost = False, lg_stop = False\<rparr>), w1)
      else let w2 = release_at ops (at_release_links a) r (at_uid a) granted w1 in
        if at_now a \<ge> deadline then (Some (Err (LockTimeout r)), w2)
        else dsync_acquire ops quorum deadline r as w2)"

definition guard_check :: "lock_guard \<Rightarrow> (unit, storage_error) result" where
  "guard_check g = (if lg_lost g then Err (LockLost (lg_resource g)) else Ok ())"

definition guard_drop :: "'s lock_peer \<Rightarrow> (nat \<Rightarrow> link) \<Rightarrow> lock_guard \<Rightarrow> 's list \<Rightarrow> lock_guard \<times> 's list"
  where
  "guard_drop ops lk g w =
     (g\<lparr>lg_stop := True\<rparr>, release_at ops lk (lg_resource g) (lg_uid g) [0..<length w] w)"

text \<open>
  One round of the refresh task: peers that answer negatively are counted, unreachable ones are
  neutral. A lost lock is released everywhere. \<open>stopped\<close> says that the guard was dropped while
  the replies were awaited.
\<close>

fun refresh_votes :: "'s lock_peer \<Rightarrow> (nat \<Rightarrow> link) \<Rightarrow> (nat \<Rightarrow> nat) \<Rightarrow> string \<Rightarrow> string \<Rightarrow> nat \<Rightarrow> 's list
    \<Rightarrow> nat \<times> 's list" where
  "refresh_votes ops lk clk r u i [] = (0, [])"
| "refresh_votes ops lk clk r u i (s # ss) =
     (let (ok, s1) = (if lk i = Down then (True, s) else lp_refresh ops (clk i) r u s);
          (nf, ss1) = refresh_votes ops lk clk r u (Suc i) ss in
      (if \<not> ok \<and> lk i = Up then Suc nf else nf, s1 # ss1))"

definition refresh_round :: "'s lock_peer \<Rightarrow> nat \<Rightarrow> (nat \<Rightarrow> link) \<Rightarrow> (nat \<Rightarrow> nat) \<Rightarrow> bool \<Rightarrow> (nat \<Rightarrow> link)
    \<Rightarrow> lock_guard \<Rightarrow> 's list \<Rightarrow> lock_guard \<times> 's list" where
  "refresh_round ops quorum lk clk stopped rlk g w =
     (if w = [] \<or> lg_stop g \<or> lg_lost g then (g, w)
      else let tolerance = length w - quorum;
               (not_found, w1) = refresh_votes ops lk clk (lg_resource g) (lg_uid g) 0 w in
        if stopped then (g\<lparr>lg_stop := True\<rparr>, w1)
        else if not_found > tolerance
        then (g\<lparr>lg_lost := True\<rparr>, release_at ops rlk (lg_resource g) (lg_uid g) [0..<length w1] w1)
        else (g, w1))"

definition jitter :: "nat \<Rightarrow> nat \<Rightarrow> nat" where
  "jitter attempt_no pseudo =
     (let base = 50; cap = 2000;
          shift = min attempt_no 6;
          mx = min (base * 2 ^ shift) cap;
          span = max (mx - base) 1 in
      base + pseudo mod span)"

text \<open>
  The lease of \<open>u\<close> on \<open>r\<close> at peer \<open>i\<close>, running out at \<open>x\<close>, is kept through the deliveries:
  no competing request and no sweep arrives after it has run out, where every refresh by
  \<open>u\<close> extends it by the validity \<open>V\<close>, and \<open>u\<close> does not release it.
\<close>

fun lease_kept :: "nat \<Rightarrow> nat \<Rightarrow> string \<Rightarrow> string \<Rightarrow> nat \<Rightarrow> delivery list \<Rightarrow> bool" where
  "lease_kept V i r u x [] \<longleftrightarrow> True"
| "lease_kept V i r u x ((j, t, m) # ds) \<longleftrightarrow>
     (if j \<noteq> i then lease_kept V i r u x ds
      else case m of
        AcquireMsg r' _ \<Rightarrow> (r' = r \<longrightarrow> t < x) \<and> lease_kept V i r u x ds
      | RefreshMsg r' u' \<Rightarrow> lease_kept V i r u (if (r', u') = (r, u) then t + V else x) ds
      | ReleaseMsg r' u' \<Rightarrow> (r', u') \<noteq> (r, u) \<and> lease_kept V i r u x ds
      | SweepMsg \<Rightarrow> t < x \<and> lease_kept V i r u x ds)"

subsection \<open>What a peer promises\<close>

text \<open>
  \<open>hold s r\<close> is the holder of \<open>r\<close> and the time at which its lease runs out. A lease is granted
  only when none is running, is extended only by its holder, and goes away by the holder's
  release or, once it has run out, by a sweep or a new grant.
\<close>

locale lock_peer_contract =
  fixes ops :: "'s lock_peer" and wf :: "'s \<Rightarrow> bool" and V :: nat
    and hold :: "'s \<Rightarrow> string \<Rightarrow> (string \<times> nat) option"
  assumes acquire_held: "wf s \<Longrightarrow> hold s r = Some (v, x) \<Longrightarrow> t < x \<Longrightarrow> lp_acquire ops t r u l s = (False, s)"
    and acquire_free: "wf s \<Longrightarrow> (\<forall>v x. hold s r = Some (v, x) \<longrightarrow> x \<le> t) \<Longrightarrow>
      \<exists>s'. lp_acquire ops t r u l s = (True, s') \<and> wf s' \<and> hold s' = (hold s)(r \<mapsto> (u, t + V))"
    and refresh_own: "wf s \<Longrightarrow> hold s r = Some (u, x) \<Longrightarrow>
      \<exists>s'. lp_refresh ops t r u s = (True, s') \<and> wf s' \<and> hold s' = (hold s)(r \<mapsto> (u, t + V))"
    and refresh_other: "wf s \<Longrightarrow> \<forall>x. hold s r \<noteq> Some (u, x) \<Longrightarrow> lp_refresh ops t r u s = (False, s)"
    and release_law: "wf s \<Longrightarrow> wf (lp_release ops r u s) \<and>
      hold (lp_release ops r u s) = (if \<exists>x. hold s r = Some (u, x) then (hold s)(r := None) else hold s)"
    and sweep_law: "wf s \<Longrightarrow> wf (lp_sweep ops t s) \<and>
      hold (lp_sweep ops t s) = (\<lambda>r. case hold s r of
        Some (v, x) \<Rightarrow> if t < x then Some (v, x) else None | None \<Rightarrow> None)"
begin

lemma acquire_cases:
  assumes "wf s"
  obtains (denied) v x where "hold s r = Some (v, x)" "t < x" "lp_acquire ops t r u l s = (False, s)"
  | (granted) s' where "lp_acquire ops t r u l s = (True, s')" "wf s'" "hold s' = (hold s)(r \<mapsto> (u, t + V))"
      "\<forall>v x. hold s r = Some (v, x) \<longrightarrow> x \<le> t"
proof (cases "\<exists>v x. hold s r = Some (v, x) \<and> t < x")
  case True
  with acquire_held [OF assms] that(1) show ?thesis by blast
next
  case False
  then have *: "\<forall>v x. hold s r = Some (v, x) \<longrightarrow> x \<le> t" using not_less by blast
  from acquire_free [OF assms this] that(2) * show ?thesis by blast
qed

lemma acquire_wf: "wf s \<Longrightarrow> wf (snd (lp_acquire ops t r u l s))"
  using acquire_cases [of s r t u l "wf (snd (lp_acquire ops t r u l s))"] by simp

lemma refresh_wf: "wf s \<Longrightarrow> wf (snd (lp_refresh ops t r u s))"
  using refresh_own [of s r u _ t] refresh_other [of s r u t] by (metis snd_conv)

lemma receive_wf: "wf s \<Longrightarrow> wf (snd (receive ops l t m s))"
  by (cases m) (simp_all add: acquire_wf refresh_wf release_law sweep_law)

lemma refresh_hold:
  assumes "wf s" "(r', u') \<noteq> (r, u)" "hold s r = Some (u, x)"
  shows "hold (snd (lp_refresh ops t r' u' s)) r = Some (u, x)"
proof (cases "\<exists>y. hold s r' = Some (u', y)")
  case True
  then obtain y where y: "hold s r' = Some (u', y)" by blast
  with assms(2,3) have "r' \<noteq> r" by auto
  with refresh_own [OF assms(1) y, of t] assms(3) show ?thesis by auto
next
  case False
  then show ?thesis using refresh_other [OF assms(1)] assms(3) by simp
qed

lemma acquire_hold:
  assumes "wf s" "r' = r \<Longrightarrow> t < x" "hold s r = Some (u, x)"
  shows "hold (snd (lp_acquire ops t r' u' l s)) r = Some (u, x) \<and>
    (r' = r \<longrightarrow> \<not> fst (lp_acquire ops t r' u' l s))"
proof (cases rule: acquire_cases [OF assms(1), of r' t u' l, case_names denied granted])
  case (granted s')
  have "r' \<noteq> r" using granted(4) assms(2,3) by force
  with granted assms(3) show ?thesis by simp
qed (use assms(3) in auto)

lemma receive_hold:
  assumes wf: "wf s" and h: "hold s r = Some (u, x)"
    and kept: "case m of AcquireMsg r' _ \<Rightarrow> r' = r \<longrightarrow> t < x
      | RefreshMsg r' u' \<Rightarrow> (r', u') \<noteq> (r, u)
      | ReleaseMsg r' u' \<Rightarrow> (r', u') \<noteq> (r, u)
      | SweepMsg \<Rightarrow> t < x"
  shows "hold (snd (receive ops l t m s)) r = Some (u, x)"
proof (cases m)
  case (AcquireMsg r' u')
  with kept acquire_hold [OF wf _ h] show ?thesis by simp
next
  case (RefreshMsg r' u')
  with kept refresh_hold [OF wf _ h] show ?thesis by simp
next
  case (ReleaseMsg r' u')
  with kept release_law [OF wf] h show ?thesis by auto
next
  case SweepMsg
  with kept sweep_law [OF wf] h show ?thesis by simp
qed

text \<open>A peer whose lease is kept grants the resource to nobody.\<close>

lemma kept_no_grant:
  assumes "i < length w" "\<forall>s \<in> set w. wf s" "hold (w ! i) r = Some (u, x)" "lease_kept V i r u x ds"
  shows "i \<notin> set (grants ops l r v ds w)"
  using assms
proof (induction ds arbitrary: w x)
  case (Cons d ds)
  obtain j t m where d: "d = (j, t, m)" by (cases d)
  show ?case
  proof (cases "j < length w")
    case False
    with Cons d show ?thesis by auto
  next
    case j: True
    let ?s = "snd (receive ops l t m (w ! j))"
    have wf: "wf (w ! j)" using Cons.prems(2) j by simp
    then have wf': "\<forall>s \<in> set (w[j := ?s]). wf s"
      using Cons.prems(2) receive_wf [OF wf, of l t m] set_update_subset_insert [of w j ?s] by auto
    have no: "j = i \<Longrightarrow> m = AcquireMsg r v \<Longrightarrow> \<not> fst (receive ops l t m (w ! j))"
      using acquire_hold [OF wf, of r r t x u v l] Cons.prems(3,4) d by auto
    have "\<exists>y. hold (w[j := ?s] ! i) r = Some (u, y) \<and> lease_kept V i r u y ds"
    proof (cases "j = i \<and> m = RefreshMsg r u")
      case True
      with refresh_own [OF wf, of r u x t] Cons.prems d show ?thesis by auto
    next
      case False
      then have "hold (w[j := ?s] ! i) r = Some (u, x)"
        using receive_hold [OF wf, where r = r and u = u and x = x and m = m and t = t and l = l] Cons.prems(1,3,4) d
        by (cases "j = i") (auto split: lock_msg.splits if_splits)
      moreover have "lease_kept V i r u x ds"
        using False Cons.prems(4) d by (cases "j = i") (auto split: lock_msg.splits if_splits)
      ultimately show ?thesis by blast
    qed
    then have "i \<notin> set (grants ops l r v ds (w[j := ?s]))"
      using Cons.IH [OF _ wf'] Cons.prems(1) by auto
    with no j d show ?thesis by (auto simp: Let_def case_prod_beta)
  qed
qed simp

lemma grants_bound: "set (grants ops l r v ds w) \<subseteq> {..<length w}"
proof (induction ds arbitrary: w)
  case (Cons d ds)
  obtain j t m where d: "d = (j, t, m)" by (cases d)
  from Cons.IH [of w] Cons.IH [of "w[j := snd (receive ops l t m (w ! j))]"] show ?case
    by (auto simp: d Let_def case_prod_beta)
qed simp

text \<open>Two quorums intersect: a quorum of kept leases leaves no quorum to anybody else.\<close>

lemma kept_quorum_excludes:
  assumes "\<forall>s \<in> set w. wf s" "Q \<subseteq> {..<length w}" "dsync_quorum (length w) \<le> card Q"
    and "\<forall>i \<in> Q. \<exists>x. hold (w ! i) r = Some (u, x) \<and> lease_kept V i r u x ds"
  shows "card (set (grants ops l r v ds w)) < dsync_quorum (length w)"
proof -
  have "i \<notin> set (grants ops l r v ds w)" if "i \<in> Q" for i
    using assms(2,4) that kept_no_grant [OF _ assms(1), of i r u] by blast
  with grants_bound have "set (grants ops l r v ds w) \<subseteq> {..<length w} - Q" by blast
  then have "card (set (grants ops l r v ds w)) \<le> card ({..<length w} - Q)"
    by (simp add: card_mono)
  also have "\<dots> = length w - card Q"
    using assms(2) by (simp add: card_Diff_subset finite_subset)
  finally show ?thesis using assms(3) by (simp add: dsync_quorum_def)
qed

text \<open>A vote, peer by peer.\<close>

lemma vote_props:
  assumes "vote ops lk clk r u k ss = (gs, ss')"
  shows "length ss' = length ss \<and> distinct gs \<and> set gs \<subseteq> {k..<k + length ss} \<and>
    (\<forall>j < length ss.
       (k + j \<in> set gs \<longleftrightarrow>
          lk (k + j) = Up \<and> fst (lp_acquire ops (clk (k + j)) r u DEFAULT_LEASE_MS (ss ! j))) \<and>
       ss' ! j = (if lk (k + j) = Down then ss ! j
                  else snd (lp_acquire ops (clk (k + j)) r u DEFAULT_LEASE_MS (ss ! j))))"
  using assms
proof (induction ss arbitrary: k gs ss')
  case (Cons s ss)
  obtain ok s1 where ok: "(if lk k = Down then (False, s)
      else lp_acquire ops (clk k) r u DEFAULT_LEASE_MS s) = (ok, s1)" by fastforce
  obtain gs1 ss1 where rest: "vote ops lk clk r u (Suc k) ss = (gs1, ss1)" by fastforce
  note IH = Cons.IH [OF rest]
  have eqs: "gs = (if ok \<and> lk k = Up then k # gs1 else gs1)" "ss' = s1 # ss1"
    using Cons.prems ok rest by (simp_all add: Let_def)
  have k: "k \<notin> set gs1" using IH by force
  have "(k + j \<in> set gs \<longleftrightarrow>
          lk (k + j) = Up \<and> fst (lp_acquire ops (clk (k + j)) r u DEFAULT_LEASE_MS ((s # ss) ! j))) \<and>
       ss' ! j = (if lk (k + j) = Down then (s # ss) ! j
                  else snd (lp_acquire ops (clk (k + j)) r u DEFAULT_LEASE_MS ((s # ss) ! j)))"
    if "j < length (s # ss)" for j
  proof (cases j)
    case 0
    with ok k eqs show ?thesis by (auto split: if_splits)
  next
    case (Suc j')
    with that IH eqs show ?thesis by auto
  qed
  moreover have "distinct gs" "set gs \<subseteq> {k..<k + length (s # ss)}" "length ss' = length (s # ss)"
    using IH k eqs by auto
  ultimately show ?case by blast
qed simp

lemma vote_wf:
  assumes "\<forall>s \<in> set w. wf s" "vote ops lk clk r u 0 w = (gs, w')"
  shows "\<forall>s \<in> set w'. wf s"
proof
  fix s assume "s \<in> set w'"
  then obtain j where j: "j < length w" "s = w' ! j"
    using vote_props [OF assms(2)] by (auto simp: in_set_conv_nth)
  then have "wf (w ! j)" using assms(1) by simp
  with j vote_props [OF assms(2)] acquire_wf show "wf s" by auto
qed

lemma release_at_props:
  assumes "\<forall>s \<in> set w. wf s"
  shows "length (release_at ops lk r u is w) = length w \<and> (\<forall>s \<in> set (release_at ops lk r u is w). wf s) \<and>
    (\<forall>j < length w. hold (release_at ops lk r u is w ! j) =
       (if j \<in> set is \<and> lk j \<noteq> Down \<and> (\<exists>x. hold (w ! j) r = Some (u, x))
        then (hold (w ! j))(r := None) else hold (w ! j)))"
  using assms
proof (induction "is" arbitrary: w)
  case (Cons i "is")
  obtain w1 where w1: "(if i < length w \<and> lk i \<noteq> Down then w[i := lp_release ops r u (w ! i)] else w) = w1"
    by simp
  have wf: "\<forall>s \<in> set w1. wf s" and len: "length w1 = length w"
    using Cons.prems release_law set_update_subset_insert [of w i "lp_release ops r u (w ! i)"]
    by (auto simp flip: w1)
  have step: "hold (w1 ! j) = (if j = i \<and> lk i \<noteq> Down \<and> (\<exists>x. hold (w ! j) r = Some (u, x))
      then (hold (w ! j))(r := None) else hold (w ! j))" if "j < length w" for j
    using release_law [of "w ! i" r u] Cons.prems that by (auto simp: nth_list_update simp flip: w1)
  from Cons.IH [OF wf] show ?case
    unfolding release_at.simps w1 len using step by auto
qed simp

lemma vote_granted_hold:
  assumes "\<forall>s \<in> set w. wf s" "vote ops lk clk r u 0 w = (gs, w')" "i \<in> set gs"
  shows "i < length w \<and> hold (w' ! i) r = Some (u, clk i + V)"
proof -
  have i: "i < length w" using vote_props [OF assms(2)] assms(3) by auto
  then have *: "lk i = Up" "fst (lp_acquire ops (clk i) r u DEFAULT_LEASE_MS (w ! i))"
    "w' ! i = snd (lp_acquire ops (clk i) r u DEFAULT_LEASE_MS (w ! i))"
    using vote_props [OF assms(2)] assms(3) by auto
  from assms(1) i have "wf (w ! i)" by simp
  then show ?thesis
    using i * by (cases rule: acquire_cases [of "w ! i" r "clk i" u DEFAULT_LEASE_MS]) auto
qed

lemma acquire_gets_quorum:
  assumes "\<forall>s \<in> set w. wf s" "dsync_acquire ops q deadline r as w = (Some (Ok g), w')"
  shows "lg_resource g = r \<and> length w' = length w \<and> (\<forall>s \<in> set w'. wf s) \<and>
    (\<exists>a \<in> set as. at_uid a = lg_uid g \<and> (\<exists>Q \<subseteq> {..<length w}. q \<le> card Q \<and>
       (\<forall>i \<in> Q. hold (w' ! i) r = Some (lg_uid g, at_clocks a i + V))))"
  using assms
proof (induction "as" arbitrary: w)
  case (Cons a as)
  obtain gs w1 where v: "vote ops (at_links a) (at_clocks a) r (at_uid a) 0 w = (gs, w1)" by fastforce
  note vp = vote_props [OF v] and wf1 = vote_wf [OF Cons.prems(1) v]
  show ?case
  proof (cases "q \<le> length gs")
    case True
    then have "g = \<lparr>lg_resource = r, lg_uid = at_uid a, lg_lost = False, lg_stop = False\<rparr>" "w' = w1"
      using Cons.prems(2) v by auto
    moreover have "card (set gs) = length gs" "set gs \<subseteq> {..<length w}" "length w1 = length w"
      using vp by (auto simp: distinct_card)
    ultimately show ?thesis
      using True vote_granted_hold [OF Cons.prems(1) v] wf1
      by (intro conjI bexI [of _ a] exI [of _ "set gs"]) auto
  next
    case False
    let ?w2 = "release_at ops (at_release_links a) r (at_uid a) gs w1"
    have "dsync_acquire ops q deadline r as ?w2 = (Some (Ok g), w')"
      using Cons.prems(2) v False by (auto simp: Let_def split: if_splits)
    with Cons.IH [of ?w2] release_at_props [OF wf1] vp show ?thesis by auto
  qed
qed simp

lemma acquire_excluded:
  assumes "\<forall>s \<in> set w. wf s" "Q \<subseteq> {..<length w}" "dsync_quorum (length w) \<le> card Q"
    and "\<forall>i \<in> Q. hold (w ! i) r = Some (u, x i)"
    and "\<forall>a \<in> set as. at_uid a \<noteq> u \<and> (\<forall>i \<in> Q. at_clocks a i < x i)"
    and "dsync_acquire ops (dsync_quorum (length w)) deadline r as w = (res, w')"
  shows "(\<nexists>g. res = Some (Ok g)) \<and> (\<forall>i \<in> Q. hold (w' ! i) r = Some (u, x i))"
  using assms
proof (induction "as" arbitrary: w)
  case (Cons a as)
  obtain gs w1 where v: "vote ops (at_links a) (at_clocks a) r (at_uid a) 0 w = (gs, w1)" by fastforce
  note vp = vote_props [OF v] and wf1 = vote_wf [OF Cons.prems(1) v]
  let ?w2 = "release_at ops (at_release_links a) r (at_uid a) gs w1"
  note rp = release_at_props [OF wf1, of "at_release_links a" r "at_uid a" gs]
  have held: "hold (w1 ! i) r = Some (u, x i) \<and> i \<notin> set gs" if "i \<in> Q" for i
  proof -
    have i: "i < length w" "at_clocks a i < x i" "wf (w ! i)" "hold (w ! i) r = Some (u, x i)"
      using that Cons.prems(1,2,4,5) by auto
    from acquire_hold [OF i(3) _ i(4), of r "at_clocks a i" "at_uid a" DEFAULT_LEASE_MS] i vp
    show ?thesis by auto
  qed
  then have "set gs \<subseteq> {..<length w} - Q" using vp by auto
  then have "card (set gs) \<le> card ({..<length w} - Q)" by (simp add: card_mono)
  also have "\<dots> = length w - card Q" using Cons.prems(2) by (simp add: card_Diff_subset finite_subset)
  finally have few: "length gs < dsync_quorum (length w)"
    using vp Cons.prems(3) by (simp add: dsync_quorum_def distinct_card)
  have len1: "length w1 = length w" using vp by simp
  have held2: "\<forall>i \<in> Q. hold (?w2 ! i) r = Some (u, x i)"
    using held rp len1 Cons.prems(2) by auto
  show ?case
  proof (cases "at_now a \<ge> deadline")
    case True
    with Cons.prems(6) v few held2 show ?thesis by (auto simp: Let_def)
  next
    case False
    have len: "length ?w2 = length w" using rp vp by simp
    have "dsync_acquire ops (dsync_quorum (length ?w2)) deadline r as ?w2 = (res, w')"
      using Cons.prems(6) v few False by (simp add: Let_def len)
    with Cons.IH [of ?w2] Cons.prems(2,3,5) rp held2 len show ?thesis by simp
  qed
qed simp

text \<open>
  Giving up leaves nothing behind: when no reply is lost and the releases arrive, no peer is
  held under an identifier of the failed attempts.
\<close>

lemma failed_vote_clean:
  assumes "\<forall>s \<in> set w. wf s" "\<forall>i u' x. i < length w \<longrightarrow> u' \<in> U \<longrightarrow> hold (w ! i) r \<noteq> Some (u', x)"
    and "vote ops lk clk r u 0 w = (gs, w1)" "\<forall>i. lk i \<noteq> ReplyLost" "\<forall>i. rlk i \<noteq> Down" "i < length w" "u' \<in> U"
  shows "hold (release_at ops rlk r u gs w1 ! i) r \<noteq> Some (u', x)"
proof -
  let ?acq = "lp_acquire ops (clk i) r u DEFAULT_LEASE_MS (w ! i)"
  have wf1: "\<forall>s \<in> set w1. wf s" by (rule vote_wf [OF assms(1,3)])
  have i: "i < length w1" "wf (w ! i)" using vote_props [OF assms(3)] assms(1,6) by auto
  have vi: "i \<in> set gs \<longleftrightarrow> lk i = Up \<and> fst ?acq" "w1 ! i = (if lk i = Down then w ! i else snd ?acq)"
    using vote_props [OF assms(3)] assms(6) by auto
  have rel: "hold (release_at ops rlk r u gs w1 ! i) =
      (if i \<in> set gs \<and> rlk i \<noteq> Down \<and> (\<exists>x. hold (w1 ! i) r = Some (u, x))
       then (hold (w1 ! i))(r := None) else hold (w1 ! i))"
    using release_at_props [OF wf1, of rlk r u gs] i(1) by blast
  show ?thesis
  proof (cases "i \<in> set gs")
    case True
    then have "hold (w1 ! i) r = Some (u, clk i + V)"
      using vote_granted_hold [OF assms(1,3)] by blast
    with True rel assms(5) show ?thesis by simp
  next
    case False
    have "hold (w1 ! i) = hold (w ! i)"
    proof (cases rule: acquire_cases [OF i(2), of r "clk i" u DEFAULT_LEASE_MS, case_names denied granted])
      case granted
      with False vi(1) have "lk i \<noteq> Up" by simp
      with assms(4) have "lk i = Down" by (cases "lk i") simp_all
      with vi(2) show ?thesis by simp
    qed (simp add: vi(2))
    with False rel assms(2,6,7) show ?thesis by simp
  qed
qed

lemma timeout_leaves_no_lease:
  assumes "\<forall>s \<in> set w. wf s" "\<forall>i u' x. i < length w \<longrightarrow> u' \<in> U \<longrightarrow> hold (w ! i) r \<noteq> Some (u', x)"
    and "\<forall>a \<in> set as. (\<forall>i. at_links a i \<noteq> ReplyLost) \<and> (\<forall>i. at_release_links a i \<noteq> Down)"
    and "dsync_acquire ops q deadline r as w = (Some (Err e), w')"
  shows "e = LockTimeout r \<and> length w' = length w \<and>
    (\<forall>i u' x. i < length w' \<longrightarrow> u' \<in> U \<longrightarrow> hold (w' ! i) r \<noteq> Some (u', x))"
  using assms
proof (induction "as" arbitrary: w)
  case (Cons a as)
  obtain gs w1 where v: "vote ops (at_links a) (at_clocks a) r (at_uid a) 0 w = (gs, w1)" by fastforce
  let ?w2 = "release_at ops (at_release_links a) r (at_uid a) gs w1"
  have rp: "length ?w2 = length w" "\<forall>s \<in> set ?w2. wf s"
    using release_at_props [OF vote_wf [OF Cons.prems(1) v], of "at_release_links a" r "at_uid a" gs]
      vote_props [OF v] by auto
  have clean: "\<forall>i u' x. i < length ?w2 \<longrightarrow> u' \<in> U \<longrightarrow> hold (?w2 ! i) r \<noteq> Some (u', x)"
    using failed_vote_clean [OF Cons.prems(1,2) v] Cons.prems(3) rp(1) by simp
  have less: "\<not> q \<le> length gs" using Cons.prems(4) v by auto
  show ?case
  proof (cases "at_now a \<ge> deadline")
    case True
    with Cons.prems(4) v less have "e = LockTimeout r" "w' = ?w2" by (simp_all add: Let_def)
    with clean rp show ?thesis by simp
  next
    case False
    with Cons.prems(4) v less have "dsync_acquire ops q deadline r as ?w2 = (Some (Err e), w')"
      by (simp add: Let_def)
    with Cons.IH [OF rp(2) clean] Cons.prems(3) rp(1) show ?thesis by simp
  qed
qed simp

text \<open>The refresh task: what its count says about the peers.\<close>

lemma all_Suc_less: "(\<forall>j < Suc n. P j) \<longleftrightarrow> P 0 \<and> (\<forall>j < n. P (Suc j))"
  using less_Suc_eq_0_disj by auto

lemma refresh_votes_props:
  assumes "refresh_votes ops lk clk r u k ss = (nf, ss')"
  shows "length ss' = length ss \<and>
    nf = card {j. j < length ss \<and> lk (k + j) = Up \<and> \<not> fst (lp_refresh ops (clk (k + j)) r u (ss ! j))} \<and>
    (\<forall>j < length ss. ss' ! j = (if lk (k + j) = Down then ss ! j
       else snd (lp_refresh ops (clk (k + j)) r u (ss ! j))))"
  using assms
proof (induction ss arbitrary: k nf ss')
  case (Cons s ss)
  let ?neg = "\<lambda>k ss. {j. j < length ss \<and> lk (k + j) = Up \<and>
    \<not> fst (lp_refresh ops (clk (k + j)) r u (ss ! j))}"
  obtain nf1 ss1 where rest: "refresh_votes ops lk clk r u (Suc k) ss = (nf1, ss1)" by fastforce
  note IH = Cons.IH [OF rest]
  have split: "?neg k (s # ss) =
      (if lk k = Up \<and> \<not> fst (lp_refresh ops (clk k) r u s) then {0} else {}) \<union> Suc ` ?neg (Suc k) ss"
    by (auto simp: image_iff less_Suc_eq_0_disj split: if_splits)
  have fin: "finite (?neg (Suc k) ss)" by simp
  have "card (?neg k (s # ss)) =
      (if lk k = Up \<and> \<not> fst (lp_refresh ops (clk k) r u s) then 1 else 0) + card (?neg (Suc k) ss)"
    unfolding split by (subst card_Un_disjoint) (auto simp: card_image)
  moreover have "nf = (if lk k = Up \<and> \<not> fst (lp_refresh ops (clk k) r u s) then 1 else 0) + nf1"
    "ss' = (if lk k = Down then s else snd (lp_refresh ops (clk k) r u s)) # ss1"
    using Cons.prems rest by (auto simp: Let_def case_prod_beta split: if_splits)
  ultimately show ?case using IH by (simp add: all_Suc_less nth_Cons')
qed simp

lemma refresh_lost_no_quorum:
  assumes "\<forall>s \<in> set w. wf s" "q \<le> length w" "\<not> lg_lost g"
    "refresh_round ops q lk clk stopped rlk g w = (g', w')" "lg_lost g'"
  shows "card {j. j < length w \<and> (\<exists>x. hold (w ! j) (lg_resource g) = Some (lg_uid g, x))} < q"
proof -
  let ?r = "lg_resource g" and ?u = "lg_uid g"
  obtain nf w1 where rv: "refresh_votes ops lk clk ?r ?u 0 w = (nf, w1)" by fastforce
  let ?neg = "{j. j < length w \<and> lk j = Up \<and> \<not> fst (lp_refresh ops (clk j) ?r ?u (w ! j))}"
  let ?pos = "{j. j < length w \<and> (\<exists>x. hold (w ! j) ?r = Some (?u, x))}"
  have nf: "nf = card ?neg" using refresh_votes_props [OF rv] by simp
  have "nf > length w - q"
    using assms(3-5) rv by (auto simp: refresh_round_def Let_def split: if_splits)
  moreover have "fst (lp_refresh ops (clk j) ?r ?u (w ! j))" if "j \<in> ?pos" for j
    using refresh_own [of "w ! j" ?r ?u _ "clk j"] assms(1) that by force
  then have "?pos \<inter> ?neg = {}" by blast
  then have "card ?pos + card ?neg = card (?pos \<union> ?neg)" by (simp add: card_Un_disjoint)
  moreover have "card (?pos \<union> ?neg) \<le> card {..<length w}" by (rule card_mono) auto
  ultimately show ?thesis using nf assms(2) by simp
qed

lemma refresh_kept_quorum:
  assumes "\<forall>s \<in> set w. wf s" "q \<le> length w" "0 < length w" "\<not> lg_lost g" "\<not> lg_stop g" "\<forall>i. lk i = Up"
    "refresh_round ops q lk clk False rlk g w = (g', w')" "\<not> lg_lost g'"
  shows "q \<le> card {j. j < length w \<and> hold (w' ! j) (lg_resource g) = Some (lg_uid g, clk j + V)}"
proof -
  let ?r = "lg_resource g" and ?u = "lg_uid g"
  obtain nf w1 where rv: "refresh_votes ops lk clk ?r ?u 0 w = (nf, w1)" by fastforce
  let ?neg = "{j. j < length w \<and> \<not> fst (lp_refresh ops (clk j) ?r ?u (w ! j))}"
  let ?pos = "{j. j < length w \<and> hold (w1 ! j) ?r = Some (?u, clk j + V)}"
  note rp = refresh_votes_props [OF rv]
  have nf: "nf = card ?neg" using rp assms(6) by simp
  have le: "nf \<le> length w - q" and w': "w' = w1"
    using assms(3-8) rv by (auto simp: refresh_round_def Let_def split: if_splits)
  have "j \<in> ?pos" if j: "j < length w" "j \<notin> ?neg" for j
  proof -
    have "wf (w ! j)" using assms(1) j(1) by simp
    then obtain x where "hold (w ! j) ?r = Some (?u, x)"
      using refresh_other [of "w ! j" ?r ?u "clk j"] j by fastforce
    from refresh_own [OF \<open>wf (w ! j)\<close> this, of "clk j"] rp j(1) assms(6) show ?thesis by auto
  qed
  then have "{..<length w} - ?neg \<subseteq> ?pos" by blast
  then have "card ({..<length w} - ?neg) \<le> card ?pos" by (rule card_mono [rotated]) simp
  moreover have "card ({..<length w} - ?neg) = length w - nf"
    by (subst card_Diff_subset) (auto simp: nf)
  ultimately show ?thesis using le assms(2) w' by simp
qed

end

subsection \<open>The lock server keeps the contract\<close>

definition ls_hold :: "lock_server \<Rightarrow> string \<Rightarrow> (string \<times> nat) option" where
  "ls_hold s r = map_option (\<lambda>e. (le_uid e, le_last_refresh e + ls_validity s)) (ls_locks s r)"

definition ls_wf :: "nat \<Rightarrow> lock_server \<Rightarrow> bool" where
  "ls_wf v s \<longleftrightarrow> ls_validity s = v \<and> 0 < v"

lemma entry_live_iff: "0 < v \<Longrightarrow> entry_live v now e \<longleftrightarrow> now < le_last_refresh e + v"
  by (auto simp: entry_live_def)

interpretation lsp: lock_peer_contract local_lock_peer "ls_wf V" V ls_hold for V
proof unfold_locales
  fix s :: lock_server and r u v :: string and x t l :: nat
  assume wf: "ls_wf V s"
  show "lp_acquire local_lock_peer t r u l s = (False, s)" if "ls_hold s r = Some (v, x)" "t < x"
    using that wf by (auto simp: local_lock_peer_def ls_acquire_def ls_hold_def ls_wf_def entry_live_iff)
  show "\<exists>s'. lp_acquire local_lock_peer t r u l s = (True, s') \<and> ls_wf V s' \<and>
      ls_hold s' = (ls_hold s)(r \<mapsto> (u, t + V))"
    if "\<forall>v x. ls_hold s r = Some (v, x) \<longrightarrow> x \<le> t"
    using that wf
    by (cases "ls_locks s r")
      (auto simp: local_lock_peer_def ls_acquire_def ls_hold_def ls_wf_def entry_live_iff fun_eq_iff)
  show "\<exists>s'. lp_refresh local_lock_peer t r u s = (True, s') \<and> ls_wf V s' \<and>
      ls_hold s' = (ls_hold s)(r \<mapsto> (u, t + V))" if "ls_hold s r = Some (u, x)"
    using that wf by (auto simp: local_lock_peer_def ls_refresh_def ls_hold_def ls_wf_def fun_eq_iff)
  show "lp_refresh local_lock_peer t r u s = (False, s)" if "\<forall>x. ls_hold s r \<noteq> Some (u, x)"
    using that by (auto simp: local_lock_peer_def ls_refresh_def ls_hold_def split: option.splits)
  show "ls_wf V (lp_release local_lock_peer r u s) \<and> ls_hold (lp_release local_lock_peer r u s) =
      (if \<exists>x. ls_hold s r = Some (u, x) then (ls_hold s)(r := None) else ls_hold s)"
    using wf by (auto simp: local_lock_peer_def ls_release_def ls_hold_def ls_wf_def fun_eq_iff
        split: option.splits)
  show "ls_wf V (lp_sweep local_lock_peer t s) \<and> ls_hold (lp_sweep local_lock_peer t s) =
      (\<lambda>r. case ls_hold s r of Some (v, x) \<Rightarrow> if t < x then Some (v, x) else None | None \<Rightarrow> None)"
    using wf by (auto simp: local_lock_peer_def ls_expire_old_def ls_hold_def ls_wf_def fun_eq_iff
        entry_live_iff Let_def split: option.splits)
qed

lemma dsync_acquire_returns:
  "\<exists>a \<in> set as. deadline \<le> at_now a \<Longrightarrow> fst (dsync_acquire ops q deadline r as w) \<noteq> None"
  by (induction "as" arbitrary: w) (auto simp: Let_def case_prod_beta)

lemma dsync_acquire_error:
  "dsync_acquire ops q deadline r as w = (Some (Err e), w') \<Longrightarrow> e = LockTimeout r"
  by (induction "as" arbitrary: w) (auto simp: Let_def split: prod.splits if_splits)

subsection \<open>Properties\<close>

text \<open>
  Mutual exclusion under any interleaving. Let the peers' lock maps give the resource to \<open>u\<close> at a
  majority of the nodes, and let any messages of any clients (acquires, refreshes,
  releases) and any sweeps arrive at the peers in any order, as long as these leases are kept,
  that is, refreshed by \<open>u\<close> before they run out and not released by \<open>u\<close>. Then no identifier
  collects the grants of a majority from these messages.
\<close>

theorem lock_quorum_exclusion:
  assumes "\<forall>s \<in> set w. ls_validity s = V" "0 < V"
    and "Q \<subseteq> {..<length w}" "dsync_quorum (length w) \<le> card Q"
    and "\<forall>i \<in> Q. \<exists>e. ls_locks (w ! i) r = Some e \<and> le_uid e = u \<and>
      lease_kept V i r u (le_last_refresh e + V) ds"
  shows "card (set (grants local_lock_peer lease r v ds w)) < dsync_quorum (length w)"
proof (rule lsp.kept_quorum_excludes [OF _ assms(3,4)])
  show "\<forall>s \<in> set w. ls_wf V s" using assms(1,2) by (simp add: ls_wf_def)
  show "\<forall>i \<in> Q. \<exists>x. ls_hold (w ! i) r = Some (u, x) \<and> lease_kept V i r u x ds"
  proof
    fix i assume "i \<in> Q"
    with assms(1,3) have "ls_validity (w ! i) = V" by auto
    with assms(5) \<open>i \<in> Q\<close> show "\<exists>x. ls_hold (w ! i) r = Some (u, x) \<and> lease_kept V i r u x ds"
      by (auto simp: ls_hold_def)
  qed
qed

definition held_server :: "nat \<Rightarrow> string \<Rightarrow> string \<Rightarrow> nat \<Rightarrow> lock_server" where
  "held_server v r u t = \<lparr>ls_locks = [r \<mapsto> \<lparr>le_uid = u, le_last_refresh = t\<rparr>], ls_validity = v\<rparr>"

theorem lock_quorum_exclusion_witness:
  "card (set (grants local_lock_peer 30 ''b/k'' ''B''
     [(0, 70, RefreshMsg ''b/k'' ''A''), (1, 40, AcquireMsg ''b/k'' ''B''), (2, 41, AcquireMsg ''b/k'' ''B''),
      (0, 90, AcquireMsg ''b/k'' ''B'')]
     [held_server 60 ''b/k'' ''A'' 10, held_server 60 ''b/k'' ''A'' 10, with_validity 60]))
   < dsync_quorum (length [held_server 60 ''b/k'' ''A'' 10, held_server 60 ''b/k'' ''A'' 10, with_validity 60])"
  by (rule lock_quorum_exclusion [where V = 60 and Q = "{0, 1}" and u = "''A''"])
    (auto simp: held_server_def with_validity_def dsync_quorum_def)


definition example_attempt :: "string \<Rightarrow> nat \<Rightarrow> attempt" where
  "example_attempt u t = \<lparr>at_uid = u, at_links = (\<lambda>_. Up), at_clocks = (\<lambda>_. t),
     at_release_links = (\<lambda>_. Up), at_now = t\<rparr>"

lemma example_acquire:
  "\<exists>w1. dsync_acquire local_lock_peer (dsync_quorum (length [with_validity 60, with_validity 60, with_validity 60]))
     100 ''b/k'' [example_attempt ''A'' 5] [with_validity 60, with_validity 60, with_validity 60] =
   (Some (Ok \<lparr>lg_resource = ''b/k'', lg_uid = ''A'', lg_lost = False, lg_stop = False\<rparr>), w1)"
  by (simp add: example_attempt_def dsync_quorum_def local_lock_peer_def ls_acquire_def
      with_validity_def Let_def)




text \<open>
  The refresh task is right about losing a lock. It marks the guard lost only when fewer than
  a quorum of the peers hold the resource for it. When every peer answers and the guard is
  not marked lost, a quorum of the peers holds it with a lease renewed by the round.
\<close>

theorem refresh_reports_loss:
  assumes "\<forall>s \<in> set w. ls_validity s = V" "0 < V" "q \<le> length w" "0 < length w"
    and "\<not> lg_lost g" "\<not> lg_stop g" "refresh_round local_lock_peer q lk clk False rlk g w = (g', w')"
  shows "(lg_lost g' \<longrightarrow>
      card {j. j < length w \<and> (\<exists>x. ls_hold (w ! j) (lg_resource g) = Some (lg_uid g, x))} < q) \<and>
    ((\<forall>i. lk i = Up) \<and> \<not> lg_lost g' \<longrightarrow>
      q \<le> card {j. j < length w \<and> ls_hold (w' ! j) (lg_resource g) = Some (lg_uid g, clk j + V)})"
proof -
  have wf: "\<forall>s \<in> set w. ls_wf V s" using assms(1,2) by (simp add: ls_wf_def)
  show ?thesis
    using lsp.refresh_lost_no_quorum [OF wf assms(3,5,7)]
      lsp.refresh_kept_quorum [OF wf assms(3,4,5,6) _ assms(7)] by blast
qed

definition example_guard :: lock_guard where
  "example_guard = \<lparr>lg_resource = ''b/k'', lg_uid = ''A'', lg_lost = False, lg_stop = False\<rparr>"

theorem refresh_reports_loss_witness:
  "2 \<le> card {j. j < length [held_server 60 ''b/k'' ''A'' 10, held_server 60 ''b/k'' ''A'' 10, with_validity 60] \<and>
     ls_hold (snd (refresh_round local_lock_peer 2 (\<lambda>_. Up) (\<lambda>_. 40) False (\<lambda>_. Up) example_guard
       [held_server 60 ''b/k'' ''A'' 10, held_server 60 ''b/k'' ''A'' 10, with_validity 60]) ! j) ''b/k''
     = Some (''A'', 40 + 60)}"
proof -
  let ?w = "[held_server 60 ''b/k'' ''A'' 10, held_server 60 ''b/k'' ''A'' 10, with_validity 60]"
  let ?r = "refresh_round local_lock_peer 2 (\<lambda>_. Up) (\<lambda>_. 40) False (\<lambda>_. Up) example_guard ?w"
  have "\<not> lg_lost (fst ?r)"
    by (simp add: refresh_round_def example_guard_def held_server_def with_validity_def
        local_lock_peer_def ls_refresh_def Let_def)
  with refresh_reports_loss [of ?w 60 2 example_guard "\<lambda>_. Up" "\<lambda>_. 40" "\<lambda>_. Up" "fst ?r" "snd ?r"]
  show ?thesis by (simp add: held_server_def with_validity_def example_guard_def)
qed

end
