(* ===== verification/Cluster.thy ===== *)
theory Cluster
  imports Io_Types
begin

text \<open>
  Cluster topology and routing, \<^verbatim>\<open>crates/openlake_storage/src/cluster.rs\<close>: the flat list of
  disks, its partition into erasure sets and the placement of an object in a set.

  Divisions by zero and slices out of range panic (\<^const>\<open>None\<close>). SipHash is external, an
  argument \<open>sip\<close> of the placement: the digest of the bytes written, below \<open>2 ^ 64\<close>.
\<close>

subsection \<open>The topology\<close>

type_synonym node_id = nat
type_synonym disk_idx = nat

record disk_addr =
  da_node_id :: node_id
  da_disk_idx :: disk_idx

definition show_disk_addr :: "disk_addr \<Rightarrow> string" where
  "show_disk_addr d = ''n'' @ show_nat (da_node_id d) @ ''d'' @ show_nat (da_disk_idx d)"

record node_addr =
  na_id :: node_id
  na_rpc_addr :: string
  na_disk_count :: disk_idx

definition default_disk_count :: disk_idx where
  "default_disk_count = 1"

record cluster_config =
  cc_nodes :: "node_addr list"
  cc_set_drive_count :: nat
  cc_default_parity_count :: nat
  cc_deployment_id :: "128 word"

definition flat :: "node_addr list \<Rightarrow> nat \<Rightarrow> cluster_config" where
  "flat nodes replication =
     \<lparr>cc_nodes = nodes, cc_set_drive_count = replication,
      cc_default_parity_count = max (replication - 1) 1, cc_deployment_id = 0\<rparr>"

definition total_disks :: "cluster_config \<Rightarrow> nat" where
  "total_disks c = sum_list (map na_disk_count (cc_nodes c))"

definition num_sets :: "cluster_config \<Rightarrow> nat option" where
  "num_sets c =
     (let total = total_disks c in
      if total = 0 then Some 0
      else if cc_set_drive_count c = 0 then None
      else Some (total div cc_set_drive_count c))"

definition all_disks :: "cluster_config \<Rightarrow> disk_addr list" where
  "all_disks c =
     concat (map (\<lambda>n. map (\<lambda>d. \<lparr>da_node_id = na_id n, da_disk_idx = d\<rparr>) [0..<na_disk_count n]) (cc_nodes c))"

definition set_disks :: "cluster_config \<Rightarrow> nat \<Rightarrow> disk_addr list option" where
  "set_disks c set_index =
     (let start = set_index * cc_set_drive_count c; fin = start + cc_set_drive_count c in
      arr_slice (all_disks c) start fin)"

fun dedup_nodes :: "node_id list \<Rightarrow> disk_addr list \<Rightarrow> node_id list" where
  "dedup_nodes seen [] = []"
| "dedup_nodes seen (d # ds) =
     (if da_node_id d \<in> set seen then dedup_nodes seen ds
      else da_node_id d # dedup_nodes (da_node_id d # seen) ds)"

definition set_node_ids :: "cluster_config \<Rightarrow> nat \<Rightarrow> node_id list option" where
  "set_node_ids c set_index = map_option (dedup_nodes []) (set_disks c set_index)"

definition set_index_for :: "(string \<Rightarrow> nat) \<Rightarrow> cluster_config \<Rightarrow> string \<Rightarrow> string \<Rightarrow> nat option" where
  "set_index_for sip c bucket key = do {
     n \<leftarrow> num_sets c;
     Some (sip (bucket @ ''/'' @ key) mod max n 1)
   }"

definition disks_for :: "(string \<Rightarrow> nat) \<Rightarrow> cluster_config \<Rightarrow> string \<Rightarrow> string \<Rightarrow> disk_addr list option" where
  "disks_for sip c bucket key = do { s \<leftarrow> set_index_for sip c bucket key; set_disks c s }"

definition write_quorum :: "cluster_config \<Rightarrow> nat" where
  "write_quorum c = cc_set_drive_count c"

definition read_quorum :: "cluster_config \<Rightarrow> nat" where
  "read_quorum c = 1"

subsection \<open>What a valid topology gives\<close>

text \<open>The documented requirements on a configuration.\<close>

definition topology_ok :: "cluster_config \<Rightarrow> bool" where
  "topology_ok c \<longleftrightarrow> distinct (map na_id (cc_nodes c)) \<and> 0 < total_disks c \<and>
     0 < cc_set_drive_count c \<and> cc_set_drive_count c dvd total_disks c"

lemma length_all_disks: "length (all_disks c) = total_disks c"
  by (simp add: all_disks_def total_disks_def length_concat o_def)

lemma distinct_all_disks: "distinct (map na_id (cc_nodes c)) \<Longrightarrow> distinct (all_disks c)"
proof -
  have "distinct (map na_id ns) \<Longrightarrow>
      distinct (concat (map (\<lambda>n. map (\<lambda>d. \<lparr>da_node_id = na_id n, da_disk_idx = d\<rparr>) [0..<na_disk_count n]) ns))"
    for ns
    by (induction ns) (auto simp: distinct_map inj_on_def)
  then show "distinct (map na_id (cc_nodes c)) \<Longrightarrow> distinct (all_disks c)"
    by (simp add: all_disks_def)
qed

lemma num_sets_ok: "topology_ok c \<Longrightarrow> num_sets c = Some (total_disks c div cc_set_drive_count c)"
  by (simp add: topology_ok_def num_sets_def Let_def)

lemma num_sets_pos: "topology_ok c \<Longrightarrow> 0 < total_disks c div cc_set_drive_count c"
  using dvd_imp_le by (simp add: topology_ok_def div_greater_zero_iff)

lemma set_disks_ok:
  assumes "topology_ok c" "i < total_disks c div cc_set_drive_count c"
  shows "set_disks c i = Some (take (cc_set_drive_count c) (drop (i * cc_set_drive_count c) (all_disks c)))"
proof -
  let ?k = "cc_set_drive_count c"
  have "Suc i * ?k \<le> total_disks c div ?k * ?k" using assms(2) by (intro mult_le_mono1) simp
  also have "\<dots> \<le> total_disks c" by simp
  finally show ?thesis by (simp add: set_disks_def length_all_disks Let_def)
qed

lemma dedup_nodes_props:
  "distinct (dedup_nodes seen ds) \<and> set (dedup_nodes seen ds) = da_node_id ` set ds - set seen"
  by (induction ds arbitrary: seen) auto

subsection \<open>Properties\<close>

text \<open>
  C26: the erasure sets partition the disks. In a valid topology (distinct node identifiers, a
  positive set size that divides the number of disks) every set index below the number of
  sets names exactly \<open>set_drive_count\<close> disks, the sets in order make up the flat list of all
  disks, and no disk occurs twice, so every disk belongs to exactly one set.
\<close>

theorem sets_partition_disks:
  assumes "topology_ok c"
  shows "\<exists>n sets. num_sets c = Some n \<and> length sets = n \<and> (\<forall>i < n. set_disks c i = Some (sets ! i)) \<and>
    (\<forall>ds \<in> set sets. length ds = cc_set_drive_count c) \<and> concat sets = all_disks c \<and>
    distinct (concat sets) \<and> 0 < n"
proof -
  obtain n k where nk: "total_disks c div cc_set_drive_count c = n" "cc_set_drive_count c = k" by simp
  let ?sets = "map (\<lambda>i. take k (drop (i * k) (all_disks c))) [0..<n]"
  have len: "length (all_disks c) = n * k"
    using assms nk by (metis dvd_div_mult_self length_all_disks topology_ok_def)
  have all: "concat ?sets = all_disks c" by (rule concat_chunks [OF len])
  have size: "length (take k (drop (i * k) (all_disks c))) = k" if "i < n" for i
  proof -
    have "Suc i * k \<le> n * k" using that by (intro mult_le_mono1) simp
    then show ?thesis by (simp add: len)
  qed
  have "num_sets c = Some n" "0 < n"
    using num_sets_ok [OF assms] num_sets_pos [OF assms] nk by simp_all
  moreover have "\<forall>i < n. set_disks c i = Some (?sets ! i)"
    using set_disks_ok [OF assms] nk by simp
  moreover have "distinct (concat ?sets)"
    unfolding all using assms distinct_all_disks by (simp add: topology_ok_def)
  ultimately show ?thesis
    unfolding nk(2) using all size by (intro exI [of _ n] exI [of _ ?sets]) auto
qed

definition example_cluster :: cluster_config where
  "example_cluster = \<lparr>cc_nodes = [\<lparr>na_id = 0, na_rpc_addr = [], na_disk_count = 3\<rparr>,
     \<lparr>na_id = 1, na_rpc_addr = [], na_disk_count = 1\<rparr>],
     cc_set_drive_count = 2, cc_default_parity_count = 1, cc_deployment_id = 0\<rparr>"

lemma example_cluster_ok: "topology_ok example_cluster"
  by (simp add: topology_ok_def example_cluster_def total_disks_def)

theorem sets_partition_disks_witness:
  "\<exists>n sets. num_sets example_cluster = Some n \<and> length sets = n \<and>
    (\<forall>i < n. set_disks example_cluster i = Some (sets ! i)) \<and>
    (\<forall>ds \<in> set sets. length ds = cc_set_drive_count example_cluster) \<and> concat sets = all_disks example_cluster \<and>
    distinct (concat sets) \<and> 0 < n"
  by (rule sets_partition_disks [OF example_cluster_ok])

text \<open>
  Every object is placed. In a valid topology the placement of any bucket and key returns,
  with \<open>set_drive_count\<close> different disks of one set, and the lock peers of that set are
  exactly the nodes that own one of these disks, each once.
\<close>

theorem placement_total:
  assumes "topology_ok c"
  shows "\<exists>s ds ns. set_index_for sip c bucket key = Some s \<and> disks_for sip c bucket key = Some ds \<and>
    set_disks c s = Some ds \<and> length ds = cc_set_drive_count c \<and> distinct ds \<and> set ds \<subseteq> set (all_disks c) \<and>
    set_node_ids c s = Some ns \<and> distinct ns \<and> set ns = da_node_id ` set ds"
proof -
  obtain n k where nk: "total_disks c div cc_set_drive_count c = n" "cc_set_drive_count c = k" by simp
  define s where "s = sip (bucket @ ''/'' @ key) mod n"
  define ds where "ds = take k (drop (s * k) (all_disks c))"
  have n: "0 < n" using num_sets_pos [OF assms] nk by simp
  then have s: "s < n" by (simp add: s_def)
  have "max n 1 = n" using n by simp
  then have si: "set_index_for sip c bucket key = Some s"
    using num_sets_ok [OF assms] nk by (simp add: set_index_for_def s_def)
  have sd: "set_disks c s = Some ds" using set_disks_ok [OF assms] s nk by (simp add: ds_def)
  have "Suc s * k \<le> n * k" using s by (intro mult_le_mono1) simp
  also have "\<dots> \<le> total_disks c" using nk by auto
  finally have "length ds = k" by (simp add: length_all_disks ds_def)
  moreover have "distinct ds" "set ds \<subseteq> set (all_disks c)"
    using assms distinct_all_disks
    by (auto simp: topology_ok_def ds_def dest!: in_set_takeD in_set_dropD)
  ultimately show ?thesis
    using si sd nk(2) dedup_nodes_props [of "[]" ds]
    by (simp add: disks_for_def set_node_ids_def)
qed

theorem placement_total_witness:
  "\<exists>s ds ns. set_index_for length example_cluster ''b'' ''k'' = Some s \<and>
    disks_for length example_cluster ''b'' ''k'' = Some ds \<and>
    set_disks example_cluster s = Some ds \<and> length ds = cc_set_drive_count example_cluster \<and> distinct ds \<and>
    set ds \<subseteq> set (all_disks example_cluster) \<and>
    set_node_ids example_cluster s = Some ns \<and> distinct ns \<and> set ns = da_node_id ` set ds"
  by (rule placement_total [OF example_cluster_ok])



end
