(* ===== verification/Format.thy ===== *)
theory Format
  imports Cluster
begin

text \<open>
  Cluster identity at startup, \<^verbatim>\<open>crates/openlake_storage/src/format.rs\<close>: the seed node of a
  fresh cluster draws a deployment identifier and writes it to every disk; every later boot
  adopts the identifier that the majority of the formatted disks carry.

  A disk is seen through \<open>read_format\<close> and \<open>write_format\<close>: its content, and whether the two
  calls fail. Each iteration of the polling loop is given the disks as they are at that time,
  so any activity of other nodes between two iterations is covered. The order in which the
  vote visits its hash map is an argument.
\<close>

subsection \<open>The bootstrap\<close>

type_synonym uuid = "128 word"

datatype format_error =
    FormatTimeout nat
  | QuorumDisagreement
  | LocalDiskMissingFormat
  | LocalDiskWrongDeploymentId uuid uuid
  | SeedUnreachable string
  | FormatIo io_error

record fmt_disk =
  fd_content :: "format_json option"
  fd_read_err :: "io_error option"
  fd_write_err :: "io_error option"

definition read_format :: "fmt_disk \<Rightarrow> (format_json option, io_error) result" where
  "read_format d = (case fd_read_err d of Some e \<Rightarrow> Err e | None \<Rightarrow> Ok (fd_content d))"

definition write_format :: "format_json \<Rightarrow> fmt_disk \<Rightarrow> (fmt_disk, io_error) result" where
  "write_format f d = (case fd_write_err d of Some e \<Rightarrow> Err e | None \<Rightarrow> Ok (d\<lparr>fd_content := Some f\<rparr>))"

definition read_all :: "fmt_disk list \<Rightarrow> (format_json option, io_error) result list" where
  "read_all ds = map read_format ds"

definition all_ok_none :: "(format_json option, io_error) result list \<Rightarrow> bool" where
  "all_ok_none rs = list_all (\<lambda>r. r = Ok None) rs"

definition mk_format :: "uuid \<Rightarrow> nat \<Rightarrow> nat \<Rightarrow> format_json" where
  "mk_format i set_drive_count this =
     \<lparr>fj_version = 1, fj_format = ''openlake'', fj_id = i, fj_set_drive_count = set_drive_count,
      fj_this_disk = this\<rparr>"

text \<open>Disks and offsets are visited in step; the first failing write ends the loop.\<close>

fun write_disks :: "uuid \<Rightarrow> nat \<Rightarrow> fmt_disk list \<Rightarrow> nat list
    \<Rightarrow> (unit, format_error) result \<times> fmt_disk list" where
  "write_disks i sdc (d # ds) (off # offs) =
     (case write_format (mk_format i sdc off) d of
        Inl e \<Rightarrow> (Err (FormatIo e), d # ds)
      | Inr d1 \<Rightarrow> (let (r, ds1) = write_disks i sdc ds offs in (r, d1 # ds1)))"
| "write_disks i sdc ds offs = (Ok (), ds)"

definition write_all_disks :: "uuid \<Rightarrow> nat \<Rightarrow> fmt_disk list \<Rightarrow> fmt_disk list \<Rightarrow> nat list \<Rightarrow> nat list
    \<Rightarrow> (unit, format_error) result \<times> fmt_disk list \<times> fmt_disk list" where
  "write_all_disks i sdc loc peers loc_offs peer_offs =
     (case write_disks i sdc loc loc_offs of
        (Inl e, loc1) \<Rightarrow> (Err e, loc1, peers)
      | (Inr _, loc1) \<Rightarrow> (let (r, peers1) = write_disks i sdc peers peer_offs in (r, loc1, peers1)))"

definition formatted_ids :: "(format_json option, io_error) result list \<Rightarrow> uuid list" where
  "formatted_ids rs = List.map_filter (\<lambda>r. case r of Inr (Some f) \<Rightarrow> Some (fj_id f) | _ \<Rightarrow> None) rs"

text \<open>\<open>ord\<close> lists the keys of the hash map of counts in the order the loop visits them.\<close>

definition vote_majority :: "uuid list \<Rightarrow> (format_json option, io_error) result list
    \<Rightarrow> (format_json option, io_error) result list \<Rightarrow> (uuid, format_error) result" where
  "vote_majority ord local_fmts peer_fmts =
     (let ids = formatted_ids (local_fmts @ peer_fmts);
          majority = length ids div 2 + 1 in
      case find (\<lambda>i. count_list ids i \<ge> majority) ord of
        Some i \<Rightarrow> Ok i
      | None \<Rightarrow> Err QuorumDisagreement)"

fun wrong_local :: "uuid \<Rightarrow> (format_json option, io_error) result list \<Rightarrow> uuid option" where
  "wrong_local i [] = None"
| "wrong_local i (r # rs) =
     (case r of
        Inr (Some f) \<Rightarrow> if fj_id f \<noteq> i then Some (fj_id f) else wrong_local i rs
      | _ \<Rightarrow> wrong_local i rs)"

text \<open>The first configured node is the seed; an empty list of nodes is a panic.\<close>

definition am_seed :: "node_id \<Rightarrow> node_id list \<Rightarrow> bool option" where
  "am_seed my_id node_ids = (case node_ids of [] \<Rightarrow> None | seed_id # _ \<Rightarrow> Some (my_id = seed_id))"

text \<open>What one iteration of the loop gets from its environment.\<close>

record boot_round =
  br_local :: "fmt_disk list"
  br_peers :: "fmt_disk list"
  br_fresh :: uuid
  br_order :: "uuid list"
  br_now :: nat

record boot_config =
  bc_local_offsets :: "nat list"
  bc_peer_offsets :: "nat list"
  bc_am_seed :: bool
  bc_set_drive_count :: nat
  bc_timeout :: nat
  bc_deadline :: nat

definition boot_step :: "boot_config \<Rightarrow> boot_round
    \<Rightarrow> (uuid, format_error) result option \<times> fmt_disk list \<times> fmt_disk list" where
  "boot_step cfg b =
     (let local_fmts = read_all (br_local b); peer_fmts = read_all (br_peers b);
          formatted = length (formatted_ids (local_fmts @ peer_fmts));
          quorum = (length (br_local b) + length (br_peers b)) div 2 + 1;
          poll = (if formatted \<ge> quorum
                  then (if Ok None \<in> set local_fmts then Some (Err LocalDiskMissingFormat)
                        else Some (and_then (vote_majority (br_order b) local_fmts peer_fmts) (\<lambda>i.
                               case wrong_local i local_fmts of
                                 Some l \<Rightarrow> Err (LocalDiskWrongDeploymentId l i)
                               | None \<Rightarrow> Ok i)))
                  else if br_now b \<ge> bc_deadline cfg then Some (Err (FormatTimeout (bc_timeout cfg)))
                  else None) in
      if formatted = 0 \<and> all_ok_none local_fmts \<and> all_ok_none peer_fmts \<and> bc_am_seed cfg
      then (case write_all_disks (br_fresh b) (bc_set_drive_count cfg) (br_local b) (br_peers b)
                   (bc_local_offsets cfg) (bc_peer_offsets cfg) of
              (Inl e, l, p) \<Rightarrow> (Some (Err e), l, p)
            | (Inr _, l, p) \<Rightarrow> (Some (Ok (br_fresh b)), l, p))
      else (poll, br_local b, br_peers b))"

fun bootstrap_format :: "boot_config \<Rightarrow> boot_round list
    \<Rightarrow> ((uuid, format_error) result \<times> fmt_disk list \<times> fmt_disk list) option" where
  "bootstrap_format cfg [] = None"
| "bootstrap_format cfg (b # bs) =
     (case boot_step cfg b of
        (Some r, l, p) \<Rightarrow> Some (r, l, p)
      | (None, _, _) \<Rightarrow> bootstrap_format cfg bs)"

subsection \<open>Majorities\<close>

lemma count_list_sum:
  "i \<noteq> j \<Longrightarrow> count_list xs i + count_list xs j \<le> length xs"
  by (induction xs) auto

lemma majority_unique:
  assumes "length xs div 2 + 1 \<le> count_list xs i" "length xs div 2 + 1 \<le> count_list xs j"
  shows "i = j"
proof (rule ccontr)
  assume "i \<noteq> j"
  from count_list_sum [OF this, of xs] assms show False by simp
qed

lemma find_SomeD: "find P xs = Some x \<Longrightarrow> P x \<and> x \<in> set xs"
  by (induction xs) (auto split: if_splits)

lemma find_NoneD: "find P xs = None \<Longrightarrow> x \<in> set xs \<Longrightarrow> \<not> P x"
  by (induction xs) (auto split: if_splits)

lemma vote_majority_Ok:
  assumes "set ord = set (formatted_ids (ls @ ps))"
  shows "vote_majority ord ls ps = Ok i \<longleftrightarrow>
    length (formatted_ids (ls @ ps)) div 2 + 1 \<le> count_list (formatted_ids (ls @ ps)) i"
proof -
  obtain ids where ids: "formatted_ids (ls @ ps) = ids" by simp
  let ?P = "\<lambda>i. length ids div 2 + 1 \<le> count_list ids i"
  have vote: "vote_majority ord ls ps = (case find ?P ord of Some i \<Rightarrow> Ok i | None \<Rightarrow> Err QuorumDisagreement)"
    by (simp add: vote_majority_def ids Let_def)
  show ?thesis unfolding ids
  proof (cases "find ?P ord")
    case None
    have "i \<in> set ord" if "?P i"
    proof -
      have "count_list ids i \<noteq> 0" using that by simp
      then show ?thesis using assms ids by (simp add: count_list_0_iff)
    qed
    with find_NoneD [OF None, of i] None vote show "vote_majority ord ls ps = Ok i \<longleftrightarrow> ?P i" by auto
  next
    case (Some j)
    have "?P j" using find_SomeD [OF Some] by blast
    with Some vote majority_unique [of ids i j] show "vote_majority ord ls ps = Ok i \<longleftrightarrow> ?P i" by auto
  qed
qed

lemma wrong_local_None:
  "wrong_local i rs = None \<longleftrightarrow> (\<forall>f. Ok (Some f) \<in> set rs \<longrightarrow> fj_id f = i)"
  by (induction rs) (auto split: sum.splits option.splits)

lemma formatted_ids_append: "formatted_ids (xs @ ys) = formatted_ids xs @ formatted_ids ys"
  by (simp add: formatted_ids_def map_filter_def)

lemma write_disks_ok:
  assumes "fst (write_disks i sdc ds offs) = Ok ()" "length offs = length ds"
  shows "snd (write_disks i sdc ds offs) = map (\<lambda>(d, off). d\<lparr>fd_content := Some (mk_format i sdc off)\<rparr>) (zip ds offs)"
  using assms
proof (induction ds arbitrary: offs)
  case (Cons d ds)
  then obtain off offs' where "offs = off # offs'" by (cases offs) auto
  with Cons show ?case
    by (auto simp: write_format_def case_prod_beta split: option.splits)
qed simp

lemma formatted_ids_written:
  assumes "\<forall>d \<in> set ds. fd_read_err d = None \<and> (\<exists>f. fd_content d = Some f \<and> fj_id f = i)"
  shows "formatted_ids (read_all ds) = replicate (length ds) i"
  using assms by (induction ds) (auto simp: formatted_ids_def read_all_def read_format_def map_filter_def)

text \<open>A boot of readable disks that all carry \<open>i\<close> adopts \<open>i\<close>, on any node.\<close>

lemma boot_adopts:
  assumes "\<forall>d \<in> set (br_local b @ br_peers b). fd_read_err d = None \<and> (\<exists>f. fd_content d = Some f \<and> fj_id f = i)"
    and "br_local b \<noteq> [] \<or> br_peers b \<noteq> []"
    and "set (br_order b) = set (formatted_ids (read_all (br_local b) @ read_all (br_peers b)))"
  shows "boot_step cfg b = (Some (Ok i), br_local b, br_peers b)"
proof -
  let ?n = "length (br_local b) + length (br_peers b)"
  have ids: "formatted_ids (read_all (br_local b) @ read_all (br_peers b)) = replicate ?n i"
    using assms(1) formatted_ids_written [of "br_local b" i] formatted_ids_written [of "br_peers b" i]
    by (simp add: formatted_ids_append replicate_add)
  have "0 < ?n" using assms(2) by auto
  then have n: "?n div 2 + 1 \<le> ?n" by presburger
  have vote: "vote_majority (br_order b) (read_all (br_local b)) (read_all (br_peers b)) = Ok i"
    using n by (simp add: vote_majority_Ok [OF assms(3)] ids count_list_replicate)
  have "Ok None \<notin> set (read_all (br_local b))" "wrong_local i (read_all (br_local b)) = None"
    using assms(1) by (force simp: read_all_def read_format_def wrong_local_None)+
  with vote n \<open>0 < ?n\<close> show ?thesis by (auto simp: boot_step_def Let_def ids)
qed

lemma boot_step_Ok:
  assumes "boot_step cfg b = (Some (Ok i), l, p)"
    and "set (br_order b) = set (formatted_ids (read_all (br_local b) @ read_all (br_peers b)))"
  defines "ids \<equiv> formatted_ids (read_all (br_local b) @ read_all (br_peers b))"
  shows "(ids = [] \<and> bc_am_seed cfg \<and> i = br_fresh b) \<or>
    (length ids div 2 + 1 \<le> count_list ids i \<and> (length (br_local b) + length (br_peers b)) div 2 + 1 \<le> length ids \<and>
     (\<forall>d \<in> set (br_local b). fd_read_err d = None \<longrightarrow> (\<exists>f. fd_content d = Some f \<and> fj_id f = i)))"
proof (cases "ids = [] \<and> all_ok_none (read_all (br_local b)) \<and> all_ok_none (read_all (br_peers b)) \<and> bc_am_seed cfg")
  case True
  then have "i = br_fresh b"
    using assms(1) unfolding boot_step_def Let_def ids_def
    by (auto split: sum.splits prod.splits)
  with True show ?thesis by blast
next
  case False
  then have "(if length ids \<ge> (length (br_local b) + length (br_peers b)) div 2 + 1
      then (if Ok None \<in> set (read_all (br_local b)) then Some (Err LocalDiskMissingFormat)
            else Some (and_then (vote_majority (br_order b) (read_all (br_local b)) (read_all (br_peers b))) (\<lambda>i.
                   case wrong_local i (read_all (br_local b)) of
                     Some l \<Rightarrow> Err (LocalDiskWrongDeploymentId l i)
                   | None \<Rightarrow> Ok i)))
      else if br_now b \<ge> bc_deadline cfg then Some (Err (FormatTimeout (bc_timeout cfg)))
      else None) = Some (Ok i)"
    using assms(1) unfolding boot_step_def Let_def ids_def by (auto split: if_splits)
  then have q: "(length (br_local b) + length (br_peers b)) div 2 + 1 \<le> length ids"
      "Ok None \<notin> set (read_all (br_local b))"
      "vote_majority (br_order b) (read_all (br_local b)) (read_all (br_peers b)) = Ok i"
      "wrong_local i (read_all (br_local b)) = None"
    by (auto simp: and_then_eq_Ok split: if_splits option.splits)
  have "length ids div 2 + 1 \<le> count_list ids i"
    using q(3) vote_majority_Ok [OF assms(2)] by (simp add: ids_def)
  moreover have "\<exists>f. fd_content d = Some f \<and> fj_id f = i" if "d \<in> set (br_local b)" "fd_read_err d = None" for d
    using q(2,4) that by (cases "fd_content d") (force simp: read_all_def read_format_def wrong_local_None)+
  ultimately show ?thesis using q(1) by blast
qed

text \<open>An identifier without formatted disks comes from the seed, which has written it everywhere.\<close>

lemma boot_fresh:
  assumes "boot_step cfg b = (Some (Ok i), l, p)" "formatted_ids (read_all (br_local b) @ read_all (br_peers b)) = []"
    and "length (bc_local_offsets cfg) = length (br_local b)" "length (bc_peer_offsets cfg) = length (br_peers b)"
  shows "l = map (\<lambda>(d, off). d\<lparr>fd_content := Some (mk_format i (bc_set_drive_count cfg) off)\<rparr>)
      (zip (br_local b) (bc_local_offsets cfg))"
    "p = map (\<lambda>(d, off). d\<lparr>fd_content := Some (mk_format i (bc_set_drive_count cfg) off)\<rparr>)
      (zip (br_peers b) (bc_peer_offsets cfg))"
proof -
  let ?wl = "write_disks i (bc_set_drive_count cfg) (br_local b) (bc_local_offsets cfg)"
  let ?wp = "write_disks i (bc_set_drive_count cfg) (br_peers b) (bc_peer_offsets cfg)"
  have i: "i = br_fresh b" and "fst (write_all_disks i (bc_set_drive_count cfg) (br_local b) (br_peers b)
      (bc_local_offsets cfg) (bc_peer_offsets cfg)) = Ok ()"
    and "snd (write_all_disks i (bc_set_drive_count cfg) (br_local b) (br_peers b)
      (bc_local_offsets cfg) (bc_peer_offsets cfg)) = (l, p)"
    using assms(1,2) by (auto simp: boot_step_def Let_def split: if_splits prod.splits sum.splits)
  then have "fst ?wl = Ok ()" "fst ?wp = Ok ()" "l = snd ?wl" "p = snd ?wp"
    by (auto simp: write_all_disks_def case_prod_beta split: prod.splits sum.splits)
  then show "l = map (\<lambda>(d, off). d\<lparr>fd_content := Some (mk_format i (bc_set_drive_count cfg) off)\<rparr>)
      (zip (br_local b) (bc_local_offsets cfg))"
    "p = map (\<lambda>(d, off). d\<lparr>fd_content := Some (mk_format i (bc_set_drive_count cfg) off)\<rparr>)
      (zip (br_peers b) (bc_peer_offsets cfg))"
    using write_disks_ok assms(3,4) by simp_all
qed

subsection \<open>Properties\<close>

text \<open>
  C15: nodes that see the same disks adopt the same identifier. When two nodes bootstrap on the
  same formatted disks, split between local and remote in whatever way, visited in whatever
  order, and both succeed, they return the same deployment identifier; it is on more than
  half of the formatted disks, and on every readable disk of each of the two nodes.
\<close>

theorem bootstrap_agreement:
  assumes "boot_step cfg1 b1 = (Some (Ok i), l1, p1)" "boot_step cfg2 b2 = (Some (Ok j), l2, p2)"
    and "set (br_order b1) = set (formatted_ids (read_all (br_local b1) @ read_all (br_peers b1)))"
    and "set (br_order b2) = set (formatted_ids (read_all (br_local b2) @ read_all (br_peers b2)))"
    and "mset (br_local b1 @ br_peers b1) = mset (br_local b2 @ br_peers b2)"
    and "formatted_ids (read_all (br_local b1 @ br_peers b1)) \<noteq> []"
  shows "i = j \<and>
    length (formatted_ids (read_all (br_local b1 @ br_peers b1)))
      < 2 * count_list (formatted_ids (read_all (br_local b1 @ br_peers b1))) i \<and>
    (\<forall>d \<in> set (br_local b1 @ br_local b2). fd_read_err d = None \<longrightarrow> (\<exists>f. fd_content d = Some f \<and> fj_id f = i))"
proof -
  have app: "read_all (xs @ ys) = read_all xs @ read_all ys" for xs ys by (simp add: read_all_def)
  have perm: "mset xs = mset ys \<Longrightarrow> mset (formatted_ids (read_all xs)) = mset (formatted_ids (read_all ys))" for xs ys
    by (simp add: formatted_ids_def read_all_def map_filter_def)
  have "mset (formatted_ids (read_all (br_local b1) @ read_all (br_peers b1)))
      = mset (formatted_ids (read_all (br_local b2) @ read_all (br_peers b2)))"
    using perm [OF assms(5)] by (simp add: app)
  moreover obtain ids1 ids2 where ids: "formatted_ids (read_all (br_local b1) @ read_all (br_peers b1)) = ids1"
      "formatted_ids (read_all (br_local b2) @ read_all (br_peers b2)) = ids2" by simp
  ultimately have ms: "mset ids1 = mset ids2" by simp
  then have len: "length ids1 = length ids2" by (rule mset_eq_length)
  have cnt: "count_list ids1 = count_list ids2"
    using ms by (simp add: fun_eq_iff flip: count_mset)
  have ne: "ids1 \<noteq> []" "ids2 \<noteq> []" using assms(6) ids len by (auto simp: app)
  have m1: "length ids1 div 2 + 1 \<le> count_list ids1 i"
    "\<forall>d \<in> set (br_local b1). fd_read_err d = None \<longrightarrow> (\<exists>f. fd_content d = Some f \<and> fj_id f = i)"
    using boot_step_Ok [OF assms(1,3)] ne(1) unfolding ids by blast+
  have m2: "length ids2 div 2 + 1 \<le> count_list ids2 j"
    "\<forall>d \<in> set (br_local b2). fd_read_err d = None \<longrightarrow> (\<exists>f. fd_content d = Some f \<and> fj_id f = j)"
    using boot_step_Ok [OF assms(2,4)] ne(2) unfolding ids by blast+
  have "i = j" using majority_unique [of ids1 i j] m1(1) m2(1) len cnt by simp
  moreover have "length ids1 < 2 * count_list ids1 i" using m1(1) by presburger
  ultimately show ?thesis using m1(2) m2(2) ids(1) by (auto simp: app)
qed

definition example_disk :: "uuid \<Rightarrow> nat \<Rightarrow> fmt_disk" where
  "example_disk i off = \<lparr>fd_content = Some (mk_format i 2 off), fd_read_err = None, fd_write_err = None\<rparr>"

definition example_round :: "fmt_disk list \<Rightarrow> fmt_disk list \<Rightarrow> uuid list \<Rightarrow> boot_round" where
  "example_round l p ord = \<lparr>br_local = l, br_peers = p, br_fresh = 0, br_order = ord, br_now = 0\<rparr>"

definition example_boot :: boot_config where
  "example_boot = \<lparr>bc_local_offsets = [], bc_peer_offsets = [], bc_am_seed = False, bc_set_drive_count = 2,
     bc_timeout = 10, bc_deadline = 10\<rparr>"

lemma example_boot_step:
  "boot_step example_boot (example_round [example_disk 7 1] [example_disk 7 2] [7])
     = (Some (Ok 7), [example_disk 7 1], [example_disk 7 2])"
  "boot_step example_boot (example_round [example_disk 7 2] [example_disk 7 1] [7])
     = (Some (Ok 7), [example_disk 7 2], [example_disk 7 1])"
  by (simp_all add: boot_step_def example_round_def example_disk_def example_boot_def read_all_def
      read_format_def formatted_ids_def map_filter_def mk_format_def vote_majority_def Let_def)

theorem bootstrap_agreement_witness:
  "boot_step example_boot (example_round [example_disk 7 1] [example_disk 7 2] [7])
     = (Some (Ok 7), [example_disk 7 1], [example_disk 7 2]) \<and>
   length (formatted_ids (read_all [example_disk 7 1, example_disk 7 2]))
     < 2 * count_list (formatted_ids (read_all [example_disk 7 1, example_disk 7 2])) 7"
  using bootstrap_agreement [OF example_boot_step] example_boot_step(1)
  by (simp add: example_round_def example_disk_def read_all_def read_format_def formatted_ids_def
      map_filter_def mk_format_def)

text \<open>
  C20: first boot, then any reboot. When the seed's bootstrap of a fresh cluster succeeds, every
  disk carries the drawn identifier under its own offset, and from then on a bootstrap of
  any node on these disks returns it, as long as the disks stay readable.
\<close>

theorem bootstrap_then_reboot:
  assumes "boot_step cfg b = (Some (Ok i), l, p)" "formatted_ids (read_all (br_local b) @ read_all (br_peers b)) = []"
    and "length (bc_local_offsets cfg) = length (br_local b)" "length (bc_peer_offsets cfg) = length (br_peers b)"
    and "br_local b \<noteq> []"
    and "mset (br_local b' @ br_peers b') = mset (l @ p)"
    and "set (br_order b') = set (formatted_ids (read_all (br_local b') @ read_all (br_peers b')))"
    and "\<forall>d \<in> set (br_local b @ br_peers b). fd_read_err d = None"
  shows "map fd_content l = map (Some \<circ> mk_format i (bc_set_drive_count cfg)) (bc_local_offsets cfg) \<and>
    map fd_content p = map (Some \<circ> mk_format i (bc_set_drive_count cfg)) (bc_peer_offsets cfg) \<and>
    boot_step cfg' b' = (Some (Ok i), br_local b', br_peers b')"
proof -
  let ?f = "mk_format i (bc_set_drive_count cfg)"
  note lp = boot_fresh [OF assms(1-4)]
  have cont: "map fd_content (map (\<lambda>(d, off). d\<lparr>fd_content := Some (?f off)\<rparr>) (zip ds offs)) = map (Some \<circ> ?f) offs"
    if "length offs = length ds" for ds :: "fmt_disk list" and offs
    using that by (intro nth_equalityI) auto
  have "\<forall>d \<in> set (l @ p). fd_read_err d = None \<and> (\<exists>f. fd_content d = Some f \<and> fj_id f = i)"
    using assms(8) by (auto simp: lp mk_format_def dest: set_zip_leftD)
  then have "\<forall>d \<in> set (br_local b' @ br_peers b'). fd_read_err d = None \<and> (\<exists>f. fd_content d = Some f \<and> fj_id f = i)"
    using mset_eq_setD [OF assms(6)] by simp
  moreover have "br_local b' \<noteq> [] \<or> br_peers b' \<noteq> []"
    using assms(3,5) mset_eq_length [OF assms(6)] lp by auto
  ultimately have "boot_step cfg' b' = (Some (Ok i), br_local b', br_peers b')"
    by (rule boot_adopts [OF _ _ assms(7)])
  then show ?thesis using cont [OF assms(3)] cont [OF assms(4)] lp by simp
qed

definition fresh_disk :: fmt_disk where
  "fresh_disk = \<lparr>fd_content = None, fd_read_err = None, fd_write_err = None\<rparr>"

definition seed_boot :: boot_config where
  "seed_boot = \<lparr>bc_local_offsets = [1], bc_peer_offsets = [2], bc_am_seed = True, bc_set_drive_count = 2,
     bc_timeout = 10, bc_deadline = 10\<rparr>"

definition seed_round :: boot_round where
  "seed_round = \<lparr>br_local = [fresh_disk], br_peers = [fresh_disk], br_fresh = 7, br_order = [], br_now = 0\<rparr>"

lemma seed_step: "boot_step seed_boot seed_round = (Some (Ok 7), [example_disk 7 1], [example_disk 7 2])"
  by (simp add: boot_step_def seed_boot_def seed_round_def fresh_disk_def example_disk_def read_all_def
      read_format_def formatted_ids_def map_filter_def all_ok_none_def write_all_disks_def write_format_def Let_def)

theorem bootstrap_then_reboot_witness:
  "boot_step example_boot (example_round [example_disk 7 2] [example_disk 7 1] [7])
     = (Some (Ok 7), [example_disk 7 2], [example_disk 7 1])"
  using bootstrap_then_reboot [OF seed_step, of "example_round [example_disk 7 2] [example_disk 7 1] [7]" example_boot]
  by (simp add: seed_round_def seed_boot_def example_round_def example_disk_def fresh_disk_def read_all_def
      read_format_def formatted_ids_def map_filter_def mk_format_def)

end
