(* ===== verification/Posix_Fs.thy ===== *)
theory Posix_Fs
  imports Io_Types "HOL-Library.Sublist"
begin

text \<open>
  The file system calls of the operating system that a drive uses, with POSIX semantics on a tree
  of directories and files, and the way the source strings them together.

  \<^item> A path is the list of its components below the drive root; the components \<open>.\<close> and \<open>..\<close> are
    not interpreted. The tree is a list of paths with their nodes, in the order in which a directory
    scan reports them; the root itself always exists.
  \<^item> Every call consults a schedule of faults: a scheduled call fails with an I/O error and has no
    effect, except that a failing write may leave a prefix of its data. A schedule on which every
    call fails from some point on describes a crash at that point.
  \<^item> An action maps the drive to a result and the drive afterwards; \<open>then_do\<close> is sequencing with the
    question-mark operator, \<open>try_do\<close> hands the result to a \<open>match\<close>.
\<close>

subsection \<open>The tree\<close>

datatype node = Dir | File "byte list"

type_synonym fs_path = "string list"
type_synonym tree = "(fs_path \<times> node) list"

datatype os_error = ENOENT | EEXIST | ENOTDIR | EISDIR | ENOTEMPTY | EINVAL | EIO string

fun os_kind :: "os_error \<Rightarrow> io_kind" where
  "os_kind ENOENT = NotFound"
| "os_kind EEXIST = AlreadyExists"
| "os_kind EINVAL = InvalidInput"
| "os_kind _ = OtherKind"

fun os_msg :: "os_error \<Rightarrow> string" where
  "os_msg ENOENT = ''No such file or directory (os error 2)''"
| "os_msg EEXIST = ''File exists (os error 17)''"
| "os_msg ENOTDIR = ''Not a directory (os error 20)''"
| "os_msg EISDIR = ''Is a directory (os error 21)''"
| "os_msg ENOTEMPTY = ''Directory not empty (os error 39)''"
| "os_msg EINVAL = ''Invalid argument (os error 22)''"
| "os_msg (EIO m) = m"

definition io_of :: "os_error \<Rightarrow> io_error" where
  "io_of e = Io (os_kind e) (os_msg e)"

definition lookup_node :: "tree \<Rightarrow> fs_path \<Rightarrow> node option" where
  "lookup_node t p = (if p = [] then Some Dir else map_of t p)"

definition set_node :: "fs_path \<Rightarrow> node \<Rightarrow> tree \<Rightarrow> tree" where
  "set_node p n t = (p, n) # filter (\<lambda>e. fst e \<noteq> p) t"

definition del_node :: "fs_path \<Rightarrow> tree \<Rightarrow> tree" where
  "del_node p t = filter (\<lambda>e. fst e \<noteq> p) t"

text \<open>Resolving the directories above a path: the error of the first one that is not there.\<close>

fun walk_err :: "tree \<Rightarrow> fs_path \<Rightarrow> fs_path \<Rightarrow> os_error option" where
  "walk_err t q [] = None"
| "walk_err t q (x # xs) =
     (case lookup_node t q of
        None \<Rightarrow> Some ENOENT
      | Some (File _) \<Rightarrow> Some ENOTDIR
      | Some Dir \<Rightarrow> walk_err t (q @ [x]) xs)"

definition stat :: "tree \<Rightarrow> fs_path \<Rightarrow> (node, os_error) result" where
  "stat t p =
     (case walk_err t [] p of
        Some e \<Rightarrow> Err e
      | None \<Rightarrow> ok_or ENOENT (lookup_node t p))"

definition children :: "tree \<Rightarrow> fs_path \<Rightarrow> string list" where
  "children t p = List.map_filter (\<lambda>(q, n). if q \<noteq> [] \<and> butlast q = p then Some (last q) else None) t"

definition has_children :: "tree \<Rightarrow> fs_path \<Rightarrow> bool" where
  "has_children t p = list_ex (\<lambda>(q, n). q \<noteq> [] \<and> butlast q = p) t"

definition read_file_at :: "tree \<Rightarrow> fs_path \<Rightarrow> (byte list, os_error) result" where
  "read_file_at t p =
     and_then (stat t p) (\<lambda>n. case n of Dir \<Rightarrow> Err EISDIR | File bs \<Rightarrow> Ok bs)"

definition read_dir_at :: "tree \<Rightarrow> fs_path \<Rightarrow> (string list, os_error) result" where
  "read_dir_at t p =
     and_then (stat t p) (\<lambda>n. case n of Dir \<Rightarrow> Ok (children t p) | File _ \<Rightarrow> Err ENOTDIR)"

definition mkdir_at :: "fs_path \<Rightarrow> tree \<Rightarrow> (unit, os_error) result \<times> tree" where
  "mkdir_at p t =
     (case walk_err t [] p of
        Some e \<Rightarrow> (Err e, t)
      | None \<Rightarrow> if lookup_node t p \<noteq> None then (Err EEXIST, t) else (Ok (), set_node p Dir t))"

definition rmdir_at :: "fs_path \<Rightarrow> tree \<Rightarrow> (unit, os_error) result \<times> tree" where
  "rmdir_at p t =
     (case stat t p of
        Inl e \<Rightarrow> (Err e, t)
      | Inr (File _) \<Rightarrow> (Err ENOTDIR, t)
      | Inr Dir \<Rightarrow> if p = [] then (Err EINVAL, t)
                  else if has_children t p then (Err ENOTEMPTY, t) else (Ok (), del_node p t))"

definition unlink_at :: "fs_path \<Rightarrow> tree \<Rightarrow> (unit, os_error) result \<times> tree" where
  "unlink_at p t =
     (case stat t p of
        Inl e \<Rightarrow> (Err e, t)
      | Inr Dir \<Rightarrow> (Err EISDIR, t)
      | Inr (File _) \<Rightarrow> (Ok (), del_node p t))"

text \<open>Moving everything at and below \<open>src\<close> to \<open>dst\<close>, replacing what is there.\<close>

definition move_tree :: "fs_path \<Rightarrow> fs_path \<Rightarrow> tree \<Rightarrow> tree" where
  "move_tree src dst t =
     List.map_filter (\<lambda>(q, n). if prefix src q then Some (dst @ drop (length src) q, n)
                               else if prefix dst q then None else Some (q, n)) t"

definition rename_at :: "fs_path \<Rightarrow> fs_path \<Rightarrow> tree \<Rightarrow> (unit, os_error) result \<times> tree" where
  "rename_at src dst t =
     (case stat t src of
        Inl e \<Rightarrow> (Err e, t)
      | Inr n \<Rightarrow>
          (case walk_err t [] dst of
             Some e \<Rightarrow> (Err e, t)
           | None \<Rightarrow>
               if src = dst then (Ok (), t)
               else if prefix src dst then (Err EINVAL, t)
               else if prefix dst src then (Err ENOTEMPTY, t)
               else (case (n, lookup_node t dst) of
                       (Dir, Some (File _)) \<Rightarrow> (Err ENOTDIR, t)
                     | (File _, Some Dir) \<Rightarrow> (Err EISDIR, t)
                     | (Dir, Some Dir) \<Rightarrow> if has_children t dst then (Err ENOTEMPTY, t)
                                          else (Ok (), move_tree src dst t)
                     | _ \<Rightarrow> (Ok (), move_tree src dst t))))"

text \<open>Opening for writing with \<open>create\<close> and \<open>truncate\<close>, or with \<open>create_new\<close>; writing at an offset.\<close>

definition open_trunc_at :: "fs_path \<Rightarrow> tree \<Rightarrow> (unit, os_error) result \<times> tree" where
  "open_trunc_at p t =
     (case walk_err t [] p of
        Some e \<Rightarrow> (Err e, t)
      | None \<Rightarrow> if lookup_node t p = Some Dir then (Err EISDIR, t) else (Ok (), set_node p (File []) t))"

definition open_new_at :: "fs_path \<Rightarrow> tree \<Rightarrow> (unit, os_error) result \<times> tree" where
  "open_new_at p t =
     (case walk_err t [] p of
        Some e \<Rightarrow> (Err e, t)
      | None \<Rightarrow> if lookup_node t p \<noteq> None then (Err EEXIST, t) else (Ok (), set_node p (File []) t))"

definition overwrite :: "nat \<Rightarrow> byte list \<Rightarrow> byte list \<Rightarrow> byte list" where
  "overwrite off bs old =
     take off old @ replicate (off - length old) 0 @ bs @ drop (off + length bs) old"

definition pwrite_at :: "fs_path \<Rightarrow> nat \<Rightarrow> byte list \<Rightarrow> tree \<Rightarrow> tree" where
  "pwrite_at p off bs t =
     (case lookup_node t p of
        Some (File old) \<Rightarrow> set_node p (File (overwrite off bs old)) t
      | _ \<Rightarrow> t)"

subsection \<open>Drives and actions\<close>

record disk =
  dk_tree :: tree
  dk_calls :: nat
  dk_faults :: "nat \<Rightarrow> (string \<times> nat) option"
  dk_names :: "nat \<Rightarrow> string"

type_synonym ('a, 'e) act = "disk \<Rightarrow> ('a, 'e) result \<times> disk"

definition ret :: "'a \<Rightarrow> ('a, 'e) act" where
  "ret x d = (Ok x, d)"

definition raise :: "'e \<Rightarrow> ('a, 'e) act" where
  "raise e d = (Err e, d)"

definition of_result :: "('a, 'e) result \<Rightarrow> ('a, 'e) act" where
  "of_result r d = (r, d)"

definition then_do :: "('a, 'e) act \<Rightarrow> ('a \<Rightarrow> ('b, 'e) act) \<Rightarrow> ('b, 'e) act" where
  "then_do m f d = (case m d of (Inl e, d1) \<Rightarrow> (Err e, d1) | (Inr x, d1) \<Rightarrow> f x d1)"

definition try_do :: "('a, 'e) act \<Rightarrow> (('a, 'e) result \<Rightarrow> ('b, 'f) act) \<Rightarrow> ('b, 'f) act" where
  "try_do m f d = (case m d of (r, d1) \<Rightarrow> f r d1)"

definition map_err_do :: "('e \<Rightarrow> 'f) \<Rightarrow> ('a, 'e) act \<Rightarrow> ('a, 'f) act" where
  "map_err_do g m d = (case m d of (r, d1) \<Rightarrow> (map_err g r, d1))"

abbreviation io_do :: "('a, os_error) act \<Rightarrow> ('a, io_error) act" where
  "io_do \<equiv> map_err_do io_of"

text \<open>One call: a scheduled fault, or the effect on the tree.\<close>

definition sys :: "(tree \<Rightarrow> ('a, os_error) result \<times> tree) \<Rightarrow> ('a, os_error) act" where
  "sys f d =
     (case dk_faults d (dk_calls d) of
        Some (m, _) \<Rightarrow> (Err (EIO m), d\<lparr>dk_calls := Suc (dk_calls d)\<rparr>)
      | None \<Rightarrow>
          (case f (dk_tree d) of
             (r, t) \<Rightarrow> (r, d\<lparr>dk_tree := t, dk_calls := Suc (dk_calls d)\<rparr>)))"

definition query :: "(tree \<Rightarrow> ('a, os_error) result) \<Rightarrow> ('a, os_error) act" where
  "query f = sys (\<lambda>t. (f t, t))"

definition fs_pwrite :: "fs_path \<Rightarrow> nat \<Rightarrow> byte list \<Rightarrow> (unit, os_error) act" where
  "fs_pwrite p off bs d =
     (case dk_faults d (dk_calls d) of
        Some (m, k) \<Rightarrow> (Err (EIO m), d\<lparr>dk_tree := pwrite_at p off (take k bs) (dk_tree d), dk_calls := Suc (dk_calls d)\<rparr>)
      | None \<Rightarrow> (Ok (), d\<lparr>dk_tree := pwrite_at p off bs (dk_tree d), dk_calls := Suc (dk_calls d)\<rparr>))"

text \<open>A random name, \<open>Uuid::new_v4().simple()\<close>.\<close>

definition fresh_name :: "disk \<Rightarrow> string" where
  "fresh_name d = dk_names d (dk_calls d)"

definition fs_stat :: "fs_path \<Rightarrow> (node, os_error) act" where
  "fs_stat p = query (\<lambda>t. stat t p)"

definition fs_read :: "fs_path \<Rightarrow> (byte list, os_error) act" where
  "fs_read p = query (\<lambda>t. read_file_at t p)"

definition fs_read_dir :: "fs_path \<Rightarrow> (string list, os_error) act" where
  "fs_read_dir p = query (\<lambda>t. read_dir_at t p)"

definition fs_mkdir :: "fs_path \<Rightarrow> (unit, os_error) act" where
  "fs_mkdir p = sys (mkdir_at p)"

definition fs_rmdir :: "fs_path \<Rightarrow> (unit, os_error) act" where
  "fs_rmdir p = sys (rmdir_at p)"

definition fs_unlink :: "fs_path \<Rightarrow> (unit, os_error) act" where
  "fs_unlink p = sys (unlink_at p)"

definition fs_rename :: "fs_path \<Rightarrow> fs_path \<Rightarrow> (unit, os_error) act" where
  "fs_rename src dst = sys (rename_at src dst)"

definition fs_open_trunc :: "fs_path \<Rightarrow> (unit, os_error) act" where
  "fs_open_trunc p = sys (open_trunc_at p)"

definition fs_open_new :: "fs_path \<Rightarrow> (unit, os_error) act" where
  "fs_open_new p = sys (open_new_at p)"

text \<open>\<open>sync_all\<close> and \<open>close\<close> of an open file change nothing that a running system can see.\<close>

definition fs_sync :: "(unit, os_error) act" where
  "fs_sync = query (\<lambda>t. Ok ())"

text \<open>\<open>create_dir_all\<close>: the missing directories from the root down; one that exists is no error.\<close>

fun mkdirs :: "fs_path \<Rightarrow> fs_path \<Rightarrow> (unit, os_error) act" where
  "mkdirs q [] = ret ()"
| "mkdirs q (x # xs) =
     try_do (fs_mkdir (q @ [x])) (\<lambda>r. case r of
       Inr _ \<Rightarrow> mkdirs (q @ [x]) xs
     | Inl e \<Rightarrow> try_do (fs_stat (q @ [x])) (\<lambda>s. case s of
         Inr Dir \<Rightarrow> mkdirs (q @ [x]) xs
       | _ \<Rightarrow> raise e))"

definition fs_create_dir_all :: "fs_path \<Rightarrow> (unit, os_error) act" where
  "fs_create_dir_all p = mkdirs [] p"

subsection \<open>Lookup\<close>

lemma lookup_root [simp]: "lookup_node t [] = Some Dir"
  by (simp add: lookup_node_def)

lemma lookup_set_node [simp]:
  "p \<noteq> [] \<Longrightarrow> lookup_node (set_node p n t) q = (if q = p then Some n else lookup_node t q)"
  by (simp add: lookup_node_def set_node_def map_of_filter_neq)

lemma lookup_del_node [simp]:
  "p \<noteq> [] \<Longrightarrow> lookup_node (del_node p t) q = (if q = p then None else lookup_node t q)"
  by (simp add: lookup_node_def del_node_def map_of_filter_neq)

lemma drop_prefix: "prefix p q \<Longrightarrow> p @ drop (length p) q = q"
  by (auto elim: prefixE)

lemma lookup_move_tree:
  assumes "src \<noteq> []" "dst \<noteq> []" "\<not> prefix dst src" "\<not> prefix src dst"
  shows "lookup_node (move_tree src dst t) q =
    (if prefix dst q then lookup_node t (src @ drop (length dst) q)
     else if prefix src q then None else lookup_node t q)"
proof (cases "q = []")
  case True
  with assms show ?thesis by (simp add: lookup_node_def)
next
  case False
  have "map_of (move_tree src dst t) q =
    (if prefix dst q then map_of t (src @ drop (length dst) q) else if prefix src q then None else map_of t q)"
  proof (induction t)
    case (Cons e t)
    obtain p n where e: "e = (p, n)" by fastforce
    have tail: "move_tree src dst ((p, n) # t) = (if prefix src p then [(dst @ drop (length src) p, n)]
        else if prefix dst p then [] else [(p, n)]) @ move_tree src dst t"
      by (simp add: move_tree_def List.map_filter_simps)
    have src: "prefix src (src @ drop (length dst) q)" by simp
    have same: "prefix src q \<Longrightarrow> \<not> prefix dst q" using assms(3,4) prefix_same_cases by blast
    show ?case
    proof (cases "prefix src p")
      case True
      then have "dst @ drop (length src) p = q \<longleftrightarrow> prefix dst q \<and> p = src @ drop (length dst) q"
        by (metis append_eq_conv_conj drop_prefix prefixI)
      with True Cons same show ?thesis unfolding e tail by auto
    next
      case False
      with src have "p \<noteq> src @ drop (length dst) q" by metis
      with False Cons same show ?thesis unfolding e tail by auto
    qed
  qed (simp add: move_tree_def List.map_filter_simps)
  with False assms(1) show ?thesis by (simp add: lookup_node_def)
qed

lemma has_children_iff: "has_children t p \<longleftrightarrow> (\<exists>x. lookup_node t (p @ [x]) \<noteq> None)"
proof
  assume "has_children t p"
  then obtain q n where q: "(q, n) \<in> set t" "q \<noteq> []" "butlast q = p" by (auto simp: has_children_def list_ex_iff)
  then have "q = p @ [last q]" by (metis append_butlast_last_id)
  with q(1) have "map_of t (p @ [last q]) \<noteq> None" by (metis map_of_eq_None_iff image_eqI fst_conv)
  then show "\<exists>x. lookup_node t (p @ [x]) \<noteq> None" by (auto simp: lookup_node_def)
next
  assume "\<exists>x. lookup_node t (p @ [x]) \<noteq> None"
  then obtain x n where "map_of t (p @ [x]) = Some n" by (auto simp: lookup_node_def)
  then have "(p @ [x], n) \<in> set t" by (rule map_of_SomeD)
  then show "has_children t p" by (force simp: has_children_def list_ex_iff)
qed

text \<open>In a well-formed tree every node lies in a directory.\<close>

definition wf_tree :: "tree \<Rightarrow> bool" where
  "wf_tree t \<longleftrightarrow> (\<forall>p x. lookup_node t (p @ [x]) \<noteq> None \<longrightarrow> lookup_node t p = Some Dir)"

lemma wf_prefix_Dir:
  assumes "wf_tree t" "lookup_node t (p @ zs) \<noteq> None" "zs \<noteq> []"
  shows "lookup_node t p = Some Dir"
  using assms(2,3)
proof (induction zs rule: rev_induct)
  case (snoc x xs)
  then have "lookup_node t (p @ xs) = Some Dir" using assms(1) by (auto simp: wf_tree_def simp flip: append_assoc)
  with snoc show ?case by (cases "xs = []") auto
qed simp

lemma walk_err_None:
  "walk_err t q xs = None \<longleftrightarrow> (\<forall>i < length xs. lookup_node t (q @ take i xs) = Some Dir)"
proof (induction xs arbitrary: q)
  case (Cons x xs)
  show ?case
  proof (cases "lookup_node t q = Some Dir")
    case True
    with Cons [of "q @ [x]"] show ?thesis by (auto simp: All_less_Suc2)
  next
    case False
    then have "walk_err t q (x # xs) \<noteq> None" by (auto split: option.splits node.splits)
    with False show ?thesis by (auto intro!: exI [of _ 0])
  qed
qed simp

lemma walk_err_parent:
  assumes "wf_tree t" "p \<noteq> []"
  shows "walk_err t [] p = None \<longleftrightarrow> lookup_node t (butlast p) = Some Dir"
proof
  assume "walk_err t [] p = None"
  then have "lookup_node t ([] @ take (length p - 1) p) = Some Dir" using assms(2) unfolding walk_err_None by simp
  then show "lookup_node t (butlast p) = Some Dir" by (simp add: butlast_conv_take)
next
  assume d: "lookup_node t (butlast p) = Some Dir"
  have "lookup_node t (take i p) = Some Dir" if "i < length p" for i
  proof (cases "i = length p - 1")
    case True
    with d show ?thesis by (simp add: butlast_conv_take)
  next
    case False
    with that have "drop i (butlast p) \<noteq> []" by simp
    moreover have "butlast p = take i p @ drop i (butlast p)"
      by (metis append_take_drop_id take_butlast that)
    ultimately show ?thesis using wf_prefix_Dir [OF assms(1)] d by (metis option.distinct(1))
  qed
  then show "walk_err t [] p = None" unfolding walk_err_None by simp
qed

lemma stat_OkD: "stat t p = Ok n \<Longrightarrow> lookup_node t p = Some n"
  by (auto simp: stat_def ok_or_eq_Ok split: option.splits)

lemma stat_Ok_iff:
  assumes "wf_tree t"
  shows "stat t p = Ok n \<longleftrightarrow> lookup_node t p = Some n"
proof (cases "p = []")
  case False
  show ?thesis
  proof
    assume "lookup_node t p = Some n"
    moreover from this have "lookup_node t (butlast p) = Some Dir"
      using assms False unfolding wf_tree_def by (metis append_butlast_last_id option.distinct(1))
    ultimately show "stat t p = Ok n" using walk_err_parent [OF assms False] by (simp add: stat_def)
  qed (auto simp: stat_def ok_or_eq_Ok split: option.splits)
qed (auto simp: stat_def)

subsection \<open>What a call leaves alone\<close>

definition file_at :: "tree \<Rightarrow> fs_path \<Rightarrow> byte list option" where
  "file_at t p = (case lookup_node t p of Some (File bs) \<Rightarrow> Some bs | _ \<Rightarrow> None)"

lemma file_at_Some: "file_at t p = Some bs \<longleftrightarrow> lookup_node t p = Some (File bs)"
  by (auto simp: file_at_def split: option.splits node.splits)

lemma read_file_at_Ok:
  assumes "wf_tree t"
  shows "read_file_at t p = Ok bs \<longleftrightarrow> file_at t p = Some bs"
proof (cases "stat t p")
  case (Inl e)
  then have "lookup_node t p = None" using stat_Ok_iff [OF assms, of p] by (cases "lookup_node t p") auto
  with Inl show ?thesis by (simp add: read_file_at_def file_at_def)
next
  case (Inr n)
  then have "lookup_node t p = Some n" using stat_Ok_iff [OF assms] by simp
  with Inr show ?thesis by (cases n) (simp_all add: read_file_at_def file_at_def)
qed

text \<open>A call keeps the tree well-formed and the files outside of its footprint as they are.\<close>

definition tree_frame :: "(fs_path \<Rightarrow> bool) \<Rightarrow> tree \<Rightarrow> tree \<Rightarrow> bool" where
  "tree_frame A t t' \<longleftrightarrow> (wf_tree t \<longrightarrow> wf_tree t') \<and> (wf_tree t \<longrightarrow> (\<forall>p. \<not> A p \<longrightarrow> file_at t' p = file_at t p))"

lemma tree_frame_refl [simp]: "tree_frame A t t"
  by (simp add: tree_frame_def)

lemma tree_frame_set:
  assumes "p \<noteq> []" "walk_err t [] p = None" "lookup_node t p \<noteq> Some Dir" "n = Dir \<longrightarrow> lookup_node t p = None"
    and "n \<noteq> Dir \<longrightarrow> A p"
  shows "tree_frame A t (set_node p n t)"
proof -
  have no: "lookup_node t (p @ [x]) = None" if "wf_tree t" for x
    using that assms(3) unfolding wf_tree_def by blast
  have "wf_tree (set_node p n t)" if wf: "wf_tree t"
  proof -
    have "lookup_node t (butlast p) = Some Dir" using walk_err_parent [OF wf assms(1)] assms(2) by simp
    then show ?thesis using wf no [OF wf] assms(1) unfolding wf_tree_def by (auto split: if_splits)
  qed
  moreover have "file_at (set_node p n t) q = file_at t q" if "wf_tree t" "\<not> A q" for q
    using assms(1,4,5) that by (cases "q = p") (auto simp: file_at_def split: option.splits node.splits)
  ultimately show ?thesis by (simp add: tree_frame_def)
qed

lemma tree_frame_del:
  assumes "p \<noteq> []" "wf_tree t \<Longrightarrow> \<not> has_children t p" "file_at t p \<noteq> None \<longrightarrow> A p"
  shows "tree_frame A t (del_node p t)"
proof -
  have "wf_tree (del_node p t)" if "wf_tree t"
    using that assms(1) assms(2) [OF that] unfolding wf_tree_def has_children_iff by (metis lookup_del_node)
  moreover have "file_at (del_node p t) q = file_at t q" if "\<not> A q" for q
    using assms(1,3) that by (cases "q = p") (auto simp: file_at_def)
  ultimately show ?thesis by (simp add: tree_frame_def)
qed

lemma wf_move_tree:
  assumes "wf_tree t" "src \<noteq> []" "dst \<noteq> []" "\<not> prefix src dst" "\<not> prefix dst src" "lookup_node t (butlast dst) = Some Dir"
  shows "wf_tree (move_tree src dst t)"
  unfolding wf_tree_def
proof (intro allI impI)
  fix q x
  assume ex: "lookup_node (move_tree src dst t) (q @ [x]) \<noteq> None"
  note look = lookup_move_tree [OF assms(2,3,5,4), of t]
  show "lookup_node (move_tree src dst t) q = Some Dir"
  proof (cases "q @ [x] = dst")
    case True
    then have "q = butlast dst" by auto
    moreover have "\<not> prefix dst q" "\<not> prefix src q" using True assms(4) by (auto simp: prefix_def)
    ultimately show ?thesis using look [of q] assms(6) by simp
  next
    case False
    show ?thesis
    proof (cases "prefix dst q")
      case True
      then have "lookup_node t (src @ drop (length dst) q @ [x]) \<noteq> None"
        using ex look [of "q @ [x]"] prefix_length_le [OF True] by simp
      with assms(1) have "lookup_node t (src @ drop (length dst) q) = Some Dir"
        unfolding wf_tree_def by (metis append_assoc)
      with True show ?thesis using look [of q] by simp
    next
      case np: False
      with False have "\<not> prefix dst (q @ [x])" by simp
      then have "\<not> prefix src (q @ [x])" "lookup_node t (q @ [x]) \<noteq> None" using ex look [of "q @ [x]"] by (auto split: if_splits)
      then show ?thesis using look [of q] np assms(1) unfolding wf_tree_def by auto
    qed
  qed
qed

lemma tree_frame_move:
  assumes "src \<noteq> []" "dst \<noteq> []" "\<not> prefix src dst" "\<not> prefix dst src" "walk_err t [] dst = None"
    and "\<And>q. prefix src q \<or> prefix dst q \<Longrightarrow> A q"
  shows "tree_frame A t (move_tree src dst t)"
proof -
  have "wf_tree (move_tree src dst t)" if "wf_tree t"
    using wf_move_tree assms(1-4) that walk_err_parent [OF that assms(2)] assms(5) by blast
  moreover have "file_at (move_tree src dst t) q = file_at t q" if "\<not> A q" for q
    using lookup_move_tree [OF assms(1,2,4,3), of t q] assms(6) [of q] that by (auto simp: file_at_def)
  ultimately show ?thesis by (simp add: tree_frame_def)
qed

lemma mkdir_frame: "tree_frame A t (snd (mkdir_at p t))"
  by (auto simp: mkdir_at_def split: option.splits intro!: tree_frame_set)

lemma open_trunc_frame: "A p \<Longrightarrow> tree_frame A t (snd (open_trunc_at p t))"
  by (auto simp: open_trunc_at_def split: option.splits intro!: tree_frame_set)

lemma open_new_frame: "A p \<Longrightarrow> tree_frame A t (snd (open_new_at p t))"
  by (auto simp: open_new_at_def split: option.splits intro!: tree_frame_set)

lemma rmdir_frame: "tree_frame A t (snd (rmdir_at p t))"
  by (auto simp: rmdir_at_def file_at_def split: option.splits sum.splits node.splits intro!: tree_frame_del
      dest!: stat_OkD)

lemma wf_file_no_children: "wf_tree t \<Longrightarrow> lookup_node t p = Some (File bs) \<Longrightarrow> \<not> has_children t p"
  unfolding has_children_iff wf_tree_def by (metis node.distinct(1) option.inject)

lemma unlink_frame: "A p \<Longrightarrow> tree_frame A t (snd (unlink_at p t))"
proof (cases "stat t p")
  case (Inr n)
  assume A: "A p"
  show ?thesis
  proof (cases n)
    case (File bs)
    then have "lookup_node t p = Some (File bs)" using Inr stat_OkD by simp
    then have "tree_frame A t (del_node p t)"
      using A wf_file_no_children [of t p bs] by (intro tree_frame_del) (auto simp: lookup_node_def)
    with File Inr show ?thesis by (simp add: unlink_at_def)
  qed (simp add: unlink_at_def Inr)
qed (simp add: unlink_at_def)

lemma rename_at_cases:
  obtains (fail) e where "rename_at src dst t = (Err e, t)"
  | (same) n where "rename_at src dst t = (Ok (), t)" "src = dst" "lookup_node t src = Some n"
  | (moved) n where "rename_at src dst t = (Ok (), move_tree src dst t)" "lookup_node t src = Some n" "src \<noteq> []" "dst \<noteq> []"
      "\<not> prefix src dst" "\<not> prefix dst src" "walk_err t [] dst = None"
proof (cases "stat t src")
  case (Inl e)
  then show thesis using fail by (simp add: rename_at_def)
next
  case (Inr n)
  note look = stat_OkD [OF Inr]
  show thesis
  proof (cases "walk_err t [] dst")
    case (Some e)
    then show thesis using fail Inr by (simp add: rename_at_def)
  next
    case None
    consider "src = dst" | "src \<noteq> dst" "prefix src dst" | "src \<noteq> dst" "\<not> prefix src dst" "prefix dst src"
      | "src \<noteq> dst" "\<not> prefix src dst" "\<not> prefix dst src" by blast
    then show thesis
    proof cases
      case 4
      then have ne: "src \<noteq> []" "dst \<noteq> []" by auto
      have "(\<exists>e. rename_at src dst t = (Err e, t)) \<or> rename_at src dst t = (Ok (), move_tree src dst t)"
        using 4 Inr None by (auto simp: rename_at_def split: node.splits option.splits)
      then show thesis using fail moved look ne 4 None by blast
    qed (use same fail look Inr None in \<open>auto simp: rename_at_def\<close>)
  qed
qed

lemma rename_frame:
  assumes "\<And>q. prefix src q \<or> prefix dst q \<Longrightarrow> A q"
  shows "tree_frame A t (snd (rename_at src dst t))"
  by (cases rule: rename_at_cases [of src dst t]) (simp_all add: tree_frame_move assms)

lemma pwrite_frame: "A p \<Longrightarrow> tree_frame A t (pwrite_at p off bs t)"
proof (cases "file_at t p")
  case (Some old)
  assume A: "A p"
  have p: "lookup_node t p = Some (File old)" "p \<noteq> []" using Some by (auto simp: file_at_Some lookup_node_def)
  have "wf_tree (set_node p (File b) t)" if w: "wf_tree t" for b
    using w wf_file_no_children [OF w p(1)] p unfolding wf_tree_def has_children_iff by (auto split: if_splits)
  then have "tree_frame A t (set_node p (File (overwrite off bs old)) t)"
    using p A by (auto simp: tree_frame_def file_at_def)
  with p show ?thesis by (simp add: pwrite_at_def)
qed (auto simp: pwrite_at_def file_at_def split: option.splits node.splits)

subsection \<open>What an action leaves alone\<close>

definition keeps :: "(disk \<Rightarrow> disk \<Rightarrow> bool) \<Rightarrow> ('a, 'e) act \<Rightarrow> bool" where
  "keeps R m \<longleftrightarrow> (\<forall>d. R d (snd (m d)))"

named_theorems keeps_intros \<open>an action respects a relation between drives\<close>

text \<open>Every preorder on drives that the calls of an action respect is respected by the action.\<close>

locale disk_preorder =
  fixes R :: "disk \<Rightarrow> disk \<Rightarrow> bool"
  assumes reflexive: "R d d"
    and transitive: "R d d1 \<Longrightarrow> R d1 d2 \<Longrightarrow> R d d2"
begin

lemma keeps_ret: "keeps R (ret x)"
  by (simp add: keeps_def ret_def reflexive)

lemma keeps_raise: "keeps R (raise x)"
  by (simp add: keeps_def raise_def reflexive)

lemma keeps_of_result: "keeps R (of_result x)"
  by (simp add: keeps_def of_result_def reflexive)

lemma keeps_then: "keeps R m \<Longrightarrow> (\<And>x. keeps R (f x)) \<Longrightarrow> keeps R (then_do m f)"
  unfolding keeps_def then_do_def
  by (auto split: prod.splits sum.splits intro: transitive) (metis snd_conv transitive)+

lemma keeps_try: "keeps R m \<Longrightarrow> (\<And>x. keeps R (f x)) \<Longrightarrow> keeps R (try_do m f)"
  unfolding keeps_def try_do_def by (auto split: prod.splits) (metis snd_conv transitive)

lemma keeps_map_err: "keeps R m \<Longrightarrow> keeps R (map_err_do g m)"
  unfolding keeps_def map_err_do_def by (auto split: prod.splits) (metis snd_conv)

lemmas keeps_combinators = keeps_ret keeps_raise keeps_of_result keeps_then keeps_try keeps_map_err

end

definition frame :: "(fs_path \<Rightarrow> bool) \<Rightarrow> disk \<Rightarrow> disk \<Rightarrow> bool" where
  "frame A d d' \<longleftrightarrow> dk_faults d' = dk_faults d \<and> dk_names d' = dk_names d \<and> dk_calls d \<le> dk_calls d' \<and>
     tree_frame A (dk_tree d) (dk_tree d')"

interpretation frame: disk_preorder "frame A" for A
  by unfold_locales (auto simp: frame_def tree_frame_def)

lemma keeps_sys: "(\<And>t. tree_frame A t (snd (f t))) \<Longrightarrow> keeps (frame A) (sys f)"
  unfolding keeps_def frame_def sys_def by (auto split: option.splits prod.splits) (metis snd_conv)

lemma keeps_query: "keeps (frame A) (query f)"
  unfolding query_def by (rule keeps_sys) simp

lemma keeps_pwrite: "A p \<Longrightarrow> keeps (frame A) (fs_pwrite p off bs)"
  unfolding keeps_def frame_def fs_pwrite_def by (auto simp: pwrite_frame split: option.splits)

lemma keeps_calls:
  "keeps (frame A) (fs_stat p)" "keeps (frame A) (fs_read p)" "keeps (frame A) (fs_read_dir p)" "keeps (frame A) fs_sync"
  "keeps (frame A) (fs_mkdir p)" "keeps (frame A) (fs_rmdir p)"
  by (simp_all add: fs_stat_def fs_read_def fs_read_dir_def fs_sync_def fs_mkdir_def fs_rmdir_def keeps_query keeps_sys
      mkdir_frame rmdir_frame)

lemma keeps_changes:
  "A p \<Longrightarrow> keeps (frame A) (fs_unlink p)" "A p \<Longrightarrow> keeps (frame A) (fs_open_trunc p)"
  "A p \<Longrightarrow> keeps (frame A) (fs_open_new p)"
  by (simp_all add: fs_unlink_def fs_open_trunc_def fs_open_new_def keeps_sys unlink_frame open_trunc_frame open_new_frame)

lemma keeps_rename: "(\<And>q. prefix src q \<or> prefix dst q \<Longrightarrow> A q) \<Longrightarrow> keeps (frame A) (fs_rename src dst)"
  unfolding fs_rename_def by (rule keeps_sys) (rule rename_frame)

lemma keeps_mkdirs: "keeps (frame A) (mkdirs q xs)"
  by (induction q xs rule: mkdirs.induct)
    (auto intro!: frame.keeps_combinators keeps_calls split: sum.split node.split)

lemma keeps_create_dir_all: "keeps (frame A) (fs_create_dir_all p)"
  by (simp add: fs_create_dir_all_def keeps_mkdirs)

declare frame.keeps_combinators [keeps_intros] keeps_calls [keeps_intros] keeps_changes [keeps_intros]
  keeps_pwrite [keeps_intros] keeps_create_dir_all [keeps_intros]

lemma keepsD: "keeps (frame A) m \<Longrightarrow> m d = (r, d') \<Longrightarrow> frame A d d'"
  unfolding keeps_def by (metis snd_conv)

lemma frame_file: "frame A d d' \<Longrightarrow> wf_tree (dk_tree d) \<Longrightarrow> \<not> A p \<Longrightarrow> file_at (dk_tree d') p = file_at (dk_tree d) p"
  by (simp add: frame_def tree_frame_def)

lemma frame_wf: "frame A d d' \<Longrightarrow> wf_tree (dk_tree d) \<Longrightarrow> wf_tree (dk_tree d')"
  by (simp add: frame_def tree_frame_def)

subsection \<open>Effects of successful calls\<close>

lemma then_do_Ok:
  "then_do m f d = (Ok y, d2) \<longleftrightarrow> (\<exists>x d1. m d = (Ok x, d1) \<and> f x d1 = (Ok y, d2))"
  by (auto simp: then_do_def split: prod.splits sum.splits)

lemma then_do_assoc: "then_do (then_do m f) g = then_do m (\<lambda>x. then_do (f x) g)"
  by (auto simp: then_do_def split: prod.splits sum.splits)

lemma map_err_do_Ok: "map_err_do g m d = (Ok y, d1) \<longleftrightarrow> m d = (Ok y, d1)"
  by (auto simp: map_err_do_def map_err_eq_Ok split: prod.splits)

lemma query_Ok: "query f d = (Ok x, d1) \<Longrightarrow> f (dk_tree d) = Ok x \<and> dk_tree d1 = dk_tree d"
  by (auto simp: query_def sys_def split: option.splits)

lemma query_tree: "query f d = (r, d1) \<Longrightarrow> dk_tree d1 = dk_tree d"
  by (auto simp: query_def sys_def split: option.splits)

lemma fs_sync_tree: "fs_sync d = (r, d1) \<Longrightarrow> dk_tree d1 = dk_tree d"
  unfolding fs_sync_def by (rule query_tree)

lemma fs_stat_tree: "fs_stat p d = (r, d1) \<Longrightarrow> dk_tree d1 = dk_tree d"
  unfolding fs_stat_def by (rule query_tree)

lemma fs_read_tree: "fs_read p d = (r, d1) \<Longrightarrow> dk_tree d1 = dk_tree d"
  unfolding fs_read_def by (rule query_tree)

lemma rename_at_Ok_file:
  "rename_at src dst t = (Ok (), t') \<Longrightarrow> file_at t' dst = file_at t src"
  by (cases rule: rename_at_cases [of src dst t]) (auto simp: file_at_def lookup_move_tree)

lemma fs_rename_Ok: "fs_rename src dst d = (Ok (), d1) \<Longrightarrow> rename_at src dst (dk_tree d) = (Ok (), dk_tree d1)"
  by (auto simp: fs_rename_def sys_def split: option.splits prod.splits)

lemma fs_rename_Err: "fs_rename src dst d = (Err e, d1) \<Longrightarrow> dk_tree d1 = dk_tree d"
  by (cases rule: rename_at_cases [of src dst "dk_tree d"])
    (auto simp: fs_rename_def sys_def split: option.splits prod.splits)

lemma open_trunc_Ok: "fs_open_trunc p d = (Ok (), d1) \<Longrightarrow> lookup_node (dk_tree d1) p = Some (File [])"
  by (cases "p = []") (auto simp: fs_open_trunc_def sys_def open_trunc_at_def split: option.splits prod.splits if_splits)

lemma open_new_Ok: "fs_open_new p d = (Ok (), d1) \<Longrightarrow> lookup_node (dk_tree d1) p = Some (File [])"
  by (cases "p = []") (auto simp: fs_open_new_def sys_def open_new_at_def split: option.splits prod.splits if_splits)

lemma pwrite_Ok:
  "fs_pwrite p off bs d = (Ok (), d1) \<Longrightarrow> lookup_node (dk_tree d) p = Some (File old) \<Longrightarrow>
     file_at (dk_tree d1) p = Some (overwrite off bs old)"
  by (cases "p = []") (auto simp: fs_pwrite_def pwrite_at_def file_at_def split: option.splits)

lemma overwrite_end: "overwrite (length old) bs old = old @ bs"
  by (simp add: overwrite_def)

subsection \<open>Nodes\<close>

text \<open>The same for all nodes, directories included.\<close>

definition nodes :: "(fs_path \<Rightarrow> bool) \<Rightarrow> disk \<Rightarrow> disk \<Rightarrow> bool" where
  "nodes A d d' \<longleftrightarrow> (\<forall>p. \<not> A p \<longrightarrow> lookup_node (dk_tree d') p = lookup_node (dk_tree d) p)"

interpretation nodes: disk_preorder "nodes A" for A
  by unfold_locales (auto simp: nodes_def)

lemma nodes_sys:
  assumes "\<And>t p. \<not> A p \<Longrightarrow> lookup_node (snd (f t)) p = lookup_node t p"
  shows "keeps (nodes A) (sys f)"
  unfolding keeps_def nodes_def sys_def
proof (intro allI impI)
  fix d p
  assume "\<not> A p"
  then show "lookup_node (dk_tree (snd (case dk_faults d (dk_calls d) of
      None \<Rightarrow> (case f (dk_tree d) of (r, t) \<Rightarrow> (r, d\<lparr>dk_tree := t, dk_calls := Suc (dk_calls d)\<rparr>))
    | Some (m, _) \<Rightarrow> (Err (EIO m), d\<lparr>dk_calls := Suc (dk_calls d)\<rparr>)))) p = lookup_node (dk_tree d) p"
    using assms [of p "dk_tree d"] by (auto split: option.splits prod.splits)
qed

lemma nodes_query: "keeps (nodes A) (query f)"
  unfolding query_def by (rule nodes_sys) simp

lemma nodes_mkdir: "A p \<Longrightarrow> keeps (nodes A) (fs_mkdir p)"
  unfolding fs_mkdir_def by (rule nodes_sys) (cases "p = []"; auto simp: mkdir_at_def split: option.splits)

lemma nodes_open_trunc: "A p \<Longrightarrow> keeps (nodes A) (fs_open_trunc p)"
  unfolding fs_open_trunc_def by (rule nodes_sys) (cases "p = []"; auto simp: open_trunc_at_def split: option.splits)

lemma nodes_rmdir: "A p \<Longrightarrow> keeps (nodes A) (fs_rmdir p)"
  unfolding fs_rmdir_def by (rule nodes_sys) (auto simp: rmdir_at_def split: option.splits sum.splits node.splits)

lemma nodes_pwrite: "A p \<Longrightarrow> keeps (nodes A) (fs_pwrite p off bs)"
  unfolding keeps_def nodes_def fs_pwrite_def pwrite_at_def
  by (cases "p = []") (auto split: option.splits node.splits)

lemma nodes_rename:
  assumes "\<And>q. prefix src q \<or> prefix dst q \<Longrightarrow> A q"
  shows "keeps (nodes A) (fs_rename src dst)"
  unfolding fs_rename_def
proof (rule nodes_sys)
  fix t p
  assume p: "\<not> A p"
  then have "\<not> prefix src p" "\<not> prefix dst p" using assms by blast+
  then show "lookup_node (snd (rename_at src dst t)) p = lookup_node t p"
    by (cases rule: rename_at_cases [of src dst t]) (simp_all add: lookup_move_tree)
qed

lemma nodes_calls:
  "keeps (nodes A) (fs_stat p)" "keeps (nodes A) (fs_read p)" "keeps (nodes A) (fs_read_dir p)" "keeps (nodes A) fs_sync"
  by (simp_all add: fs_stat_def fs_read_def fs_read_dir_def fs_sync_def nodes_query)

lemma nodes_mkdirs: "(\<And>i. i < length xs \<Longrightarrow> A (q @ take (Suc i) xs)) \<Longrightarrow> keeps (nodes A) (mkdirs q xs)"
proof (induction q xs rule: mkdirs.induct)
  case (2 q x xs)
  have "A (q @ [x])" using 2(3) [of 0] by simp
  moreover have "keeps (nodes A) (mkdirs (q @ [x]) xs)"
    using 2(3) [of "Suc i" for i] by (intro 2(1)) simp_all
  ultimately show ?case
    by (auto intro!: nodes.keeps_combinators nodes_calls nodes_mkdir split: sum.split node.split)
qed (simp add: nodes.keeps_combinators)

lemma nodes_create_dir_all: "(\<And>q. prefix q p \<Longrightarrow> A q) \<Longrightarrow> keeps (nodes A) (fs_create_dir_all p)"
  unfolding fs_create_dir_all_def by (rule nodes_mkdirs) (simp add: take_is_prefix)

lemma nodesD: "keeps (nodes A) m \<Longrightarrow> m d = (r, d') \<Longrightarrow> \<not> A p \<Longrightarrow> lookup_node (dk_tree d') p = lookup_node (dk_tree d) p"
  unfolding keeps_def nodes_def by (metis snd_conv)

lemmas nodes_intros = nodes.keeps_combinators nodes_calls nodes_mkdir nodes_open_trunc nodes_rmdir nodes_pwrite nodes_create_dir_all

subsection \<open>Runs without faults\<close>

definition healthy :: "disk \<Rightarrow> bool" where
  "healthy d \<longleftrightarrow> wf_tree (dk_tree d) \<and> dk_faults d = (\<lambda>_. None)"

lemma sys_healthy:
  "healthy d \<Longrightarrow> sys f d = (case f (dk_tree d) of (r, t) \<Rightarrow> (r, d\<lparr>dk_tree := t, dk_calls := Suc (dk_calls d)\<rparr>))"
  by (simp add: sys_def healthy_def)

lemma frame_healthy: "frame A d d1 \<Longrightarrow> healthy d \<Longrightarrow> healthy d1"
  by (auto simp: frame_def healthy_def tree_frame_def)

lemma keeps_healthy: "keeps (frame A) m \<Longrightarrow> healthy d \<Longrightarrow> m d = (r, d1) \<Longrightarrow> healthy d1"
  using keepsD frame_healthy by blast

lemma healthy_parent:
  assumes "healthy d" "lookup_node (dk_tree d) q = Some Dir"
  shows "walk_err (dk_tree d) [] (q @ [x]) = None"
  using walk_err_parent [of "dk_tree d" "q @ [x]"] assms by (simp add: healthy_def)

lemma fs_stat_healthy: "healthy d \<Longrightarrow> fs_stat p d = (stat (dk_tree d) p, d\<lparr>dk_calls := Suc (dk_calls d)\<rparr>)"
  by (simp add: fs_stat_def query_def sys_healthy)

lemma fs_sync_healthy: "healthy d \<Longrightarrow> fs_sync d = (Ok (), d\<lparr>dk_calls := Suc (dk_calls d)\<rparr>)"
  by (simp add: fs_sync_def query_def sys_healthy)

lemma healthy_calls [simp]: "healthy (d\<lparr>dk_calls := n\<rparr>) = healthy d"
  by (simp add: healthy_def)

lemma mkdir_healthy:
  assumes "healthy d" "lookup_node (dk_tree d) q = Some Dir" "lookup_node (dk_tree d) (q @ [x]) \<in> {None, Some Dir}"
  shows "\<exists>r d1. fs_mkdir (q @ [x]) d = (r, d1) \<and> lookup_node (dk_tree d1) (q @ [x]) = Some Dir"
  using assms(3) healthy_parent [OF assms(1,2), of x]
  by (auto simp: fs_mkdir_def sys_healthy [OF assms(1)] mkdir_at_def)

lemma mkdirs_healthy:
  assumes "healthy d" "lookup_node (dk_tree d) q = Some Dir"
    and "\<And>i. i < length xs \<Longrightarrow> lookup_node (dk_tree d) (q @ take (Suc i) xs) \<in> {None, Some Dir}"
  shows "\<exists>d1. mkdirs q xs d = (Ok (), d1) \<and> lookup_node (dk_tree d1) (q @ xs) = Some Dir"
  using assms
proof (induction xs arbitrary: q d)
  case (Cons x xs)
  obtain r d1 where mk: "fs_mkdir (q @ [x]) d = (r, d1)" "lookup_node (dk_tree d1) (q @ [x]) = Some Dir"
    using mkdir_healthy [OF Cons.prems(1,2), of x] Cons.prems(3) [of 0] by auto
  have h1: "healthy d1" by (rule keeps_healthy [OF keeps_calls(5) Cons.prems(1) mk(1)])
  obtain d2 where d2: "d2 = d1 \<or> d2 = d1\<lparr>dk_calls := Suc (dk_calls d1)\<rparr>"
    "mkdirs q (x # xs) d = mkdirs (q @ [x]) xs d2"
  proof (cases r)
    case (Inl e)
    have "stat (dk_tree d1) (q @ [x]) = Ok Dir" using mk(2) h1 by (simp add: stat_Ok_iff healthy_def)
    then have "mkdirs q (x # xs) d = mkdirs (q @ [x]) xs (d1\<lparr>dk_calls := Suc (dk_calls d1)\<rparr>)"
      using Inl mk(1) h1 by (simp add: try_do_def fs_stat_healthy)
    then show thesis using that by blast
  next
    case (Inr u)
    then have "mkdirs q (x # xs) d = mkdirs (q @ [x]) xs d1" using mk(1) by (simp add: try_do_def)
    then show thesis using that by blast
  qed
  have h2: "healthy d2" and t2: "dk_tree d2 = dk_tree d1" using d2(1) h1 by auto
  have below: "lookup_node (dk_tree d1) ((q @ [x]) @ take (Suc i) xs) \<in> {None, Some Dir}" if "i < length xs" for i
    using nodesD [OF nodes_mkdir [of "\<lambda>p. p = q @ [x]"] mk(1), of "q @ x # take (Suc i) xs"] Cons.prems(3) [of "Suc i"] that
    by (cases xs) auto
  have "\<exists>d3. mkdirs (q @ [x]) xs d2 = (Ok (), d3) \<and> lookup_node (dk_tree d3) ((q @ [x]) @ xs) = Some Dir"
    using mk(2) below by (intro Cons.IH h2) (simp_all only: t2)
  then show ?case unfolding d2(2) by simp
qed (simp add: ret_def)

text \<open>Nothing but directories on the way to a path.\<close>

definition clear_path :: "tree \<Rightarrow> fs_path \<Rightarrow> bool" where
  "clear_path t p \<longleftrightarrow> (\<forall>i < length p. lookup_node t (take (Suc i) p) \<in> {None, Some Dir})"

lemma create_dir_all_healthy:
  assumes "healthy d" "clear_path (dk_tree d) p"
  obtains d1 where "fs_create_dir_all p d = (Ok (), d1)" "healthy d1" "lookup_node (dk_tree d1) p = Some Dir"
    "\<And>q. \<not> prefix q p \<Longrightarrow> lookup_node (dk_tree d1) q = lookup_node (dk_tree d) q"
proof -
  obtain d1 where d1: "fs_create_dir_all p d = (Ok (), d1)" "lookup_node (dk_tree d1) p = Some Dir"
    using mkdirs_healthy [OF assms(1), of "[]" p] assms(2) by (auto simp: fs_create_dir_all_def clear_path_def)
  show thesis
  proof (rule that [OF d1(1) _ d1(2)])
    show "healthy d1" by (rule keeps_healthy [OF keeps_create_dir_all assms(1) d1(1)])
    show "lookup_node (dk_tree d1) q = lookup_node (dk_tree d) q" if "\<not> prefix q p" for q
      by (rule nodesD [OF nodes_create_dir_all [of p "\<lambda>q. prefix q p"] d1(1) that])
  qed
qed

lemma rename_healthy:
  assumes "healthy d" "lookup_node (dk_tree d) src = Some n" "lookup_node (dk_tree d) (butlast dst) = Some Dir" "dst \<noteq> []"
    and "\<not> prefix src dst" "\<not> prefix dst src"
    and "lookup_node (dk_tree d) dst = None \<or> n \<noteq> Dir \<and> lookup_node (dk_tree d) dst \<noteq> Some Dir"
  obtains d1 where "fs_rename src dst d = (Ok (), d1)" "healthy d1" "dk_tree d1 = move_tree src dst (dk_tree d)"
proof -
  have "stat (dk_tree d) src = Ok n" using assms(1,2) by (simp add: stat_Ok_iff healthy_def)
  moreover have "walk_err (dk_tree d) [] dst = None"
    using walk_err_parent [of "dk_tree d" dst] assms(1,3,4) by (simp add: healthy_def)
  moreover have "src \<noteq> dst" using assms(5) by auto
  ultimately have rn: "rename_at src dst (dk_tree d) = (Ok (), move_tree src dst (dk_tree d))"
    using assms(5-7) by (auto simp: rename_at_def split: node.splits option.splits)
  let ?d1 = "d\<lparr>dk_tree := move_tree src dst (dk_tree d), dk_calls := Suc (dk_calls d)\<rparr>"
  have "fs_rename src dst d = (Ok (), ?d1)" by (simp add: fs_rename_def sys_healthy assms(1) rn)
  moreover from this have "healthy ?d1" by (rule keeps_healthy [OF keeps_rename [of _ _ "\<lambda>_. True"] assms(1), rotated]) simp
  ultimately show thesis using that by simp
qed

end
