(* ===== verification/Xl_Meta.thy ===== *)
theory Xl_Meta
  imports Io_Types
begin

text \<open>
  The on-disk record \<^verbatim>\<open>xl.meta\<close>, \<^verbatim>\<open>crates/openlake_io/src/xl_meta.rs\<close>: the multi-version body, its
  frame (magic, format version, length, checksum) and the tail with the inline payloads.

  MessagePack and xxHash64 are external: \<open>to_vec\<close> and \<open>from_slice\<close> are the codec of the body,
  \<open>xxh64\<close> the checksum with seed 0. A string is the sequence of its UTF-8 bytes; slicing one inside
  a character is a panic, the value \<^const>\<open>None\<close>.
\<close>

subsection \<open>Records\<close>

record decoded_record =
  dr_version_id :: string
  dr_data_dir :: string
  dr_deleted :: bool
  dr_size :: int
  dr_mod_time_ms :: nat
  dr_metadata :: "(string \<times> string) list"
  dr_meta_sys :: "(string \<times> byte list) list"
  dr_erasure :: erasure_info
  dr_parts :: "object_part_info list"
  dr_inline :: "byte list list option"
  dr_num_versions :: int

record encoded_xl_meta =
  ex_head :: "byte list"
  ex_tail :: "byte list list"

definition encoded_to_vec :: "encoded_xl_meta \<Rightarrow> byte list" where
  "encoded_to_vec e = ex_head e @ concat (ex_tail e)"

record checksum_block =
  cb_part_number :: int
  cb_algorithm :: string
  cb_hash :: "byte list"

record erasure_block =
  eb_algorithm :: string
  eb_data_blocks :: nat
  eb_parity_blocks :: nat
  eb_index :: nat
  eb_block_size :: nat
  eb_distribution :: "nat list"
  eb_checksums :: "checksum_block list"

record part_block =
  pb_number :: int
  pb_size :: int
  pb_actual_size :: int
  pb_mod_time :: nat
  pb_etag :: string
  pb_index :: "byte list"
  pb_checksums :: "(string \<times> string) list"

record version_record =
  vr_version_id :: "byte list"
  vr_ty :: nat
  vr_mod_time :: nat
  vr_data_dir :: "byte list"
  vr_size :: int
  vr_erasure :: erasure_block
  vr_parts :: "part_block list"
  vr_metadata :: "(string \<times> string) list"
  vr_meta_sys :: "(string \<times> byte list) list"
  vr_inline_offset :: nat
  vr_inline_length :: nat

record on_disk_meta =
  od_versions :: "version_record list"

subsection \<open>Fields\<close>

definition encode_erasure :: "erasure_info \<Rightarrow> erasure_block" where
  "encode_erasure ei =
     \<lparr>eb_algorithm = ei_algorithm ei, eb_data_blocks = ei_data_blocks ei, eb_parity_blocks = ei_parity_blocks ei,
      eb_index = ei_index ei, eb_block_size = ei_block_size ei, eb_distribution = ei_distribution ei,
      eb_checksums = map (\<lambda>c. \<lparr>cb_part_number = ci_part_number c, cb_algorithm = ci_algorithm c,
                              cb_hash = ci_hash c\<rparr>) (ei_checksums ei)\<rparr>"

definition decode_erasure :: "erasure_block \<Rightarrow> erasure_info" where
  "decode_erasure b =
     \<lparr>ei_algorithm = eb_algorithm b, ei_data_blocks = eb_data_blocks b, ei_parity_blocks = eb_parity_blocks b,
      ei_block_size = eb_block_size b, ei_index = eb_index b, ei_distribution = eb_distribution b,
      ei_checksums = map (\<lambda>c. \<lparr>ci_part_number = cb_part_number c, ci_algorithm = cb_algorithm c,
                              ci_hash = cb_hash c\<rparr>) (eb_checksums b)\<rparr>"

definition encode_part :: "object_part_info \<Rightarrow> part_block" where
  "encode_part p =
     \<lparr>pb_number = op_number p, pb_size = op_size p, pb_actual_size = op_actual_size p,
      pb_mod_time = op_mod_time_ms p, pb_etag = op_etag p, pb_index = op_index p, pb_checksums = op_checksums p\<rparr>"

definition decode_part :: "part_block \<Rightarrow> object_part_info" where
  "decode_part p =
     \<lparr>op_etag = pb_etag p, op_number = pb_number p, op_size = pb_size p, op_actual_size = pb_actual_size p,
      op_mod_time_ms = pb_mod_time p, op_index = pb_index p, op_checksums = pb_checksums p\<rparr>"

definition hex_val :: "char \<Rightarrow> nat option" where
  "hex_val c =
     (let n = (of_char c :: nat) in
      if 48 \<le> n \<and> n \<le> 57 then Some (n - 48)
      else if 97 \<le> n \<and> n \<le> 102 then Some (n - 87)
      else if 65 \<le> n \<and> n \<le> 70 then Some (n - 55)
      else None)"

text \<open>\<open>u8::from_str_radix\<close> in base 16 on two characters: a leading plus sign is accepted.\<close>

definition hex_byte :: "char \<Rightarrow> char \<Rightarrow> byte option" where
  "hex_byte a b =
     (if a = CHR ''+'' then map_option word_of_nat (hex_val b)
      else case (hex_val a, hex_val b) of
             (Some x, Some y) \<Rightarrow> Some (word_of_nat (16 * x + y))
           | _ \<Rightarrow> None)"

definition continuation :: "char \<Rightarrow> bool" where
  "continuation c = (let n = (of_char c :: nat) in 128 \<le> n \<and> n < 192)"

text \<open>Two bytes at a time; a pair that starts or ends inside a character cannot be sliced.\<close>

fun hex_bytes :: "string \<Rightarrow> string \<Rightarrow> (byte list, io_error) result option" where
  "hex_bytes field (a # b # cs) =
     (if continuation a \<or> (case cs of [] \<Rightarrow> False | c # _ \<Rightarrow> continuation c) then None
      else case hex_byte a b of
             None \<Rightarrow> Some (Err (Encode (field @ '': invalid hex'')))
           | Some v \<Rightarrow>
               (case hex_bytes field cs of
                  None \<Rightarrow> None
                | Some r \<Rightarrow> Some (and_then r (\<lambda>vs. Ok (v # vs)))))"
| "hex_bytes field cs = Some (Ok [])"

definition parse_uuid_bytes :: "string \<Rightarrow> string \<Rightarrow> (byte list, io_error) result option" where
  "parse_uuid_bytes s field =
     (if s = [] \<or> s = NULL_VERSION_ID then Some (Ok (replicate 16 0))
      else let hex = filter (\<lambda>c. c \<noteq> CHR ''-'') s in
        if length hex \<noteq> 32
        then Some (Err (Encode (field @ '': expected 32 hex chars after stripping dashes, got ''
                          @ show_nat (length hex))))
        else hex_bytes field hex)"

definition hex2 :: "byte \<Rightarrow> string" where
  "hex2 b = hex_digits 2 (unat b)"

definition format_uuid_hex :: "byte list \<Rightarrow> string" where
  "format_uuid_hex b =
     concat (map hex2 (take 4 b)) @ ''-'' @ concat (map hex2 (take 2 (drop 4 b))) @ ''-''
       @ concat (map hex2 (take 2 (drop 6 b))) @ ''-'' @ concat (map hex2 (take 2 (drop 8 b))) @ ''-''
       @ concat (map hex2 (take 6 (drop 10 b)))"

definition format_version_id_bytes :: "byte list \<Rightarrow> string" where
  "format_version_id_bytes b = (if b = replicate 16 0 then NULL_VERSION_ID else format_uuid_hex b)"

definition format_data_dir_bytes :: "byte list \<Rightarrow> string" where
  "format_data_dir_bytes b = (if b = replicate 16 0 then [] else format_uuid_hex b)"

subsection \<open>Validation\<close>

definition validate_erasure :: "erasure_info \<Rightarrow> (string \<Rightarrow> io_error) \<Rightarrow> (unit, io_error) result" where
  "validate_erasure ei err =
     (let n = ei_data_blocks ei + ei_parity_blocks ei in
      if ei_algorithm ei = [] then Err (err ''erasure: algorithm must be non-empty'')
      else if ei_data_blocks ei = 0 then Err (err ''erasure: data_blocks must be >= 1'')
      else if ei_parity_blocks ei > ei_data_blocks ei
      then Err (err (''erasure: parity_blocks ('' @ show_nat (ei_parity_blocks ei) @ '') must be <= data_blocks (''
                       @ show_nat (ei_data_blocks ei) @ '')''))
      else if n = 0 then Err (err ''erasure: data_blocks + parity_blocks must be > 0'')
      else if length (ei_distribution ei) \<noteq> n
      then Err (err (''erasure: distribution length ('' @ show_nat (length (ei_distribution ei))
                       @ '') must equal data_blocks + parity_blocks ('' @ show_nat n @ '')''))
      else if ei_index ei = 0 \<or> ei_index ei > n
      then Err (err (''erasure: index ('' @ show_nat (ei_index ei) @ '') must be in [1, '' @ show_nat n @ '']''))
      else if ei_block_size ei = 0 then Err (err ''erasure: block_size must be > 0'')
      else Ok ())"

fun check_parts :: "(nat \<Rightarrow> object_part_info \<Rightarrow> (unit, io_error) result) \<Rightarrow> nat \<Rightarrow> object_part_info list
    \<Rightarrow> (unit, io_error) result" where
  "check_parts chk i [] = Ok ()"
| "check_parts chk i (p # ps) = and_then (chk i p) (\<lambda>_. check_parts chk (Suc i) ps)"

definition part_msg :: "nat \<Rightarrow> string \<Rightarrow> string \<Rightarrow> int \<Rightarrow> string" where
  "part_msg i field bound v = ''parts['' @ show_nat i @ ''].'' @ field @ '' must be '' @ bound @ '', got '' @ show_int v"

definition check_part_encode :: "nat \<Rightarrow> object_part_info \<Rightarrow> (unit, io_error) result" where
  "check_part_encode i p =
     (if op_number p \<le> 0 then Err (Encode (part_msg i ''number'' ''> 0'' (op_number p)))
      else if op_size p < 0 then Err (Encode (part_msg i ''size'' ''>= 0'' (op_size p)))
      else if op_actual_size p < 0 then Err (Encode (part_msg i ''actual_size'' ''>= 0'' (op_actual_size p)))
      else Ok ())"

definition has_inline :: "file_info \<Rightarrow> bool" where
  "has_inline fi = (case fi_data fi of None \<Rightarrow> False | Some frames \<Rightarrow> frames \<noteq> [])"

definition frame_total :: "file_info \<Rightarrow> int" where
  "frame_total fi = (case fi_data fi of None \<Rightarrow> 0 | Some frames \<Rightarrow> int (sum_list (map length frames)))"

definition validate_for_encode :: "file_info \<Rightarrow> (unit, io_error) result" where
  "validate_for_encode fi =
     (if fi_size fi < 0 then Err (Encode (''size must be >= 0, got '' @ show_int (fi_size fi)))
      else if fi_mod_time_ms fi = 0 then Err (Encode ''mod_time_ms must be set (got 0)'')
      else and_then (validate_erasure (fi_erasure fi) Encode) (\<lambda>_.
      if fi_deleted fi \<and> fi_parts fi \<noteq> [] then Err (Encode ''delete marker must have no parts'')
      else if fi_deleted fi \<and> fi_size fi \<noteq> 0
      then Err (Encode (''delete marker must have size 0, got '' @ show_int (fi_size fi)))
      else if fi_deleted fi \<and> has_inline fi then Err (Encode ''delete marker must have no inline data'')
      else if \<not> fi_deleted fi \<and> fi_size fi > 0 \<and> fi_parts fi = []
      then Err (Encode ''non-deleted object with size > 0 must have at least one part'')
      else if has_inline fi \<and> fi_data_dir fi \<noteq> []
      then Err (Encode ''version cannot set both inline data and data_dir; inline-vs-EC is mutually exclusive'')
      else if \<not> fi_deleted fi \<and> fi_size fi > 0 \<and> \<not> has_inline fi \<and> fi_data_dir fi = []
      then Err (Encode ''non-deleted EC object with size > 0 must have a non-empty data_dir'')
      else if has_inline fi \<and> frame_total fi \<noteq> fi_size fi
      then Err (Encode (''inline frame total ('' @ show_int (frame_total fi) @ '') must equal size (''
                          @ show_int (fi_size fi) @ '')''))
      else check_parts check_part_encode 0 (fi_parts fi)))"

definition corrupt :: "string \<Rightarrow> io_error" where
  "corrupt msg = CorruptMetadata [] [] msg"

definition check_part_decode :: "nat \<Rightarrow> object_part_info \<Rightarrow> (unit, io_error) result" where
  "check_part_decode i p =
     (if op_number p \<le> 0 then Err (corrupt (part_msg i ''number'' ''> 0'' (op_number p)))
      else if op_size p < 0 then Err (corrupt (part_msg i ''size'' ''>= 0'' (op_size p)))
      else Ok ())"

definition validate_decoded_version :: "version_record \<Rightarrow> (unit, io_error) result" where
  "validate_decoded_version v =
     (if vr_ty v > 1 then Err (corrupt (''invalid version type: '' @ show_nat (vr_ty v)))
      else if vr_size v < 0 then Err (corrupt (''size must be >= 0, got '' @ show_int (vr_size v)))
      else if vr_mod_time v = 0 then Err (corrupt ''mod_time must be set (got 0)'')
      else and_then (map_err (\<lambda>e. corrupt (''erasure validation: '' @ show_io_error e))
                      (validate_erasure (decode_erasure (vr_erasure v)) InvalidArgument)) (\<lambda>_.
      if vr_ty v = 1 \<and> vr_parts v \<noteq> [] then Err (corrupt ''delete marker must have no parts'')
      else if vr_ty v = 1 \<and> vr_size v \<noteq> 0
      then Err (corrupt (''delete marker must have size 0, got '' @ show_int (vr_size v)))
      else if vr_ty v = 1 \<and> vr_inline_length v \<noteq> 0
      then Err (corrupt ''delete marker must have inline_length == 0'')
      else if vr_ty v \<noteq> 1 \<and> vr_size v > 0 \<and> vr_parts v = []
      then Err (corrupt ''non-deleted object with size > 0 must have at least one part'')
      else if vr_inline_length v > 0 \<and> vr_data_dir v \<noteq> replicate 16 0
      then Err (corrupt ''version sets both inline_length>0 and a non-zero data_dir; inline-vs-EC is mutually exclusive'')
      else if vr_inline_length v > 0 \<and> nat (vr_size v mod 2 ^ 64) \<noteq> vr_inline_length v
      then Err (corrupt (''inline_length ('' @ show_nat (vr_inline_length v) @ '') must equal size (''
                           @ show_int (vr_size v) @ '') for inline versions''))
      else check_parts check_part_decode 0 (map decode_part (vr_parts v))))"

subsection \<open>Encoding\<close>

definition be_bytes :: "nat \<Rightarrow> nat \<Rightarrow> byte list" where
  "be_bytes k v = rev (le_bytes k v)"

definition of_be :: "byte list \<Rightarrow> nat" where
  "of_be bs = of_le (rev bs)"

definition XL_MAGIC :: "byte list" where
  "XL_MAGIC = [88, 76, 50, 32]"

definition FORMAT_MAJOR :: nat where
  "FORMAT_MAJOR = 1"

definition FORMAT_MINOR :: nat where
  "FORMAT_MINOR = 3"

definition HEADER_LEN :: nat where
  "HEADER_LEN = 8"

definition BIN32_TAG :: byte where
  "BIN32_TAG = 0xc6"

definition BIN32_HEADER_LEN :: nat where
  "BIN32_HEADER_LEN = 5"

definition CRC_TAG :: byte where
  "CRC_TAG = 0xce"

definition CRC_LEN :: nat where
  "CRC_LEN = 5"

text \<open>The inline frames of a version, without the empty ones, and the layout of the tail.\<close>

definition inline_frames :: "file_info \<Rightarrow> byte list list" where
  "inline_frames fi = (case fi_data fi of None \<Rightarrow> [] | Some frames \<Rightarrow> filter (\<lambda>f. f \<noteq> []) frames)"

fun inline_layout :: "nat \<Rightarrow> file_info list \<Rightarrow> (nat \<times> nat) list" where
  "inline_layout tail_pos [] = []"
| "inline_layout tail_pos (fi # fis) =
     (let version_len = sum_list (map length (inline_frames fi)) in
      (if version_len = 0 then 0 else tail_pos, version_len) # inline_layout (tail_pos + version_len) fis)"

definition encode_record :: "file_info \<Rightarrow> nat \<times> nat \<Rightarrow> (version_record, io_error) result option" where
  "encode_record fi layout =
     (case parse_uuid_bytes (fi_version_id fi) ''version_id'' of
        None \<Rightarrow> None
      | Some (Inl e) \<Rightarrow> Some (Err e)
      | Some (Inr vid) \<Rightarrow>
          (case parse_uuid_bytes (fi_data_dir fi) ''data_dir'' of
             None \<Rightarrow> None
           | Some (Inl e) \<Rightarrow> Some (Err e)
           | Some (Inr dd) \<Rightarrow>
               Some (Ok \<lparr>vr_version_id = vid, vr_ty = (if fi_deleted fi then 1 else 0),
                         vr_mod_time = fi_mod_time_ms fi, vr_data_dir = dd, vr_size = fi_size fi,
                         vr_erasure = encode_erasure (fi_erasure fi), vr_parts = map encode_part (fi_parts fi),
                         vr_metadata = fi_metadata fi, vr_meta_sys = fi_meta_sys fi,
                         vr_inline_offset = fst layout, vr_inline_length = snd layout\<rparr>)))"

fun encode_records :: "(file_info \<times> nat \<times> nat) list \<Rightarrow> (version_record list, io_error) result option" where
  "encode_records [] = Some (Ok [])"
| "encode_records ((fi, layout) # rest) =
     (case encode_record fi layout of
        None \<Rightarrow> None
      | Some (Inl e) \<Rightarrow> Some (Err e)
      | Some (Inr r) \<Rightarrow>
          (case encode_records rest of
             None \<Rightarrow> None
           | Some rs \<Rightarrow> Some (and_then rs (\<lambda>rs. Ok (r # rs)))))"

definition xl_head :: "(byte list \<Rightarrow> 64 word) \<Rightarrow> byte list \<Rightarrow> byte list" where
  "xl_head xxh64 body =
     XL_MAGIC @ le_bytes 2 FORMAT_MAJOR @ le_bytes 2 FORMAT_MINOR @ [BIN32_TAG]
       @ be_bytes 4 (length body mod 2 ^ 32) @ body @ [CRC_TAG]
       @ be_bytes 4 (unat (xxh64 body) mod 2 ^ 32)"

definition encode_versions :: "(on_disk_meta \<Rightarrow> (byte list, string) result) \<Rightarrow> (byte list \<Rightarrow> 64 word)
    \<Rightarrow> file_info list \<Rightarrow> (encoded_xl_meta, io_error) result option" where
  "encode_versions to_vec xxh64 versions =
     (if versions = [] then Some (Err (Encode ''encode_versions: empty versions slice''))
      else case collect_results (map validate_for_encode versions) of
        Inl e \<Rightarrow> Some (Err e)
      | Inr _ \<Rightarrow>
          (case encode_records (zip versions (inline_layout 0 versions)) of
             None \<Rightarrow> None
           | Some records \<Rightarrow> Some
               (and_then records (\<lambda>rs.
                and_then (map_err (\<lambda>e. Encode (''xl.meta encode: '' @ e)) (to_vec \<lparr>od_versions = rs\<rparr>)) (\<lambda>body.
                  Ok \<lparr>ex_head = xl_head xxh64 body, ex_tail = concat (map inline_frames versions)\<rparr>)))))"

definition xl_encode :: "(on_disk_meta \<Rightarrow> (byte list, string) result) \<Rightarrow> (byte list \<Rightarrow> 64 word)
    \<Rightarrow> file_info \<Rightarrow> (encoded_xl_meta, io_error) result option" where
  "xl_encode to_vec xxh64 fi = encode_versions to_vec xxh64 [fi]"

subsection \<open>Decoding\<close>

definition as_i32 :: "nat \<Rightarrow> int" where
  "as_i32 n = (int n + 2 ^ 31) mod 2 ^ 32 - 2 ^ 31"

definition decode_record :: "byte list \<Rightarrow> int \<Rightarrow> version_record \<Rightarrow> (decoded_record, io_error) result" where
  "decode_record tail total_versions v =
     and_then (if vr_inline_length v > 0
               then let lo = vr_inline_offset v; hi = vr_inline_offset v + vr_inline_length v in
                 if 2 ^ 64 \<le> hi then Err (corrupt ''inline range overflow'')
                 else if hi > length tail
                 then Err (corrupt (''inline range ['' @ show_nat lo @ '','' @ show_nat hi @ '') exceeds tail length ''
                             @ show_nat (length tail)))
                 else Ok (Some [take (hi - lo) (drop lo tail)])
               else Ok None) (\<lambda>inl.
     Ok \<lparr>dr_version_id = format_version_id_bytes (vr_version_id v), dr_data_dir = format_data_dir_bytes (vr_data_dir v),
         dr_deleted = (vr_ty v = 1), dr_size = vr_size v, dr_mod_time_ms = vr_mod_time v,
         dr_metadata = vr_metadata v, dr_meta_sys = vr_meta_sys v, dr_erasure = decode_erasure (vr_erasure v),
         dr_parts = map decode_part (vr_parts v), dr_inline = inl, dr_num_versions = total_versions\<rparr>)"

definition newest_first :: "version_record list \<Rightarrow> version_record list" where
  "newest_first vs = sort_key (\<lambda>v. - int (vr_mod_time v)) vs"

text \<open>The second half of \<open>decode_all\<close>, from the parsed body and the tail.\<close>

definition decode_versions :: "byte list \<Rightarrow> on_disk_meta \<Rightarrow> (decoded_record list, io_error) result" where
  "decode_versions tail on_disk =
     (if od_versions on_disk = [] then Err (corrupt ''empty versions list'')
      else let vs = newest_first (od_versions on_disk) in
        and_then (collect_results (map validate_decoded_version vs)) (\<lambda>_.
          collect_results (map (decode_record tail (as_i32 (length vs))) vs)))"

definition decode_all :: "(byte list \<Rightarrow> (on_disk_meta, string) result) \<Rightarrow> (byte list \<Rightarrow> 64 word)
    \<Rightarrow> byte list \<Rightarrow> (decoded_record list, io_error) result" where
  "decode_all from_slice xxh64 bytes =
     (if length bytes < HEADER_LEN + BIN32_HEADER_LEN + CRC_LEN then Err (corrupt ''too short'')
      else if take 4 bytes \<noteq> XL_MAGIC then Err (corrupt ''bad magic'')
      else let major = of_le (take 2 (drop 4 bytes)); minor = of_le (take 2 (drop 6 bytes)) in
      if major \<noteq> FORMAT_MAJOR then Err (UnsupportedMetadataVersion major FORMAT_MAJOR)
      else if minor \<noteq> FORMAT_MINOR
      then Err (corrupt (''format minor mismatch: file has '' @ show_nat major @ ''.'' @ show_nat minor
                           @ '', expected '' @ show_nat FORMAT_MAJOR @ ''.'' @ show_nat FORMAT_MINOR))
      else if bytes ! HEADER_LEN \<noteq> BIN32_TAG then Err (corrupt ''missing bin32 header'')
      else let body_len = of_be (take 4 (drop (HEADER_LEN + 1) bytes));
               body_start = HEADER_LEN + BIN32_HEADER_LEN;
               body_end = body_start + body_len;
               crc_end = body_end + CRC_LEN in
      if length bytes < crc_end then Err (corrupt ''truncated body or crc'')
      else let body = take body_len (drop body_start bytes);
               crc_slot = take CRC_LEN (drop body_end bytes) in
      if crc_slot ! 0 \<noteq> CRC_TAG then Err (corrupt ''missing crc marker'')
      else if unat (xxh64 body) mod 2 ^ 32 \<noteq> of_be (drop 1 crc_slot) then Err (corrupt ''crc mismatch'')
      else and_then (map_err (\<lambda>e. corrupt (''decode body: '' @ e)) (from_slice body))
             (decode_versions (drop crc_end bytes)))"

definition xl_decode :: "(byte list \<Rightarrow> (on_disk_meta, string) result) \<Rightarrow> (byte list \<Rightarrow> 64 word)
    \<Rightarrow> byte list \<Rightarrow> (decoded_record, io_error) result" where
  "xl_decode from_slice xxh64 bytes =
     and_then (decode_all from_slice xxh64 bytes) (\<lambda>all.
       case all of [] \<Rightarrow> Err (corrupt ''empty versions list'') | r # _ \<Rightarrow> Ok r)"

definition find_version :: "(byte list \<Rightarrow> (on_disk_meta, string) result) \<Rightarrow> (byte list \<Rightarrow> 64 word)
    \<Rightarrow> byte list \<Rightarrow> string \<Rightarrow> (decoded_record option, io_error) result" where
  "find_version from_slice xxh64 bytes version_id =
     and_then (decode_all from_slice xxh64 bytes) (\<lambda>all. Ok (find (\<lambda>r. dr_version_id r = version_id) all))"

definition file_info_from_record :: "decoded_record \<Rightarrow> string \<Rightarrow> string \<Rightarrow> file_info" where
  "file_info_from_record rec volume path = file_info_default\<lparr>
     fi_volume := volume, fi_name := path, fi_version_id := dr_version_id rec, fi_is_latest := True,
     fi_deleted := dr_deleted rec, fi_data_dir := dr_data_dir rec, fi_mod_time_ms := dr_mod_time_ms rec,
     fi_size := dr_size rec, fi_metadata := dr_metadata rec, fi_meta_sys := dr_meta_sys rec,
     fi_parts := dr_parts rec, fi_erasure := dr_erasure rec, fi_data := dr_inline rec,
     fi_num_versions := max (dr_num_versions rec) 1\<rparr>"

subsection \<open>Identifiers\<close>

lemma hex_val_hex_char: "d < 16 \<Longrightarrow> hex_val (hex_char d) = Some d"
  by (auto simp: hex_val_def hex_char_def Let_def)

lemma hex_char_plain: "d < 16 \<Longrightarrow> hex_char d \<noteq> CHR ''+'' \<and> hex_char d \<noteq> CHR ''-'' \<and> \<not> continuation (hex_char d)"
proof -
  assume d: "d < 16"
  have "(of_char (hex_char d) :: nat) = (if d < 10 then 48 + d else 87 + d)"
    using d by (simp add: hex_char_def)
  then have "(of_char (hex_char d) :: nat) \<in> {48..57} \<union> {97..102}" using d by simp
  then show ?thesis by (auto simp: continuation_def Let_def)
qed

lemma unat_div_16 [simp]: "unat (b :: byte) div 16 < 16"
  using less_mult_imp_div_less [of "unat b" 16 16] unat_byte_lt [of b] by simp

lemma hex2_eq: "hex2 b = [hex_char (unat b div 16), hex_char (unat b mod 16)]"
proof -
  have "unat b div 16 mod 16 = unat b div 16" by simp
  then show ?thesis by (simp add: hex2_def numeral_2_eq_2)
qed

lemma hex_byte_hex2: "hex_byte (hex_char (unat b div 16)) (hex_char (unat b mod 16)) = Some (b :: byte)"
proof -
  have "16 * (unat b div 16) + unat b mod 16 = unat b" by simp
  then have "word_of_nat (16 * (unat b div 16) + unat b mod 16) = b" by simp
  then show ?thesis
    by (simp add: hex_byte_def hex_char_plain hex_val_hex_char del: of_nat_add of_nat_mult)
qed

definition hex_of :: "byte list \<Rightarrow> string" where
  "hex_of bs = concat (map hex2 bs)"

lemma hex_of_simps [simp]:
  "hex_of [] = []" "hex_of (b # bs) = hex_char (unat b div 16) # hex_char (unat b mod 16) # hex_of bs"
  by (simp_all add: hex_of_def hex2_eq)

lemma hex_of_append: "hex_of (xs @ ys) = hex_of xs @ hex_of ys"
  by (simp add: hex_of_def)

lemma length_hex_of: "length (hex_of bs) = 2 * length bs"
  by (induction bs) simp_all

lemma hex_bytes_hex_of: "hex_bytes field (hex_of bs) = Some (Ok bs)"
proof (induction bs)
  case (Cons b bs)
  have "\<not> (case hex_of bs of [] \<Rightarrow> False | c # _ \<Rightarrow> continuation c)"
    by (cases bs) (simp_all add: hex_char_plain)
  with Cons show ?case by (simp add: hex_char_plain hex_byte_hex2)
qed simp

lemma filter_hex_of: "filter (\<lambda>c. c \<noteq> CHR ''-'') (hex_of bs) = hex_of bs"
  by (induction bs) (simp_all add: hex_char_plain)

lemma format_uuid_hex_eq:
  "format_uuid_hex b = hex_of (take 4 b) @ ''-'' @ hex_of (take 2 (drop 4 b)) @ ''-'' @ hex_of (take 2 (drop 6 b))
     @ ''-'' @ hex_of (take 2 (drop 8 b)) @ ''-'' @ hex_of (take 6 (drop 10 b))"
  by (simp add: format_uuid_hex_def hex_of_def)

lemma filter_format_uuid:
  assumes "length b = 16"
  shows "filter (\<lambda>c. c \<noteq> CHR ''-'') (format_uuid_hex b) = hex_of b"
proof -
  have "b = take 4 b @ take 2 (drop 4 b) @ take 2 (drop 6 b) @ take 2 (drop 8 b) @ take 6 (drop 10 b)"
    using assms take_add [of 4 12 b] take_add [of 2 10 "drop 4 b"] take_add [of 2 8 "drop 6 b"]
      take_add [of 2 6 "drop 8 b"] by simp
  then have "hex_of b = hex_of (take 4 b) @ hex_of (take 2 (drop 4 b)) @ hex_of (take 2 (drop 6 b))
      @ hex_of (take 2 (drop 8 b)) @ hex_of (take 6 (drop 10 b))"
    by (metis hex_of_append)
  then show ?thesis by (simp add: format_uuid_hex_eq filter_hex_of)
qed

lemma parse_format_uuid:
  assumes "length b = 16"
  shows "parse_uuid_bytes (format_uuid_hex b) field = Some (Ok b)"
proof -
  have len: "length (format_uuid_hex b) = 36" using assms by (simp add: format_uuid_hex_eq length_hex_of)
  then have "format_uuid_hex b \<noteq> []" "format_uuid_hex b \<noteq> NULL_VERSION_ID" by (auto simp: NULL_VERSION_ID_def)
  then show ?thesis
    using assms by (simp add: parse_uuid_bytes_def filter_format_uuid length_hex_of hex_bytes_hex_of Let_def)
qed

lemma parse_uuid_null [simp]:
  "parse_uuid_bytes [] field = Some (Ok (replicate 16 0))"
  "parse_uuid_bytes NULL_VERSION_ID field = Some (Ok (replicate 16 0))"
  by (simp_all add: parse_uuid_bytes_def)

lemma parse_format_version_id:
  "length b = 16 \<Longrightarrow> parse_uuid_bytes (format_version_id_bytes b) field = Some (Ok b)"
  by (cases "b = replicate 16 0") (simp_all add: format_version_id_bytes_def parse_format_uuid)

lemma parse_format_data_dir:
  "length b = 16 \<Longrightarrow> parse_uuid_bytes (format_data_dir_bytes b) field = Some (Ok b)"
  by (cases "b = replicate 16 0") (simp_all add: format_data_dir_bytes_def parse_format_uuid)

lemma format_data_dir_eq_Nil:
  assumes "length b = 16"
  shows "format_data_dir_bytes b = [] \<longleftrightarrow> b = replicate 16 0"
proof -
  have "format_uuid_hex b \<noteq> []" by (simp add: format_uuid_hex_eq)
  then show ?thesis by (simp add: format_data_dir_bytes_def)
qed

subsection \<open>The frame\<close>

lemma of_be_be_bytes [simp]: "v < 256 ^ k \<Longrightarrow> of_be (be_bytes k v) = v"
  by (simp add: of_be_def be_bytes_def)

lemma length_be_bytes [simp]: "length (be_bytes k v) = k"
  by (simp add: be_bytes_def)

lemma of_be_lt: "of_be bs < 256 ^ length bs"
  using of_le_lt [of "rev bs"] by (simp add: of_be_def)

lemma be_bytes_of_be: "length bs = k \<Longrightarrow> be_bytes k (of_be bs) = bs"
  by (simp add: of_be_def be_bytes_def le_bytes_of_le)

lemmas xl_constants = XL_MAGIC_def FORMAT_MAJOR_def FORMAT_MINOR_def HEADER_LEN_def BIN32_HEADER_LEN_def CRC_LEN_def

lemma length_xl_head [simp]: "length (xl_head xxh64 body) = 18 + length body"
  by (simp add: xl_head_def XL_MAGIC_def)

text \<open>What the encoder frames, the decoder opens: body and tail are handed on as they were.\<close>

lemma decode_all_frame:
  assumes "length body < 2 ^ 32"
  shows "decode_all from_slice xxh64 (xl_head xxh64 body @ tail) =
    and_then (map_err (\<lambda>e. corrupt (''decode body: '' @ e)) (from_slice body)) (decode_versions tail)"
proof -
  obtain crc where crc: "unat (xxh64 body) mod 2 ^ 32 = crc" by simp
  then have crc32: "crc < 256 ^ 4" by auto
  obtain bytes where bytes: "xl_head xxh64 body @ tail = bytes" by simp
  then have b: "bytes = XL_MAGIC @ le_bytes 2 1 @ le_bytes 2 3 @ [BIN32_TAG] @ be_bytes 4 (length body) @ body
      @ [CRC_TAG] @ be_bytes 4 crc @ tail"
    using assms crc by (simp add: xl_head_def FORMAT_MAJOR_def FORMAT_MINOR_def)
  have m: "length XL_MAGIC = 4" by (simp add: XL_MAGIC_def)
  have len: "length bytes = 18 + length body + length tail" using m by (simp add: b)
  have parts: "take 4 bytes = XL_MAGIC" "take 2 (drop 4 bytes) = le_bytes 2 1"
    "take 2 (drop 6 bytes) = le_bytes 2 3" "bytes ! 8 = BIN32_TAG"
    "take 4 (drop 9 bytes) = be_bytes 4 (length body)" "take (length body) (drop 13 bytes) = body"
    by (simp_all add: b m nth_append)
  define pre where "pre = XL_MAGIC @ le_bytes 2 1 @ le_bytes 2 3 @ [BIN32_TAG] @ be_bytes 4 (length body) @ body"
  have pre: "length pre = 13 + length body" "bytes = pre @ (CRC_TAG # be_bytes 4 crc) @ tail"
    using m by (simp_all add: pre_def b)
  have slot: "take 5 (drop (13 + length body) bytes) = CRC_TAG # be_bytes 4 crc"
    unfolding pre(2) pre(1) [symmetric] by simp
  have tl: "drop (18 + length body) bytes = tail"
    using pre(1) unfolding pre(2) by simp
  have le: "of_le (le_bytes 2 1) = 1" "of_le (le_bytes 2 3) = 3"
    "of_be (be_bytes 4 (length body)) = length body" "of_be (be_bytes 4 crc) = crc"
    using assms crc32 by simp_all
  have h: "(8::nat) + 1 = 9" "8 + 5 = (13::nat)" "13 + length body + 5 = 18 + length body"
    "(CRC_TAG # be_bytes 4 crc) ! 0 = CRC_TAG" "drop 1 (CRC_TAG # be_bytes 4 crc) = be_bytes 4 crc"
    by simp_all
  have ge: "\<not> length bytes < 13 + 5" "\<not> length bytes < 18 + length body" using len by simp_all
  show ?thesis
    unfolding bytes decode_all_def Let_def HEADER_LEN_def BIN32_HEADER_LEN_def CRC_LEN_def FORMAT_MAJOR_def
      FORMAT_MINOR_def h parts slot tl le crc
    using ge by (simp add: crc)
qed

lemma decode_all_is_frame:
  assumes "decode_all from_slice xxh64 bytes = Ok rs"
  shows "\<exists>body tail od. bytes = xl_head xxh64 body @ tail \<and> length body < 2 ^ 32 \<and> from_slice body = Ok od \<and>
    decode_versions tail od = Ok rs"
proof -
  obtain n where n: "of_be (take 4 (drop 9 bytes)) = n" by simp
  define body where "body = take n (drop 13 bytes)"
  obtain od where c: "18 \<le> length bytes" "take 4 bytes = XL_MAGIC" "of_le (take 2 (drop 4 bytes)) = 1"
    "of_le (take 2 (drop 6 bytes)) = 3" "bytes ! 8 = BIN32_TAG" "18 + n \<le> length bytes"
    "take 5 (drop (13 + n) bytes) ! 0 = CRC_TAG"
    "unat (xxh64 body) mod 2 ^ 32 = of_be (drop 1 (take 5 (drop (13 + n) bytes)))"
    "from_slice body = Ok od" "decode_versions (drop (18 + n) bytes) od = Ok rs"
    using assms
    by (auto simp: decode_all_def Let_def HEADER_LEN_def BIN32_HEADER_LEN_def CRC_LEN_def FORMAT_MAJOR_def
        FORMAT_MINOR_def n body_def and_then_eq_Ok map_err_eq_Ok add.commute [of _ 5] split: if_splits)
  have n32: "n < 2 ^ 32" using of_be_lt [of "take 4 (drop 9 bytes)"] c(1) n by simp
  have body: "length body = n" using c(6) by (simp add: body_def)
  have f: "take 2 (drop 4 bytes) = le_bytes 2 1" "take 2 (drop 6 bytes) = le_bytes 2 3"
    "take 4 (drop 9 bytes) = be_bytes 4 n"
    using le_bytes_of_le [of "take 2 (drop 4 bytes)" 2] le_bytes_of_le [of "take 2 (drop 6 bytes)" 2]
      be_bytes_of_be [of "take 4 (drop 9 bytes)" 4] c(1)
    by (simp_all add: c(3,4) n)
  obtain slot where slot: "take 5 (drop (13 + n) bytes) = slot" by simp
  then have "length slot = 5" using c(6) by auto
  then have slot_eq: "slot = CRC_TAG # be_bytes 4 (unat (xxh64 body) mod 2 ^ 32)"
    using c(7,8) be_bytes_of_be [of "drop 1 slot" 4] by (cases slot) (simp_all add: slot)
  have tag: "take 1 (drop 8 bytes) = [BIN32_TAG]"
    using c(1,5) by (simp add: take_Suc_conv_app_nth)
  have "bytes = take 4 bytes @ take 2 (drop 4 bytes) @ take 2 (drop 6 bytes) @ take 1 (drop 8 bytes)
      @ take 4 (drop 9 bytes) @ body @ slot @ drop (18 + n) bytes"
    unfolding body_def slot [symmetric]
    using append_take_drop_id [of 4 bytes] append_take_drop_id [of 2 "drop 4 bytes"]
      append_take_drop_id [of 2 "drop 6 bytes"] append_take_drop_id [of 1 "drop 8 bytes"]
      append_take_drop_id [of 4 "drop 9 bytes"] append_take_drop_id [of n "drop 13 bytes"]
      append_take_drop_id [of 5 "drop (13 + n) bytes"]
    by (simp add: add.commute)
  then have "bytes = xl_head xxh64 body @ drop (18 + n) bytes"
    unfolding xl_head_def f c(2) tag slot_eq using body n32 by (simp add: FORMAT_MAJOR_def FORMAT_MINOR_def)
  with body n32 c(9,10) show ?thesis by metis
qed

subsection \<open>What validation guarantees\<close>

lemma and_then_unit: "and_then r (\<lambda>_. f) = Ok y \<longleftrightarrow> r = Ok () \<and> f = Ok y" for r :: "(unit, 'e) result"
  by (cases r) auto

lemma check_parts_Ok:
  assumes "\<And>i p. chk i p = Ok () \<longleftrightarrow> Q p"
  shows "check_parts chk i ps = Ok () \<longleftrightarrow> (\<forall>p \<in> set ps. Q p)"
  by (induction ps arbitrary: i) (auto simp: and_then_eq_Ok assms)

definition erasure_ok :: "erasure_info \<Rightarrow> bool" where
  "erasure_ok ei =
     (ei_algorithm ei \<noteq> [] \<and> 0 < ei_data_blocks ei \<and> ei_parity_blocks ei \<le> ei_data_blocks ei \<and>
      length (ei_distribution ei) = ei_data_blocks ei + ei_parity_blocks ei \<and>
      0 < ei_index ei \<and> ei_index ei \<le> ei_data_blocks ei + ei_parity_blocks ei \<and> 0 < ei_block_size ei)"

lemma validate_erasure_Ok: "validate_erasure ei err = Ok () \<longleftrightarrow> erasure_ok ei"
  by (auto simp: validate_erasure_def erasure_ok_def Let_def)

lemma check_encode_Ok:
  "check_parts check_part_encode i ps = Ok () \<longleftrightarrow>
     (\<forall>p \<in> set ps. 0 < op_number p \<and> 0 \<le> op_size p \<and> 0 \<le> op_actual_size p)"
  by (rule check_parts_Ok) (auto simp: check_part_encode_def)

lemma check_decode_Ok:
  "check_parts check_part_decode i ps = Ok () \<longleftrightarrow> (\<forall>p \<in> set ps. 0 < op_number p \<and> 0 \<le> op_size p)"
  by (rule check_parts_Ok) (auto simp: check_part_decode_def)

lemma validate_for_encode_Ok:
  "validate_for_encode fi = Ok () \<longleftrightarrow>
     0 \<le> fi_size fi \<and> 0 < fi_mod_time_ms fi \<and> erasure_ok (fi_erasure fi) \<and>
     (fi_deleted fi \<longrightarrow> fi_parts fi = [] \<and> fi_size fi = 0 \<and> \<not> has_inline fi) \<and>
     (\<not> fi_deleted fi \<and> 0 < fi_size fi \<longrightarrow> fi_parts fi \<noteq> [] \<and> (has_inline fi \<or> fi_data_dir fi \<noteq> [])) \<and>
     (has_inline fi \<longrightarrow> fi_data_dir fi = [] \<and> frame_total fi = fi_size fi) \<and>
     (\<forall>p \<in> set (fi_parts fi). 0 < op_number p \<and> 0 \<le> op_size p \<and> 0 \<le> op_actual_size p)"
  unfolding validate_for_encode_def if_Err_eq_Ok and_then_unit validate_erasure_Ok check_encode_Ok
  by (cases "fi_deleted fi"; cases "has_inline fi"; cases "0 < fi_size fi"; simp add: not_less; blast)

lemma validate_decoded_Ok:
  "validate_decoded_version v = Ok () \<longleftrightarrow>
     vr_ty v \<le> 1 \<and> 0 \<le> vr_size v \<and> 0 < vr_mod_time v \<and> erasure_ok (decode_erasure (vr_erasure v)) \<and>
     (vr_ty v = 1 \<longrightarrow> vr_parts v = [] \<and> vr_size v = 0 \<and> vr_inline_length v = 0) \<and>
     (vr_ty v \<noteq> 1 \<and> 0 < vr_size v \<longrightarrow> vr_parts v \<noteq> []) \<and>
     (0 < vr_inline_length v \<longrightarrow> vr_data_dir v = replicate 16 0 \<and> nat (vr_size v mod 2 ^ 64) = vr_inline_length v) \<and>
     (\<forall>p \<in> set (vr_parts v). 0 < pb_number p \<and> 0 \<le> pb_size p)"
  unfolding validate_decoded_version_def if_Err_eq_Ok and_then_unit map_err_eq_Ok validate_erasure_Ok
    check_decode_Ok
  by (cases "vr_ty v = 1"; cases "0 < vr_inline_length v"; cases "0 < vr_size v";
      simp add: not_less decode_part_def; linarith)

subsection \<open>Decoded records\<close>

definition record_ok :: "decoded_record \<Rightarrow> bool" where
  "record_ok r =
     (0 \<le> dr_size r \<and> 0 < dr_mod_time_ms r \<and> erasure_ok (dr_erasure r) \<and>
      (dr_deleted r \<longrightarrow> dr_parts r = [] \<and> dr_size r = 0 \<and> dr_inline r = None) \<and>
      (\<not> dr_deleted r \<and> 0 < dr_size r \<longrightarrow> dr_parts r \<noteq> []) \<and>
      (case dr_inline r of
         None \<Rightarrow> True
       | Some frames \<Rightarrow> (\<exists>b. frames = [b] \<and> b \<noteq> [] \<and> int (length b) = dr_size r) \<and> dr_data_dir r = []) \<and>
      (\<forall>p \<in> set (dr_parts r). 0 < op_number p \<and> 0 \<le> op_size p) \<and>
      (\<exists>b. length b = 16 \<and> dr_version_id r = format_version_id_bytes b) \<and>
      (\<exists>b. length b = 16 \<and> dr_data_dir r = format_data_dir_bytes b))"

text \<open>The types of the fields: arrays of 16 bytes and a signed 64-bit integer.\<close>

definition typed_record :: "version_record \<Rightarrow> bool" where
  "typed_record v = (length (vr_version_id v) = 16 \<and> length (vr_data_dir v) = 16 \<and> vr_size v < 2 ^ 63)"

lemma decode_record_ok:
  assumes "validate_decoded_version v = Ok ()" "decode_record tail n v = Ok r" "typed_record v"
  shows "record_ok r" "dr_mod_time_ms r = vr_mod_time v" "dr_num_versions r = n"
proof -
  note val = assms(1) [unfolded validate_decoded_Ok]
  obtain inl where r: "r = \<lparr>dr_version_id = format_version_id_bytes (vr_version_id v),
      dr_data_dir = format_data_dir_bytes (vr_data_dir v), dr_deleted = (vr_ty v = 1), dr_size = vr_size v,
      dr_mod_time_ms = vr_mod_time v, dr_metadata = vr_metadata v, dr_meta_sys = vr_meta_sys v,
      dr_erasure = decode_erasure (vr_erasure v), dr_parts = map decode_part (vr_parts v), dr_inline = inl,
      dr_num_versions = n\<rparr>"
    and inl: "if vr_inline_length v = 0 then inl = None
      else \<exists>bs. inl = Some [bs] \<and> length bs = vr_inline_length v"
    using assms(2) by (auto simp: decode_record_def Let_def and_then_eq_Ok split: if_splits)
  show "dr_mod_time_ms r = vr_mod_time v" "dr_num_versions r = n" by (simp_all add: r)
  have "int (vr_inline_length v) = vr_size v" if "0 < vr_inline_length v"
  proof -
    have "0 \<le> vr_size v" "nat (vr_size v mod 2 ^ 64) = vr_inline_length v" using val that by blast+
    moreover have "vr_size v mod 2 ^ 64 = vr_size v"
      using calculation(1) assms(3) by (intro mod_pos_pos_trivial) (simp_all add: typed_record_def)
    ultimately show ?thesis by simp
  qed
  moreover have "\<exists>b. length b = 16 \<and> dr_version_id r = format_version_id_bytes b"
    "\<exists>b. length b = 16 \<and> dr_data_dir r = format_data_dir_bytes b"
    using assms(3) by (auto simp: typed_record_def r)
  moreover have "0 < vr_inline_length v \<Longrightarrow> dr_data_dir r = []" using val by (simp add: r format_data_dir_bytes_def)
  ultimately show "record_ok r"
    using val inl unfolding record_ok_def by (auto simp: r decode_part_def split: if_splits)
qed

lemma decode_versions_ok:
  assumes "decode_versions tail od = Ok rs" "\<forall>v \<in> set (od_versions od). typed_record v"
  shows "rs \<noteq> []" "length rs = length (od_versions od)"
    "\<forall>r \<in> set rs. record_ok r \<and> dr_num_versions r = as_i32 (length rs)"
    "sorted_wrt (\<lambda>a b. dr_mod_time_ms b \<le> dr_mod_time_ms a) rs"
proof -
  obtain vs where vs: "newest_first (od_versions od) = vs" by simp
  obtain us where vs': "od_versions od \<noteq> []" "map validate_decoded_version vs = map Inr us"
    "map (decode_record tail (as_i32 (length vs))) vs = map Inr rs"
    using assms(1)
    by (auto simp: decode_versions_def Let_def and_then_eq_Ok collect_results_eq_Ok vs split: if_splits)
  have set_vs: "set vs = set (od_versions od)" "length vs = length (od_versions od)"
    by (auto simp: newest_first_def simp flip: vs)
  have len: "length rs = length vs" "length us = length vs"
    using vs'(2,3) [THEN map_eq_imp_length_eq] by simp_all
  show "length rs = length (od_versions od)" by (simp add: len set_vs)
  with vs'(1) show "rs \<noteq> []" by auto
  have at: "validate_decoded_version (vs ! i) = Ok ()" "decode_record tail (as_i32 (length vs)) (vs ! i) = Ok (rs ! i)"
    if "i < length vs" for i
    using that len arg_cong [OF vs'(2), of "\<lambda>l. l ! i"] arg_cong [OF vs'(3), of "\<lambda>l. l ! i"] by simp_all
  have ok: "record_ok (rs ! i) \<and> dr_mod_time_ms (rs ! i) = vr_mod_time (vs ! i) \<and> dr_num_versions (rs ! i) = as_i32 (length vs)"
    if i: "i < length vs" for i
  proof -
    have "typed_record (vs ! i)" using assms(2) set_vs(1) nth_mem [OF i] by blast
    from decode_record_ok [OF at [OF i] this] show ?thesis by blast
  qed
  then show "\<forall>r \<in> set rs. record_ok r \<and> dr_num_versions r = as_i32 (length rs)"
    by (auto simp: in_set_conv_nth len)
  have "sorted (map (\<lambda>v. - int (vr_mod_time v)) vs)" by (simp add: newest_first_def flip: vs)
  then show "sorted_wrt (\<lambda>a b. dr_mod_time_ms b \<le> dr_mod_time_ms a) rs"
    using ok by (simp add: sorted_wrt_iff_nth_less sorted_iff_nth_mono_less len)
qed

lemma decode_all_ok:
  assumes "\<And>body od v. from_slice body = Ok od \<Longrightarrow> v \<in> set (od_versions od) \<Longrightarrow> typed_record v"
    and "decode_all from_slice xxh64 bytes = Ok rs"
  shows "(\<exists>body tail. bytes = xl_head xxh64 body @ tail \<and> length body < 2 ^ 32) \<and> rs \<noteq> [] \<and>
    sorted_wrt (\<lambda>a b. dr_mod_time_ms b \<le> dr_mod_time_ms a) rs \<and>
    (\<forall>r \<in> set rs. record_ok r \<and> dr_num_versions r = as_i32 (length rs))"
proof -
  obtain body tail od where b: "bytes = xl_head xxh64 body @ tail" "length body < 2 ^ 32" "from_slice body = Ok od"
    "decode_versions tail od = Ok rs"
    using decode_all_is_frame [OF assms(2)] by blast
  then have "\<forall>v \<in> set (od_versions od). typed_record v" using assms(1) by blast
  from decode_versions_ok [OF b(4) this] b(1,2) show ?thesis by blast
qed


subsection \<open>Round trip\<close>

definition inline_bytes :: "file_info \<Rightarrow> byte list" where
  "inline_bytes fi = (case fi_data fi of None \<Rightarrow> [] | Some frames \<Rightarrow> concat frames)"

lemma concat_inline_frames: "concat (inline_frames fi) = inline_bytes fi"
proof -
  have "concat (filter (\<lambda>f. f \<noteq> []) fs) = concat fs" for fs :: "byte list list"
    by (induction fs) simp_all
  then show ?thesis by (simp add: inline_frames_def inline_bytes_def split: option.split)
qed

lemma sum_inline_frames: "sum_list (map length (inline_frames fi)) = length (inline_bytes fi)"
  by (simp add: length_concat flip: concat_inline_frames)

lemma inline_layout_spec:
  "list_all2 (\<lambda>fi (off, len). len = length (inline_bytes fi) \<and>
     (0 < len \<longrightarrow> off + len \<le> length (pre @ concat (map inline_bytes fis)) \<and>
        take len (drop off (pre @ concat (map inline_bytes fis))) = inline_bytes fi))
     fis (inline_layout (length pre) fis)"
proof (induction fis arbitrary: pre)
  case (Cons fi fis)
  from Cons [of "pre @ inline_bytes fi"] show ?case
    by (simp add: Let_def sum_inline_frames)
qed simp

definition stored :: "int \<Rightarrow> file_info \<Rightarrow> decoded_record" where
  "stored n fi =
     \<lparr>dr_version_id = fi_version_id fi, dr_data_dir = fi_data_dir fi, dr_deleted = fi_deleted fi, dr_size = fi_size fi,
      dr_mod_time_ms = fi_mod_time_ms fi, dr_metadata = fi_metadata fi, dr_meta_sys = fi_meta_sys fi,
      dr_erasure = fi_erasure fi, dr_parts = fi_parts fi,
      dr_inline = (if inline_bytes fi = [] then None else Some [inline_bytes fi]), dr_num_versions = n\<rparr>"

text \<open>Identifiers in the form that the decoder prints: a lower-case UUID, or the null form of the field.\<close>

definition canonical_ids :: "file_info \<Rightarrow> bool" where
  "canonical_ids fi =
     ((\<exists>b. length b = 16 \<and> fi_version_id fi = format_version_id_bytes b) \<and>
      (\<exists>b. length b = 16 \<and> fi_data_dir fi = format_data_dir_bytes b))"

lemma canonical_ids_parse:
  assumes "canonical_ids fi"
  obtains vid dd where "parse_uuid_bytes (fi_version_id fi) ''version_id'' = Some (Ok vid)"
    "parse_uuid_bytes (fi_data_dir fi) ''data_dir'' = Some (Ok dd)" "length dd = 16"
    "format_version_id_bytes vid = fi_version_id fi" "format_data_dir_bytes dd = fi_data_dir fi"
  using assms parse_format_version_id parse_format_data_dir unfolding canonical_ids_def by metis

lemma decode_encode_erasure [simp]: "decode_erasure (encode_erasure ei) = ei"
proof -
  have "map (\<lambda>c. \<lparr>ci_part_number = ci_part_number c, ci_algorithm = ci_algorithm c, ci_hash = ci_hash c\<rparr>) cs = cs"
    for cs :: "checksum_info list"
    by (rule map_idI) simp
  then show ?thesis by (cases ei) (simp add: decode_erasure_def encode_erasure_def comp_def)
qed

lemma decode_encode_part [simp]: "decode_part (encode_part p) = p"
  by (simp add: decode_part_def encode_part_def)

lemma inline_bytes_total: "frame_total fi = int (length (inline_bytes fi))"
  by (simp add: frame_total_def inline_bytes_def length_concat split: option.split)

lemma inline_bytes_has: "inline_bytes fi \<noteq> [] \<Longrightarrow> has_inline fi"
  by (auto simp: inline_bytes_def has_inline_def split: option.splits)

lemma decode_record_encoded:
  assumes "validate_for_encode fi = Ok ()" "canonical_ids fi" "encode_record fi (off, len) = Some (Ok r)"
    and "len = length (inline_bytes fi)" "length tail < 2 ^ 64"
    and "0 < len \<Longrightarrow> off + len \<le> length tail \<and> take len (drop off tail) = inline_bytes fi"
  shows "validate_decoded_version r = Ok ()" "decode_record tail n r = Ok (stored n fi)"
    "vr_mod_time r = fi_mod_time_ms fi"
proof -
  note val = assms(1) [unfolded validate_for_encode_Ok]
  obtain vid dd where ids: "parse_uuid_bytes (fi_version_id fi) ''version_id'' = Some (Ok vid)"
    "parse_uuid_bytes (fi_data_dir fi) ''data_dir'' = Some (Ok dd)" "length dd = 16"
    "format_version_id_bytes vid = fi_version_id fi" "format_data_dir_bytes dd = fi_data_dir fi"
    using canonical_ids_parse [OF assms(2)] by blast
  have r: "r = \<lparr>vr_version_id = vid, vr_ty = (if fi_deleted fi then 1 else 0), vr_mod_time = fi_mod_time_ms fi,
      vr_data_dir = dd, vr_size = fi_size fi, vr_erasure = encode_erasure (fi_erasure fi),
      vr_parts = map encode_part (fi_parts fi), vr_metadata = fi_metadata fi, vr_meta_sys = fi_meta_sys fi,
      vr_inline_offset = off, vr_inline_length = len\<rparr>"
    using assms(3) by (simp add: encode_record_def ids)
  then show "vr_mod_time r = fi_mod_time_ms fi" by simp
  have inl: "has_inline fi \<and> dd = replicate 16 0 \<and> nat (fi_size fi mod 2 ^ 64) = len" if "0 < len"
  proof -
    have has: "has_inline fi" using that assms(4) inline_bytes_has by auto
    then have "fi_data_dir fi = []" "fi_size fi = int len" using val assms(4) by (simp_all add: inline_bytes_total)
    moreover have "len < 2 ^ 64" using assms(5,6) that by linarith
    ultimately show ?thesis using has ids(5) format_data_dir_eq_Nil [OF ids(3)] by simp
  qed
  have "len = 0" if "fi_deleted fi" using inl val that by blast
  with val inl show "validate_decoded_version r = Ok ()"
    unfolding validate_decoded_Ok by (simp add: r) (simp add: encode_part_def)
  show "decode_record tail n r = Ok (stored n fi)"
    using assms(4-6) by (cases "0 < len") (simp_all add: decode_record_def r stored_def ids Let_def comp_def)
qed

lemma encode_records_Ok:
  "encode_records xs = Some (Ok rs) \<Longrightarrow> list_all2 (\<lambda>(fi, layout) r. encode_record fi layout = Some (Ok r)) xs rs"
  by (induction xs arbitrary: rs rule: encode_records.induct)
    (auto simp: and_then_eq_Ok split: option.splits sum.splits)

lemma encode_versions_Ok:
  assumes "encode_versions to_vec xxh64 versions = Some (Ok enc)"
  obtains rs body where "versions \<noteq> []" "\<forall>fi \<in> set versions. validate_for_encode fi = Ok ()"
    "encode_records (zip versions (inline_layout 0 versions)) = Some (Ok rs)" "to_vec \<lparr>od_versions = rs\<rparr> = Ok body"
    "ex_head enc = xl_head xxh64 body" "concat (ex_tail enc) = concat (map inline_bytes versions)"
proof -
  obtain us rs body where *: "versions \<noteq> []" "collect_results (map validate_for_encode versions) = Ok us"
    "encode_records (zip versions (inline_layout 0 versions)) = Some (Ok rs)" "to_vec \<lparr>od_versions = rs\<rparr> = Ok body"
    "enc = \<lparr>ex_head = xl_head xxh64 body, ex_tail = concat (map inline_frames versions)\<rparr>"
    using assms
    by (auto simp: encode_versions_def and_then_eq_Ok map_err_eq_Ok split: if_splits sum.splits option.splits)
  have "validate_for_encode fi = Ok ()" if "fi \<in> set versions" for fi
  proof -
    have "validate_for_encode fi \<in> set (map Inr us)"
      using that *(2) unfolding collect_results_eq_Ok by (metis image_eqI list.set_map)
    then show ?thesis by auto
  qed
  moreover have "concat (concat (map inline_frames versions)) = concat (map inline_bytes versions)"
    by (induction versions) (simp_all add: concat_inline_frames)
  ultimately show thesis using that * by simp
qed

lemma decode_versions_encoded:
  assumes "versions \<noteq> []" "\<forall>fi \<in> set versions. validate_for_encode fi = Ok () \<and> canonical_ids fi"
    and "encode_records (zip versions (inline_layout 0 versions)) = Some (Ok rs)"
    and "tail = concat (map inline_bytes versions)" "length tail < 2 ^ 64"
  shows "decode_versions tail \<lparr>od_versions = rs\<rparr> =
    Ok (map (stored (as_i32 (length versions))) (sort_key (\<lambda>fi. - int (fi_mod_time_ms fi)) versions))"
proof -
  obtain n where n: "as_i32 (length versions) = n" by simp
  define zs where "zs = zip versions rs"
  have lay: "list_all2 (\<lambda>fi (off, len). len = length (inline_bytes fi) \<and>
      (0 < len \<longrightarrow> off + len \<le> length tail \<and> take len (drop off tail) = inline_bytes fi))
      versions (inline_layout 0 versions)"
    using inline_layout_spec [of "[]" versions] assms(4) by simp
  note enc = encode_records_Ok [OF assms(3)]
  have len: "length rs = length versions"
    using list_all2_lengthD [OF enc] list_all2_lengthD [OF lay] by simp
  have dec: "validate_decoded_version r = Ok () \<and> decode_record tail n r = Ok (stored n fi) \<and>
      vr_mod_time r = fi_mod_time_ms fi" if z: "(fi, r) \<in> set zs" for fi r
  proof -
    obtain i where i: "i < length versions" "fi = versions ! i" "r = rs ! i"
      using z len by (auto simp: zs_def in_set_zip)
    obtain off l where ol: "inline_layout 0 versions ! i = (off, l)" by fastforce
    have r: "encode_record fi (off, l) = Some (Ok r)"
      using list_all2_nthD [OF enc, of i] list_all2_lengthD [OF lay] i ol by simp
    have l: "l = length (inline_bytes fi)"
      "0 < l \<Longrightarrow> off + l \<le> length tail \<and> take l (drop off tail) = inline_bytes fi"
      using list_all2_nthD [OF lay i(1)] unfolding ol i(2) split_conv by blast+
    have "validate_for_encode fi = Ok ()" "canonical_ids fi" using assms(2) i by simp_all
    from decode_record_encoded [OF this r l(1) assms(5) l(2)] show ?thesis by blast
  qed
  obtain ks where ks: "sort_key (\<lambda>(fi, r). - int (fi_mod_time_ms fi)) zs = ks" by simp
  have set_ks: "set ks = set zs" by (simp flip: ks)
  have "map fst ks = sort_key (\<lambda>fi. - int (fi_mod_time_ms fi)) (map fst zs)"
    unfolding ks [symmetric] by (rule map_sort_key) auto
  then have fsts: "map fst ks = sort_key (\<lambda>fi. - int (fi_mod_time_ms fi)) versions" by (simp add: zs_def len)
  have "map snd ks = newest_first (map snd zs)"
    unfolding ks [symmetric] newest_first_def by (rule map_sort_key) (use dec in auto)
  then have snds: "newest_first rs = map snd ks" by (simp add: zs_def len)
  have "collect_results (map validate_decoded_version (map snd ks)) = Ok (map (\<lambda>_. ()) (map snd ks))"
    by (rule collect_results_map) (use dec set_ks in auto)
  moreover have "collect_results (map (\<lambda>z. decode_record tail n (snd z)) ks) = Ok (map (\<lambda>z. stored n (fst z)) ks)"
    by (rule collect_results_map) (use dec set_ks in auto)
  moreover have "length ks = length versions" using len by (simp add: zs_def flip: ks)
  ultimately show ?thesis
    using assms(1) len by (auto simp: decode_versions_def Let_def snds n comp_def simp flip: fsts)
qed

lemma encoded_decodes:
  assumes "\<And>od body. to_vec od = Ok body \<Longrightarrow> from_slice body = Ok od"
    and "encode_versions to_vec xxh64 versions = Some (Ok enc)"
    and "\<forall>fi \<in> set versions. canonical_ids fi"
    and "length (ex_head enc) < 2 ^ 32" "length (concat (ex_tail enc)) < 2 ^ 64"
  shows "decode_all from_slice xxh64 (encoded_to_vec enc) =
    Ok (map (stored (as_i32 (length versions))) (sort_key (\<lambda>fi. - int (fi_mod_time_ms fi)) versions))"
proof -
  obtain rs body where e: "versions \<noteq> []" "\<forall>fi \<in> set versions. validate_for_encode fi = Ok ()"
    "encode_records (zip versions (inline_layout 0 versions)) = Some (Ok rs)" "to_vec \<lparr>od_versions = rs\<rparr> = Ok body"
    "ex_head enc = xl_head xxh64 body" "concat (ex_tail enc) = concat (map inline_bytes versions)"
    using encode_versions_Ok [OF assms(2)] by blast
  have "length body < 2 ^ 32" using assms(4) e(5) by simp
  then show ?thesis
    using decode_all_frame [of body from_slice xxh64 "concat (ex_tail enc)"] assms(1) [OF e(4)] e assms(3,5)
      decode_versions_encoded [OF e(1) _ e(3)]
    by (simp add: encoded_to_vec_def)
qed

text \<open>
  C19: what \<open>encode_versions\<close> writes, \<open>decode_all\<close> reads. The encoded bytes of a list of versions
  with canonical identifiers decode to exactly these versions, newest first and in the given
  order among equal times: every field is kept, and each version gets its own inline bytes
  back, joined into one span, out of the shared tail. The hypotheses say that MessagePack reads
  back what it writes and that head and tail fit the 32-bit and 64-bit lengths of the format.
\<close>

theorem xl_meta_round_trip:
  assumes "\<And>od body. to_vec od = Ok body \<Longrightarrow> from_slice body = Ok od"
    and "encode_versions to_vec xxh64 versions = Some (Ok enc)"
    and "\<forall>fi \<in> set versions. canonical_ids fi"
    and "length (ex_head enc) < 2 ^ 32" "length (concat (ex_tail enc)) < 2 ^ 64"
  shows "decode_all from_slice xxh64 (encoded_to_vec enc) =
    Ok (map (stored (as_i32 (length versions))) (sort_key (\<lambda>fi. - int (fi_mod_time_ms fi)) versions))"
  by (rule encoded_decodes [OF assms])

text \<open>Two inline versions and a small concrete codec for them.\<close>

definition xl_example :: "nat \<Rightarrow> byte list list \<Rightarrow> file_info" where
  "xl_example t frames = file_info_default\<lparr>
     fi_version_id := ''null'', fi_mod_time_ms := t, fi_size := int (length (concat frames)),
     fi_parts := [\<lparr>op_etag = [], op_number = 1, op_size = 3, op_actual_size = 3, op_mod_time_ms = t, op_index = [],
                   op_checksums = []\<rparr>],
     fi_erasure := \<lparr>ei_algorithm = ''rs'', ei_data_blocks = 1, ei_parity_blocks = 0, ei_block_size = 4096,
                    ei_index = 1, ei_distribution = [1], ei_checksums = []\<rparr>,
     fi_data := Some frames\<rparr>"

definition xl_example_body :: on_disk_meta where
  "xl_example_body = (case encode_records (zip [xl_example 5 [[1], [], [2, 3]], xl_example 7 [[4, 5]]] [(0, 3), (3, 2)]) of
     Some (Inr rs) \<Rightarrow> \<lparr>od_versions = rs\<rparr> | _ \<Rightarrow> \<lparr>od_versions = []\<rparr>)"

definition xl_to_vec :: "on_disk_meta \<Rightarrow> (byte list, string) result" where
  "xl_to_vec od = (if od = xl_example_body then Ok [9] else Err ''unsupported'')"

definition xl_from_slice :: "byte list \<Rightarrow> (on_disk_meta, string) result" where
  "xl_from_slice bs = (if bs = [9] then Ok xl_example_body else Err ''bad body'')"

abbreviation xl_pair :: "file_info list" where
  "xl_pair \<equiv> [xl_example 5 [[1], [], [2, 3]], xl_example 7 [[4, 5]]]"

lemma xl_pair_valid: "\<forall>fi \<in> set xl_pair. validate_for_encode fi = Ok ()"
  unfolding validate_for_encode_Ok
  by (simp add: xl_example_def has_inline_def frame_total_def erasure_ok_def file_info_default_def)

lemma xl_pair_records: "encode_records (zip xl_pair (inline_layout 0 xl_pair)) = Some (Ok (od_versions xl_example_body))"
proof -
  have "inline_layout 0 xl_pair = [(0, 3), (3, 2)]"
    by (simp add: xl_example_def inline_frames_def Let_def)
  then show ?thesis
    by (simp add: xl_example_body_def encode_record_def xl_example_def parse_uuid_bytes_def NULL_VERSION_ID_def
        file_info_default_def)
qed

lemma xl_pair_encodes:
  "encode_versions xl_to_vec (\<lambda>bs. word_of_nat (length bs)) xl_pair =
     Some (Ok \<lparr>ex_head = xl_head (\<lambda>bs. word_of_nat (length bs)) [9], ex_tail = [[1], [2, 3], [4, 5]]\<rparr>)"
  unfolding encode_versions_def xl_pair_records
  using xl_pair_valid by (simp add: xl_to_vec_def) (simp add: xl_example_def inline_frames_def)

lemma xl_pair_canonical: "\<forall>fi \<in> set xl_pair. canonical_ids fi"
proof -
  have "length (replicate 16 (0 :: byte)) = 16 \<and> ''null'' = format_version_id_bytes (replicate 16 0)"
    "length (replicate 16 (0 :: byte)) = 16 \<and> [] = format_data_dir_bytes (replicate 16 0)"
    by (simp_all only: format_version_id_bytes_def format_data_dir_bytes_def NULL_VERSION_ID_def length_replicate
        simp_thms if_True)
  moreover have "fi_version_id (xl_example t frames) = ''null''" "fi_data_dir (xl_example t frames) = []" for t frames
    by (simp_all add: xl_example_def file_info_default_def)
  ultimately have "canonical_ids (xl_example t frames)" for t frames
    unfolding canonical_ids_def by metis
  then show ?thesis by simp
qed

lemma xl_pair_sorted: "sort_key (\<lambda>fi. - int (fi_mod_time_ms fi)) xl_pair = rev xl_pair"
  by (simp add: xl_example_def)

lemma xl_codec: "xl_to_vec od = Ok body \<Longrightarrow> xl_from_slice body = Ok od"
  by (auto simp: xl_to_vec_def xl_from_slice_def split: if_splits)

theorem xl_meta_round_trip_witness:
  "decode_all xl_from_slice (\<lambda>bs. word_of_nat (length bs))
     (xl_head (\<lambda>bs. word_of_nat (length bs)) [9] @ [1, 2, 3, 4, 5]) =
     Ok [stored 2 (xl_example 7 [[4, 5]]), stored 2 (xl_example 5 [[1], [], [2, 3]])]"
  using xl_meta_round_trip [OF xl_codec xl_pair_encodes xl_pair_canonical]
  unfolding xl_pair_sorted by (simp add: encoded_to_vec_def as_i32_def)


end
