(* ===== verification/Erasure.thy ===== *)
theory Erasure
  imports Io_Types
begin

text \<open>
  The erasure coder, \<^verbatim>\<open>crates/openlake_storage/src/ec.rs\<close>, on top of a Reed-Solomon library.

  The library is external. \<open>rs_encode n m unit shards\<close> gives the recovery shards of \<open>n\<close> original
  shards, and \<open>rs_decode n m unit originals recoveries\<close> the restored originals, by index; an
  error is the message the caller builds from the library's error. \<open>rs_contract\<close> states the
  documented behaviour that the coder relies on: encoding gives \<open>m\<close> recovery shards of the
  same length, and any \<open>n\<close> of the \<open>n + m\<close> shards restore the missing originals.
\<close>

subsection \<open>The coder\<close>

type_synonym rs_encoder = "nat \<Rightarrow> nat \<Rightarrow> nat \<Rightarrow> byte list list \<Rightarrow> (byte list list, string) result"
type_synonym rs_decoder = "nat \<Rightarrow> nat \<Rightarrow> nat \<Rightarrow> (nat \<times> byte list) list \<Rightarrow> (nat \<times> byte list) list
    \<Rightarrow> (nat \<Rightarrow> byte list option, string) result"

definition div_ceil :: "nat \<Rightarrow> nat \<Rightarrow> nat option" where
  "div_ceil a b = (if b = 0 then None else Some ((a + b - 1) div b))"

definition shard_size :: "nat \<Rightarrow> nat \<Rightarrow> nat option" where
  "shard_size block_size data_shards = do {
     raw \<leftarrow> div_ceil block_size data_shards;
     Some (raw + raw mod 2)
   }"

record erasure =
  er_data_shards :: nat
  er_parity_shards :: nat

definition io_other :: "string \<Rightarrow> io_kind \<times> string" where
  "io_other msg = (OtherKind, msg)"

definition erasure_new :: "nat \<Rightarrow> nat \<Rightarrow> (erasure, io_kind \<times> string) result" where
  "erasure_new d p =
     (if d = 0 \<or> p = 0
      then Err (io_other (''EC requires data_shards>=1 and parity_shards>=1 (got '' @ show_nat d
                            @ ''+'' @ show_nat p @ '')''))
      else Ok \<lparr>er_data_shards = d, er_parity_shards = p\<rparr>)"

definition recovery_shard :: "byte list list \<Rightarrow> nat \<Rightarrow> (byte list, io_kind \<times> string) result" where
  "recovery_shard rs i =
     ok_or (io_other (''encode: recovery shard '' @ show_nat i @ '' missing'')) (arr_get rs i)"

definition encode_stripe :: "rs_encoder \<Rightarrow> erasure \<Rightarrow> byte list
    \<Rightarrow> (byte list list, io_kind \<times> string) result" where
  "encode_stripe rs_encode e stripe =
     (let n = er_data_shards e; m = er_parity_shards e; total_len = length stripe in
      if total_len = 0 \<or> total_len mod n \<noteq> 0
      then Err (io_other (''encode_stripe: stripe len '' @ show_nat total_len @ '' not divisible by ''
                            @ show_nat n @ '' data shards''))
      else let unit = total_len div n in
      if unit mod 2 \<noteq> 0
      then Err (io_other (''encode_stripe: shard unit '' @ show_nat unit @ '' must be even''))
      else let originals = map (\<lambda>i. take unit (drop (i * unit) stripe)) [0..<n] in
        and_then (map_err io_other (rs_encode n m unit originals)) (\<lambda>recs.
        and_then (collect_results (map (recovery_shard recs) [0..<m])) (\<lambda>parity.
          Ok (originals @ parity))))"

text \<open>The shards present in a range of slots, each with its slot number; a wrong length is an error.\<close>

fun check_shards :: "(nat \<Rightarrow> string) \<Rightarrow> nat \<Rightarrow> nat \<Rightarrow> byte list option list
    \<Rightarrow> ((nat \<times> byte list) list, io_kind \<times> string) result" where
  "check_shards what unit i [] = Ok []"
| "check_shards what unit i (None # ss) = check_shards what unit (Suc i) ss"
| "check_shards what unit i (Some s # ss) =
     (if length s \<noteq> unit
      then Err (io_other (what i @ '' len '' @ show_nat (length s) @ '' != unit '' @ show_nat unit))
      else and_then (check_shards what unit (Suc i) ss) (\<lambda>rest. Ok ((i, s) # rest)))"

definition restore_shard :: "(nat \<Rightarrow> byte list option) \<Rightarrow> byte list option list \<Rightarrow> nat
    \<Rightarrow> (byte list, io_kind \<times> string) result" where
  "restore_shard restored shards i =
     (case shards ! i of
        Some s \<Rightarrow> Ok s
      | None \<Rightarrow> ok_or (io_other (''decode: shard '' @ show_nat i @ '' not restored'')) (restored i))"

definition decode_stripe :: "rs_decoder \<Rightarrow> erasure \<Rightarrow> byte list option list \<Rightarrow> nat
    \<Rightarrow> (byte list list, io_kind \<times> string) result" where
  "decode_stripe rs_decode e shards unit =
     (let n = er_data_shards e; m = er_parity_shards e in
      if length shards \<noteq> n + m
      then Err (io_other (''decode_stripe: expected '' @ show_nat (n + m) @ '' shard slots, got ''
                            @ show_nat (length shards)))
      else if unit = 0 \<or> unit mod 2 \<noteq> 0
      then Err (io_other (''decode_stripe: shard unit '' @ show_nat unit @ '' must be non-zero and even''))
      else if length (filter (\<lambda>s. s \<noteq> None) (take n shards)) = n
      then Ok (map the (take n shards))
      else
        and_then (check_shards (\<lambda>i. ''decode_stripe: original shard '' @ show_nat i) unit 0 (take n shards)) (\<lambda>os.
        and_then (check_shards (\<lambda>i. ''decode_stripe: recovery shard '' @ show_nat i) unit n (drop n shards)) (\<lambda>rs.
        and_then (map_err io_other (rs_decode n m unit os (map (\<lambda>(i, s). (i - n, s)) rs))) (\<lambda>restored.
          collect_results (map (restore_shard restored shards) [0..<n])))))"

subsection \<open>What the library promises\<close>

definition present :: "nat \<Rightarrow> 'a option list \<Rightarrow> (nat \<times> 'a) list" where
  "present i ss = map (\<lambda>(j, s). (j, the s)) (filter (\<lambda>(j, s). s \<noteq> None) (enumerate i ss))"

definition rs_contract :: "nat \<Rightarrow> nat \<Rightarrow> rs_encoder \<Rightarrow> rs_decoder \<Rightarrow> bool" where
  "rs_contract n m rs_encode rs_decode \<longleftrightarrow>
     (\<forall>unit shards. 0 < unit \<and> even unit \<and> length shards = n \<and> (\<forall>s \<in> set shards. length s = unit) \<longrightarrow>
        (\<exists>recs. rs_encode n m unit shards = Ok recs \<and> length recs = m \<and> (\<forall>r \<in> set recs. length r = unit) \<and>
          (\<forall>os rs. length os = n \<and> length rs = m \<and>
             (\<forall>i < n. os ! i = None \<or> os ! i = Some (shards ! i)) \<and>
             (\<forall>i < m. rs ! i = None \<or> rs ! i = Some (recs ! i)) \<and>
             n \<le> length (present 0 os) + length (present 0 rs) \<longrightarrow>
             (\<exists>f. rs_decode n m unit (present 0 os) (present 0 rs) = Ok f \<and>
                (\<forall>i < n. os ! i = None \<longrightarrow> f i = Some (shards ! i))))))"

subsection \<open>Round trip\<close>

lemma present_simps [simp]:
  "present i [] = []" "present i (None # ss) = present (Suc i) ss"
  "present i (Some s # ss) = (i, s) # present (Suc i) ss"
  by (simp_all add: present_def)

lemma length_present: "length (present i ss) = length (filter (\<lambda>s. s \<noteq> None) ss)"
proof (induction ss arbitrary: i)
  case (Cons s ss)
  then show ?case by (cases s) simp_all
qed simp

lemma present_shift: "map (\<lambda>(i, s). (i - k, s)) (present (k + i) ss) = present i ss"
proof (induction ss arbitrary: i)
  case (Cons s ss)
  from Cons [of "Suc i"] show ?case by (cases s) simp_all
qed simp

lemma check_shards_ok:
  "\<forall>s. Some s \<in> set ss \<longrightarrow> length s = unit \<Longrightarrow> check_shards what unit i ss = Ok (present i ss)"
proof (induction ss arbitrary: i)
  case (Cons s ss)
  then show ?case by (cases s) auto
qed simp

lemma all_present:
  "length (filter (\<lambda>s. s \<noteq> None) ss) = length ss \<longleftrightarrow> None \<notin> set ss"
  by (metis (mono_tags, lifting) filter_True length_filter_less less_irrefl)

lemma rs_contractD:
  assumes "rs_contract n m rs_encode rs_decode" "0 < unit" "even unit" "length shards = n"
    "\<forall>s \<in> set shards. length s = unit"
  shows "\<exists>recs. rs_encode n m unit shards = Ok recs \<and> length recs = m \<and> (\<forall>r \<in> set recs. length r = unit) \<and>
    (\<forall>os rs. length os = n \<and> length rs = m \<and>
       (\<forall>i < n. os ! i = None \<or> os ! i = Some (shards ! i)) \<and>
       (\<forall>i < m. rs ! i = None \<or> rs ! i = Some (recs ! i)) \<and>
       n \<le> length (present 0 os) + length (present 0 rs) \<longrightarrow>
       (\<exists>f. rs_decode n m unit (present 0 os) (present 0 rs) = Ok f \<and>
          (\<forall>i < n. os ! i = None \<longrightarrow> f i = Some (shards ! i))))"
  using assms unfolding rs_contract_def by simp

definition data_shards_of :: "nat \<Rightarrow> nat \<Rightarrow> byte list \<Rightarrow> byte list list" where
  "data_shards_of n unit stripe = map (\<lambda>i. take unit (drop (i * unit) stripe)) [0..<n]"

lemma data_shards_props:
  assumes "length stripe = n * unit"
  shows "length (data_shards_of n unit stripe) = n" "\<forall>s \<in> set (data_shards_of n unit stripe). length s = unit"
    "concat (data_shards_of n unit stripe) = stripe"
proof -
  have "length (take unit (drop (i * unit) stripe)) = unit" if "i < n" for i
  proof -
    have "Suc i * unit \<le> n * unit" using that by (intro mult_le_mono1) simp
    then show ?thesis by (simp add: assms)
  qed
  then show "\<forall>s \<in> set (data_shards_of n unit stripe). length s = unit"
    by (auto simp: data_shards_of_def)
  show "concat (data_shards_of n unit stripe) = stripe"
    unfolding data_shards_of_def by (rule concat_chunks [OF assms])
qed (simp add: data_shards_of_def)

lemma encode_stripe_ok:
  assumes e: "e = \<lparr>er_data_shards = n, er_parity_shards = m\<rparr>"
    and "0 < n" "0 < unit" "even unit" and len: "length stripe = n * unit"
    and recs: "rs_encode n m unit (data_shards_of n unit stripe) = Ok recs" "length recs = m"
  shows "encode_stripe rs_encode e stripe = Ok (data_shards_of n unit stripe @ recs)"
proof -
  have "collect_results (map (recovery_shard recs) [0..<m]) = Ok (map ((!) recs) [0..<m])"
    by (rule collect_results_map) (simp add: recovery_shard_def recs(2))
  also have "map ((!) recs) [0..<m] = recs" using recs(2) map_nth by blast
  finally show ?thesis
    using recs assms(2-4) len by (simp add: encode_stripe_def e Let_def data_shards_of_def)
qed

lemma decode_stripe_ok:
  assumes e: "e = \<lparr>er_data_shards = n, er_parity_shards = m\<rparr>" and "0 < unit" "even unit"
    and len: "length avail = n + m" "length os = n" "\<forall>s \<in> set os. length s = unit"
    and avail: "\<forall>i < n. avail ! i = None \<or> avail ! i = Some (os ! i)"
      "\<forall>s. Some s \<in> set (drop n avail) \<longrightarrow> length s = unit"
    and dec: "\<exists>f. rs_decode n m unit (present 0 (take n avail)) (present 0 (drop n avail)) = Ok f \<and>
      (\<forall>i < n. avail ! i = None \<longrightarrow> f i = Some (os ! i))"
  shows "decode_stripe rs_decode e avail unit = Ok os"
proof -
  have unit: "\<not> (unit = 0 \<or> unit mod 2 \<noteq> 0)" using assms(2,3) by (simp add: even_iff_mod_2_eq_zero)
  show ?thesis
  proof (cases "length (filter (\<lambda>s. s \<noteq> None) (take n avail)) = n")
    case True
    then have "None \<notin> set (take n avail)"
      using all_present [of "take n avail"] len(1) by simp
    then have "\<forall>i < n. avail ! i \<noteq> None" by (metis in_set_conv_nth length_take len(1) min.absorb2 le_add1 nth_take)
    then have "\<forall>i < n. avail ! i = Some (os ! i)" using avail(1) by blast
    then have "map the (take n avail) = os"
      by (intro nth_equalityI [of _ os]) (use len in simp_all)
    with True unit len(1) show ?thesis by (simp add: decode_stripe_def e Let_def)
  next
    case False
    obtain f where f: "rs_decode n m unit (present 0 (take n avail)) (present 0 (drop n avail)) = Ok f"
        "\<forall>i < n. avail ! i = None \<longrightarrow> f i = Some (os ! i)" using dec by blast
    have "\<forall>s. Some s \<in> set (take n avail) \<longrightarrow> length s = unit"
      using avail(1) len by (fastforce simp: in_set_conv_nth)
    then have c1: "check_shards w unit 0 (take n avail) = Ok (present 0 (take n avail))" for w
      by (rule check_shards_ok)
    have c2: "check_shards w unit n (drop n avail) = Ok (present n (drop n avail))" for w
      by (rule check_shards_ok [OF avail(2)])
    have shift: "map (\<lambda>(i, s). (i - n, s)) (present n (drop n avail)) = present 0 (drop n avail)"
      using present_shift [of n 0] by simp
    have "collect_results (map (restore_shard f avail) [0..<n]) = Ok (map ((!) os) [0..<n])"
      using avail(1) f(2) by (intro collect_results_map) (auto simp: restore_shard_def split: option.splits)
    also have "map ((!) os) [0..<n] = os" using len(2) map_nth by blast
    finally show ?thesis
      using False unit len(1) c1 c2 shift f(1) by (simp add: decode_stripe_def e Let_def)
  qed
qed

lemma stripe_round_trip:
  assumes con: "rs_contract n m rs_encode rs_decode"
    and e: "e = \<lparr>er_data_shards = n, er_parity_shards = m\<rparr>"
    and unit: "0 < n" "0 < unit" "even unit" and len: "length stripe = n * unit"
  shows "\<exists>shards. encode_stripe rs_encode e stripe = Ok shards \<and> length shards = n + m \<and>
    (\<forall>s \<in> set shards. length s = unit) \<and> concat (take n shards) = stripe \<and>
    (\<forall>avail. length avail = n + m \<and> (\<forall>i < n + m. avail ! i = None \<or> avail ! i = Some (shards ! i)) \<and>
       n \<le> length (filter (\<lambda>s. s \<noteq> None) avail) \<longrightarrow>
       decode_stripe rs_decode e avail unit = Ok (take n shards))"
proof -
  let ?os = "data_shards_of n unit stripe"
  note os = data_shards_props [OF len]
  obtain recs where r: "rs_encode n m unit ?os = Ok recs" "length recs = m" "\<forall>r \<in> set recs. length r = unit"
    and dec: "\<forall>os rs. length os = n \<and> length rs = m \<and>
       (\<forall>i < n. os ! i = None \<or> os ! i = Some (?os ! i)) \<and>
       (\<forall>i < m. rs ! i = None \<or> rs ! i = Some (recs ! i)) \<and>
       n \<le> length (present 0 os) + length (present 0 rs) \<longrightarrow>
       (\<exists>f. rs_decode n m unit (present 0 os) (present 0 rs) = Ok f \<and>
          (\<forall>i < n. os ! i = None \<longrightarrow> f i = Some (?os ! i)))"
    using rs_contractD [OF con unit(2,3) os(1,2)] by blast
  have enc: "encode_stripe rs_encode e stripe = Ok (?os @ recs)"
    by (rule encode_stripe_ok [where rs_encode = rs_encode, OF e unit len r(1,2)])
  have "decode_stripe rs_decode e avail unit = Ok ?os"
    if a: "length avail = n + m" "\<forall>i < n + m. avail ! i = None \<or> avail ! i = Some ((?os @ recs) ! i)"
      "n \<le> length (filter (\<lambda>s. s \<noteq> None) avail)" for avail
  proof (rule decode_stripe_ok [OF e unit(2,3) a(1) os(1,2)])
    have "avail ! i = None \<or> avail ! i = Some (?os ! i)" if "i < n" for i
      using a(2) [rule_format, of i] os(1) that by (simp add: nth_append)
    then show orig: "\<forall>i < n. avail ! i = None \<or> avail ! i = Some (?os ! i)" by blast
    have rec: "drop n avail ! j = None \<or> drop n avail ! j = Some (recs ! j)" if "j < m" for j
      using a(1) a(2) [rule_format, of "n + j"] os(1) that by (simp add: nth_append)
    then show "\<forall>s. Some s \<in> set (drop n avail) \<longrightarrow> length s = unit"
      using a(1) r(2,3) by (fastforce simp: in_set_conv_nth)
    have "length (filter (\<lambda>s. s \<noteq> None) avail) = length (present 0 (take n avail)) + length (present 0 (drop n avail))"
      unfolding length_present by (metis append_take_drop_id filter_append length_append)
    with dec [rule_format, of "take n avail" "drop n avail"] a orig rec
    show "\<exists>f. rs_decode n m unit (present 0 (take n avail)) (present 0 (drop n avail)) = Ok f \<and>
        (\<forall>i < n. avail ! i = None \<longrightarrow> f i = Some (?os ! i))"
      by simp
  qed
  with enc r os show ?thesis by (intro exI [of _ "?os @ recs"]) (auto simp del: append_assoc)
qed

subsection \<open>Properties\<close>

text \<open>
  C17: an erasure-coded stripe survives the loss of as many shards as there is parity. For a
  stripe of \<open>n\<close> shards of even length, encoding succeeds with \<open>n + m\<close> shards of that length,
  the first \<open>n\<close> of which make up the stripe; and from any choice of at least \<open>n\<close> surviving
  shards, in their slots, decoding returns exactly the stripe's shards.
\<close>

theorem erasure_round_trip:
  assumes "rs_contract n m rs_encode rs_decode"
    and "erasure_new n m = Ok e" and "0 < unit" "even unit" and "length stripe = n * unit"
  shows "\<exists>shards. encode_stripe rs_encode e stripe = Ok shards \<and> length shards = n + m \<and>
    (\<forall>s \<in> set shards. length s = unit) \<and> concat (take n shards) = stripe \<and>
    (\<forall>avail. length avail = n + m \<and> (\<forall>i < n + m. avail ! i = None \<or> avail ! i = Some (shards ! i)) \<and>
       n \<le> length (filter (\<lambda>s. s \<noteq> None) avail) \<longrightarrow>
       decode_stripe rs_decode e avail unit = Ok (take n shards))"
  using assms by (intro stripe_round_trip) (auto simp: erasure_new_def split: if_splits)

text \<open>
  A code that satisfies the contract for two data shards and one parity shard: the parity is
  the bitwise exclusive or.
\<close>

unbundle bit_operations_syntax

definition xor_bytes :: "byte list \<Rightarrow> byte list \<Rightarrow> byte list" where
  "xor_bytes xs ys = map2 (\<lambda>x y. x XOR y) xs ys"

definition xor_encode :: rs_encoder where
  "xor_encode n m unit shards = Ok [foldr xor_bytes shards (replicate unit 0)]"

definition xor_decode :: rs_decoder where
  "xor_decode n m unit os rs = Ok (\<lambda>_. Some (foldr xor_bytes (map snd os @ map snd rs) (replicate unit 0)))"

lemma xor_zeros: "length xs = unit \<Longrightarrow> xor_bytes xs (replicate unit 0) = xs"
  by (rule nth_equalityI) (simp_all add: xor_bytes_def)

lemma xor_cancel:
  "length xs = unit \<Longrightarrow> length ys = unit \<Longrightarrow> xor_bytes xs (xor_bytes xs ys) = ys"
  "length xs = unit \<Longrightarrow> length ys = unit \<Longrightarrow> xor_bytes ys (xor_bytes xs ys) = xs"
proof -
  have "x XOR (x XOR y) = y" "y XOR (x XOR y) = x" for x y :: byte
    by (simp_all add: xor.left_commute flip: xor.assoc)
  then show "length xs = unit \<Longrightarrow> length ys = unit \<Longrightarrow> xor_bytes xs (xor_bytes xs ys) = ys"
    "length xs = unit \<Longrightarrow> length ys = unit \<Longrightarrow> xor_bytes ys (xor_bytes xs ys) = xs"
    by (auto simp: xor_bytes_def intro: nth_equalityI)
qed

lemma length_xor [simp]: "length (xor_bytes xs ys) = min (length xs) (length ys)"
  by (simp add: xor_bytes_def)

lemma xor_contract: "rs_contract 2 1 xor_encode xor_decode"
  unfolding rs_contract_def
proof (intro allI impI, elim conjE)
  fix unit :: nat and shards :: "byte list list"
  assume "length shards = 2" and len: "\<forall>s \<in> set shards. length s = unit"
  then obtain a b where s: "shards = [a, b]" by (metis (no_types) One_nat_def Suc_1 length_0_conv length_Suc_conv)
  let ?p = "xor_bytes a b"
  have enc: "xor_encode 2 1 unit shards = Ok [?p]"
    using len by (simp add: xor_encode_def s xor_zeros)
  have "\<exists>f. xor_decode 2 1 unit (present 0 os) (present 0 rs) = Ok f \<and>
      (\<forall>i < 2. os ! i = None \<longrightarrow> f i = Some (shards ! i))"
    if h: "length os = 2" "length rs = 1" "\<forall>i < 2. os ! i = None \<or> os ! i = Some (shards ! i)"
      "\<forall>i < 1. rs ! i = None \<or> rs ! i = Some ([?p] ! i)"
      "2 \<le> length (present 0 os) + length (present 0 rs)" for os rs
  proof -
    obtain o0 o1 r0 where l: "os = [o0, o1]" "rs = [r0]"
      using h(1,2) by (metis (no_types) One_nat_def Suc_1 length_0_conv length_Suc_conv)
    show ?thesis
      using h(3-5) len unfolding l s
      by (cases o0; cases o1; cases r0)
        (auto simp: xor_decode_def less_Suc_eq numeral_2_eq_2 xor_zeros xor_cancel)
  qed
  with enc len show "\<exists>recs. xor_encode 2 1 unit shards = Ok recs \<and> length recs = 1 \<and> (\<forall>r \<in> set recs. length r = unit) \<and>
      (\<forall>os rs. length os = 2 \<and> length rs = 1 \<and>
         (\<forall>i < 2. os ! i = None \<or> os ! i = Some (shards ! i)) \<and>
         (\<forall>i < 1. rs ! i = None \<or> rs ! i = Some (recs ! i)) \<and>
         2 \<le> length (present 0 os) + length (present 0 rs) \<longrightarrow>
         (\<exists>f. xor_decode 2 1 unit (present 0 os) (present 0 rs) = Ok f \<and>
            (\<forall>i < 2. os ! i = None \<longrightarrow> f i = Some (shards ! i))))"
    by (intro exI [of _ "[?p]"]) (simp add: s)
qed

theorem erasure_round_trip_witness:
  "\<exists>shards. encode_stripe xor_encode \<lparr>er_data_shards = 2, er_parity_shards = 1\<rparr> [1, 2, 3, 4] = Ok shards \<and>
    decode_stripe xor_decode \<lparr>er_data_shards = 2, er_parity_shards = 1\<rparr>
      [None, Some (shards ! 1), Some (shards ! 2)] 2 = Ok [[1, 2], [3, 4]]"
proof -
  let ?e = "\<lparr>er_data_shards = 2, er_parity_shards = 1\<rparr>"
  obtain shards where s: "encode_stripe xor_encode ?e [1, 2, 3, 4] = Ok shards"
      "\<forall>avail. length avail = 2 + 1 \<and> (\<forall>i < 2 + 1. avail ! i = None \<or> avail ! i = Some (shards ! i)) \<and>
       2 \<le> length (filter (\<lambda>s. s \<noteq> None) avail) \<longrightarrow> decode_stripe xor_decode ?e avail 2 = Ok (take 2 shards)"
    using erasure_round_trip [OF xor_contract, of ?e 2 "[1, 2, 3, 4]"] by (auto simp: erasure_new_def)
  have "take 2 shards = [[1, 2], [3, 4]]"
    using s(1) by (auto simp: encode_stripe_def xor_encode_def Let_def recovery_shard_def upt_rec)
  with s(1) s(2) [rule_format, of "[None, Some (shards ! 1), Some (shards ! 2)]"] show ?thesis
    by (simp add: less_Suc_eq numeral_eq_Suc)
qed

end
