(* ===== verification/Streams.thy ===== *)
theory Streams
  imports Io_Types
begin

text \<open>
  The byte streams of the data path, \<^verbatim>\<open>crates/openlake_io/src/stream.rs\<close>: the reader and
  writer traits, the loops over them, the in-memory streams and the range adapter.

  A stream is a state with a read function; a read returns a chunk or an error, and an empty
  chunk means the end. A sink is a state with a write function. The locale \<open>byte_stream\<close> says
  what a well-behaved stream is: it has a content, and reads deliver it piece by piece. It is
  interpreted on the concrete streams; the range adapter maps one instance to another.
\<close>

subsection \<open>Traits and loops\<close>

type_synonym 's reader = "'s \<Rightarrow> (byte list, io_error) result \<times> 's"
type_synonym 'k writer = "byte list \<Rightarrow> 'k \<Rightarrow> (unit, io_error) result \<times> 'k"

definition STREAM_CHUNK_BYTES :: nat where
  "STREAM_CHUNK_BYTES = 4 * 1024 * 1024"

text \<open>
  \<open>read_full\<close> fills a buffer of \<open>want\<close> bytes; \<open>acc\<close> holds the bytes filled so far. The rest of a
  chunk that does not fit is dropped.
\<close>

function read_full_loop :: "'s reader \<Rightarrow> nat \<Rightarrow> byte list \<Rightarrow> 's
    \<Rightarrow> (byte list, io_error) result \<times> 's" where
  "read_full_loop rd want acc s =
     (if length acc < want
      then case rd s of
             (Inl e, s1) \<Rightarrow> (Err e, s1)
           | (Inr chunk, s1) \<Rightarrow>
               if chunk = [] then (Ok acc, s1)
               else read_full_loop rd want (acc @ take (min (want - length acc) (length chunk)) chunk) s1
      else (Ok acc, s))"
  by pat_completeness auto

termination
  by (relation "measure (\<lambda>(rd, want, acc, s). want - length acc)")
    (auto simp flip: length_greater_0_conv)

declare read_full_loop.simps [simp del]

definition read_full :: "'s reader \<Rightarrow> nat \<Rightarrow> 's \<Rightarrow> (byte list, io_error) result \<times> 's" where
  "read_full rd want s = (if want = 0 then (Ok [], s) else read_full_loop rd want [] s)"

text \<open>\<open>pump_n\<close> moves exactly \<open>size\<close> bytes from a stream to a sink.\<close>

function pump_loop :: "'s reader \<Rightarrow> 'k writer \<Rightarrow> nat \<Rightarrow> nat \<Rightarrow> 's \<Rightarrow> 'k
    \<Rightarrow> (unit, io_error) result \<times> 's \<times> 'k" where
  "pump_loop rd wr sz moved s k =
     (if moved < sz
      then case rd s of
             (Inl e, s1) \<Rightarrow> (Err e, s1, k)
           | (Inr chunk, s1) \<Rightarrow>
               if chunk = []
               then (Err (Io UnexpectedEof (''pump_n: source ended at '' @ show_nat moved @ ''/'' @ show_nat sz)), s1, k)
               else let c = (if moved + length chunk > sz then take (sz - moved) chunk else chunk) in
                 (case wr c k of
                    (Inl e, k1) \<Rightarrow> (Err e, s1, k1)
                  | (Inr _, k1) \<Rightarrow> pump_loop rd wr sz (moved + length c) s1 k1)
      else (Ok (), s, k))"
  by pat_completeness auto

termination
  by (relation "measure (\<lambda>(rd, wr, sz, moved, s, k). sz - moved)")
    (auto simp flip: length_greater_0_conv)

declare pump_loop.simps [simp del]

definition pump_n :: "'s reader \<Rightarrow> 'k writer \<Rightarrow> nat \<Rightarrow> 's \<Rightarrow> 'k
    \<Rightarrow> (unit, io_error) result \<times> 's \<times> 'k" where
  "pump_n rd wr sz s k = pump_loop rd wr sz 0 s k"

subsection \<open>Concrete streams and sinks\<close>

text \<open>Both single-buffer streams hand out the whole buffer once.\<close>

type_synonym vec_stream = "byte list"

definition vec_read :: "vec_stream reader" where
  "vec_read buf = (Ok buf, [])"

type_synonym rope_stream = "byte list list"

fun rope_read :: "rope_stream reader" where
  "rope_read [] = (Ok [], [])"
| "rope_read (f # fs) = (Ok f, fs)"

definition vec_write :: "byte list writer" where
  "vec_write b k = (Ok (), k @ b)"

record 's skip_take =
  st_inner :: 's
  st_to_skip :: nat
  st_remaining :: nat

definition skip_take_new :: "'s \<Rightarrow> nat \<Rightarrow> nat \<Rightarrow> 's skip_take" where
  "skip_take_new s skip n = \<lparr>st_inner = s, st_to_skip = skip, st_remaining = n\<rparr>"

function skip_take_read :: "'s reader \<Rightarrow> 's skip_take reader" where
  "skip_take_read rd t =
     (if st_remaining t = 0 then (Ok [], t)
      else case rd (st_inner t) of
             (Inl e, s1) \<Rightarrow> (Err e, t\<lparr>st_inner := s1\<rparr>)
           | (Inr chunk, s1) \<Rightarrow>
               if chunk = [] then (Ok [], t\<lparr>st_inner := s1\<rparr>)
               else if st_to_skip t \<ge> length chunk
               then skip_take_read rd (t\<lparr>st_inner := s1, st_to_skip := st_to_skip t - length chunk\<rparr>)
               else let kept = drop (st_to_skip t) chunk;
                        n = min (st_remaining t) (length kept) in
                 (Ok (take n kept), t\<lparr>st_inner := s1, st_to_skip := 0, st_remaining := st_remaining t - n\<rparr>))"
  by pat_completeness auto

termination
  by (relation "measure (\<lambda>(rd, t). st_to_skip t)") (auto simp flip: length_greater_0_conv)

declare skip_take_read.simps [simp del]

subsection \<open>Well-behaved streams\<close>

lemma take_append_split:
  "take r (xs @ ys) = take (min r (length xs)) xs @ take (r - min r (length xs)) ys"
  by (cases "r \<le> length xs") simp_all

locale byte_stream =
  fixes rd :: "'s reader" and ok :: "'s \<Rightarrow> bool" and content :: "'s \<Rightarrow> byte list"
  assumes read_law: "ok s \<Longrightarrow> \<exists>c s'. rd s = (Ok c, s') \<and> ok s' \<and> content s = c @ content s' \<and>
    (c = [] \<longrightarrow> content s = [])"
begin

text \<open>\<open>read_full\<close> delivers the first bytes of the content, all of them if there are fewer.\<close>

lemma read_cases:
  assumes "ok s"
  obtains (eof) s' where "rd s = (Ok [], s')" "ok s'" "content s = []" "content s' = []"
  | (data) c s' where "rd s = (Ok c, s')" "c \<noteq> []" "ok s'" "content s = c @ content s'"
proof -
  obtain c s' where c: "rd s = (Ok c, s')" "ok s'" "content s = c @ content s'" "c = [] \<longrightarrow> content s = []"
    using read_law [OF assms] by blast
  then show thesis by (cases "c = []") (auto intro: that)
qed

lemma read_full_loop_content:
  assumes "ok s" "length acc \<le> want"
  shows "\<exists>s'. read_full_loop rd want acc s = (Ok (acc @ take (want - length acc) (content s)), s') \<and> ok s'"
  using assms
proof (induction "want - length acc" arbitrary: acc s rule: less_induct)
  case less
  show ?case
  proof (cases "length acc < want")
    case False
    with less.prems show ?thesis by (subst read_full_loop.simps) auto
  next
    case True
    from less.prems(1) show ?thesis
    proof (cases rule: read_cases)
      case eof
      with True show ?thesis by (subst read_full_loop.simps) simp
    next
      case (data c s')
      let ?acc = "acc @ take (min (want - length acc) (length c)) c"
      have step: "read_full_loop rd want acc s = read_full_loop rd want ?acc s'"
        using True data by (subst read_full_loop.simps) simp
      have "length ?acc \<le> want" "want - length ?acc < want - length acc"
        using True data(2) by (auto simp flip: length_greater_0_conv)
      from less.hyps [OF this(2) data(3) this(1)] show ?thesis
        using True by (cases "want - length acc \<le> length c") (auto simp: step data(4))
    qed
  qed
qed

lemma read_full_content:
  "ok s \<Longrightarrow> \<exists>s'. read_full rd want s = (Ok (take want (content s)), s') \<and> ok s'"
  using read_full_loop_content [of s "[]" want] by (auto simp: read_full_def)

text \<open>\<open>pump_n\<close> into a buffer: exactly the first \<open>size\<close> bytes, or an error when there are fewer.\<close>

lemma pump_loop_content:
  assumes "ok s" "moved \<le> sz"
  shows "\<exists>s'. ok s' \<and> pump_loop rd vec_write sz moved s k =
    (if sz - moved \<le> length (content s) then Ok ()
     else Err (Io UnexpectedEof (''pump_n: source ended at '' @ show_nat (moved + length (content s))
            @ ''/'' @ show_nat sz)), s', k @ take (sz - moved) (content s))"
  using assms
proof (induction "sz - moved" arbitrary: moved s k rule: less_induct)
  case less
  show ?case
  proof (cases "moved < sz")
    case False
    with less.prems show ?thesis by (subst pump_loop.simps) auto
  next
    case True
    from less.prems(1) show ?thesis
    proof (cases rule: read_cases)
      case eof
      with True show ?thesis by (subst pump_loop.simps) simp
    next
      case (data c s')
      let ?c = "if moved + length c > sz then take (sz - moved) c else c"
      have step: "pump_loop rd vec_write sz moved s k = pump_loop rd vec_write sz (moved + length ?c) s' (k @ ?c)"
        using True data by (subst pump_loop.simps) (simp add: vec_write_def Let_def)
      have "moved + length ?c \<le> sz" "sz - (moved + length ?c) < sz - moved"
        using True data(2) by (auto simp flip: length_greater_0_conv)
      from less.hyps [OF this(2) data(3) this(1), of "k @ ?c"] show ?thesis
        unfolding step data(4) using True data(2)
        by (cases "moved + length c > sz") auto
    qed
  qed
qed

lemma pump_content:
  "ok s \<Longrightarrow> \<exists>s'. ok s' \<and> pump_n rd vec_write sz s k =
    (if sz \<le> length (content s) then Ok ()
     else Err (Io UnexpectedEof (''pump_n: source ended at '' @ show_nat (length (content s))
            @ ''/'' @ show_nat sz)), s', k @ take sz (content s))"
  using pump_loop_content [of s 0 sz k, unfolded diff_zero add_0] unfolding pump_n_def by blast

text \<open>The range adapter.\<close>

lemma skip_take_read_law:
  assumes "ok (st_inner t)"
  shows "\<exists>c t'. skip_take_read rd t = (Ok c, t') \<and> ok (st_inner t') \<and>
    take (st_remaining t) (drop (st_to_skip t) (content (st_inner t)))
      = c @ take (st_remaining t') (drop (st_to_skip t') (content (st_inner t'))) \<and>
    (c = [] \<longrightarrow> take (st_remaining t) (drop (st_to_skip t) (content (st_inner t))) = [])"
  using assms
proof (induction "st_to_skip t" arbitrary: t rule: less_induct)
  case less
  show ?case
  proof (cases "st_remaining t = 0")
    case True
    with less.prems show ?thesis by (subst skip_take_read.simps) simp
  next
    case rem: False
    from less.prems show ?thesis
    proof (cases rule: read_cases)
      case (eof s')
      with rem show ?thesis by (subst skip_take_read.simps) simp
    next
      case (data c s')
      show ?thesis
      proof (cases "length c \<le> st_to_skip t")
        case True
        let ?t = "t\<lparr>st_inner := s', st_to_skip := st_to_skip t - length c\<rparr>"
        have step: "skip_take_read rd t = skip_take_read rd ?t"
          using rem data True by (subst skip_take_read.simps) simp
        have lt: "st_to_skip ?t < st_to_skip t" and ok: "ok (st_inner ?t)"
          using True data(2,3) by (auto simp flip: length_greater_0_conv)
        have "drop (st_to_skip t) (content (st_inner t)) = drop (st_to_skip ?t) (content (st_inner ?t))"
          "st_remaining t = st_remaining ?t"
          using data(4) True by simp_all
        with less.hyps [OF lt ok] show ?thesis unfolding step by metis
      next
        case False
        let ?d = "drop (st_to_skip t) c"
        let ?n = "min (st_remaining t) (length ?d)"
        have step: "skip_take_read rd t = (Ok (take ?n ?d),
            t\<lparr>st_inner := s', st_to_skip := 0, st_remaining := st_remaining t - ?n\<rparr>)"
          using rem data False by (subst skip_take_read.simps) (simp add: Let_def)
        have "drop (st_to_skip t) (content (st_inner t)) = ?d @ content s'" using data(4) False by simp
        then have eq: "take (st_remaining t) (drop (st_to_skip t) (content (st_inner t)))
            = take ?n ?d @ take (st_remaining t - ?n) (content s')"
          by (simp only: take_append_split)
        have ne: "take ?n ?d \<noteq> []" using rem False by simp
        obtain x where x: "take ?n ?d = x" by blast
        have "x \<noteq> []" using ne unfolding x .
        then show ?thesis unfolding step eq x using data(3) by simp
      qed
    qed
  qed
qed

end

lemma skip_take_stream:
  "byte_stream rd ok content \<Longrightarrow> byte_stream (skip_take_read rd) (\<lambda>t. ok (st_inner t))
     (\<lambda>t. take (st_remaining t) (drop (st_to_skip t) (content (st_inner t))))"
  by (rule byte_stream.intro) (rule byte_stream.skip_take_read_law)

interpretation vec: byte_stream vec_read "\<lambda>_. True" "\<lambda>buf. buf"
  by unfold_locales (simp add: vec_read_def)

interpretation rope: byte_stream rope_read "\<lambda>fs. [] \<notin> set fs" concat
proof unfold_locales
  fix fs :: "byte list list" assume "[] \<notin> set fs"
  then show "\<exists>c fs'. rope_read fs = (Ok c, fs') \<and> [] \<notin> set fs' \<and> concat fs = c @ concat fs' \<and>
      (c = [] \<longrightarrow> concat fs = [])"
    by (cases fs) auto
qed

subsection \<open>Properties\<close>

text \<open>
  C40: the range adapter serves exactly the requested bytes. Over any stream of a well-defined
  content, reading a range through the adapter to a buffer gives the bytes from offset
  \<open>skip\<close> on, at most \<open>n\<close> of them, however the underlying stream cuts its content into
  chunks; a copy of \<open>n\<close> bytes through it succeeds exactly when the content reaches that far.
\<close>

theorem range_adapter_serves_slice:
  assumes "byte_stream rd ok content" "ok s"
  shows "(\<exists>t'. read_full (skip_take_read rd) want (skip_take_new s skip n)
      = (Ok (take (min want n) (drop skip (content s))), t')) \<and>
    (\<exists>r t'. pump_n (skip_take_read rd) vec_write n (skip_take_new s skip n) []
      = (r, t', take n (drop skip (content s))) \<and> (r = Ok () \<longleftrightarrow> skip + n \<le> length (content s) \<or> n = 0))"
proof -
  note st = skip_take_stream [OF assms(1)]
  have ok: "ok (st_inner (skip_take_new s skip n))" using assms(2) by (simp add: skip_take_new_def)
  have "\<exists>t'. read_full (skip_take_read rd) want (skip_take_new s skip n)
      = (Ok (take (min want n) (drop skip (content s))), t')"
    using byte_stream.read_full_content [OF st ok, of want]
    by (auto simp: skip_take_new_def min.commute)
  moreover have "\<exists>r t'. pump_n (skip_take_read rd) vec_write n (skip_take_new s skip n) []
      = (r, t', take n (drop skip (content s))) \<and> (r = Ok () \<longleftrightarrow> skip + n \<le> length (content s) \<or> n = 0)"
    using byte_stream.pump_content [OF st ok, of n "[]"]
    by (auto simp: skip_take_new_def split: if_splits)
  ultimately show ?thesis by blast
qed

theorem range_adapter_serves_slice_witness:
  "\<exists>t'. read_full (skip_take_read rope_read) 10 (skip_take_new [[1, 2, 3], [4, 5], [6]] 2 3) = (Ok [3, 4, 5], t')"
  using range_adapter_serves_slice [OF rope.byte_stream_axioms, of "[[1, 2, 3], [4, 5], [6]]" 10 2 3] by simp

end
