(* ===== verification/Ec_Stream.thy ===== *)
theory Ec_Stream
  imports Erasure Streams
begin

text \<open>
  The erasure-coded data path of \<^verbatim>\<open>crates/openlake_storage/src/engine.rs\<close>: the loop that cuts an
  incoming stream into stripes, encodes each and writes one shard per drive
  (\<open>encode_and_write_stripes\<close>), the stream that reads the shards back and decodes a stripe at
  a time (\<open>EcReadStream\<close>), and the stream over the parts of an object (\<open>MultiPartEcStream\<close>).

  A drive's shard file is opened by the parameter \<open>open_file\<close>, the backend's
  \<open>read_file_stream\<close>; MD5 is the parameter \<open>md5_hex\<close>, from the bytes fed to the hasher to the
  printed digest. The locale \<open>shard_source\<close> says what the reader relies on: a source may end
  early or fail at any time, but what it delivers is its file's content. The locale \<open>ec_part\<close>
  adds a stored part, and shows that the decoding stream is again a well-behaved byte stream.
\<close>

subsection \<open>Writing\<close>

text \<open>
  The stripe buffer is filled from the carry, or from the stream when the carry is empty; \<open>buf\<close>
  is the filled part of the buffer.
\<close>

function fill_stripe :: "'s reader \<Rightarrow> nat \<Rightarrow> nat \<Rightarrow> nat \<Rightarrow> byte list \<Rightarrow> byte list \<Rightarrow> 's
    \<Rightarrow> (byte list \<times> byte list, io_error) result \<times> 's" where
  "fill_stripe rd sz consumed want buf carry s =
     (if length buf < want
      then case (if carry = [] then rd s else (Ok carry, s)) of
             (Inl e, s1) \<Rightarrow> (Err e, s1)
           | (Inr c, s1) \<Rightarrow>
               if c = []
               then (Err (Io UnexpectedEof (''EC put: source ended at '' @ show_nat (consumed + length buf)
                            @ ''/'' @ show_nat sz)), s1)
               else let n = min (want - length buf) (length c) in
                 fill_stripe rd sz consumed want (buf @ take n c) (drop n c) s1
      else (Ok (buf, carry), s))"
  by pat_completeness auto

termination
  by (relation "measure (\<lambda>(rd, sz, consumed, want, buf, carry, s). want - length buf)")
    (auto simp flip: length_greater_0_conv)

declare fill_stripe.simps [simp del]

text \<open>Every sink writes its shard; the first error in slot order is reported.\<close>

fun write_shards :: "'k writer \<Rightarrow> 'k list \<Rightarrow> byte list list \<Rightarrow> 'k list \<times> io_error option" where
  "write_shards wr (k # ks) (sh # shs) =
     (let (r, k1) = wr sh k; (ks1, err) = write_shards wr ks shs in
      (k1 # ks1, case r of Inl e \<Rightarrow> Some e | Inr _ \<Rightarrow> err))"
| "write_shards wr ks shs = (ks, None)"

primrec write_stripes :: "rs_encoder \<Rightarrow> (byte list \<Rightarrow> string) \<Rightarrow> 's reader \<Rightarrow> 'k writer \<Rightarrow> erasure \<Rightarrow> nat \<Rightarrow> nat \<Rightarrow> nat
    \<Rightarrow> nat \<Rightarrow> byte list \<Rightarrow> byte list \<Rightarrow> 's \<Rightarrow> 'k list \<Rightarrow> (string, io_error) result \<times> 'k list \<times> 's" where
  "write_stripes rs_encode md5_hex rd wr ec sz stripe_data 0 consumed hashed carry s sinks =
     (Ok (md5_hex hashed), sinks, s)"
| "write_stripes rs_encode md5_hex rd wr ec sz stripe_data (Suc stripes) consumed hashed carry s sinks =
     (let want = min (sz - consumed) stripe_data in
      case fill_stripe rd sz consumed want [] carry s of
        (Inl e, s1) \<Rightarrow> (Err e, sinks, s1)
      | (Inr (buf, carry1), s1) \<Rightarrow>
          (case encode_stripe rs_encode ec (buf @ replicate (stripe_data - want) 0) of
             Inl e \<Rightarrow> (Err (InvalidArgument (''EC encode: '' @ snd e)), sinks, s1)
           | Inr shards \<Rightarrow>
               (case write_shards wr sinks shards of
                  (sinks1, Some e) \<Rightarrow> (Err e, sinks1, s1)
                | (sinks1, None) \<Rightarrow>
                    write_stripes rs_encode md5_hex rd wr ec sz stripe_data stripes (consumed + want)
                      (hashed @ buf) carry1 s1 sinks1)))"

definition encode_and_write_stripes :: "rs_encoder \<Rightarrow> (byte list \<Rightarrow> string) \<Rightarrow> 's reader \<Rightarrow> 'k writer
    \<Rightarrow> erasure \<Rightarrow> nat \<Rightarrow> nat \<Rightarrow> nat \<Rightarrow> 's \<Rightarrow> 'k list
    \<Rightarrow> (string, io_error) result \<times> 'k list \<times> 's" where
  "encode_and_write_stripes rs_encode md5_hex rd wr ec sz stripe_data stripes s sinks =
     write_stripes rs_encode md5_hex rd wr ec sz stripe_data stripes 0 [] [] s sinks"

subsection \<open>Reading one part\<close>

text \<open>The fields follow the source; the carries have one entry per source.\<close>

record 's ec_read_stream =
  ers_ec :: erasure
  ers_sources :: "'s option list"
  ers_carries :: "byte list list"
  ers_stripes_remaining :: nat
  ers_stripe_unit :: nat
  ers_data_shards :: nat
  ers_parity_shards :: nat
  ers_total_remaining :: nat
  ers_decoded :: "byte list list"
  ers_decode_shard :: nat
  ers_shard_pos :: nat
  ers_bucket :: string
  ers_key :: string

text \<open>
  Pulling one shard from one source: the source that survives, the shard if it is complete, and
  the carry.
\<close>

function pull_loop :: "'s reader \<Rightarrow> nat \<Rightarrow> byte list \<Rightarrow> byte list \<Rightarrow> 's
    \<Rightarrow> 's option \<times> byte list option \<times> byte list" where
  "pull_loop rd unit buf carry s =
     (if length buf < unit
      then case rd s of
             (Inl e, s1) \<Rightarrow> (None, None, carry)
           | (Inr chunk, s1) \<Rightarrow>
               if chunk = [] then (Some s1, None, carry)
               else let n = min (unit - length buf) (length chunk) in
                 pull_loop rd unit (buf @ take n chunk)
                   (if n < length chunk then drop n chunk else carry) s1
      else (Some s, if length buf = unit then Some buf else None, carry))"
  by pat_completeness auto

termination
  by (relation "measure (\<lambda>(rd, unit, buf, carry, s). unit - length buf)")
    (auto simp flip: length_greater_0_conv)

declare pull_loop.simps [simp del]

definition pull_shard :: "'s reader \<Rightarrow> nat \<Rightarrow> byte list \<Rightarrow> 's \<Rightarrow> 's option \<times> byte list option \<times> byte list" where
  "pull_shard rd unit carry s =
     (let n = min unit (length carry) in pull_loop rd unit (take n carry) (drop n carry) s)"

text \<open>One slot of a refill: a source without a complete shard is dropped for good.\<close>

definition pull_slot :: "'s reader \<Rightarrow> nat \<Rightarrow> 's option \<Rightarrow> byte list
    \<Rightarrow> 's option \<times> byte list option \<times> byte list" where
  "pull_slot rd unit slot carry =
     (case slot of
        None \<Rightarrow> (None, None, carry)
      | Some s \<Rightarrow>
          (case pull_shard rd unit carry s of
             (Some s1, Some shard, carry1) \<Rightarrow> (Some s1, Some shard, carry1)
           | (_, _, carry1) \<Rightarrow> (None, None, carry1)))"

definition refill :: "rs_decoder \<Rightarrow> 's reader \<Rightarrow> 's ec_read_stream
    \<Rightarrow> (unit, io_error) result \<times> 's ec_read_stream" where
  "refill rs_decode rd t =
     (let results = map2 (pull_slot rd (ers_stripe_unit t)) (ers_sources t) (ers_carries t);
          shard_opts = map (\<lambda>(_, shard, _). shard) results;
          t1 = t\<lparr>ers_sources := map (\<lambda>(src, _, _). src) results,
                 ers_carries := map (\<lambda>(_, _, carry). carry) results\<rparr>;
          alive = length (filter (\<lambda>s. s \<noteq> None) shard_opts) in
      if alive < ers_data_shards t
      then (Err (FileNotFound (ers_bucket t) (ers_key t @ ''/part.1'')), t1)
      else case decode_stripe rs_decode (ers_ec t) shard_opts (ers_stripe_unit t) of
             Inl e \<Rightarrow> (Err (InvalidArgument (''EC decode: '' @ snd e)), t1)
           | Inr shards \<Rightarrow>
               (Ok (), t1\<lparr>ers_stripes_remaining := ers_stripes_remaining t - 1,
                          ers_decoded := shards, ers_decode_shard := 0, ers_shard_pos := 0\<rparr>))"

definition stripe_remaining_bytes :: "'s ec_read_stream \<Rightarrow> nat" where
  "stripe_remaining_bytes t =
     (if length (ers_decoded t) \<le> ers_decode_shard t then 0
      else (length (ers_decoded t ! ers_decode_shard t) - ers_shard_pos t)
           + sum_list (map length (drop (Suc (ers_decode_shard t)) (ers_decoded t))))"

definition ec_serve :: "'s ec_read_stream \<Rightarrow> byte list \<times> 's ec_read_stream" where
  "ec_serve t =
     (let shard = ers_decoded t ! ers_decode_shard t;
          avail = length shard - ers_shard_pos t;
          serve = min avail (ers_total_remaining t);
          frame = take serve (drop (ers_shard_pos t) shard);
          t1 = t\<lparr>ers_total_remaining := ers_total_remaining t - serve,
                 ers_shard_pos := ers_shard_pos t + serve\<rparr> in
      (frame, if ers_shard_pos t1 = length shard
              then t1\<lparr>ers_decode_shard := Suc (ers_decode_shard t), ers_shard_pos := 0\<rparr>
              else t1))"

definition ec_read :: "rs_decoder \<Rightarrow> 's reader \<Rightarrow> 's ec_read_stream reader" where
  "ec_read rs_decode rd t =
     (if ers_total_remaining t = 0 then (Ok [], t)
      else if stripe_remaining_bytes t = 0
      then (if ers_stripes_remaining t = 0 then (Ok [], t)
            else case refill rs_decode rd t of
                   (Inl e, t1) \<Rightarrow> (Err e, t1)
                 | (Inr _, t1) \<Rightarrow> (let (frame, t2) = ec_serve t1 in (Ok frame, t2)))
      else let (frame, t2) = ec_serve t in (Ok frame, t2))"

definition stripes_of :: "nat \<Rightarrow> nat \<Rightarrow> nat" where
  "stripes_of actual_size block_size = max 1 ((actual_size + block_size - 1) div block_size)"

text \<open>
  The caller has checked that the block size is not zero and that the first stripe is one of the
  part's.
\<close>

definition open_ec_part_stream :: "('b \<Rightarrow> string \<Rightarrow> string \<Rightarrow> nat \<Rightarrow> nat \<Rightarrow> ('s, io_error) result)
    \<Rightarrow> 'b list \<Rightarrow> string \<Rightarrow> string \<Rightarrow> string \<Rightarrow> nat \<Rightarrow> nat \<Rightarrow> nat \<Rightarrow> nat \<Rightarrow> nat \<Rightarrow> erasure \<Rightarrow> nat
    \<Rightarrow> ('s ec_read_stream, storage_error) result" where
  "open_ec_part_stream open_file backends bucket key part_path actual_size block_size stripe_unit
       data_shards parity_shards ec start_stripe =
     (let stripes = stripes_of actual_size block_size;
          shard_off = start_stripe * stripe_unit;
          shard_len = (stripes - start_stripe) * stripe_unit;
          opened = map (\<lambda>b. open_file b bucket part_path shard_off shard_len) backends;
          sources = map (\<lambda>r. case r of Inr s \<Rightarrow> Some s | Inl _ \<Rightarrow> None) opened in
      if length (filter (\<lambda>s. s \<noteq> None) sources) < data_shards
      then Err (ObjectNotFound bucket key)
      else Ok \<lparr>ers_ec = ec, ers_sources = sources, ers_carries = replicate (length sources) [],
               ers_stripes_remaining = stripes - start_stripe, ers_stripe_unit = stripe_unit,
               ers_data_shards = data_shards, ers_parity_shards = parity_shards,
               ers_total_remaining = actual_size - start_stripe * block_size,
               ers_decoded = [], ers_decode_shard = 0, ers_shard_pos = 0,
               ers_bucket = bucket, ers_key = key\<rparr>)"

subsection \<open>Reading all parts\<close>

record ('b, 's) multi_part_stream =
  mp_backends :: "'b list"
  mp_bucket :: string
  mp_key :: string
  mp_data_dir :: string
  mp_parts :: "object_part_info list"
  mp_next_idx :: nat
  mp_block_size :: nat
  mp_stripe_unit :: nat
  mp_data_shards :: nat
  mp_parity_shards :: nat
  mp_ec :: erasure
  mp_current :: "'s ec_read_stream option"
  mp_first_start_stripe :: nat

text \<open>The casts of the part's signed length to an unsigned 64-bit integer wrap.\<close>

definition as_u64 :: "int \<Rightarrow> nat" where
  "as_u64 i = nat (i mod 2 ^ 64)"

definition part_path :: "string \<Rightarrow> string \<Rightarrow> object_part_info \<Rightarrow> string" where
  "part_path key data_dir p = key @ ''/'' @ data_dir @ ''/part.'' @ show_int (op_number p)"

text \<open>Of the storage errors, \<open>open_ec_part_stream\<close> returns only \<open>ObjectNotFound\<close>.\<close>

definition open_error :: "string \<Rightarrow> string \<Rightarrow> (storage_error \<Rightarrow> string) \<Rightarrow> storage_error \<Rightarrow> io_error" where
  "open_error bucket path print e =
     (case e of
        ObjectNotFound _ _ \<Rightarrow> FileNotFound bucket path
      | SIo io \<Rightarrow> io
      | other \<Rightarrow> InvalidArgument (print other))"

definition advance :: "('b \<Rightarrow> string \<Rightarrow> string \<Rightarrow> nat \<Rightarrow> nat \<Rightarrow> ('s, io_error) result)
    \<Rightarrow> (storage_error \<Rightarrow> string) \<Rightarrow> ('b, 's) multi_part_stream
    \<Rightarrow> (bool, io_error) result \<times> ('b, 's) multi_part_stream" where
  "advance open_file print t =
     (if mp_current t \<noteq> None then (Ok True, t)
      else if length (mp_parts t) \<le> mp_next_idx t then (Ok False, t)
      else let p = mp_parts t ! mp_next_idx t;
               path = part_path (mp_key t) (mp_data_dir t) p;
               start_stripe = (if mp_next_idx t = 0 then mp_first_start_stripe t else 0) in
        case open_ec_part_stream open_file (mp_backends t) (mp_bucket t) (mp_key t) path
               (as_u64 (op_actual_size p)) (mp_block_size t) (mp_stripe_unit t)
               (mp_data_shards t) (mp_parity_shards t) (mp_ec t) start_stripe of
          Inl e \<Rightarrow> (Err (open_error (mp_bucket t) path print e), t)
        | Inr s \<Rightarrow> (Ok True, t\<lparr>mp_next_idx := mp_next_idx t + 1, mp_current := Some s\<rparr>))"

function multi_read :: "rs_decoder \<Rightarrow> 's reader \<Rightarrow> ('b \<Rightarrow> string \<Rightarrow> string \<Rightarrow> nat \<Rightarrow> nat \<Rightarrow> ('s, io_error) result)
    \<Rightarrow> (storage_error \<Rightarrow> string) \<Rightarrow> ('b, 's) multi_part_stream reader" where
  "multi_read rs_decode rd open_file print t =
     (case advance open_file print t of
        (Inl e, t1) \<Rightarrow> (Err e, t1)
      | (Inr False, t1) \<Rightarrow> (Ok [], t1)
      | (Inr True, t1) \<Rightarrow>
          (case ec_read rs_decode rd (the (mp_current t1)) of
             (Inl e, cur) \<Rightarrow> (Err e, t1\<lparr>mp_current := Some cur\<rparr>)
           | (Inr chunk, cur) \<Rightarrow>
               if chunk \<noteq> [] then (Ok chunk, t1\<lparr>mp_current := Some cur\<rparr>)
               else multi_read rs_decode rd open_file print (t1\<lparr>mp_current := None\<rparr>)))"
  by pat_completeness auto

termination
  by (relation "measure (\<lambda>(rs_decode, rd, open_file, print, t).
      2 * (length (mp_parts t) - mp_next_idx t) + (if mp_current t = None then 0 else 1))")
    (auto simp: advance_def Let_def split: if_splits sum.splits)

declare multi_read.simps [simp del]

text \<open>
  The part in which a byte range starts, and the offset inside it; when the offset is past the
  end of every part the first part stays selected.
\<close>

fun seek_part :: "nat \<Rightarrow> nat \<Rightarrow> object_part_info list \<Rightarrow> nat \<times> nat" where
  "seek_part i intra [] = (0, intra)"
| "seek_part i intra (p # ps) =
     (let part_len = as_u64 (op_actual_size p) in
      if intra < part_len then (i, intra) else seek_part (Suc i) (intra - part_len) ps)"

text \<open>The stream that a GET opens at an offset, and the bytes to skip in its first stripe.\<close>

definition multi_at :: "'b list \<Rightarrow> string \<Rightarrow> string \<Rightarrow> string \<Rightarrow> object_part_info list \<Rightarrow> nat \<Rightarrow> nat \<Rightarrow> nat \<Rightarrow> nat
    \<Rightarrow> erasure \<Rightarrow> nat \<Rightarrow> ('b, 's) multi_part_stream \<times> nat" where
  "multi_at backends bucket key data_dir parts block_size stripe_unit data_shards parity_shards ec offset =
     (let (start_part, intra_part) = seek_part 0 offset parts in
      (\<lparr>mp_backends = backends, mp_bucket = bucket, mp_key = key, mp_data_dir = data_dir,
        mp_parts = drop start_part parts, mp_next_idx = 0, mp_block_size = block_size,
        mp_stripe_unit = stripe_unit, mp_data_shards = data_shards, mp_parity_shards = parity_shards,
        mp_ec = ec, mp_current = None, mp_first_start_stripe = intra_part div block_size\<rparr>,
       intra_part mod block_size))"

subsection \<open>Sources\<close>

text \<open>
  A source that is \<open>honest\<close> may fail or end at any time, but delivers nothing but its content;
  one that is \<open>ok\<close> delivers all of it.
\<close>

locale shard_source = byte_stream rd ok content
  for rd :: "'s reader" and ok :: "'s \<Rightarrow> bool" and content :: "'s \<Rightarrow> byte list" +
  fixes honest :: "'s \<Rightarrow> bool"
  assumes honest_law: "honest s \<Longrightarrow> rd s = (Ok c, s') \<Longrightarrow> c \<noteq> [] \<Longrightarrow> honest s' \<and> content s = c @ content s'"
    and ok_honest: "ok s \<Longrightarrow> honest s"
begin

lemma pull_loop_honest:
  assumes "pull_loop rd unit buf carry s = (Some s', Some sh, carry')" "honest s" "length buf \<le> unit"
    "length buf < unit \<Longrightarrow> carry = []"
  shows "honest s' \<and> length sh = unit \<and> sh @ carry' @ content s' = buf @ carry @ content s"
  using assms
proof (induction "unit - length buf" arbitrary: buf carry s rule: less_induct)
  case less
  show ?case
  proof (cases "length buf < unit")
    case False
    with less.prems show ?thesis by (subst (asm) pull_loop.simps) (auto split: if_splits)
  next
    case True
    with less.prems(1) obtain c s1 where rd: "rd s = (Ok c, s1)" "c \<noteq> []"
      by (subst (asm) pull_loop.simps) (auto split: if_splits sum.splits prod.splits)
    let ?n = "min (unit - length buf) (length c)"
    let ?carry = "if ?n < length c then drop ?n c else carry"
    have h: "honest s1" "content s = c @ content s1" using honest_law [OF less.prems(2) rd] by simp_all
    have step: "pull_loop rd unit (buf @ take ?n c) ?carry s1 = (Some s', Some sh, carry')"
      using less.prems(1) True rd by (subst (asm) pull_loop.simps) (simp add: Let_def)
    have lt: "unit - length (buf @ take ?n c) < unit - length buf" "length (buf @ take ?n c) \<le> unit"
      using True rd(2) by (auto simp flip: length_greater_0_conv)
    have "length (buf @ take ?n c) < unit \<Longrightarrow> ?carry = []" using less.prems(4) True by auto
    from less.hyps [OF lt(1) step h(1) lt(2) this] show ?thesis
      using h(2) less.prems(4) True by (auto split: if_splits)
  qed
qed

lemma pull_loop_ok:
  assumes "ok s" "length buf \<le> unit" "length buf < unit \<Longrightarrow> carry = []"
    "unit \<le> length (buf @ carry @ content s)"
  shows "\<exists>s' sh carry'. pull_loop rd unit buf carry s = (Some s', Some sh, carry') \<and> ok s'"
  using assms
proof (induction "unit - length buf" arbitrary: buf carry s rule: less_induct)
  case less
  show ?case
  proof (cases "length buf < unit")
    case False
    with less.prems show ?thesis by (subst pull_loop.simps) auto
  next
    case True
    from less.prems(1) show ?thesis
    proof (cases rule: read_cases)
      case eof
      with True less.prems(3,4) show ?thesis by simp
    next
      case (data c s1)
      let ?n = "min (unit - length buf) (length c)"
      let ?carry = "if ?n < length c then drop ?n c else carry"
      have step: "pull_loop rd unit buf carry s = pull_loop rd unit (buf @ take ?n c) ?carry s1"
        using True data by (subst pull_loop.simps) (simp add: Let_def)
      have lt: "unit - length (buf @ take ?n c) < unit - length buf" "length (buf @ take ?n c) \<le> unit"
        using True data(2) by (auto simp flip: length_greater_0_conv)
      have "length (buf @ take ?n c) < unit \<Longrightarrow> ?carry = []" using less.prems(3) True by auto
      moreover have "unit \<le> length ((buf @ take ?n c) @ ?carry @ content s1)"
        using less.prems(3,4) True data(4) by auto
      ultimately show ?thesis unfolding step by (intro less.hyps [OF lt(1) data(3) lt(2)])
    qed
  qed
qed

lemma pull_shard_honest:
  assumes "pull_shard rd unit carry s = (Some s', Some sh, carry')" "honest s"
  shows "honest s' \<and> sh = take unit (carry @ content s) \<and> carry' @ content s' = drop unit (carry @ content s)"
proof -
  let ?n = "min unit (length carry)"
  have "honest s' \<and> length sh = unit \<and> sh @ carry' @ content s' = take ?n carry @ drop ?n carry @ content s"
    by (rule pull_loop_honest) (use assms in \<open>auto simp: pull_shard_def Let_def\<close>)
  then have h: "honest s'" "length sh = unit" "sh @ carry' @ content s' = carry @ content s" by simp_all
  from h(1) show ?thesis by (simp flip: h(2,3))
qed

lemma pull_shard_ok:
  assumes "ok s" "unit \<le> length (carry @ content s)"
  shows "\<exists>s' sh carry'. pull_shard rd unit carry s = (Some s', Some sh, carry') \<and> ok s'"
  unfolding pull_shard_def Let_def by (rule pull_loop_ok) (use assms in auto)

end

subsection \<open>A stored part\<close>

text \<open>
  A part is a list of stripes, each a list of shards; the file of a drive holds its shard of
  every stripe, and the payload is the data shards of every stripe.
\<close>

definition shard_file :: "nat \<Rightarrow> byte list list list \<Rightarrow> byte list" where
  "shard_file i stripes = concat (map (\<lambda>shards. shards ! i) stripes)"

definition payload :: "nat \<Rightarrow> byte list list list \<Rightarrow> byte list" where
  "payload n stripes = concat (map (\<lambda>shards. concat (take n shards)) stripes)"

lemma shard_file_simps [simp]:
  "shard_file i [] = []" "shard_file i (sh # ss) = sh ! i @ shard_file i ss"
  by (simp_all add: shard_file_def)

lemma payload_simps [simp]:
  "payload n [] = []" "payload n (sh # ss) = concat (take n sh) @ payload n ss"
  by (simp_all add: payload_def)

lemma drop_next:
  "drop (length xs - k) xs = y # ys \<Longrightarrow> k \<le> length xs \<Longrightarrow> drop (length xs - (k - 1)) xs = ys"
proof (cases k)
  case (Suc j)
  assume "drop (length xs - k) xs = y # ys" "k \<le> length xs"
  then have "length xs - j = Suc (length xs - k)" "tl (drop (length xs - k) xs) = ys" using Suc by auto
  then show ?thesis using Suc by (simp add: drop_Suc tl_drop)
qed simp

text \<open>A stripe that is decoded from any \<open>n\<close> of its shards.\<close>

definition good_stripe :: "rs_decoder \<Rightarrow> nat \<Rightarrow> nat \<Rightarrow> nat \<Rightarrow> byte list list \<Rightarrow> bool" where
  "good_stripe rs_decode n m unit shards \<longleftrightarrow> length shards = n + m \<and> (\<forall>s \<in> set shards. length s = unit) \<and>
     (\<forall>avail. length avail = n + m \<and> (\<forall>i < n + m. avail ! i = None \<or> avail ! i = Some (shards ! i)) \<and>
        n \<le> length (filter (\<lambda>s. s \<noteq> None) avail) \<longrightarrow>
        decode_stripe rs_decode \<lparr>er_data_shards = n, er_parity_shards = m\<rparr> avail unit = Ok (take n shards))"

lemma encode_good_stripe:
  assumes "rs_contract n m rs_encode rs_decode" "0 < n" "0 < unit" "even unit" "length stripe = n * unit"
  obtains shards where "encode_stripe rs_encode \<lparr>er_data_shards = n, er_parity_shards = m\<rparr> stripe = Ok shards"
    "good_stripe rs_decode n m unit shards" "concat (take n shards) = stripe"
  using stripe_round_trip [OF assms(1) refl assms(2-5)] unfolding good_stripe_def by blast

locale ec_part = shard_source rd ok content honest
  for rd :: "'s reader" and ok content honest +
  fixes rs_decode :: rs_decoder and n m unit :: nat and stripes :: "byte list list list"
  assumes coder: "0 < n" "0 < unit"
    and good: "shards \<in> set stripes \<Longrightarrow> good_stripe rs_decode n m unit shards"
begin

abbreviation e :: erasure where
  "e \<equiv> \<lparr>er_data_shards = n, er_parity_shards = m\<rparr>"

lemma shape: "shards \<in> set stripes \<Longrightarrow> length shards = n + m \<and> (\<forall>s \<in> set shards. length s = unit)"
  and decodes: "shards \<in> set stripes \<Longrightarrow> length avail = n + m \<Longrightarrow>
      \<forall>i < n + m. avail ! i = None \<or> avail ! i = Some (shards ! i) \<Longrightarrow>
      n \<le> length (filter (\<lambda>s. s \<noteq> None) avail) \<Longrightarrow> decode_stripe rs_decode e avail unit = Ok (take n shards)"
  using good unfolding good_stripe_def by blast+

definition left :: "'s ec_read_stream \<Rightarrow> byte list list list" where
  "left t = drop (length stripes - ers_stripes_remaining t) stripes"

definition sources_at :: "byte list list list \<Rightarrow> 's ec_read_stream \<Rightarrow> bool" where
  "sources_at ss t \<longleftrightarrow> length (ers_sources t) = n + m \<and> length (ers_carries t) = n + m \<and>
     (\<forall>i < n + m. \<forall>s. ers_sources t ! i = Some s \<longrightarrow>
        honest s \<and> ers_carries t ! i @ content s = shard_file i ss) \<and>
     n \<le> length (filter (\<lambda>x. \<exists>s. x = Some s \<and> ok s) (ers_sources t))"

definition part_ok :: "'s ec_read_stream \<Rightarrow> bool" where
  "part_ok t \<longleftrightarrow> ers_ec t = e \<and> ers_data_shards t = n \<and> ers_stripe_unit t = unit \<and>
     ers_stripes_remaining t \<le> length stripes \<and> sources_at (left t) t \<and>
     (\<forall>s \<in> set (ers_decoded t). length s = unit) \<and> ers_shard_pos t < unit \<and>
     (ers_decode_shard t < length (ers_decoded t) \<or> ers_shard_pos t = 0)"

definition part_content :: "'s ec_read_stream \<Rightarrow> byte list" where
  "part_content t = take (ers_total_remaining t)
     (drop (ers_shard_pos t) (concat (drop (ers_decode_shard t) (ers_decoded t))) @ payload n (left t))"

lemma pull_slot_spec:
  assumes "pull_slot rd unit slot carry = (src, sh, carry')"
    and "\<And>s. slot = Some s \<Longrightarrow> honest s \<and> carry @ content s = x @ rest" and "length x = unit"
  shows "(src = None \<longleftrightarrow> sh = None) \<and> (\<forall>s'. src = Some s' \<longrightarrow> sh = Some x \<and> honest s' \<and> carry' @ content s' = rest) \<and>
    ((\<exists>s. slot = Some s \<and> ok s) \<longrightarrow> (\<exists>s'. src = Some s' \<and> ok s'))"
proof (cases slot)
  case None
  with assms(1) show ?thesis by (simp add: pull_slot_def)
next
  case (Some s)
  note h = assms(2) [OF Some]
  obtain a b c where p: "pull_shard rd unit carry s = (a, b, c)" by (metis prod_cases3)
  have "a = Some s1 \<Longrightarrow> b = Some y \<Longrightarrow> y = x \<and> honest s1 \<and> c @ content s1 = rest" for s1 y
    using pull_shard_honest [of unit carry s s1 y c] p h assms(3) by simp
  moreover have "ok s \<Longrightarrow> \<exists>s1 y. a = Some s1 \<and> b = Some y \<and> ok s1"
    using pull_shard_ok [of s unit carry] p h assms(3) by auto
  ultimately show ?thesis
    using assms(1) Some p by (cases a; cases b) (auto simp: pull_slot_def)
qed

lemma refill_spec:
  assumes t: "part_ok t" and left: "left t = sh # rest"
  shows "\<exists>t'. refill rs_decode rd t = (Ok (), t') \<and> part_ok t' \<and> left t' = rest \<and>
    ers_decoded t' = take n sh \<and> ers_decode_shard t' = 0 \<and> ers_shard_pos t' = 0 \<and>
    ers_total_remaining t' = ers_total_remaining t"
proof -
  let ?res = "map2 (pull_slot rd unit) (ers_sources t) (ers_carries t)"
  let ?opts = "map (\<lambda>(_, shard, _). shard) ?res"
  let ?t1 = "t\<lparr>ers_sources := map (\<lambda>(src, _, _). src) ?res, ers_carries := map (\<lambda>(_, _, carry). carry) ?res\<rparr>"
  let ?t' = "?t1\<lparr>ers_stripes_remaining := ers_stripes_remaining t - 1, ers_decoded := take n sh,
    ers_decode_shard := 0, ers_shard_pos := 0\<rparr>"
  have sh: "sh \<in> set stripes" using left unfolding left_def by (metis in_set_dropD list.set_intros(1))
  note shape = shape [OF sh]
  have len: "length (ers_sources t) = n + m" "length (ers_carries t) = n + m"
    and src: "sources_at (sh # rest) t" using t left by (auto simp: part_ok_def sources_at_def)
  have slot: "(src = None \<longleftrightarrow> so = None) \<and>
      (\<forall>s'. src = Some s' \<longrightarrow> so = Some (sh ! i) \<and> honest s' \<and> c @ content s' = shard_file i rest) \<and>
      ((\<exists>s. ers_sources t ! i = Some s \<and> ok s) \<longrightarrow> (\<exists>s'. src = Some s' \<and> ok s'))"
    if i: "i < n + m" and r: "?res ! i = (src, so, c)" for i src so c
  proof (rule pull_slot_spec)
    show "pull_slot rd unit (ers_sources t ! i) (ers_carries t ! i) = (src, so, c)" using r i len by simp
    show "length (sh ! i) = unit" using shape i by simp
    show "honest s \<and> ers_carries t ! i @ content s = sh ! i @ shard_file i rest"
      if "ers_sources t ! i = Some s" for s using src i that by (simp add: sources_at_def)
  qed
  have opt: "?opts ! i = None \<or> ?opts ! i = Some (sh ! i)" if "i < n + m" for i
    using slot [OF that, of "fst (?res ! i)" "fst (snd (?res ! i))" "snd (snd (?res ! i))"] that len
    by (cases "?res ! i") auto
  have good: "n \<le> length (filter (\<lambda>s. s \<noteq> None) ?opts)"
  proof (rule order_trans [OF _ filter_length_mono])
    show "n \<le> length (filter (\<lambda>x. \<exists>s. x = Some s \<and> ok s) (ers_sources t))"
      using src by (simp add: sources_at_def)
    show "length (ers_sources t) = length ?opts" using len by simp
    show "?opts ! i \<noteq> None" if "i < length (ers_sources t)" "\<exists>s. ers_sources t ! i = Some s \<and> ok s" for i
      using slot [of i "fst (?res ! i)" "fst (snd (?res ! i))" "snd (snd (?res ! i))"] that len
      by (cases "?res ! i") auto
  qed
  have "decode_stripe rs_decode e ?opts unit = Ok (take n sh)"
    by (rule decodes [OF sh]) (use opt good len in auto)
  then have ref: "refill rs_decode rd t = (Ok (), ?t')"
    using t good unfolding refill_def Let_def part_ok_def by simp
  have "ers_stripes_remaining t \<le> length stripes" using t by (simp add: part_ok_def)
  then have l: "left ?t' = rest" using left drop_next [of stripes] by (simp add: left_def)
  have "sources_at rest ?t'"
    unfolding sources_at_def
  proof (intro conjI allI impI)
    show "n \<le> length (filter (\<lambda>x. \<exists>s. x = Some s \<and> ok s) (ers_sources ?t'))"
    proof (rule order_trans [OF _ filter_length_mono])
      show "n \<le> length (filter (\<lambda>x. \<exists>s. x = Some s \<and> ok s) (ers_sources t))"
        using src by (simp add: sources_at_def)
      show "length (ers_sources t) = length (ers_sources ?t')" using len by simp
      show "\<exists>s. ers_sources ?t' ! i = Some s \<and> ok s"
        if "i < length (ers_sources t)" "\<exists>s. ers_sources t ! i = Some s \<and> ok s" for i
        using slot [of i "fst (?res ! i)" "fst (snd (?res ! i))" "snd (snd (?res ! i))"] that len
        by (cases "?res ! i") auto
    qed
    show "honest s" "ers_carries ?t' ! i @ content s = shard_file i rest"
      if i: "i < n + m" and s: "ers_sources ?t' ! i = Some s" for i s
      using slot [OF i, of "fst (?res ! i)" "fst (snd (?res ! i))" "snd (snd (?res ! i))"] i s len
      by (cases "?res ! i"; auto)+
  qed (use len in simp_all)
  then have "part_ok ?t'"
    using t shape coder(2) l by (auto simp: part_ok_def dest: in_set_takeD)
  with ref l show ?thesis by (intro exI [of _ ?t'] conjI) simp_all
qed

lemma ec_serve_spec:
  assumes t: "part_ok t" and "ers_decode_shard t < length (ers_decoded t)" "ers_total_remaining t \<noteq> 0"
    and serve: "ec_serve t = (frame, t')"
  shows "frame \<noteq> [] \<and> part_ok t' \<and> part_content t = frame @ part_content t'"
proof -
  let ?k = "ers_decode_shard t" and ?p = "ers_shard_pos t" and ?r = "ers_total_remaining t"
  let ?sh = "ers_decoded t ! ?k"
  let ?x = "drop ?p ?sh" and ?y = "concat (drop (Suc ?k) (ers_decoded t)) @ payload n (left t)"
  have len: "length ?sh = unit" "?p < unit" "length ?x = unit - ?p"
    using t assms(2) by (auto simp: part_ok_def)
  have "drop ?k (ers_decoded t) = ?sh # drop (Suc ?k) (ers_decoded t)"
    using assms(2) by (simp add: Cons_nth_drop_Suc)
  then have content: "part_content t = take ?r (?x @ ?y)" using len by (simp add: part_content_def)
  let ?t1 = "t\<lparr>ers_total_remaining := ?r - min (unit - ?p) ?r, ers_shard_pos := ?p + min (unit - ?p) ?r\<rparr>"
  let ?t' = "if ?p + min (unit - ?p) ?r = unit
    then ?t1\<lparr>ers_decode_shard := Suc ?k, ers_shard_pos := 0\<rparr> else ?t1"
  have "ec_serve t = (take (min (unit - ?p) ?r) ?x, ?t')"
    unfolding ec_serve_def Let_def len(1) by simp
  then have ser: "frame = take (min (unit - ?p) ?r) ?x" "t' = ?t'" using serve by (simp_all only: prod.inject)
  have same: "ers_ec t' = ers_ec t" "ers_data_shards t' = ers_data_shards t" "ers_stripe_unit t' = ers_stripe_unit t"
    "ers_stripes_remaining t' = ers_stripes_remaining t" "ers_decoded t' = ers_decoded t"
    "ers_sources t' = ers_sources t" "ers_carries t' = ers_carries t"
    unfolding ser(2) by (simp_all split: if_split)
  then have src: "sources_at ss t' = sources_at ss t" "left t' = left t" for ss
    by (simp_all only: sources_at_def left_def)
  have "frame \<noteq> []" using len assms(3) by (simp add: ser(1))
  moreover have "part_ok t'"
  proof -
    have "ers_shard_pos t' < unit" "ers_decode_shard t' < length (ers_decoded t) \<or> ers_shard_pos t' = 0"
      using len assms(2) unfolding ser(2) by (auto simp: min_def)
    with t show ?thesis unfolding part_ok_def src same by blast
  qed
  moreover have "part_content t = frame @ part_content t'"
  proof (cases "unit - ?p \<le> ?r")
    case True
    then have "ers_total_remaining t' = ?r - (unit - ?p)" "ers_decode_shard t' = Suc ?k" "ers_shard_pos t' = 0"
      and f: "frame = ?x"
      using len unfolding ser by simp_all
    then have "part_content t' = take (?r - (unit - ?p)) ?y"
      unfolding part_content_def src same by simp
    then show ?thesis using True len f by (simp add: content)
  next
    case False
    then have "ers_total_remaining t' = 0" and f: "frame = take ?r ?x"
      using len unfolding ser by simp_all
    then have "part_content t' = []" by (simp add: part_content_def)
    then show ?thesis using False len f by (simp add: content)
  qed
  ultimately show ?thesis by blast
qed

lemma stripe_remaining_zero:
  "part_ok t \<Longrightarrow> stripe_remaining_bytes t = 0 \<longleftrightarrow> length (ers_decoded t) \<le> ers_decode_shard t"
  by (auto simp: stripe_remaining_bytes_def part_ok_def)

lemma ec_read_law:
  assumes t: "part_ok t"
  shows "\<exists>c t'. ec_read rs_decode rd t = (Ok c, t') \<and> part_ok t' \<and> part_content t = c @ part_content t' \<and>
    (c = [] \<longrightarrow> part_content t = [])"
proof (cases "ers_total_remaining t = 0")
  case True
  with t show ?thesis by (simp add: ec_read_def part_content_def)
next
  case rem: False
  show ?thesis
  proof (cases "stripe_remaining_bytes t = 0")
    case False
    then have "ers_decode_shard t < length (ers_decoded t)" using t by (simp add: stripe_remaining_zero)
    moreover obtain frame t' where s: "ec_serve t = (frame, t')" by fastforce
    ultimately have "frame \<noteq> [] \<and> part_ok t' \<and> part_content t = frame @ part_content t'"
      using ec_serve_spec [OF t _ rem] by blast
    then show ?thesis using rem False s by (simp add: ec_read_def)
  next
    case none: True
    then have drained: "drop (ers_decode_shard t) (ers_decoded t) = []" using t by (simp add: stripe_remaining_zero)
    show ?thesis
    proof (cases "left t")
      case Nil
      then have "ers_stripes_remaining t = 0" using t by (auto simp: left_def part_ok_def)
      then show ?thesis using t rem none Nil drained by (simp add: ec_read_def part_content_def)
    next
      case (Cons sh rest)
      then have "ers_stripes_remaining t \<noteq> 0" by (cases "ers_stripes_remaining t") (simp_all add: left_def)
      obtain t1 where r: "refill rs_decode rd t = (Ok (), t1)" "part_ok t1" "left t1 = rest"
        "ers_decoded t1 = take n sh" "ers_decode_shard t1 = 0" "ers_shard_pos t1 = 0"
        "ers_total_remaining t1 = ers_total_remaining t"
        using refill_spec [OF t Cons] by blast
      have "sh \<in> set stripes" using Cons unfolding left_def by (metis in_set_dropD list.set_intros(1))
      then have "ers_decode_shard t1 < length (ers_decoded t1)" using shape coder(1) r by simp
      moreover obtain frame t' where s: "ec_serve t1 = (frame, t')" by fastforce
      ultimately have "frame \<noteq> [] \<and> part_ok t' \<and> part_content t1 = frame @ part_content t'"
        using ec_serve_spec [OF r(2)] rem r(7) by simp
      moreover have "part_content t = part_content t1"
        using drained r Cons by (simp add: part_content_def)
      ultimately show ?thesis
        using rem none \<open>ers_stripes_remaining t \<noteq> 0\<close> r(1) s by (simp add: ec_read_def)
    qed
  qed
qed

lemma ec_read_stream: "byte_stream (ec_read rs_decode rd) part_ok part_content"
  by (rule byte_stream.intro) (rule ec_read_law)

end

subsection \<open>A stored object\<close>

lemma good_lengths:
  assumes "good_stripe rs_decode n m unit sh"
  shows "length (concat (take n sh)) = n * unit" "i < n + m \<Longrightarrow> length (sh ! i) = unit"
proof -
  have "length sh = n + m" "\<forall>s \<in> set sh. length s = unit" using assms by (simp_all add: good_stripe_def)
  then have "\<forall>s \<in> set (take n sh). length s = unit" "length (take n sh) = n" by (auto dest: in_set_takeD)
  then show "length (concat (take n sh)) = n * unit"
    by (simp add: length_concat map_idI sum_list_triv cong: map_cong)
  show "i < n + m \<Longrightarrow> length (sh ! i) = unit" using \<open>length sh = n + m\<close> \<open>\<forall>s \<in> set sh. length s = unit\<close> by simp
qed

lemma payload_drop:
  "\<forall>sh \<in> set ss. good_stripe rs_decode n m unit sh \<Longrightarrow> payload n (drop k ss) = drop (k * (n * unit)) (payload n ss)"
proof (induction ss arbitrary: k)
  case (Cons sh ss)
  then have "length (concat (take n sh)) = n * unit" using good_lengths by auto
  with Cons show ?case by (cases k) auto
qed simp

lemma length_payload:
  "\<forall>sh \<in> set ss. good_stripe rs_decode n m unit sh \<Longrightarrow> length (payload n ss) = length ss * (n * unit)"
proof (induction ss)
  case (Cons sh ss)
  then have "length (concat (take n sh)) = n * unit" using good_lengths by auto
  with Cons show ?case by simp
qed simp

lemma shard_file_drop:
  "\<forall>sh \<in> set ss. good_stripe rs_decode n m unit sh \<Longrightarrow> i < n + m \<Longrightarrow>
     take ((length ss - k) * unit) (drop (k * unit) (shard_file i ss)) = shard_file i (drop k ss)"
proof (induction ss arbitrary: k)
  case (Cons sh ss)
  then have l: "length (sh ! i) = unit" using good_lengths by auto
  show ?case
  proof (cases k)
    case 0
    with Cons.IH [of 0] Cons.prems l show ?thesis by simp
  next
    case (Suc j)
    with Cons.IH [of j] Cons.prems l show ?thesis by simp
  qed
qed simp

lemma length_body_bound: "0 < block \<Longrightarrow> actual \<le> stripes_of actual block * block"
proof -
  assume b: "0 < block"
  have "actual + block - 1 < ((actual + block - 1) div block) * block + block"
    using b mod_less_divisor [OF b, of "actual + block - 1"] div_mult_mod_eq [of "actual + block - 1" block]
    by linarith
  then have "actual \<le> ((actual + block - 1) div block) * block" using b by linarith
  also have "\<dots> \<le> stripes_of actual block * block" by (simp add: stripes_of_def)
  finally show ?thesis .
qed

text \<open>
  The drives serve a list of files at a path: what an open delivers is honest and comes from the
  drive's file, and at every range at least \<open>n\<close> of the drives deliver all of it.
\<close>

definition serves :: "('b \<Rightarrow> string \<Rightarrow> string \<Rightarrow> nat \<Rightarrow> nat \<Rightarrow> ('s, io_error) result) \<Rightarrow> 'b list \<Rightarrow> ('s \<Rightarrow> bool)
    \<Rightarrow> ('s \<Rightarrow> byte list) \<Rightarrow> ('s \<Rightarrow> bool) \<Rightarrow> nat \<Rightarrow> string \<Rightarrow> string \<Rightarrow> byte list list \<Rightarrow> bool" where
  "serves open_file backends ok content honest n bucket path files \<longleftrightarrow> length backends = length files \<and>
     (\<forall>i < length backends. \<forall>off len s. open_file (backends ! i) bucket path off len = Ok s \<longrightarrow>
        honest s \<and> content s = take len (drop off (files ! i))) \<and>
     (\<forall>off len. n \<le> length (filter (\<lambda>b. \<exists>s. open_file b bucket path off len = Ok s \<and> ok s) backends))"

locale ec_object = shard_source rd ok content honest
  for rd :: "'s reader" and ok content honest +
  fixes open_file :: "'b \<Rightarrow> string \<Rightarrow> string \<Rightarrow> nat \<Rightarrow> nat \<Rightarrow> ('s, io_error) result" and backends :: "'b list"
    and bucket key data_dir :: string and parts :: "object_part_info list"
    and rs_decode :: rs_decoder and n m unit :: nat
    and stored :: "object_part_info \<Rightarrow> byte list list list"
  assumes coder: "0 < n" "0 < unit" "length backends = n + m"
    and stored: "p \<in> set parts \<Longrightarrow> \<forall>sh \<in> set (stored p). good_stripe rs_decode n m unit sh"
      "p \<in> set parts \<Longrightarrow> length (stored p) = stripes_of (as_u64 (op_actual_size p)) (n * unit)"
    and files: "p \<in> set parts \<Longrightarrow> serves open_file backends ok content honest n bucket (part_path key data_dir p)
        (map (\<lambda>i. shard_file i (stored p)) [0..<n + m])"
begin

abbreviation e :: erasure where
  "e \<equiv> \<lparr>er_data_shards = n, er_parity_shards = m\<rparr>"

abbreviation part_ok :: "object_part_info \<Rightarrow> 's ec_read_stream \<Rightarrow> bool" where
  "part_ok p \<equiv> ec_part.part_ok ok content honest n m unit (stored p)"

abbreviation part_content :: "object_part_info \<Rightarrow> 's ec_read_stream \<Rightarrow> byte list" where
  "part_content p \<equiv> ec_part.part_content n (stored p)"

definition body :: "object_part_info \<Rightarrow> byte list" where
  "body p = take (as_u64 (op_actual_size p)) (payload n (stored p))"

lemma opens:
  assumes "p \<in> set parts" "i < n + m"
    "open_file (backends ! i) bucket (part_path key data_dir p) (k * unit) ((length (stored p) - k) * unit) = Ok s"
  shows "honest s \<and> content s = shard_file i (drop k (stored p))"
proof -
  have "honest s" "content s = take ((length (stored p) - k) * unit) (drop (k * unit) (shard_file i (stored p)))"
    using files [OF assms(1)] assms(2,3) coder(3) by (auto simp: serves_def)
  then show ?thesis using shard_file_drop [OF stored(1) [OF assms(1)] assms(2)] by simp
qed

lemma enough: "p \<in> set parts \<Longrightarrow> n \<le> length (filter (\<lambda>b. \<exists>s. open_file b bucket (part_path key data_dir p) off len
      = Ok s \<and> ok s) backends)"
  using files unfolding serves_def by blast

lemma length_body: "p \<in> set parts \<Longrightarrow> length (body p) = as_u64 (op_actual_size p)"
  using length_body_bound [of "n * unit" "as_u64 (op_actual_size p)"] coder(1,2)
  by (simp add: body_def length_payload [OF stored(1)] stored(2))

lemma part: "p \<in> set parts \<Longrightarrow> ec_part rd ok content honest rs_decode n m unit (stored p)"
  using coder stored(1) by unfold_locales auto

lemma open_part:
  assumes p: "p \<in> set parts" and k: "k \<le> length (stored p)"
  shows "\<exists>cur. open_ec_part_stream open_file backends bucket key (part_path key data_dir p)
      (as_u64 (op_actual_size p)) (n * unit) unit n m' e k = Ok cur \<and>
    part_ok p cur \<and> part_content p cur = drop (k * (n * unit)) (body p)"
proof -
  let ?ss = "stored p"
  let ?open = "\<lambda>b. open_file b bucket (part_path key data_dir p) (k * unit) ((length ?ss - k) * unit)"
  let ?src = "\<lambda>r. case r of Inr s \<Rightarrow> Some s | Inl _ \<Rightarrow> None"
  let ?sources = "map ?src (map ?open backends)"
  note pt = part [OF p]
  have good: "n \<le> length (filter (\<lambda>x. \<exists>s. x = Some s \<and> ok s) ?sources)"
    by (rule order_trans [OF enough [OF p, of "k * unit" "(length ?ss - k) * unit"] filter_length_mono]) auto
  moreover have "length (filter (\<lambda>x. \<exists>s. x = Some s \<and> ok s) ?sources) \<le> length (filter (\<lambda>s. s \<noteq> None) ?sources)"
    by (rule filter_length_mono) auto
  ultimately have "\<not> length (filter (\<lambda>s. s \<noteq> None) ?sources) < n" by linarith
  then have opened: "open_ec_part_stream open_file backends bucket key (part_path key data_dir p)
      (as_u64 (op_actual_size p)) (n * unit) unit n m' e k =
      Ok \<lparr>ers_ec = e, ers_sources = ?sources, ers_carries = replicate (length ?sources) [],
          ers_stripes_remaining = length ?ss - k, ers_stripe_unit = unit, ers_data_shards = n,
          ers_parity_shards = m', ers_total_remaining = as_u64 (op_actual_size p) - k * (n * unit),
          ers_decoded = [], ers_decode_shard = 0, ers_shard_pos = 0, ers_bucket = bucket, ers_key = key\<rparr>"
    (is "_ = Ok ?cur")
    unfolding open_ec_part_stream_def Let_def stored(2) [OF p, symmetric] by (rule if_not_P)
  obtain cur where eq: "?cur = cur" by simp
  then have cur: "open_ec_part_stream open_file backends bucket key (part_path key data_dir p)
      (as_u64 (op_actual_size p)) (n * unit) unit n m' e k = Ok cur"
    "ers_ec cur = e" "ers_data_shards cur = n" "ers_stripe_unit cur = unit" "ers_sources cur = ?sources"
    "ers_carries cur = replicate (n + m) []" "ers_stripes_remaining cur = length ?ss - k"
    "ers_total_remaining cur = as_u64 (op_actual_size p) - k * (n * unit)"
    "ers_decoded cur = []" "ers_shard_pos cur = 0"
    unfolding opened unfolding eq [symmetric] using coder(3) by simp_all
  have left: "ec_part.left ?ss cur = drop k ?ss"
    using k by (simp add: ec_part.left_def [OF pt] cur)
  have "ec_part.sources_at ok content honest n m (drop k ?ss) cur"
    unfolding ec_part.sources_at_def [OF pt] cur
    using good opens [OF p] coder(3) by (auto split: sum.splits)
  then have "part_ok p cur"
    unfolding ec_part.part_ok_def [OF pt] left using coder(2) by (simp add: cur)
  moreover have "part_content p cur = drop (k * (n * unit)) (body p)"
    unfolding ec_part.part_content_def [OF pt] left payload_drop [OF stored(1) [OF p]] body_def
    by (simp add: cur drop_take)
  ultimately show ?thesis using cur(1) by blast
qed

definition pending :: "('b, 's) multi_part_stream \<Rightarrow> byte list" where
  "pending t =
     (case drop (mp_next_idx t) parts of
        [] \<Rightarrow> []
      | p # ps \<Rightarrow> drop ((if mp_next_idx t = 0 then mp_first_start_stripe t else 0) * (n * unit)) (body p)
                 @ concat (map body ps))"

definition multi_content :: "('b, 's) multi_part_stream \<Rightarrow> byte list" where
  "multi_content t =
     (case mp_current t of None \<Rightarrow> [] | Some cur \<Rightarrow> part_content (parts ! (mp_next_idx t - 1)) cur) @ pending t"

definition multi_ok :: "('b, 's) multi_part_stream \<Rightarrow> bool" where
  "multi_ok t \<longleftrightarrow> mp_backends t = backends \<and> mp_bucket t = bucket \<and> mp_key t = key \<and> mp_data_dir t = data_dir \<and>
     mp_parts t = parts \<and> mp_block_size t = n * unit \<and> mp_stripe_unit t = unit \<and> mp_data_shards t = n \<and>
     mp_ec t = e \<and> mp_next_idx t \<le> length parts \<and>
     (parts \<noteq> [] \<longrightarrow> mp_first_start_stripe t \<le> length (stored (parts ! 0))) \<and>
     (\<forall>cur. mp_current t = Some cur \<longrightarrow> 0 < mp_next_idx t \<and> part_ok (parts ! (mp_next_idx t - 1)) cur)"

lemma advance_opens:
  assumes t: "multi_ok t" and "mp_current t = None" and i: "mp_next_idx t < length parts"
  shows "\<exists>cur t'. advance open_file print t = (Ok True, t') \<and> mp_current t' = Some cur \<and>
    mp_next_idx t' = Suc (mp_next_idx t) \<and> multi_ok t' \<and> multi_content t' = multi_content t"
proof -
  let ?i = "mp_next_idx t"
  let ?p = "parts ! ?i" and ?k = "if ?i = 0 then mp_first_start_stripe t else 0"
  have p: "?p \<in> set parts" using i by simp
  have k: "?k \<le> length (stored ?p)" using t i by (auto simp: multi_ok_def)
  obtain cur where cur: "open_ec_part_stream open_file backends bucket key (part_path key data_dir ?p)
      (as_u64 (op_actual_size ?p)) (n * unit) unit n (mp_parity_shards t) e ?k = Ok cur"
    "part_ok ?p cur" "part_content ?p cur = drop (?k * (n * unit)) (body ?p)"
    using open_part [OF p k, of "mp_parity_shards t"] by blast
  let ?t' = "t\<lparr>mp_next_idx := ?i + 1, mp_current := Some cur\<rparr>"
  have "advance open_file print t = (Ok True, ?t')"
    using t assms(2) i cur(1) unfolding advance_def multi_ok_def Let_def by simp
  moreover have "multi_ok ?t'" using t cur(2) i by (auto simp: multi_ok_def)
  moreover have "drop ?i parts = ?p # drop (Suc ?i) parts" using i by (simp add: Cons_nth_drop_Suc)
  then have "multi_content ?t' = multi_content t"
    using assms(2) cur(3) by (cases "drop (Suc ?i) parts") (simp_all add: multi_content_def pending_def)
  ultimately show ?thesis by (intro exI [of _ cur] exI [of _ ?t']) simp
qed

lemma multi_read_current:
  assumes t: "multi_ok t" and cur: "mp_current t = Some cur"
  obtains c t' where "advance open_file print t = (Ok True, t)" "ec_read rs_decode rd cur = (Ok c, t')"
    "multi_ok (t\<lparr>mp_current := Some t'\<rparr>)" "multi_ok (t\<lparr>mp_current := None\<rparr>)"
    "multi_content t = c @ multi_content (t\<lparr>mp_current := Some t'\<rparr>)"
    "c = [] \<longrightarrow> multi_content (t\<lparr>mp_current := None\<rparr>) = multi_content t"
proof -
  let ?p = "parts ! (mp_next_idx t - 1)"
  have i: "0 < mp_next_idx t" "mp_next_idx t \<le> length parts" "part_ok ?p cur"
    using t cur by (simp_all add: multi_ok_def)
  then have "?p \<in> set parts" by simp
  from ec_part.ec_read_law [OF part [OF this] i(3)]
  obtain c t' where c: "ec_read rs_decode rd cur = (Ok c, t')" "part_ok ?p t'"
    "part_content ?p cur = c @ part_content ?p t'" "c = [] \<longrightarrow> part_content ?p cur = []" by blast
  show thesis
  proof (rule that)
    show "advance open_file print t = (Ok True, t)" using cur by (simp add: advance_def)
    show "multi_ok (t\<lparr>mp_current := Some t'\<rparr>)" "multi_ok (t\<lparr>mp_current := None\<rparr>)"
      using t c(2) i(1) by (simp_all add: multi_ok_def)
    show "multi_content t = c @ multi_content (t\<lparr>mp_current := Some t'\<rparr>)"
      "c = [] \<longrightarrow> multi_content (t\<lparr>mp_current := None\<rparr>) = multi_content t"
      using c(3,4) cur i(1) by (simp_all add: multi_content_def pending_def)
  qed (rule c(1))
qed

lemma multi_read_law:
  assumes "multi_ok t"
  shows "\<exists>c t'. multi_read rs_decode rd open_file print t = (Ok c, t') \<and> multi_ok t' \<and>
    multi_content t = c @ multi_content t' \<and> (c = [] \<longrightarrow> multi_content t = [])"
  using assms
proof (induction "2 * (length parts - mp_next_idx t) + (if mp_current t = None then 0 else 1)"
    arbitrary: t rule: less_induct)
  case less
  have some: ?case if adv: "advance open_file print t = (Ok True, t1)" and cur: "mp_current t1 = Some cur"
    and t1: "multi_ok t1" "multi_content t1 = multi_content t"
      "2 * (length parts - mp_next_idx t1) < 2 * (length parts - mp_next_idx t) + (if mp_current t = None then 0 else 1)"
    for t1 cur
  proof -
    obtain c t' where c: "ec_read rs_decode rd cur = (Ok c, t')"
      "multi_ok (t1\<lparr>mp_current := Some t'\<rparr>)" "multi_ok (t1\<lparr>mp_current := None\<rparr>)"
      "multi_content t1 = c @ multi_content (t1\<lparr>mp_current := Some t'\<rparr>)"
      "c = [] \<longrightarrow> multi_content (t1\<lparr>mp_current := None\<rparr>) = multi_content t1"
      using multi_read_current [OF t1(1) cur, of print] by metis
    show ?thesis
    proof (cases "c = []")
      case False
      then show ?thesis
        using c t1(2) adv cur by (subst multi_read.simps) auto
    next
      case True
      have "multi_read rs_decode rd open_file print t
          = multi_read rs_decode rd open_file print (t1\<lparr>mp_current := None\<rparr>)"
        using True adv cur c(1) by (subst multi_read.simps) simp
      moreover have "multi_content (t1\<lparr>mp_current := None\<rparr>) = multi_content t" using True c(5) t1(2) by simp
      ultimately show ?thesis using less.hyps [of "t1\<lparr>mp_current := None\<rparr>"] c(3) t1(3) by simp
    qed
  qed
  show ?case
  proof (cases "mp_current t")
    case (Some cur)
    then have "advance open_file print t = (Ok True, t)" by (simp add: advance_def)
    from some [OF this Some less.prems refl] Some show ?thesis by simp
  next
    case None
    show ?thesis
    proof (cases "mp_next_idx t < length parts")
      case True
      from advance_opens [OF less.prems None True, of print] some True None show ?thesis by auto
    next
      case False
      then have "advance open_file print t = (Ok False, t)" "multi_content t = []"
        using None less.prems by (simp_all add: advance_def multi_ok_def multi_content_def pending_def)
      with less.prems show ?thesis by (subst multi_read.simps) simp
    qed
  qed
qed

lemma multi_read_stream: "byte_stream (multi_read rs_decode rd open_file print) multi_ok multi_content"
  by (rule byte_stream.intro) (rule multi_read_law)

lemma multi_start:
  assumes "mp_backends t = backends" "mp_bucket t = bucket" "mp_key t = key" "mp_data_dir t = data_dir"
    "mp_parts t = parts" "mp_block_size t = n * unit" "mp_stripe_unit t = unit" "mp_data_shards t = n"
    "mp_ec t = e" "mp_next_idx t = 0" "mp_current t = None"
    and p: "parts = p # ps" and first: "mp_first_start_stripe t = intra div (n * unit)"
      "intra < as_u64 (op_actual_size p)"
  shows "multi_ok t \<and> drop (intra mod (n * unit)) (multi_content t) = drop intra (concat (map body parts))"
proof -
  let ?d = "n * unit"
  have d: "0 < ?d" using coder by simp
  have "intra div ?d * ?d \<le> intra" by simp
  moreover have "intra < stripes_of (as_u64 (op_actual_size p)) ?d * ?d"
    using length_body_bound [OF d, of "as_u64 (op_actual_size p)"] first(2) by linarith
  ultimately have "intra div ?d * ?d < stripes_of (as_u64 (op_actual_size p)) ?d * ?d" by linarith
  then have "intra div ?d \<le> length (stored p)" using stored(2) [of p] p by simp
  then have "multi_ok t" unfolding multi_ok_def using assms by simp
  moreover have "intra div ?d * ?d \<le> length (body p)"
  proof -
    have "length (body p) = as_u64 (op_actual_size p)" using length_body p by simp
    then show ?thesis using first(2) \<open>intra div ?d * ?d \<le> intra\<close> by linarith
  qed
  then have "multi_content t = drop (intra div ?d * ?d) (concat (map body parts))"
    unfolding multi_content_def pending_def using assms by simp
  then have "drop (intra mod ?d) (multi_content t) = drop intra (concat (map body parts))"
    by (simp only: drop_drop mod_div_mult_eq)
  ultimately show ?thesis ..
qed

end

lemma seek_part_split:
  assumes "offset < sum_list (map (\<lambda>p. as_u64 (op_actual_size p)) parts)"
  shows "\<exists>pre p ps intra. parts = pre @ p # ps \<and> seek_part i offset parts = (i + length pre, intra) \<and>
    intra < as_u64 (op_actual_size p) \<and> offset = sum_list (map (\<lambda>p. as_u64 (op_actual_size p)) pre) + intra"
  using assms
proof (induction parts arbitrary: i offset)
  case (Cons q qs)
  let ?l = "as_u64 (op_actual_size q)"
  show ?case
  proof (cases "offset < ?l")
    case True
    then show ?thesis by (intro exI [of _ "[]"] exI [of _ q] exI [of _ qs] exI [of _ offset]) simp
  next
    case False
    with Cons.prems have "offset - ?l < sum_list (map (\<lambda>p. as_u64 (op_actual_size p)) qs)" by simp
    from Cons.IH [OF this, of "Suc i"] obtain pre p ps intra where
      "qs = pre @ p # ps" "seek_part (Suc i) (offset - ?l) qs = (Suc i + length pre, intra)"
      "intra < as_u64 (op_actual_size p)"
      "offset - ?l = sum_list (map (\<lambda>p. as_u64 (op_actual_size p)) pre) + intra" by blast
    with False show ?thesis
      by (intro exI [of _ "q # pre"] exI [of _ p] exI [of _ ps] exI [of _ intra]) (simp add: Let_def)
  qed
qed simp

text \<open>The object's bytes, from its parts.\<close>

definition object_bytes :: "nat \<Rightarrow> (object_part_info \<Rightarrow> byte list list list) \<Rightarrow> object_part_info list \<Rightarrow> byte list" where
  "object_bytes n stored parts =
     concat (map (\<lambda>p. take (as_u64 (op_actual_size p)) (payload n (stored p))) parts)"

lemma range_read:
  assumes obj: "ec_object rd ok content honest open_file backends bucket key data_dir parts rs_decode n m unit stored"
    and size: "offset < sum_list (map (\<lambda>p. as_u64 (op_actual_size p)) parts)"
    and at: "multi_at backends bucket key data_dir parts (n * unit) unit n m
       \<lparr>er_data_shards = n, er_parity_shards = m\<rparr> offset = (t, sub)"
  shows "\<exists>ok' content'. byte_stream (multi_read rs_decode rd open_file print) ok' content' \<and> ok' t \<and>
    drop sub (content' t) = drop offset (object_bytes n stored parts)"
proof -
  obtain pre p ps intra where s: "parts = pre @ p # ps" "seek_part 0 offset parts = (length pre, intra)"
    "intra < as_u64 (op_actual_size p)" "offset = sum_list (map (\<lambda>p. as_u64 (op_actual_size p)) pre) + intra"
    using seek_part_split [OF size, of 0] by auto
  have tail: "ec_object rd ok content honest open_file backends bucket key data_dir (p # ps) rs_decode n m unit stored"
    using obj unfolding ec_object_def ec_object_axioms_def s(1) by auto
  have len: "length (concat (map (\<lambda>p. take (as_u64 (op_actual_size p)) (payload n (stored p))) pre))
      = sum_list (map (\<lambda>p. as_u64 (op_actual_size p)) pre)"
    using ec_object.length_body [OF obj] unfolding ec_object.body_def [OF obj] s(1)
    by (induction pre) auto
  have t: "t = \<lparr>mp_backends = backends, mp_bucket = bucket, mp_key = key, mp_data_dir = data_dir,
      mp_parts = p # ps, mp_next_idx = 0, mp_block_size = n * unit, mp_stripe_unit = unit, mp_data_shards = n,
      mp_parity_shards = m, mp_ec = \<lparr>er_data_shards = n, er_parity_shards = m\<rparr>, mp_current = None,
      mp_first_start_stripe = intra div (n * unit)\<rparr>" "sub = intra mod (n * unit)"
    using at s(2) by (simp_all add: multi_at_def s(1))
  have "ec_object.multi_ok ok content honest backends bucket key data_dir (p # ps) n m unit stored t \<and>
      drop sub (ec_object.multi_content (p # ps) n unit stored t)
        = drop intra (concat (map (ec_object.body n stored) (p # ps)))"
    unfolding t(2) by (rule ec_object.multi_start [OF tail]) (use s(3) t(1) in simp_all)
  moreover have "drop offset (object_bytes n stored parts) = drop intra (concat (map (ec_object.body n stored) (p # ps)))"
    unfolding s(4) object_bytes_def ec_object.body_def [OF tail] unfolding s(1)
    by (simp add: len flip: drop_drop)
  ultimately show ?thesis using ec_object.multi_read_stream [OF tail] by metis
qed


subsection \<open>What is written\<close>

context byte_stream
begin

lemma fill_stripe_content:
  assumes "ok s" "length buf \<le> want"
  shows "let x = carry @ content s; k = want - length buf in
    if k \<le> length x
    then \<exists>s' carry'. fill_stripe rd sz consumed want buf carry s = (Ok (buf @ take k x, carry'), s') \<and>
      ok s' \<and> carry' @ content s' = drop k x
    else \<exists>s'. fill_stripe rd sz consumed want buf carry s = (Err (Io UnexpectedEof (''EC put: source ended at ''
      @ show_nat (consumed + length buf + length x) @ ''/'' @ show_nat sz)), s')"
  using assms
proof (induction "want - length buf" arbitrary: buf carry s rule: less_induct)
  case less
  show ?case
  proof (cases "length buf < want")
    case False
    with less.prems show ?thesis by (subst fill_stripe.simps) (auto simp: Let_def)
  next
    case True
    have next_chunk: ?thesis
      if c: "(if carry = [] then rd s else (Ok carry, s)) = (Ok c, s1)" "c \<noteq> []" "ok s1" "carry @ content s = c @ content s1"
      for c s1
    proof -
      let ?n = "min (want - length buf) (length c)"
      have step: "fill_stripe rd sz consumed want buf carry s
          = fill_stripe rd sz consumed want (buf @ take ?n c) (drop ?n c) s1"
        using True c(1,2) by (subst fill_stripe.simps) (simp add: Let_def split: if_splits)
      have lt: "want - length (buf @ take ?n c) < want - length buf" "length (buf @ take ?n c) \<le> want"
        using True c(2) by (auto simp flip: length_greater_0_conv)
      show ?thesis
        using less.hyps [OF lt(1) c(3) lt(2), of "drop ?n c"] True
        unfolding step c(4) Let_def
        by (cases "want - length buf \<le> length c") (auto split: if_splits)
    qed
    show ?thesis
    proof (cases "carry = []")
      case False
      then show ?thesis by (intro next_chunk [of carry s]) (use less.prems in auto)
    next
      case empty: True
      from less.prems(1) show ?thesis
      proof (cases rule: read_cases)
        case (eof s')
        with True empty show ?thesis by (subst (1 2) fill_stripe.simps) (auto simp: Let_def)
      next
        case (data c s')
        then show ?thesis by (intro next_chunk [of c s']) (use empty in auto)
      qed
    qed
  qed
qed

lemma fill_stripe_ok:
  assumes "ok s" "want \<le> length (carry @ content s)"
  obtains s' carry' where "fill_stripe rd sz consumed want [] carry s = (Ok (take want (carry @ content s), carry'), s')"
    "ok s'" "carry' @ content s' = drop want (carry @ content s)"
proof -
  obtain x where x: "carry @ content s = x" by simp
  show thesis
    using fill_stripe_content [OF assms(1), of "[]" want carry sz consumed] assms(2) that
    unfolding x Let_def by auto
qed

lemma fill_stripe_eof:
  assumes "ok s" "length (carry @ content s) < want"
  shows "\<exists>s'. fill_stripe rd sz consumed want [] carry s = (Err (Io UnexpectedEof (''EC put: source ended at ''
      @ show_nat (consumed + length (carry @ content s)) @ ''/'' @ show_nat sz)), s')"
proof -
  obtain x where x: "carry @ content s = x" by simp
  show ?thesis
    using fill_stripe_content [OF assms(1), of "[]" want carry sz consumed] assms(2)
    unfolding x Let_def by auto
qed

end

lemma write_shards_vec:
  "length ks = length shs \<Longrightarrow> write_shards vec_write ks shs = (map2 (@) ks shs, None)"
  by (induction ks shs rule: list_induct2) (simp_all add: vec_write_def)

lemma stripe_split:
  fixes x :: "byte list"
  shows "take (min r d) x @ take (min (r - min r d) j) (drop (min r d) x) = take (min r (d + j)) x"
    "r \<le> length x \<Longrightarrow> (take (min r d) x @ replicate (d - min r d) 0)
       @ take (min (r - min r d) j) (drop (min r d) x) @ replicate (j - (r - min r d)) 0
     = take (min r (d + j)) x @ replicate (d + j - r) 0"
proof -
  show cut: "take (min r d) x @ take (min (r - min r d) j) (drop (min r d) x) = take (min r (d + j)) x"
    unfolding take_add [symmetric] by (rule arg_cong [of _ _ "\<lambda>j. take j x"]) (auto simp: min_def)
  show "(take (min r d) x @ replicate (d - min r d) 0)
       @ take (min (r - min r d) j) (drop (min r d) x) @ replicate (j - (r - min r d)) 0
     = take (min r (d + j)) x @ replicate (d + j - r) 0" if "r \<le> length x"
  proof (cases "r \<le> d")
    case True
    then have "replicate (d + j - r) (0::byte) = replicate (d - r) 0 @ replicate j 0"
      by (simp flip: replicate_add)
    with True show ?thesis by (simp add: min_def)
  next
    case False
    then have "min r d = d" by simp
    with cut show ?thesis by (simp flip: append_assoc add: add.commute)
  qed
qed

lemma write_stripes_content:
  assumes con: "rs_contract n m rs_encode rs_decode" and n: "0 < n" "0 < unit" "even unit"
    and src: "byte_stream rd ok content" and "ok s" "length sinks = n + m"
    and len: "sz - consumed \<le> length (carry @ content s)"
  shows "\<exists>ss s'. write_stripes rs_encode md5_hex rd vec_write \<lparr>er_data_shards = n, er_parity_shards = m\<rparr>
      sz (n * unit) k consumed hashed carry s sinks
      = (Ok (md5_hex (hashed @ take (min (sz - consumed) (k * (n * unit))) (carry @ content s))),
         map2 (\<lambda>sink i. sink @ shard_file i ss) sinks [0..<n + m], s') \<and> ok s' \<and>
    length ss = k \<and> (\<forall>sh \<in> set ss. good_stripe rs_decode n m unit sh) \<and>
    payload n ss = take (min (sz - consumed) (k * (n * unit))) (carry @ content s)
      @ replicate (k * (n * unit) - (sz - consumed)) 0"
  using assms(6-8)
proof (induction k arbitrary: consumed hashed carry s sinks)
  case 0
  then show ?case by (intro exI [of _ "[]"]) (auto intro!: nth_equalityI)
next
  case (Suc k)
  obtain d where d: "n * unit = d" by simp
  obtain x where x: "carry @ content s = x" by simp
  let ?r = "sz - consumed"
  let ?want = "min ?r d"
  have r: "?r \<le> length x" using Suc.prems(3) x by simp
  obtain s1 carry1 where f: "fill_stripe rd sz consumed ?want [] carry s = (Ok (take ?want x, carry1), s1)"
    "ok s1" "carry1 @ content s1 = drop ?want x"
    using byte_stream.fill_stripe_ok [OF src Suc.prems(1), of ?want carry sz consumed] r unfolding x
    by (metis min.coboundedI1)
  let ?stripe = "take ?want x @ replicate (d - ?want) 0"
  have "length ?stripe = n * unit" using r d by simp
  then obtain sh where sh: "encode_stripe rs_encode \<lparr>er_data_shards = n, er_parity_shards = m\<rparr> ?stripe = Ok sh"
    "good_stripe rs_decode n m unit sh" "concat (take n sh) = ?stripe"
    using encode_good_stripe [OF con n] by blast
  have shl: "length sh = n + m" using sh(2) by (simp add: good_stripe_def)
  let ?sinks = "map2 (@) sinks sh"
  have w: "write_shards vec_write sinks sh = (?sinks, None)"
    using Suc.prems(2) shl by (simp add: write_shards_vec)
  have rest: "sz - (consumed + ?want) = ?r - ?want" by simp
  have "sz - (consumed + ?want) \<le> length (carry1 @ content s1)" "length ?sinks = n + m"
    using Suc.prems(2) r shl by (auto simp: f(3))
  from Suc.IH [OF f(2) this(2,1), of "hashed @ take ?want x"]
  obtain ss s' where ih: "write_stripes rs_encode md5_hex rd vec_write \<lparr>er_data_shards = n, er_parity_shards = m\<rparr>
      sz d k (consumed + ?want) (hashed @ take ?want x) carry1 s1 ?sinks
      = (Ok (md5_hex ((hashed @ take ?want x) @ take (min (?r - ?want) (k * d)) (drop ?want x))),
         map2 (\<lambda>sink i. sink @ shard_file i ss) ?sinks [0..<n + m], s')" "ok s'"
    "length ss = k" "\<forall>sh \<in> set ss. good_stripe rs_decode n m unit sh"
    "payload n ss = take (min (?r - ?want) (k * d)) (drop ?want x) @ replicate (k * d - (?r - ?want)) 0"
    unfolding f(3) d rest by blast
  have "payload n (sh # ss) = take (min ?r (Suc k * d)) x @ replicate (Suc k * d - ?r) 0"
    using stripe_split(2) [OF r, of d "k * d"] by (simp only: payload_simps sh(3) ih(5) mult_Suc)
  moreover have "map2 (\<lambda>sink i. sink @ shard_file i ss) ?sinks [0..<n + m]
      = map2 (\<lambda>sink i. sink @ shard_file i (sh # ss)) sinks [0..<n + m]"
    using Suc.prems(2) shl by (intro nth_equalityI) simp_all
  moreover have "write_stripes rs_encode md5_hex rd vec_write \<lparr>er_data_shards = n, er_parity_shards = m\<rparr>
      sz d (Suc k) consumed hashed carry s sinks
      = (Ok (md5_hex (hashed @ take (min ?r (Suc k * d)) x)),
         map2 (\<lambda>sink i. sink @ shard_file i ss) ?sinks [0..<n + m], s')"
    using f(1) sh(1) w ih(1) stripe_split(1) [of ?r d x "k * d"] by (simp add: Let_def)
  ultimately show ?case
    unfolding d x using sh(2) ih(2-4) by (intro exI [of _ "sh # ss"] exI [of _ s']) simp
qed

lemma write_stripes_eof:
  assumes con: "rs_contract n m rs_encode rs_decode" and n: "0 < n" "0 < unit" "even unit"
    and src: "byte_stream rd ok content" and "ok s" "length sinks = n + m"
    and "length (carry @ content s) < sz - consumed" "sz - consumed \<le> k * (n * unit)"
  shows "\<exists>ks s'. write_stripes rs_encode md5_hex rd vec_write \<lparr>er_data_shards = n, er_parity_shards = m\<rparr>
      sz (n * unit) k consumed hashed carry s sinks
      = (Err (Io UnexpectedEof (''EC put: source ended at ''
          @ show_nat (consumed + length (carry @ content s)) @ ''/'' @ show_nat sz)), ks, s')"
  using assms(6-9)
proof (induction k arbitrary: consumed hashed carry s sinks)
  case (Suc k)
  obtain d where d: "n * unit = d" by simp
  obtain x where x: "carry @ content s = x" by simp
  let ?r = "sz - consumed"
  let ?want = "min ?r d"
  have r: "length x < ?r" using Suc.prems(3) x by simp
  show ?case
  proof (cases "length x < ?want")
    case True
    with byte_stream.fill_stripe_eof [OF src Suc.prems(1), of carry ?want sz consumed] x show ?thesis
      unfolding d x by (auto simp: Let_def)
  next
    case False
    then have want: "?want = d" "d \<le> length x" using r by auto
    then obtain s1 carry1 where f: "fill_stripe rd sz consumed d [] carry s = (Ok (take d x, carry1), s1)"
      "ok s1" "carry1 @ content s1 = drop d x"
      using byte_stream.fill_stripe_ok [OF src Suc.prems(1), of d carry sz consumed] unfolding x by metis
    have "length (take d x) = n * unit" using want d by simp
    then obtain sh where sh: "encode_stripe rs_encode \<lparr>er_data_shards = n, er_parity_shards = m\<rparr> (take d x) = Ok sh"
      "good_stripe rs_decode n m unit sh"
      using encode_good_stripe [OF con n] by metis
    then have w: "write_shards vec_write sinks sh = (map2 (@) sinks sh, None)" "length (map2 (@) sinks sh) = n + m"
      using Suc.prems(2) by (auto simp: good_stripe_def write_shards_vec)
    have "length (carry1 @ content s1) < sz - (consumed + d)" "sz - (consumed + d) \<le> k * (n * unit)"
      using r want Suc.prems(4) d unfolding f(3) by auto
    from Suc.IH [OF f(2) w(2) this, of "hashed @ take d x"] f sh(1) w(1) want show ?thesis
      unfolding d x f(3) by (auto simp: Let_def)
  qed
qed simp

text \<open>
  Sinks other than buffers: a sink that \<open>holds\<close> the bytes written to it so far holds the next ones
  too, if their write succeeds. A stripe loop that succeeds with such sinks does what it does with
  buffers.
\<close>

locale byte_sink =
  fixes wr :: "'k writer" and holds :: "'k \<Rightarrow> byte list \<Rightarrow> bool"
  assumes write_law: "holds k v \<Longrightarrow> wr bs k = (Ok (), k') \<Longrightarrow> holds k' (v @ bs)"
begin

lemma write_shards_holds:
  assumes "list_all2 holds ks vs" "write_shards wr ks shs = (ks', None)"
  shows "\<exists>vs'. write_shards vec_write vs shs = (vs', None) \<and> list_all2 holds ks' vs'"
  using assms
proof (induction arbitrary: shs ks' rule: list_all2_induct)
  case (Cons k ks v vs)
  show ?case
  proof (cases shs)
    case (Cons sh shs1)
    obtain r k1 ks1 err where w: "wr sh k = (r, k1)" "write_shards wr ks shs1 = (ks1, err)" by fastforce
    with Cons.prems Cons have "r = Ok ()" "err = None" "ks' = k1 # ks1" by (auto split: sum.splits)
    with Cons.IH [of shs1 ks1] write_law [OF Cons.hyps(1)] w Cons show ?thesis by (auto simp: vec_write_def)
  qed (use Cons.hyps Cons.prems in auto)
qed auto

lemma write_stripes_holds:
  assumes "list_all2 holds ks vs"
    and "write_stripes rs_encode md5_hex rd wr ec sz stripe_data n consumed hashed carry s ks = (Ok etag, ks', s')"
  shows "\<exists>vs'. write_stripes rs_encode md5_hex rd vec_write ec sz stripe_data n consumed hashed carry s vs = (Ok etag, vs', s') \<and>
    list_all2 holds ks' vs'"
  using assms
proof (induction n arbitrary: consumed hashed carry s ks vs)
  case (Suc n)
  let ?want = "min (sz - consumed) stripe_data"
  obtain f s1 where f: "fill_stripe rd sz consumed ?want [] carry s = (f, s1)" by fastforce
  with Suc.prems(2) obtain buf carry1 where bc: "f = Ok (buf, carry1)" by (cases f) (auto simp: Let_def)
  with Suc.prems(2) f obtain shards where enc: "encode_stripe rs_encode ec (buf @ replicate (stripe_data - ?want) 0) = Ok shards"
    by (cases "encode_stripe rs_encode ec (buf @ replicate (stripe_data - ?want) 0)") (auto simp: Let_def)
  with Suc.prems(2) f bc obtain ks1 where w: "write_shards wr ks shards = (ks1, None)"
    by (auto simp: Let_def split: prod.splits option.splits)
  obtain vs1 where v: "write_shards vec_write vs shards = (vs1, None)" "list_all2 holds ks1 vs1"
    using write_shards_holds [OF Suc.prems(1) w] by blast
  from Suc.IH [OF v(2)] Suc.prems(2) f bc enc w v(1) show ?case by (simp add: Let_def)
qed auto

end

interpretation vec_sink: byte_sink vec_write "(=)"
  by unfold_locales (simp add: vec_write_def)

lemma written_object:
  assumes src: "shard_source rd ok content honest" and n: "0 < n" "0 < unit"
    and good: "\<forall>sh \<in> set ss. good_stripe rs_decode n m unit sh" "length ss = stripes_of sz (n * unit)"
    and p: "as_u64 (op_actual_size p) = sz"
    and served: "serves open_file backends ok content honest n bucket (part_path key data_dir p)
        (map (\<lambda>i. shard_file i ss) [0..<n + m])"
  shows "ec_object rd ok content honest open_file backends bucket key data_dir [p] rs_decode n m unit (\<lambda>_. ss)"
proof (rule ec_object.intro [OF src], unfold_locales)
  show "length backends = n + m" using served by (simp add: serves_def)
qed (use n good p served in auto)

text \<open>Single-buffer streams are sources, and every list of stripes has its good ones as a part.\<close>

interpretation vec_src: shard_source vec_read "\<lambda>_. True" "\<lambda>buf. buf" "\<lambda>_. True"
  by unfold_locales (auto simp: vec_read_def)

interpretation vec_part: ec_part vec_read "\<lambda>_. True" "\<lambda>buf. buf" "\<lambda>_. True" rs_decode "Suc n" m "Suc unit"
    "filter (good_stripe rs_decode (Suc n) m (Suc unit)) stripes" for rs_decode n m unit stripes
  by unfold_locales auto

text \<open>A drive that holds one file or has lost it, and a stripe of two data shards and one parity shard.\<close>

definition mem_open :: "byte list option \<Rightarrow> string \<Rightarrow> string \<Rightarrow> nat \<Rightarrow> nat \<Rightarrow> (vec_stream, io_error) result" where
  "mem_open file bucket path off len =
     (case file of None \<Rightarrow> Err (FileNotFound bucket path) | Some f \<Rightarrow> Ok (take len (drop off f)))"

definition example_part :: "nat \<Rightarrow> object_part_info" where
  "example_part sz = \<lparr>op_etag = [], op_number = 1, op_size = int sz, op_actual_size = int sz, op_mod_time_ms = 0,
     op_index = [], op_checksums = []\<rparr>"

lemma serves_mem:
  "length backends = length files \<Longrightarrow> (\<And>i f. i < length backends \<Longrightarrow> backends ! i = Some f \<Longrightarrow> files ! i = f) \<Longrightarrow>
   n \<le> length (filter (\<lambda>b. b \<noteq> None) backends) \<Longrightarrow>
   serves mem_open backends (\<lambda>_. True) (\<lambda>buf. buf) (\<lambda>_. True) n bucket path files"
  unfolding serves_def mem_open_def by (auto split: option.splits simp: not_None_eq cong: filter_cong)

lemma example_stripe: "good_stripe xor_decode 2 1 2 [[1, 2], [3, 4], [2, 6]]"
proof -
  obtain shards where sh: "encode_stripe xor_encode \<lparr>er_data_shards = 2, er_parity_shards = 1\<rparr> [1, 2, 3, 4] = Ok shards"
    "good_stripe xor_decode 2 1 2 shards"
    by (rule encode_good_stripe [OF xor_contract, of 2 "[1, 2, 3, 4]"]) auto
  have "encode_stripe xor_encode \<lparr>er_data_shards = 2, er_parity_shards = 1\<rparr> [1, 2, 3, 4]
      = Ok [[1, 2], [3, 4], [2, 6]]"
    by (simp add: encode_stripe_def xor_encode_def xor_bytes_def Let_def recovery_shard_def upt_rec)
  with sh show ?thesis by simp
qed

subsection \<open>Properties\<close>

text \<open>
  C22: a byte range of an erasure-coded object is read back exactly. For an object whose parts'
  shard files are served by the drives, with at least as many intact drives as there are data
  shards and every other drive missing, failing or ending early, the stream that a ranged GET
  opens (skipping whole parts, then whole stripes, then the rest of a stripe) delivers the
  requested bytes of the object, and an unranged read from the start delivers all of it.
\<close>

theorem ec_range_read:
  assumes "ec_object rd ok content honest open_file backends bucket key data_dir parts rs_decode n m unit stored"
    and "offset < sum_list (map (\<lambda>p. as_u64 (op_actual_size p)) parts)"
    and "multi_at backends bucket key data_dir parts (n * unit) unit n m
       \<lparr>er_data_shards = n, er_parity_shards = m\<rparr> offset = (t, sub)"
  shows "(\<exists>t'. read_full (skip_take_read (multi_read rs_decode rd open_file print)) len (skip_take_new t sub len)
      = (Ok (take len (drop offset (object_bytes n stored parts))), t')) \<and>
    (offset = 0 \<longrightarrow> (\<exists>t'. read_full (multi_read rs_decode rd open_file print) len t
      = (Ok (take len (object_bytes n stored parts)), t')))"
proof -
  let ?rd = "multi_read rs_decode rd open_file print"
  obtain ok' content' where c: "byte_stream ?rd ok' content'" "ok' t"
    "drop sub (content' t) = drop offset (object_bytes n stored parts)"
    using range_read [OF assms, of print] by blast
  have "\<exists>t'. read_full (skip_take_read ?rd) len (skip_take_new t sub len)
      = (Ok (take len (drop offset (object_bytes n stored parts))), t')"
    using byte_stream.read_full_content [OF skip_take_stream [OF c(1)], of "skip_take_new t sub len" len] c(2,3)
    by (auto simp: skip_take_new_def)
  moreover have "sub = 0" if "offset = 0"
    using assms(2,3) seek_part_split [OF assms(2), of 0] that by (auto simp: multi_at_def)
  ultimately show ?thesis
    using byte_stream.read_full_content [OF c(1,2), of len] c(3) by auto
qed

theorem ec_range_read_witness:
  "\<exists>t'. read_full (skip_take_read (multi_read xor_decode vec_read mem_open (\<lambda>_. []))) 5
      (let (t, sub) = multi_at [None, Some [3, 4], Some [2, 6]] ''b'' ''k'' ''d'' [example_part 3] 4 2 2 1
         \<lparr>er_data_shards = 2, er_parity_shards = 1\<rparr> 1 in skip_take_new t sub 5)
    = (Ok [2, 3], t')"
proof -
  have obj: "ec_object vec_read (\<lambda>_. True) (\<lambda>buf. buf) (\<lambda>_. True) mem_open [None, Some [3, 4], Some [2, 6]]
      ''b'' ''k'' ''d'' [example_part 3] xor_decode 2 1 2 (\<lambda>_. [[[1, 2], [3, 4], [2, 6]]])"
  proof (rule written_object [OF vec_src.shard_source_axioms, where sz = 3])
    show "serves mem_open [None, Some [3, 4], Some [2, 6]] (\<lambda>_. True) (\<lambda>buf. buf) (\<lambda>_. True) 2 ''b''
        (part_path ''k'' ''d'' (example_part 3)) (map (\<lambda>i. shard_file i [[[1, 2], [3, 4], [2, 6]]]) [0..<2 + 1])"
      by (rule serves_mem) (auto simp: less_Suc_eq numeral_eq_Suc)
  qed (use example_stripe in \<open>simp_all add: stripes_of_def example_part_def as_u64_def\<close>)
  obtain t :: "(byte list option, vec_stream) multi_part_stream" and sub
    where at: "multi_at [None, Some [3, 4], Some [2, 6]] ''b'' ''k'' ''d'' [example_part 3] (2 * 2) 2 2 1
      \<lparr>er_data_shards = 2, er_parity_shards = 1\<rparr> 1 = (t, sub)" by fastforce
  show ?thesis
    using ec_range_read [OF obj _ at, of "\<lambda>_. []" 5] at
    by (simp add: example_part_def as_u64_def object_bytes_def)
qed

text \<open>
  What PUT writes, GET reads, despite lost drives. The stripe loop over a source with at least
  \<open>size\<close> bytes succeeds, reports the digest of exactly these bytes, and produces one shard file
  per drive; whenever these files are served by drives of which at least \<open>n\<close> are intact, any
  range of the part is read back exactly.
\<close>

theorem ec_write_then_read:
  assumes "rs_contract n m rs_encode rs_decode" "0 < n" "0 < unit" "even unit"
    and "byte_stream rd ok content" "ok s" "sz \<le> length (content s)" "sz < 2 ^ 63"
    and "shard_source rd2 ok2 content2 honest"
  shows "\<exists>files s'. encode_and_write_stripes rs_encode md5_hex rd vec_write
      \<lparr>er_data_shards = n, er_parity_shards = m\<rparr> sz (n * unit) (stripes_of sz (n * unit)) s (replicate (n + m) [])
      = (Ok (md5_hex (take sz (content s))), files, s') \<and> length files = n + m \<and>
    (\<forall>p backends offset len t sub. op_actual_size p = int sz \<and> offset < sz \<and>
       serves open_file backends ok2 content2 honest n bucket (part_path key data_dir p) files \<and>
       multi_at backends bucket key data_dir [p] (n * unit) unit n m
         \<lparr>er_data_shards = n, er_parity_shards = m\<rparr> offset = (t, sub) \<longrightarrow>
       (\<exists>t'. read_full (skip_take_read (multi_read rs_decode rd2 open_file print)) len (skip_take_new t sub len)
         = (Ok (take len (drop offset (take sz (content s)))), t')))"
proof -
  let ?d = "n * unit" and ?k = "stripes_of sz (n * unit)"
  have d: "sz \<le> ?k * ?d" using assms(2,3) by (intro length_body_bound) simp
  obtain ss s' where w: "write_stripes rs_encode md5_hex rd vec_write \<lparr>er_data_shards = n, er_parity_shards = m\<rparr>
      sz ?d ?k 0 [] [] s (replicate (n + m) [])
      = (Ok (md5_hex (take sz (content s))),
          map2 (\<lambda>sink i. sink @ shard_file i ss) (replicate (n + m) []) [0..<n + m], s')"
    "length ss = ?k" "\<forall>sh \<in> set ss. good_stripe rs_decode n m unit sh"
    "payload n ss = take sz (content s) @ replicate (?k * ?d - sz) 0"
    using write_stripes_content [OF assms(1-6), of "replicate (n + m) []" sz 0 "[]" md5_hex ?k "[]"] assms(7) d
    by (auto simp: min_absorb1)
  let ?files = "map (\<lambda>i. shard_file i ss) [0..<n + m]"
  have files: "map2 (\<lambda>sink i. sink @ shard_file i ss) (replicate (n + m) []) [0..<n + m] = ?files"
    by (rule nth_equalityI) simp_all
  have "\<exists>t'. read_full (skip_take_read (multi_read rs_decode rd2 open_file print)) len (skip_take_new t sub len)
         = (Ok (take len (drop offset (take sz (content s)))), t')"
    if h: "op_actual_size p = int sz" "offset < sz"
      "serves open_file backends ok2 content2 honest n bucket (part_path key data_dir p) ?files"
      "multi_at backends bucket key data_dir [p] ?d unit n m
         \<lparr>er_data_shards = n, er_parity_shards = m\<rparr> offset = (t, sub)" for p backends offset len t sub
  proof -
    have p: "as_u64 (op_actual_size p) = sz" using h(1) assms(8) by (simp add: as_u64_def)
    note obj = written_object [OF assms(9,2,3) w(3,2) p h(3)]
    obtain ok' content' where c: "byte_stream (multi_read rs_decode rd2 open_file print) ok' content'" "ok' t"
      "drop sub (content' t) = drop offset (object_bytes n (\<lambda>_. ss) [p])"
      using range_read [OF obj _ h(4), of print] p h(2) by auto
    have "object_bytes n (\<lambda>_. ss) [p] = take sz (content s)"
      using assms(7) by (simp add: object_bytes_def p w(4))
    then show ?thesis
      using byte_stream.read_full_content [OF skip_take_stream [OF c(1)], of "skip_take_new t sub len" len] c(2,3)
      by (auto simp: skip_take_new_def)
  qed
  moreover have "length ?files = n + m" by simp
  ultimately show ?thesis using w(1) unfolding encode_and_write_stripes_def files by blast
qed

theorem ec_write_then_read_witness:
  "\<exists>f0 f1 f2 s'. encode_and_write_stripes xor_encode (\<lambda>_. ''digest'') rope_read vec_write
      \<lparr>er_data_shards = 2, er_parity_shards = 1\<rparr> 5 4 2 [[1, 2, 3], [4, 5, 6]] [[], [], []]
      = (Ok ''digest'', [f0, f1, f2], s') \<and>
    (\<exists>t'. read_full (skip_take_read (multi_read xor_decode vec_read mem_open (\<lambda>_. []))) 2
      (let (t, sub) = multi_at [Some f0, None, Some f2] ''b'' ''k'' ''d'' [example_part 5] 4 2 2 1
         \<lparr>er_data_shards = 2, er_parity_shards = 1\<rparr> 3 in skip_take_new t sub 2)
    = (Ok [4, 5], t'))"
proof -
  let ?e = "\<lparr>er_data_shards = 2, er_parity_shards = 1\<rparr>"
  have k: "stripes_of 5 (2 * 2) = 2" "replicate (2 + 1) ([] :: byte list) = [[], [], []]"
    by (simp add: stripes_of_def) (simp add: numeral_eq_Suc)
  let ?src = "[[1, 2, 3], [4, 5, 6]] :: byte list list"
  have h: "(0::nat) < 2" "even (2::nat)" "[] \<notin> set ?src" "5 \<le> length (concat ?src)" "(5::nat) < 2 ^ 63" by simp_all
  obtain files s' where w: "encode_and_write_stripes xor_encode (\<lambda>_. ''digest'') rope_read vec_write ?e 5 (2 * 2)
      (stripes_of 5 (2 * 2)) ?src (replicate (2 + 1) []) = (Ok ''digest'', files, s')" "length files = 2 + 1"
    and read: "\<forall>p backends offset len t sub. op_actual_size p = int 5 \<and> offset < 5 \<and>
       serves mem_open backends (\<lambda>_. True) (\<lambda>buf. buf) (\<lambda>_. True) 2 ''b'' (part_path ''k'' ''d'' p) files \<and>
       multi_at backends ''b'' ''k'' ''d'' [p] (2 * 2) 2 2 1 ?e offset = (t, sub) \<longrightarrow>
       (\<exists>t'. read_full (skip_take_read (multi_read xor_decode vec_read mem_open (\<lambda>_. []))) len (skip_take_new t sub len)
         = (Ok (take len (drop offset (take 5 (concat ?src)))), t'))"
    using ec_write_then_read [OF xor_contract h(1,1,2) rope.byte_stream_axioms h(3,4,5) vec_src.shard_source_axioms,
        of "\<lambda>_. ''digest''" mem_open "''b''" "''k''" "''d''" "\<lambda>_. []"]
    by (elim exE conjE) (rule that)
  from w(2) obtain f0 f1 f2 where f: "files = [f0, f1, f2]" by (auto simp: length_Suc_conv numeral_eq_Suc)
  obtain t :: "(byte list option, vec_stream) multi_part_stream" and sub
    where at: "multi_at [Some f0, None, Some f2] ''b'' ''k'' ''d'' [example_part 5] (2 * 2) 2 2 1 ?e 3
      = (t, sub)" by fastforce
  have "serves mem_open [Some f0, None, Some f2] (\<lambda>_. True) (\<lambda>buf. buf) (\<lambda>_. True) 2 ''b''
      (part_path ''k'' ''d'' (example_part 5)) files"
    by (rule serves_mem) (auto simp: f less_Suc_eq numeral_eq_Suc)
  with read [rule_format, of "example_part 5" 3 "[Some f0, None, Some f2]" t sub 2] at w(1) show ?thesis
    unfolding f k by (intro exI [of _ f0] exI [of _ f1] exI [of _ f2] exI [of _ s']) (simp add: example_part_def)
qed

text \<open>
  A body that is shorter than announced is refused. When the source ends before \<open>size\<close>
  bytes, the stripe loop fails with an unexpected-end error that names how many bytes had
  arrived; no result with a digest is produced.
\<close>

theorem ec_write_short_body:
  assumes "rs_contract n m rs_encode rs_decode" "0 < n" "0 < unit" "even unit"
    and "byte_stream rd ok content" "ok s" "length (content s) < sz" "length sinks = n + m"
  shows "\<exists>ks s'. encode_and_write_stripes rs_encode md5_hex rd vec_write
      \<lparr>er_data_shards = n, er_parity_shards = m\<rparr> sz (n * unit) (stripes_of sz (n * unit)) s sinks
      = (Err (Io UnexpectedEof (''EC put: source ended at '' @ show_nat (length (content s)) @ ''/'' @ show_nat sz)), ks, s')"
proof -
  have "sz \<le> stripes_of sz (n * unit) * (n * unit)" using assms(2,3) by (intro length_body_bound) simp
  with write_stripes_eof [OF assms(1-6,8), of "[]" sz 0 _ md5_hex "[]"] assms(7) show ?thesis
    unfolding encode_and_write_stripes_def by simp
qed

theorem ec_write_short_body_witness:
  "\<exists>ks s'. encode_and_write_stripes xor_encode (\<lambda>_. ''digest'') rope_read vec_write
      \<lparr>er_data_shards = 2, er_parity_shards = 1\<rparr> 9 4 3 [[1, 2, 3], [4, 5, 6]] [[], [], []]
      = (Err (Io UnexpectedEof ''EC put: source ended at 6/9''), ks, s')"
proof -
  have "show_nat (Suc (Suc (Suc (Suc (Suc (Suc 0)))))) = ''6''" "show_nat 9 = ''9''" by code_simp+
  with ec_write_short_body [OF xor_contract _ _ _ rope.byte_stream_axioms,
      of 2 "[[1, 2, 3], [4, 5, 6]]" 9 "[[], [], []]" "\<lambda>_. ''digest''"]
  show ?thesis by (simp add: stripes_of_def)
qed

end
