(* ===== verification/Local_Fs.thy ===== *)
theory Local_Fs
  imports Posix_Fs Xl_Meta Ec_Stream
begin

text \<open>
  One drive, \<^verbatim>\<open>crates/openlake_io/src/local_fs.rs\<close>: every operation of the storage trait as an action
  on the file system of \<open>Posix_Fs\<close>, call by call and with the source's error mapping. The body codec
  and the checksum of \<^verbatim>\<open>xl.meta\<close> are the fields of \<open>meta_codec\<close>.

  Not modelled are the cache of open handles with the two chunk operations of the RDMA path, the
  age-based scrub of the staging area and \<open>disk_info\<close>, which reads the counters of the mounted file
  system. The background purge of the trash is not visible to any operation.
\<close>

subsection \<open>Paths\<close>

definition META_FILENAME :: string where
  "META_FILENAME = ''xl.meta''"

definition FORMAT_FILENAME :: string where
  "FORMAT_FILENAME = ''.openlake.format.json''"

definition META_BACKUP_FILENAME :: string where
  "META_BACKUP_FILENAME = ''xl.meta.bkp''"

definition TRASH_DIRNAME :: string where
  "TRASH_DIRNAME = ''.openlake.trash''"

definition STAGING_VOL :: string where
  "STAGING_VOL = ''.openlake.staging''"

definition MULTIPART_VOL :: string where
  "MULTIPART_VOL = ''.openlake.multipart''"

definition SYSTEM_BUCKET :: string where
  "SYSTEM_BUCKET = ''.openlake.sys''"

definition is_system_vol :: "string \<Rightarrow> bool" where
  "is_system_vol volume = (volume = STAGING_VOL \<or> volume = MULTIPART_VOL \<or> volume = SYSTEM_BUCKET)"

fun split_on :: "char \<Rightarrow> string \<Rightarrow> string \<Rightarrow> string list" where
  "split_on c acc [] = [rev acc]"
| "split_on c acc (x # xs) = (if x = c then rev acc # split_on c [] xs else split_on c (x # acc) xs)"

definition segs :: "string \<Rightarrow> string list" where
  "segs s = filter (\<lambda>x. x \<noteq> []) (split_on CHR ''/'' [] s)"

definition vol_path :: "string \<Rightarrow> fs_path" where
  "vol_path volume = segs volume"

definition file_path :: "string \<Rightarrow> string \<Rightarrow> fs_path" where
  "file_path volume path = vol_path volume @ segs path"

definition meta_path :: "string \<Rightarrow> string \<Rightarrow> fs_path" where
  "meta_path volume path = file_path volume path @ [META_FILENAME]"

subsection \<open>Helpers\<close>

record meta_codec =
  mc_to_vec :: "on_disk_meta \<Rightarrow> (byte list, string) result"
  mc_from_slice :: "byte list \<Rightarrow> (on_disk_meta, string) result"
  mc_xxh64 :: "byte list \<Rightarrow> 64 word"

definition local_fs_new :: "(unit, os_error) act" where
  "local_fs_new =
     then_do (fs_create_dir_all []) (\<lambda>_.
     then_do (fs_create_dir_all [TRASH_DIRNAME]) (\<lambda>_.
     then_do (fs_create_dir_all [STAGING_VOL]) (\<lambda>_.
     then_do (fs_create_dir_all [MULTIPART_VOL]) (\<lambda>_.
       fs_create_dir_all [SYSTEM_BUCKET]))))"

definition require_vol :: "string \<Rightarrow> (unit, io_error) act" where
  "require_vol volume =
     (if is_system_vol volume then io_do (fs_create_dir_all (vol_path volume))
      else try_do (fs_stat (vol_path volume)) (\<lambda>r. case r of
             Inr Dir \<Rightarrow> ret ()
           | Inr (File _) \<Rightarrow> raise (VolumeNotFound volume)
           | Inl e \<Rightarrow> if os_kind e = NotFound then raise (VolumeNotFound volume) else raise (io_of e)))"

definition move_to_trash :: "fs_path \<Rightarrow> (unit, os_error) act" where
  "move_to_trash target d = fs_rename target [TRASH_DIRNAME, fresh_name d] d"

definition map_open_err :: "string \<Rightarrow> string \<Rightarrow> os_error \<Rightarrow> io_error" where
  "map_open_err volume path e =
     (case os_kind e of
        NotFound \<Rightarrow> FileNotFound volume path
      | AlreadyExists \<Rightarrow> FileAlreadyExists volume path
      | _ \<Rightarrow> io_of e)"

text \<open>Only a missing file has its own error.\<close>

definition missing_or_io :: "string \<Rightarrow> string \<Rightarrow> os_error \<Rightarrow> io_error" where
  "missing_or_io volume path e = (if os_kind e = NotFound then FileNotFound volume path else io_of e)"

definition fsync_dir :: "fs_path \<Rightarrow> (unit, io_error) act" where
  "fsync_dir dir = io_do (then_do (fs_stat dir) (\<lambda>_. then_do fs_sync (\<lambda>_. fs_sync)))"

definition write_new_file :: "(fs_path \<Rightarrow> (unit, os_error) act) \<Rightarrow> fs_path \<Rightarrow> byte list \<Rightarrow> (unit, os_error) act" where
  "write_new_file open_file p bs =
     then_do (open_file p) (\<lambda>_.
     then_do (fs_pwrite p 0 bs) (\<lambda>_.
     then_do fs_sync (\<lambda>_. fs_sync)))"

text \<open>Writing next to the final name and renaming over it; the final path lies below the drive root.\<close>

definition tmp_name :: "string \<Rightarrow> string \<Rightarrow> string" where
  "tmp_name fname u = ''.'' @ fname @ ''.'' @ u @ ''.tmp''"

definition atomic_write_bytes :: "fs_path \<Rightarrow> byte list \<Rightarrow> (unit, io_error) act" where
  "atomic_write_bytes final_path bs d =
     (let parent = butlast final_path;
          tmp_path = parent @ [tmp_name (last final_path) (fresh_name d)] in
      try_do (then_do (io_do (write_new_file fs_open_new tmp_path bs)) (\<lambda>_.
              then_do (io_do (fs_rename tmp_path final_path)) (\<lambda>_.
                fsync_dir parent)))
        (\<lambda>r. case r of
           Inr _ \<Rightarrow> ret ()
         | Inl e \<Rightarrow> try_do (fs_unlink tmp_path) (\<lambda>_. raise e)) d)"

text \<open>Head and tail are written as one vectored write.\<close>

definition xl_meta_vectored :: "encoded_xl_meta \<Rightarrow> byte list" where
  "xl_meta_vectored encoded = (if ex_tail encoded = [] then ex_head encoded else concat (ex_head encoded # ex_tail encoded))"

subsection \<open>Open files\<close>

text \<open>
  An open file keeps its content. The kernel may return fewer bytes than asked, at least one, and
  may fail; \<open>lfs_grant\<close> and \<open>lfs_fault\<close> say so for each position.
\<close>

definition STREAM_CHUNK_BYTES :: nat where
  "STREAM_CHUNK_BYTES = 4 * 1024 * 1024"

record local_file_stream =
  lfs_file :: "byte list"
  lfs_pos :: nat
  lfs_end :: nat
  lfs_grant :: "nat \<Rightarrow> nat"
  lfs_fault :: "nat \<Rightarrow> string option"

definition local_read :: "local_file_stream reader" where
  "local_read s =
     (let want = min (lfs_end s - lfs_pos s) STREAM_CHUNK_BYTES in
      if want = 0 then (Ok [], s)
      else case lfs_fault s (lfs_pos s) of
             Some m \<Rightarrow> (Err (io_of (EIO m)), s)
           | None \<Rightarrow>
               (let buf = take (min want (max 1 (lfs_grant s (lfs_pos s)))) (drop (lfs_pos s) (lfs_file s)) in
                (Ok buf, s\<lparr>lfs_pos := lfs_pos s + length buf\<rparr>)))"

record local_file_sink =
  lk_file :: "fs_path option"
  lk_pos :: nat
  lk_expected :: nat
  lk_written :: nat

definition local_write_all :: "byte list \<Rightarrow> local_file_sink \<Rightarrow> disk \<Rightarrow> (unit, io_error) result \<times> local_file_sink \<times> disk" where
  "local_write_all buf s d =
     (if buf = [] then (Ok (), s, d)
      else case lk_file s of
             None \<Rightarrow> (Err (Io OtherKind ''write after finish''), s, d)
           | Some p \<Rightarrow>
               (case io_do (fs_pwrite p (lk_pos s) buf) d of
                  (Inl e, d1) \<Rightarrow> (Err e, s, d1)
                | (Inr _, d1) \<Rightarrow>
                    (Ok (), s\<lparr>lk_pos := lk_pos s + length buf, lk_written := lk_written s + length buf\<rparr>, d1)))"

definition local_finish :: "local_file_sink \<Rightarrow> disk \<Rightarrow> (unit, io_error) result \<times> local_file_sink \<times> disk" where
  "local_finish s d =
     (if lk_written s \<noteq> lk_expected s
      then (Err (Io UnexpectedEof (''create_file_writer: wrote '' @ show_nat (lk_written s) @ ''/'' @ show_nat (lk_expected s))), s, d)
      else case lk_file s of
             None \<Rightarrow> (Ok (), s, d)
           | Some _ \<Rightarrow>
               (case io_do (then_do fs_sync (\<lambda>_. fs_sync)) d of
                  (r, d1) \<Rightarrow> (r, s\<lparr>lk_file := None\<rparr>, d1)))"

subsection \<open>Volumes\<close>

fun debug_char :: "char \<Rightarrow> string" where
  "debug_char c =
     (if c = CHR 0x22 then [CHR 0x5c, CHR 0x22]
      else if c = CHR 0x5c then [CHR 0x5c, CHR 0x5c]
      else if c = CHR 0x0a then [CHR 0x5c, CHR ''n'']
      else if c = CHR 0x0d then [CHR 0x5c, CHR ''r'']
      else if c = CHR 0x09 then [CHR 0x5c, CHR ''t'']
      else if c = CHR 0x00 then [CHR 0x5c, CHR ''0'']
      else [c])"

definition debug_str :: "string \<Rightarrow> string" where
  "debug_str s = [CHR 0x22] @ concat (map debug_char s) @ [CHR 0x22]"

definition make_vol :: "string \<Rightarrow> (unit, io_error) act" where
  "make_vol volume =
     (if volume = [] \<or> CHR ''/'' \<in> set volume \<or> CHR 0x00 \<in> set volume
      then raise (InvalidArgument (''volume '' @ debug_str volume))
      else try_do (fs_mkdir (vol_path volume)) (\<lambda>r. case r of
             Inr _ \<Rightarrow> ret ()
           | Inl e \<Rightarrow> if os_kind e = AlreadyExists then raise (VolumeExists volume) else raise (io_of e)))"

fun list_vols_loop :: "string list \<Rightarrow> string list \<Rightarrow> (string list, io_error) act" where
  "list_vols_loop out [] = ret out"
| "list_vols_loop out (name # names) =
     (if prefix ''.'' name then list_vols_loop out names
      else then_do (io_do (fs_stat [name])) (\<lambda>n.
             list_vols_loop (if n = Dir then out @ [name] else out) names))"

definition list_vols :: "(string list, io_error) act" where
  "list_vols =
     try_do (fs_read_dir []) (\<lambda>r. case r of
       Inr names \<Rightarrow> list_vols_loop [] names
     | Inl e \<Rightarrow> if os_kind e = NotFound then ret [] else raise (io_of e))"

definition stat_vol :: "string \<Rightarrow> (string, io_error) act" where
  "stat_vol volume =
     try_do (fs_stat (vol_path volume)) (\<lambda>r. case r of
       Inr Dir \<Rightarrow> ret volume
     | _ \<Rightarrow> raise (VolumeNotFound volume))"

definition delete_vol :: "string \<Rightarrow> bool \<Rightarrow> (unit, io_error) act" where
  "delete_vol volume force_delete =
     (if force_delete
      then try_do (move_to_trash (vol_path volume)) (\<lambda>r. case r of
             Inr _ \<Rightarrow> ret ()
           | Inl e \<Rightarrow> if os_kind e = NotFound then raise (VolumeNotFound volume) else raise (io_of e))
      else try_do (fs_rmdir (vol_path volume)) (\<lambda>r. case r of
             Inr _ \<Rightarrow> ret ()
           | Inl e \<Rightarrow> if os_kind e = NotFound then raise (VolumeNotFound volume)
                       else if e = ENOTEMPTY then raise (VolumeNotEmpty volume)
                       else raise (io_of e)))"

subsection \<open>Files\<close>

definition list_dir :: "string \<Rightarrow> string \<Rightarrow> nat \<Rightarrow> (string list, io_error) act" where
  "list_dir volume dir_path n =
     then_do (require_vol volume) (\<lambda>_.
     try_do (fs_read_dir (file_path volume dir_path)) (\<lambda>r. case r of
       Inr names \<Rightarrow> ret (if n = 0 then names else take n names)
     | Inl e \<Rightarrow> if os_kind e = NotFound then ret [] else raise (io_of e)))"

definition read_file_stream :: "(nat \<Rightarrow> nat) \<Rightarrow> (nat \<Rightarrow> string option) \<Rightarrow> string \<Rightarrow> string \<Rightarrow> nat \<Rightarrow> nat
    \<Rightarrow> (local_file_stream, io_error) act" where
  "read_file_stream grant fault volume path offset len =
     then_do (require_vol volume) (\<lambda>_.
     then_do (map_err_do (map_open_err volume path) (fs_read (file_path volume path))) (\<lambda>bs.
       ret \<lparr>lfs_file = bs, lfs_pos = offset, lfs_end = offset + len, lfs_grant = grant, lfs_fault = fault\<rparr>))"

definition create_file_writer :: "string \<Rightarrow> string \<Rightarrow> nat \<Rightarrow> (local_file_sink, io_error) act" where
  "create_file_writer volume path sz =
     then_do (require_vol volume) (\<lambda>_.
     let p = file_path volume path in
     then_do (io_do (fs_create_dir_all (butlast p))) (\<lambda>_.
     then_do (map_err_do (map_open_err volume path) (fs_open_trunc p)) (\<lambda>_.
       ret \<lparr>lk_file = Some p, lk_pos = 0, lk_expected = sz, lk_written = 0\<rparr>)))"

definition rename_file :: "string \<Rightarrow> string \<Rightarrow> string \<Rightarrow> string \<Rightarrow> (unit, io_error) act" where
  "rename_file src_volume src_path dst_volume dst_path =
     then_do (require_vol src_volume) (\<lambda>_.
     then_do (require_vol dst_volume) (\<lambda>_.
     let src = file_path src_volume src_path; dst = file_path dst_volume dst_path in
     then_do (io_do (fs_create_dir_all (butlast dst))) (\<lambda>_.
       map_err_do (missing_or_io src_volume src_path) (fs_rename src dst))))"

definition check_file :: "string \<Rightarrow> string \<Rightarrow> (unit, io_error) act" where
  "check_file volume path =
     then_do (require_vol volume) (\<lambda>_.
     then_do (map_err_do (missing_or_io volume path) (fs_stat (file_path volume path))) (\<lambda>_. ret ()))"

definition verify_file :: "string \<Rightarrow> string \<Rightarrow> (unit, io_error) act" where
  "verify_file volume path = check_file volume path"

definition delete_path :: "string \<Rightarrow> string \<Rightarrow> bool \<Rightarrow> (unit, io_error) act" where
  "delete_path volume path recursive =
     then_do (require_vol volume) (\<lambda>_.
     let p = file_path volume path in
     then_do (map_err_do (missing_or_io volume path) (fs_stat p)) (\<lambda>n.
       case n of
         Dir \<Rightarrow> if recursive then io_do (move_to_trash p) else io_do (fs_rmdir p)
       | File _ \<Rightarrow> io_do (fs_unlink p)))"

definition write_file :: "string \<Rightarrow> string \<Rightarrow> byte list \<Rightarrow> (unit, io_error) act" where
  "write_file volume path bs =
     then_do (require_vol volume) (\<lambda>_.
     let final_path = file_path volume path in
     then_do (io_do (fs_create_dir_all (butlast final_path))) (\<lambda>_.
       atomic_write_bytes final_path bs))"

definition read_file :: "string \<Rightarrow> string \<Rightarrow> (byte list option, io_error) act" where
  "read_file volume path =
     then_do (require_vol volume) (\<lambda>_.
     try_do (fs_read (file_path volume path)) (\<lambda>r. case r of
       Inr bs \<Rightarrow> ret (Some bs)
     | Inl e \<Rightarrow> if os_kind e = NotFound then ret None else raise (io_of e)))"

definition make_dir_all :: "string \<Rightarrow> string \<Rightarrow> (unit, io_error) act" where
  "make_dir_all volume path =
     then_do (require_vol volume) (\<lambda>_. io_do (fs_create_dir_all (file_path volume path)))"

definition read_format_file :: "(byte list \<Rightarrow> (format_json, string) result) \<Rightarrow> (format_json option, io_error) act" where
  "read_format_file json_from_slice =
     try_do (fs_read [FORMAT_FILENAME]) (\<lambda>r. case r of
       Inr bs \<Rightarrow> of_result (and_then (map_err (\<lambda>e. Decode (''format.json: '' @ e)) (json_from_slice bs)) (\<lambda>f. Ok (Some f)))
     | Inl e \<Rightarrow> if os_kind e = NotFound then ret None else raise (io_of e))"

definition write_format_file :: "(format_json \<Rightarrow> (byte list, string) result) \<Rightarrow> format_json \<Rightarrow> (unit, io_error) act" where
  "write_format_file json_to_vec fmt =
     then_do (of_result (map_err (\<lambda>e. Encode (''format.json: '' @ e)) (json_to_vec fmt))) (\<lambda>bs.
       atomic_write_bytes [FORMAT_FILENAME] bs)"

subsection \<open>Object metadata\<close>

text \<open>Encoding may panic; then the process dies before any call is made.\<close>

definition write_metadata :: "meta_codec \<Rightarrow> string \<Rightarrow> string \<Rightarrow> file_info \<Rightarrow> disk
    \<Rightarrow> ((unit, io_error) result \<times> disk) option" where
  "write_metadata mc volume path fi d =
     (let dir = file_path volume path in
      case then_do (require_vol volume) (\<lambda>_. io_do (fs_create_dir_all dir)) d of
        (Inl e, d1) \<Rightarrow> Some (Err e, d1)
      | (Inr _, d1) \<Rightarrow>
          map_option (\<lambda>encoded.
              then_do (of_result encoded) (\<lambda>enc. atomic_write_bytes (dir @ [META_FILENAME]) (xl_meta_vectored enc)) d1)
            (xl_encode (mc_to_vec mc) (mc_xxh64 mc) fi))"

definition update_metadata :: "meta_codec \<Rightarrow> string \<Rightarrow> string \<Rightarrow> file_info \<Rightarrow> disk
    \<Rightarrow> ((unit, io_error) result \<times> disk) option" where
  "update_metadata mc volume path fi = write_metadata mc volume path fi"

definition locate_err :: "string \<Rightarrow> string \<Rightarrow> io_error \<Rightarrow> io_error" where
  "locate_err volume path e = (case e of CorruptMetadata _ _ msg \<Rightarrow> CorruptMetadata volume path msg | other \<Rightarrow> other)"

text \<open>The errors of \<open>find_version\<close> are returned before the mapping that fills in the location.\<close>

definition pick_version :: "meta_codec \<Rightarrow> string \<Rightarrow> string \<Rightarrow> string option \<Rightarrow> byte list \<Rightarrow> (decoded_record, io_error) result" where
  "pick_version mc volume path version_id bs =
     (case version_id of
        None \<Rightarrow> map_err (locate_err volume path) (xl_decode (mc_from_slice mc) (mc_xxh64 mc) bs)
      | Some i \<Rightarrow>
          and_then (find_version (mc_from_slice mc) (mc_xxh64 mc) bs i) (ok_or (FileVersionNotFound volume path i)))"

definition read_version :: "meta_codec \<Rightarrow> string \<Rightarrow> string \<Rightarrow> string option \<Rightarrow> bool \<Rightarrow> (file_info, io_error) act" where
  "read_version mc volume path version_id read_data =
     then_do (require_vol volume) (\<lambda>_.
     then_do (map_err_do (missing_or_io volume path) (fs_read (meta_path volume path))) (\<lambda>bs.
     then_do (of_result (pick_version mc volume path version_id bs)) (\<lambda>rec.
       let fi = file_info_from_record rec volume path in
       ret (if read_data then fi else fi\<lparr>fi_data := None\<rparr>))))"

subsection \<open>Deleting objects\<close>

fun trash_data_dirs :: "fs_path \<Rightarrow> decoded_record list \<Rightarrow> (unit, io_error) act" where
  "trash_data_dirs object_dir [] = ret ()"
| "trash_data_dirs object_dir (rec # recs) =
     (if dr_data_dir rec = [] then trash_data_dirs object_dir recs
      else try_do (move_to_trash (object_dir @ segs (dr_data_dir rec))) (\<lambda>_. trash_data_dirs object_dir recs))"

function prune_dirs :: "fs_path \<Rightarrow> fs_path \<Rightarrow> (unit, io_error) act" where
  "prune_dirs vol_root cur =
     (if prefix vol_root cur \<and> cur \<noteq> vol_root
      then try_do (fs_rmdir cur) (\<lambda>r. case r of
             Inl _ \<Rightarrow> ret ()
           | Inr _ \<Rightarrow> prune_dirs vol_root (butlast cur))
      else ret ())"
  by pat_completeness auto

termination
proof (relation "measure (\<lambda>(vol_root, cur). length cur)", goal_cases)
  case (2 vol_root cur)
  then have "cur \<noteq> []" by auto
  then show ?case by simp
qed simp

declare prune_dirs.simps [simp del]

definition delete_object_scoped :: "meta_codec \<Rightarrow> string \<Rightarrow> string \<Rightarrow> (unit, io_error) act" where
  "delete_object_scoped mc volume path =
     then_do (require_vol volume) (\<lambda>_.
     let object_dir = file_path volume path; meta = object_dir @ [META_FILENAME] in
     then_do (map_err_do (missing_or_io volume path) (fs_read meta)) (\<lambda>raw.
     then_do (case decode_all (mc_from_slice mc) (mc_xxh64 mc) raw of
                Inr records \<Rightarrow> trash_data_dirs object_dir records
              | Inl _ \<Rightarrow> ret ()) (\<lambda>_.
     then_do (io_do (fs_unlink meta)) (\<lambda>_.
     try_do (fs_unlink (object_dir @ [META_BACKUP_FILENAME])) (\<lambda>_.
       prune_dirs (vol_path volume) object_dir)))))"

text \<open>The deletes of a batch run concurrently; here one after the other, in order.\<close>

fun delete_each :: "meta_codec \<Rightarrow> string \<Rightarrow> string list \<Rightarrow> disk \<Rightarrow> (unit, io_error) result list \<times> disk" where
  "delete_each mc volume [] d = ([], d)"
| "delete_each mc volume (p # ps) d =
     (let (r, d1) = delete_object_scoped mc volume p d; (rs, d2) = delete_each mc volume ps d1 in (r # rs, d2))"

definition delete_batch :: "meta_codec \<Rightarrow> string \<Rightarrow> string list \<Rightarrow> ((unit, io_error) result list, io_error) act" where
  "delete_batch mc volume paths =
     then_do (require_vol volume) (\<lambda>_ d. let (rs, d1) = delete_each mc volume paths d in (Ok rs, d1))"

definition delete_version :: "meta_codec \<Rightarrow> string \<Rightarrow> string \<Rightarrow> file_info \<Rightarrow> delete_options \<Rightarrow> (unit, io_error) act" where
  "delete_version mc volume path fi opts =
     (if \<not> do_undo_write opts then delete_object_scoped mc volume path
      else let object_dir = file_path volume path;
               bkp_path = object_dir @ [META_BACKUP_FILENAME];
               live_meta = object_dir @ [META_FILENAME] in
        try_do (fs_rename bkp_path live_meta) (\<lambda>r. case r of
          Inl e \<Rightarrow> if os_kind e = NotFound then delete_path volume path True else raise (io_of e)
        | Inr _ \<Rightarrow>
            then_do (fsync_dir object_dir) (\<lambda>_.
              if fi_data_dir fi = [] then ret ()
              else try_do (move_to_trash (object_dir @ segs (fi_data_dir fi))) (\<lambda>_. ret ()))))"

subsection \<open>Promoting a staged version\<close>

definition live_versions :: "meta_codec \<Rightarrow> string \<Rightarrow> string \<Rightarrow> (byte list option \<times> decoded_record list, io_error) act" where
  "live_versions mc dst_volume dst_path =
     try_do (fs_read (meta_path dst_volume dst_path)) (\<lambda>r. case r of
       Inr raw \<Rightarrow>
         of_result (and_then (map_err (locate_err dst_volume dst_path) (decode_all (mc_from_slice mc) (mc_xxh64 mc) raw))
           (\<lambda>all. Ok (Some raw, all)))
     | Inl e \<Rightarrow> if os_kind e = NotFound then ret (None, []) else raise (io_of e))"

definition old_data_dir_of :: "file_info \<Rightarrow> decoded_record list \<Rightarrow> string option" where
  "old_data_dir_of fi existing =
     (case find (\<lambda>r. dr_version_id r = fi_version_id fi) existing of
        None \<Rightarrow> None
      | Some r \<Rightarrow> if dr_data_dir r \<noteq> [] \<and> dr_data_dir r \<noteq> fi_data_dir fi then Some (dr_data_dir r) else None)"

definition merge_versions :: "string \<Rightarrow> string \<Rightarrow> file_info \<Rightarrow> decoded_record list \<Rightarrow> file_info list" where
  "merge_versions dst_volume dst_path fi existing =
     sort_key (\<lambda>v. - int (fi_mod_time_ms v))
       (map (\<lambda>rec. file_info_from_record rec dst_volume dst_path)
            (filter (\<lambda>rec. dr_version_id rec \<noteq> fi_version_id fi) existing) @ [fi])"

text \<open>From the encoded metadata on: staging, moving the data directory, backup, commit.\<close>

definition stage_meta :: "fs_path \<Rightarrow> byte list \<Rightarrow> (unit, io_error) act" where
  "stage_meta staged_object_dir bs =
     then_do (io_do (fs_create_dir_all staged_object_dir)) (\<lambda>_.
       io_do (write_new_file fs_open_trunc (staged_object_dir @ [META_FILENAME]) bs))"

definition graft_data_dir :: "fs_path \<Rightarrow> fs_path \<Rightarrow> string \<Rightarrow> (unit, io_error) act" where
  "graft_data_dir staged_object_dir dst_object_dir data_dir =
     (let src_data_dir = staged_object_dir @ segs data_dir in
      if data_dir = [] then ret ()
      else try_do (fs_stat src_data_dir) (\<lambda>r. case r of
             Inr Dir \<Rightarrow>
               then_do (io_do (fs_create_dir_all dst_object_dir)) (\<lambda>_.
                 io_do (fs_rename src_data_dir (dst_object_dir @ segs data_dir)))
           | _ \<Rightarrow> ret ()))"

definition write_backup :: "fs_path \<Rightarrow> byte list \<Rightarrow> (unit, io_error) act" where
  "write_backup dst_object_dir raw =
     then_do (io_do (fs_create_dir_all dst_object_dir)) (\<lambda>_.
       io_do (write_new_file fs_open_trunc (dst_object_dir @ [META_BACKUP_FILENAME]) raw))"

definition commit_meta :: "fs_path \<Rightarrow> fs_path \<Rightarrow> (unit, io_error) act" where
  "commit_meta staged_object_dir dst_object_dir =
     then_do (io_do (fs_create_dir_all dst_object_dir)) (\<lambda>_.
     then_do (io_do (fs_rename (staged_object_dir @ [META_FILENAME]) (dst_object_dir @ [META_FILENAME]))) (\<lambda>_.
     then_do (fsync_dir dst_object_dir) (\<lambda>_.
       try_do (fs_rmdir staged_object_dir) (\<lambda>_. ret ()))))"

definition promote_staged :: "fs_path \<Rightarrow> fs_path \<Rightarrow> string \<Rightarrow> byte list option \<Rightarrow> byte list \<Rightarrow> (unit, io_error) act" where
  "promote_staged staged_object_dir dst_object_dir data_dir backup bs =
     then_do (stage_meta staged_object_dir bs) (\<lambda>_.
     then_do (graft_data_dir staged_object_dir dst_object_dir data_dir) (\<lambda>_.
     then_do (case backup of Some raw \<Rightarrow> write_backup dst_object_dir raw | None \<Rightarrow> ret ()) (\<lambda>_.
       commit_meta staged_object_dir dst_object_dir)))"

definition rename_data :: "meta_codec \<Rightarrow> string \<Rightarrow> string \<Rightarrow> file_info \<Rightarrow> string \<Rightarrow> string \<Rightarrow> disk
    \<Rightarrow> ((rename_data_resp, io_error) result \<times> disk) option" where
  "rename_data mc src_volume src_path fi dst_volume dst_path d =
     (if \<not> is_system_vol src_volume
      then Some (Err (InvalidArgument (''rename_data: src_volume must be a system volume (got '' @ src_volume @ '')'')), d)
      else case then_do (require_vol dst_volume) (\<lambda>_. live_versions mc dst_volume dst_path) d of
        (Inl e, d1) \<Rightarrow> Some (Err e, d1)
      | (Inr (pre_raw, existing), d1) \<Rightarrow>
          map_option (\<lambda>encoded.
              then_do (of_result encoded) (\<lambda>enc.
              then_do (promote_staged (file_path src_volume src_path) (file_path dst_volume dst_path) (fi_data_dir fi)
                         (if list_ex (\<lambda>r. dr_version_id r = fi_version_id fi) existing then pre_raw else None)
                         (xl_meta_vectored enc)) (\<lambda>_.
                ret \<lparr>rd_sign = [], rd_old_data_dir = (case old_data_dir_of fi existing of None \<Rightarrow> [] | Some s \<Rightarrow> s)\<rparr>)) d1)
            (encode_versions (mc_to_vec mc) (mc_xxh64 mc) (merge_versions dst_volume dst_path fi existing)))"

subsection \<open>Walking a volume\<close>

definition child_path :: "string \<Rightarrow> string \<Rightarrow> string" where
  "child_path dir name = (if dir = [] then name else dir @ ''/'' @ name)"

definition walk_skip :: "string \<Rightarrow> string option \<Rightarrow> string \<Rightarrow> bool" where
  "walk_skip prefix_filter start_after child =
     ((case start_after of
         None \<Rightarrow> False
       | Some after \<Rightarrow> child < after \<and> \<not> prefix (child @ ''/'') after \<and> after \<noteq> child) \<or>
      (prefix_filter \<noteq> [] \<and> \<not> prefix prefix_filter child \<and> \<not> prefix (child @ ''/'') prefix_filter))"

definition walk_emits :: "string \<Rightarrow> string option \<Rightarrow> file_info \<Rightarrow> bool" where
  "walk_emits prefix_filter start_after fi =
     ((prefix_filter = [] \<or> prefix prefix_filter (fi_name fi)) \<and>
      (case start_after of None \<Rightarrow> True | Some after \<Rightarrow> \<not> fi_name fi \<le> after))"

definition walk_full :: "nat option \<Rightarrow> 'a list \<Rightarrow> bool" where
  "walk_full max_keys out = (case max_keys of None \<Rightarrow> False | Some n \<Rightarrow> n \<le> length out)"

text \<open>
  The loop over the entries of a directory; \<open>descend\<close> is the walk of a child directory. The result
  carries the keys that were found before an error.
\<close>

type_synonym walk_out = "(string \<times> file_info) list"

fun walk_entries :: "meta_codec \<Rightarrow> string \<Rightarrow> string \<Rightarrow> bool \<Rightarrow> string option \<Rightarrow> nat option
    \<Rightarrow> (string \<Rightarrow> walk_out \<Rightarrow> (walk_out, io_error) act) \<Rightarrow> string \<Rightarrow> string list \<Rightarrow> walk_out \<Rightarrow> (walk_out, io_error) act" where
  "walk_entries mc volume prefix_filter recursive start_after max_keys descend dir [] out = ret out"
| "walk_entries mc volume prefix_filter recursive start_after max_keys descend dir (name # names) out =
     (let child = child_path dir name;
          continue = walk_entries mc volume prefix_filter recursive start_after max_keys descend dir names in
      if walk_full max_keys out then ret out
      else if walk_skip prefix_filter start_after child then continue out
      else try_do (read_version mc volume child None False) (\<lambda>r. case r of
             Inr fi \<Rightarrow> continue (if walk_emits prefix_filter start_after fi then out @ [(fi_name fi, fi)] else out)
           | Inl (FileNotFound _ _) \<Rightarrow> if recursive then then_do (descend child out) continue else continue out
           | Inl _ \<Rightarrow> continue out))"

primrec walk_dir_inner :: "nat \<Rightarrow> meta_codec \<Rightarrow> string \<Rightarrow> string \<Rightarrow> bool \<Rightarrow> string option \<Rightarrow> nat option
    \<Rightarrow> string \<Rightarrow> walk_out \<Rightarrow> (walk_out, io_error) act" where
  "walk_dir_inner 0 mc volume prefix_filter recursive start_after max_keys dir out = ret out"
| "walk_dir_inner (Suc fuel) mc volume prefix_filter recursive start_after max_keys dir out =
     (if walk_full max_keys out then ret out
      else then_do (list_dir volume dir 0) (\<lambda>entries.
             walk_entries mc volume prefix_filter recursive start_after max_keys
               (walk_dir_inner fuel mc volume prefix_filter recursive start_after max_keys) dir (sort entries) out))"

definition tree_depth :: "tree \<Rightarrow> nat" where
  "tree_depth t = fold max (map (length \<circ> fst) t) 0"

definition walk_dir :: "meta_codec \<Rightarrow> string \<Rightarrow> string \<Rightarrow> bool \<Rightarrow> string \<Rightarrow> string option \<Rightarrow> nat option
    \<Rightarrow> (walk_out, io_error) act" where
  "walk_dir mc volume base_dir recursive prefix_filter start_after max_keys d =
     then_do (require_vol volume) (\<lambda>_.
       walk_dir_inner (tree_depth (dk_tree d) + 2) mc volume prefix_filter recursive start_after max_keys base_dir []) d"

end
