(* ===== verification/Local_Promote.thy ===== *)
theory Local_Promote
  imports Local_Fs
begin

text \<open>
  Promotion of a staged version on one drive and its undo: \<open>rename_data\<close> and \<open>delete_version\<close> of
  \<^verbatim>\<open>crates/openlake_io/src/local_fs.rs\<close>.

  The lemmas follow the stages of \<open>rename_data\<close>. With an arbitrary schedule of faults, each stage
  leaves the files outside of its footprint alone, and only the rename of the last stage
  changes the live metadata. On a healthy drive, with nothing in the way, every stage succeeds,
  and \<open>promoted_tree\<close> describes the tree afterwards.
\<close>

subsection \<open>Names\<close>

definition plain_name :: "string \<Rightarrow> bool" where
  "plain_name s \<longleftrightarrow> s \<noteq> [] \<and> CHR ''/'' \<notin> set s"

lemma split_on_plain: "CHR ''/'' \<notin> set s \<Longrightarrow> split_on CHR ''/'' acc s = [rev acc @ s]"
  by (induction s arbitrary: acc) auto

lemma segs_plain: "plain_name s \<Longrightarrow> segs s = [s]"
  by (simp add: segs_def plain_name_def split_on_plain)

lemma segs_Nil [simp]: "segs [] = []"
  by (simp add: segs_def)

lemma system_plain: "is_system_vol v \<Longrightarrow> plain_name v"
  by (auto simp: is_system_vol_def plain_name_def STAGING_VOL_def MULTIPART_VOL_def SYSTEM_BUCKET_def)

text \<open>The data directory of a version is a plain name, other than the metadata files beside it.\<close>

definition data_name :: "string \<Rightarrow> bool" where
  "data_name dd \<longleftrightarrow> plain_name dd \<and> dd \<noteq> META_FILENAME \<and> dd \<noteq> META_BACKUP_FILENAME"

definition apart :: "fs_path \<Rightarrow> fs_path \<Rightarrow> bool" where
  "apart p q \<longleftrightarrow> \<not> prefix p q \<and> \<not> prefix q p"

lemma apart_append: "apart p q \<Longrightarrow> apart (p @ xs) (q @ ys)"
  unfolding apart_def by (metis append_prefixD prefix_def prefix_same_cases)

lemma apart_prefix: "apart p q \<Longrightarrow> prefix p r \<Longrightarrow> \<not> prefix q r"
  unfolding apart_def by (metis prefix_same_cases)

lemma volumes_apart:
  assumes "plain_name v" "plain_name w" "v \<noteq> w"
  shows "apart (file_path v p) (file_path w q)"
  using assms by (simp add: apart_def file_path_def vol_path_def segs_plain)

lemma file_names: "META_FILENAME \<noteq> META_BACKUP_FILENAME"
  by (simp add: META_FILENAME_def META_BACKUP_FILENAME_def)

subsection \<open>Promotion is atomic\<close>

lemma keeps_require_vol: "keeps (frame A) (require_vol v)"
  unfolding require_vol_def by (auto intro!: keeps_intros split: sum.split node.split)

lemma keeps_fsync_dir: "keeps (frame A) (fsync_dir p)"
  unfolding fsync_dir_def by (intro keeps_intros)

lemma keeps_write_new_file:
  "A p \<Longrightarrow> keeps (frame A) (write_new_file fs_open_trunc p bs)" "A p \<Longrightarrow> keeps (frame A) (write_new_file fs_open_new p bs)"
  unfolding write_new_file_def by (auto intro!: keeps_intros)

lemma keeps_live_versions: "keeps (frame A) (live_versions mc v p)"
  unfolding live_versions_def by (auto intro!: keeps_intros split: sum.split)

lemma keeps_stage_meta: "A (S @ [META_FILENAME]) \<Longrightarrow> keeps (frame A) (stage_meta S bs)"
  unfolding stage_meta_def by (intro keeps_intros keeps_write_new_file)

lemma keeps_graft:
  assumes "\<And>q. dd \<noteq> [] \<Longrightarrow> prefix (S @ segs dd) q \<or> prefix (D @ segs dd) q \<Longrightarrow> A q"
  shows "keeps (frame A) (graft_data_dir S D dd)"
proof -
  have "keeps (frame A) (fs_rename (S @ segs dd) (D @ segs dd))" if "dd \<noteq> []"
    by (rule keeps_rename) (rule assms [OF that])
  then show ?thesis
    unfolding graft_data_dir_def Let_def by (auto intro!: keeps_intros split: sum.split node.split)
qed

lemma keeps_write_backup: "A (D @ [META_BACKUP_FILENAME]) \<Longrightarrow> keeps (frame A) (write_backup D raw)"
  unfolding write_backup_def by (intro keeps_intros keeps_write_new_file)

lemma keeps_commit_meta:
  assumes "\<And>q. prefix (S @ [META_FILENAME]) q \<or> prefix (D @ [META_FILENAME]) q \<Longrightarrow> A q"
  shows "keeps (frame A) (commit_meta S D)"
proof -
  have "keeps (frame A) (fs_rename (S @ [META_FILENAME]) (D @ [META_FILENAME]))"
    by (rule keeps_rename) (rule assms)
  then show ?thesis unfolding commit_meta_def by (intro keeps_intros keeps_fsync_dir)
qed

lemma write_new_file_Ok:
  assumes "write_new_file op p bs d = (Ok (), d1)" "\<And>d d1. op p d = (Ok (), d1) \<Longrightarrow> lookup_node (dk_tree d1) p = Some (File [])"
  shows "file_at (dk_tree d1) p = Some bs"
proof -
  obtain a b c where s: "op p d = (Ok (), a)" "fs_pwrite p 0 bs a = (Ok (), b)" "fs_sync b = (Ok (), c)" "fs_sync c = (Ok (), d1)"
    using assms(1) unfolding write_new_file_def then_do_Ok by (metis old.unit.exhaust)
  show ?thesis
    using pwrite_Ok [OF s(2) assms(2) [OF s(1)]] fs_sync_tree [OF s(3)] fs_sync_tree [OF s(4)]
    by (simp add: overwrite_def)
qed

lemma stage_meta_Ok: "stage_meta S bs d = (Ok (), d1) \<Longrightarrow> file_at (dk_tree d1) (S @ [META_FILENAME]) = Some bs"
  by (auto simp: stage_meta_def then_do_Ok map_err_do_Ok intro: write_new_file_Ok open_trunc_Ok)

text \<open>The rename is the only call of the commit that changes the live metadata.\<close>

lemma commit_meta_live:
  assumes "commit_meta S D d = (r, d1)" "wf_tree (dk_tree d)"
  shows "file_at (dk_tree d1) (D @ [META_FILENAME]) = file_at (dk_tree d) (D @ [META_FILENAME]) \<and> \<not> is_ok r \<or>
    file_at (dk_tree d1) (D @ [META_FILENAME]) = file_at (dk_tree d) (S @ [META_FILENAME])"
proof -
  obtain r0 a where mk: "io_do (fs_create_dir_all D) d = (r0, a)" by fastforce
  have "keeps (frame (\<lambda>_. False)) (io_do (fs_create_dir_all D))" by (intro keeps_intros)
  note fa = keepsD [OF this mk]
  note same = frame_file [OF fa assms(2)]
  show ?thesis
  proof (cases r0)
    case (Inl e)
    then have "r = Err e" "d1 = a" using assms(1) mk by (simp_all add: commit_meta_def then_do_def)
    then show ?thesis using same by simp
  next
    case (Inr u)
    obtain r1 b where rn: "fs_rename (S @ [META_FILENAME]) (D @ [META_FILENAME]) a = (r1, b)" by fastforce
    show ?thesis
    proof (cases r1)
      case (Inl e)
      then have "r = Err (io_of e)" "d1 = b"
        using assms(1) mk Inr rn by (simp_all add: commit_meta_def then_do_def map_err_do_def)
      moreover have "dk_tree b = dk_tree a" using rn Inl fs_rename_Err by simp
      ultimately show ?thesis using same by simp
    next
      case (Inr u1)
      then have "file_at (dk_tree b) (D @ [META_FILENAME]) = file_at (dk_tree a) (S @ [META_FILENAME])"
        using rn fs_rename_Ok rename_at_Ok_file by simp
      moreover have rest: "then_do (fsync_dir D) (\<lambda>_. try_do (fs_rmdir S) (\<lambda>_. ret ())) b = (r, d1)"
        using assms(1) mk \<open>r0 = Inr u\<close> rn Inr by (simp add: commit_meta_def then_do_def map_err_do_def)
      have "keeps (frame (\<lambda>_. False)) (then_do (fsync_dir D) (\<lambda>_. try_do (fs_rmdir S) (\<lambda>_. ret ())) :: (unit, io_error) act)"
        by (intro keeps_intros keeps_fsync_dir)
      from keepsD [OF this rest] have "frame (\<lambda>_. False) b d1" .
      moreover have "wf_tree (dk_tree b)"
        using frame_wf [OF keepsD [OF keeps_rename [of _ _ "\<lambda>_. True"] rn]] frame_wf [OF fa assms(2)] by simp
      ultimately show ?thesis using same frame_file by simp
    qed
  qed
qed

text \<open>Everything a promotion may touch besides the staging area, without the live metadata.\<close>

definition beside_meta :: "fs_path \<Rightarrow> fs_path \<Rightarrow> string \<Rightarrow> fs_path \<Rightarrow> bool" where
  "beside_meta S D dd q \<longleftrightarrow> prefix S q \<or> dd \<noteq> [] \<and> prefix (D @ segs dd) q \<or> q = D @ [META_BACKUP_FILENAME]"

definition prepare :: "fs_path \<Rightarrow> fs_path \<Rightarrow> string \<Rightarrow> byte list option \<Rightarrow> byte list \<Rightarrow> (unit, io_error) act" where
  "prepare S D dd bk bs =
     then_do (stage_meta S bs) (\<lambda>_. then_do (graft_data_dir S D dd) (\<lambda>_.
       case bk of Some raw \<Rightarrow> write_backup D raw | None \<Rightarrow> ret ()))"

lemma promote_staged_eq: "promote_staged S D dd bk bs = then_do (prepare S D dd bk bs) (\<lambda>_. commit_meta S D)"
  by (simp add: promote_staged_def prepare_def then_do_assoc)

lemma keeps_prepare: "keeps (frame (beside_meta S D dd)) (prepare S D dd bk bs)"
proof -
  have "keeps (frame (beside_meta S D dd)) (graft_data_dir S D dd)"
    by (rule keeps_graft) (auto simp: beside_meta_def dest: append_prefixD)
  then show ?thesis
    unfolding prepare_def
    by (intro keeps_intros keeps_stage_meta) (auto intro!: keeps_intros keeps_write_backup simp: beside_meta_def split: option.split)
qed

lemma meta_not_beside:
  assumes "apart S D" "dd = [] \<or> data_name dd"
  shows "\<not> beside_meta S D dd (D @ [META_FILENAME])"
proof -
  have "\<not> prefix S (D @ [META_FILENAME])" using apart_append [OF assms(1), of "[]" "[META_FILENAME]"] unfolding apart_def by simp
  moreover have "\<not> prefix (D @ segs dd) (D @ [META_FILENAME])" if "dd \<noteq> []"
    using assms(2) that by (auto simp: data_name_def segs_plain)
  ultimately show ?thesis using file_names by (auto simp: beside_meta_def)
qed

lemma prepare_Ok:
  assumes "prepare S D dd bk bs d = (Ok (), d1)" "wf_tree (dk_tree d)" "apart S D" "dd = [] \<or> data_name dd"
  shows "file_at (dk_tree d1) (S @ [META_FILENAME]) = Some bs"
proof -
  let ?A = "\<lambda>q. dd \<noteq> [] \<and> (prefix (S @ segs dd) q \<or> prefix (D @ segs dd) q) \<or> q = D @ [META_BACKUP_FILENAME]"
  let ?rest = "then_do (graft_data_dir S D dd) (\<lambda>_. case bk of Some raw \<Rightarrow> write_backup D raw | None \<Rightarrow> ret ())"
  obtain a where a: "stage_meta S bs d = (Ok (), a)" "?rest a = (Ok (), d1)"
    using assms(1) unfolding prepare_def by (auto simp: then_do_Ok)
  have "keeps (frame ?A) (graft_data_dir S D dd)" by (rule keeps_graft) auto
  then have "keeps (frame ?A) ?rest"
    by (intro keeps_intros) (auto intro!: keeps_intros keeps_write_backup split: option.split)
  note fr = keepsD [OF this a(2)]
  have "keeps (frame (\<lambda>_. True)) (stage_meta S bs)" by (simp add: keeps_stage_meta)
  from frame_wf [OF keepsD [OF this a(1)] assms(2)] have wf: "wf_tree (dk_tree a)" .
  have "\<not> prefix D (S @ [META_FILENAME])" using apart_append [OF assms(3), of "[META_FILENAME]" "[]"] unfolding apart_def by simp
  moreover have "\<not> prefix (S @ segs dd) (S @ [META_FILENAME])" if "dd \<noteq> []"
    using assms(4) that by (auto simp: data_name_def segs_plain)
  ultimately have "\<not> ?A (S @ [META_FILENAME])" by (metis append_prefixD prefixI)
  from frame_file [OF fr wf this] stage_meta_Ok [OF a(1)] show ?thesis by simp
qed

lemma promote_staged_live:
  assumes "promote_staged S D dd bk bs d = (r, d1)" "wf_tree (dk_tree d)" "apart S D" "dd = [] \<or> data_name dd"
  shows "file_at (dk_tree d1) (D @ [META_FILENAME]) = file_at (dk_tree d) (D @ [META_FILENAME]) \<and> \<not> is_ok r \<or>
    file_at (dk_tree d1) (D @ [META_FILENAME]) = Some bs"
proof -
  obtain r0 a where p: "prepare S D dd bk bs d = (r0, a)" by fastforce
  note fr = keepsD [OF keeps_prepare p]
  note same = frame_file [OF fr assms(2) meta_not_beside [OF assms(3,4)]]
  show ?thesis
  proof (cases r0)
    case (Inl e)
    then show ?thesis using assms(1) p same by (auto simp: promote_staged_eq then_do_def)
  next
    case (Inr u)
    then have "commit_meta S D a = (r, d1)" using assms(1) p by (simp add: promote_staged_eq then_do_def)
    from commit_meta_live [OF this frame_wf [OF fr assms(2)]] same prepare_Ok [OF _ assms(2-4)] p Inr
    show ?thesis by auto
  qed
qed

lemma promote_staged_frame:
  assumes "promote_staged S D dd bk bs d = (r, d1)"
  shows "frame (\<lambda>_. True) d d1"
proof -
  have "keeps (frame (\<lambda>_. True)) (promote_staged S D dd bk bs)"
    unfolding promote_staged_def
    by (auto intro!: keeps_intros keeps_stage_meta keeps_graft keeps_write_backup keeps_commit_meta split: option.split)
  from keepsD [OF this assms] show ?thesis .
qed

lemma promote_staged_backup:
  assumes "promote_staged S D dd (Some raw) bs d = (Ok (), d1)" "wf_tree (dk_tree d)" "apart S D"
  shows "file_at (dk_tree d1) (D @ [META_BACKUP_FILENAME]) = Some raw"
proof -
  obtain a where a: "prepare S D dd (Some raw) bs d = (Ok (), a)" "commit_meta S D a = (Ok (), d1)"
    using assms(1) by (auto simp: promote_staged_eq then_do_Ok)
  have "file_at (dk_tree a) (D @ [META_BACKUP_FILENAME]) = Some raw"
    using a(1) by (auto simp: prepare_def then_do_Ok write_backup_def map_err_do_Ok intro: write_new_file_Ok open_trunc_Ok)
  moreover have "keeps (frame (\<lambda>q. prefix (S @ [META_FILENAME]) q \<or> prefix (D @ [META_FILENAME]) q)) (commit_meta S D)"
    by (rule keeps_commit_meta)
  note fr = keepsD [OF this a(2)]
  have "file_at (dk_tree d1) (D @ [META_BACKUP_FILENAME]) = file_at (dk_tree a) (D @ [META_BACKUP_FILENAME])"
    using apart_append [OF assms(3), of "[META_FILENAME]" "[META_BACKUP_FILENAME]"] file_names
    by (intro frame_file [OF fr frame_wf [OF keepsD [OF keeps_prepare a(1)] assms(2)]]) (simp add: apart_def)
  ultimately show ?thesis by simp
qed

text \<open>The versions that the metadata at a path holds; none if there is no file.\<close>

definition versions_at :: "meta_codec \<Rightarrow> tree \<Rightarrow> fs_path \<Rightarrow> decoded_record list option" where
  "versions_at mc t p =
     (case file_at t p of
        None \<Rightarrow> Some []
      | Some raw \<Rightarrow> (case decode_all (mc_from_slice mc) (mc_xxh64 mc) raw of Inr rs \<Rightarrow> Some rs | Inl _ \<Rightarrow> None))"

lemma live_versions_Ok:
  assumes "live_versions mc v p d = (Ok (raw, rs), d1)" "wf_tree (dk_tree d)"
  shows "raw = file_at (dk_tree d) (meta_path v p)" "versions_at mc (dk_tree d) (meta_path v p) = Some rs" "dk_tree d1 = dk_tree d"
proof -
  obtain r a where r: "fs_read (meta_path v p) d = (r, a)" by fastforce
  have t: "dk_tree a = dk_tree d" by (rule fs_read_tree [OF r])
  have "raw = file_at (dk_tree d) (meta_path v p) \<and> versions_at mc (dk_tree d) (meta_path v p) = Some rs \<and> dk_tree d1 = dk_tree d"
  proof (cases r)
    case (Inl e)
    then have e: "os_kind e = NotFound" "raw = None" "rs = []" "d1 = a"
      using assms(1) r by (auto simp: live_versions_def try_do_def ret_def raise_def split: if_splits)
    then have "read_file_at (dk_tree d) (meta_path v p) = Err ENOENT"
      using r Inl by (cases e) (simp_all add: fs_read_def query_def sys_def split: option.splits prod.splits)
    then have "file_at (dk_tree d) (meta_path v p) = None"
      using read_file_at_Ok [OF assms(2), of "meta_path v p"] by (cases "file_at (dk_tree d) (meta_path v p)") auto
    with e t show ?thesis by (simp add: versions_at_def)
  next
    case (Inr bs)
    with r have "query (\<lambda>t. read_file_at t (meta_path v p)) d = (Ok bs, a)" by (simp add: fs_read_def)
    from query_Ok [OF this] have "file_at (dk_tree d) (meta_path v p) = Some bs"
      using read_file_at_Ok [OF assms(2)] by simp
    moreover have "raw = Some bs" "decode_all (mc_from_slice mc) (mc_xxh64 mc) bs = Ok rs" "d1 = a"
      using assms(1) r Inr
      by (auto simp: live_versions_def try_do_def of_result_def and_then_eq_Ok map_err_eq_Ok)
    ultimately show ?thesis using t by (simp add: versions_at_def)
  qed
  then show "raw = file_at (dk_tree d) (meta_path v p)" "versions_at mc (dk_tree d) (meta_path v p) = Some rs" "dk_tree d1 = dk_tree d"
    by simp_all
qed

lemma rename_data_cases:
  assumes "rename_data mc sv sp fi dv dp d = Some (r, d1)" "wf_tree (dk_tree d)"
  obtains (refused) e where "r = Err e" "frame (\<lambda>_. False) d d1"
  | (promoted) a existing enc r0 where "is_system_vol sv" "frame (\<lambda>_. False) d a"
      "versions_at mc (dk_tree d) (meta_path dv dp) = Some existing"
      "encode_versions (mc_to_vec mc) (mc_xxh64 mc) (merge_versions dv dp fi existing) = Some (Ok enc)"
      "promote_staged (file_path sv sp) (file_path dv dp) (fi_data_dir fi)
         (if list_ex (\<lambda>r. dr_version_id r = fi_version_id fi) existing then file_at (dk_tree d) (meta_path dv dp) else None)
         (xl_meta_vectored enc) a = (r0, d1)"
      "is_ok r = is_ok r0"
proof (cases "is_system_vol sv")
  case False
  then show thesis using refused assms(1) by (auto simp: rename_data_def frame.reflexive)
next
  case True
  obtain q a where pre: "then_do (require_vol dv) (\<lambda>_. live_versions mc dv dp) d = (q, a)" by fastforce
  have "keeps (frame (\<lambda>_. False)) (then_do (require_vol dv) (\<lambda>_. live_versions mc dv dp))"
    by (intro keeps_intros keeps_require_vol keeps_live_versions)
  note fr = keepsD [OF this pre]
  show thesis
  proof (cases q)
    case (Inl e)
    then show thesis using refused [of e] fr assms(1) True pre by (simp add: rename_data_def)
  next
    case (Inr x)
    obtain raw existing where x: "x = (raw, existing)" by fastforce
    obtain b where b: "require_vol dv d = (Ok (), b)" "live_versions mc dv dp b = (Ok (raw, existing), a)"
      using pre Inr x by (auto simp: then_do_Ok)
    have fb: "frame (\<lambda>_. False) d b" by (rule keepsD [OF keeps_require_vol b(1)])
    have "file_at (dk_tree b) p = file_at (dk_tree d) p" for p by (rule frame_file [OF fb assms(2)]) simp
    with live_versions_Ok [OF b(2) frame_wf [OF fb assms(2)]]
    have lv: "raw = file_at (dk_tree d) (meta_path dv dp)" "versions_at mc (dk_tree d) (meta_path dv dp) = Some existing"
      by (simp_all add: versions_at_def)
    obtain encoded where enc: "encode_versions (mc_to_vec mc) (mc_xxh64 mc) (merge_versions dv dp fi existing) = Some encoded"
      using assms(1) True pre Inr x by (auto simp: rename_data_def)
    show thesis
    proof (cases encoded)
      case (Inl e)
      then show thesis
        using refused [of e] fr assms(1) True pre Inr x enc \<open>q = Inr x\<close>
        by (simp add: rename_data_def then_do_def of_result_def)
    next
      case (Inr e)
      obtain r0 d2 where pr: "promote_staged (file_path sv sp) (file_path dv dp) (fi_data_dir fi)
         (if list_ex (\<lambda>r. dr_version_id r = fi_version_id fi) existing then raw else None) (xl_meta_vectored e) a = (r0, d2)"
        by fastforce
      have d2: "d2 = d1" and ok: "is_ok r = is_ok r0"
        using assms(1) True pre \<open>q = Inr x\<close> x enc Inr pr
        by (cases r0; auto simp: rename_data_def then_do_def of_result_def ret_def)+
      show thesis using promoted [OF True fr lv(2) _ pr [unfolded lv(1) d2] ok] enc Inr by simp
    qed
  qed
qed

text \<open>
  C5: promotion replaces the live metadata atomically. Whatever calls fail, and wherever the process
  is stopped, the live \<^verbatim>\<open>xl.meta\<close> of the object afterwards is byte for byte the old one, or the
  complete encoding of the old versions with the new one merged in; it is the latter if the
  promotion reports success. No file of any other object changes: only the staging directory,
  the new version's data directory and the two metadata files of the object are touched.
\<close>

theorem rename_data_atomic:
  assumes "wf_tree (dk_tree d)" "rename_data mc src_volume src_path fi dst_volume dst_path d = Some (r, d1)"
    and "plain_name dst_volume" "dst_volume \<noteq> src_volume" "fi_data_dir fi = [] \<or> data_name (fi_data_dir fi)"
  shows "wf_tree (dk_tree d1) \<and>
    (file_at (dk_tree d1) (meta_path dst_volume dst_path) = file_at (dk_tree d) (meta_path dst_volume dst_path) \<and> \<not> is_ok r \<or>
     (\<exists>existing enc. versions_at mc (dk_tree d) (meta_path dst_volume dst_path) = Some existing \<and>
        encode_versions (mc_to_vec mc) (mc_xxh64 mc) (merge_versions dst_volume dst_path fi existing) = Some (Ok enc) \<and>
        file_at (dk_tree d1) (meta_path dst_volume dst_path) = Some (encoded_to_vec enc))) \<and>
    (\<forall>p. \<not> beside_meta (file_path src_volume src_path) (file_path dst_volume dst_path) (fi_data_dir fi) p \<longrightarrow>
       \<not> prefix (meta_path dst_volume dst_path) p \<longrightarrow> file_at (dk_tree d1) p = file_at (dk_tree d) p)"
  using assms(2,1)
proof (cases rule: rename_data_cases)
  case (refused e)
  then show ?thesis using frame_file [OF refused(2) assms(1)] frame_wf [OF refused(2) assms(1)] by simp
next
  case (promoted a existing enc r0)
  let ?S = "file_path src_volume src_path" and ?D = "file_path dst_volume dst_path"
  let ?A = "\<lambda>p. beside_meta ?S ?D (fi_data_dir fi) p \<or> prefix (?D @ [META_FILENAME]) p"
  have ap: "apart ?S ?D" using volumes_apart system_plain promoted(1) assms(3,4) by metis
  note wfa = frame_wf [OF promoted(2) assms(1)]
  have same: "file_at (dk_tree a) p = file_at (dk_tree d) p" for p by (rule frame_file [OF promoted(2) assms(1)]) simp
  have "keeps (frame ?A) (prepare ?S ?D (fi_data_dir fi) bk bs)" for bk bs
    using keeps_prepare [of ?S ?D "fi_data_dir fi" bk bs] unfolding keeps_def frame_def tree_frame_def by blast
  moreover have "keeps (frame ?A) (commit_meta ?S ?D)"
    by (rule keeps_commit_meta) (auto simp: beside_meta_def dest: append_prefixD)
  ultimately have "keeps (frame ?A) (promote_staged ?S ?D (fi_data_dir fi) bk bs)" for bk bs
    unfolding promote_staged_eq by (intro keeps_intros)
  note fr = keepsD [OF this promoted(5)]
  have "xl_meta_vectored enc = encoded_to_vec enc" by (simp add: xl_meta_vectored_def encoded_to_vec_def)
  with promote_staged_live [OF promoted(5) wfa ap assms(5)] promoted(3,4,6)
    frame_wf [OF fr wfa] frame_file [OF fr wfa]
  show ?thesis unfolding same meta_path_def by auto
qed

subsection \<open>What is read after a promotion\<close>

definition codec_ok :: "meta_codec \<Rightarrow> bool" where
  "codec_ok mc \<longleftrightarrow>
     (\<forall>od body. mc_to_vec mc od = Ok body \<longrightarrow> mc_from_slice mc body = Ok od) \<and>
     (\<forall>body od. mc_from_slice mc body = Ok od \<longrightarrow> (\<forall>v \<in> set (od_versions od). typed_record v))"

lemma stored_file_info:
  assumes "record_ok rec"
  shows "stored n (file_info_from_record rec v p) = rec\<lparr>dr_num_versions := n\<rparr>" "canonical_ids (file_info_from_record rec v p)"
proof -
  have "(if inline_bytes (file_info_from_record rec v p) = [] then None
      else Some [inline_bytes (file_info_from_record rec v p)]) = dr_inline rec"
    using assms by (cases "dr_inline rec") (auto simp: record_ok_def inline_bytes_def file_info_from_record_def)
  then show "stored n (file_info_from_record rec v p) = rec\<lparr>dr_num_versions := n\<rparr>"
    by (simp add: stored_def) (simp add: file_info_from_record_def)
  show "canonical_ids (file_info_from_record rec v p)"
    using assms by (simp add: canonical_ids_def record_ok_def file_info_from_record_def)
qed

lemma versions_at_ok:
  assumes "codec_ok mc" "versions_at mc t p = Some rs"
  shows "\<forall>r \<in> set rs. record_ok r" "sorted (map (\<lambda>r. - int (dr_mod_time_ms r)) rs)"
proof -
  have "(\<forall>r \<in> set rs. record_ok r) \<and> sorted_wrt (\<lambda>a b. dr_mod_time_ms b \<le> dr_mod_time_ms a) rs"
  proof (cases "file_at t p")
    case (Some raw)
    then have "decode_all (mc_from_slice mc) (mc_xxh64 mc) raw = Ok rs"
      using assms(2) by (auto simp: versions_at_def split: sum.splits)
    from decode_all_ok [OF _ this] assms(1) show ?thesis unfolding codec_ok_def by blast
  qed (use assms(2) in \<open>simp add: versions_at_def\<close>)
  then show "\<forall>r \<in> set rs. record_ok r" "sorted (map (\<lambda>r. - int (dr_mod_time_ms r)) rs)"
    by (simp_all add: sorted_map)
qed

lemma set_merge_versions:
  "set (merge_versions v p fi existing) =
     insert fi ((\<lambda>rec. file_info_from_record rec v p) ` {rec \<in> set existing. dr_version_id rec \<noteq> fi_version_id fi})"
  by (auto simp: merge_versions_def)

lemma merged_decodes:
  assumes "codec_ok mc" "versions_at mc t p' = Some existing" "canonical_ids fi"
    and "encode_versions (mc_to_vec mc) (mc_xxh64 mc) (merge_versions v p fi existing) = Some (Ok enc)"
    and "length (encoded_to_vec enc) < 2 ^ 32"
  shows "decode_all (mc_from_slice mc) (mc_xxh64 mc) (encoded_to_vec enc) =
    Ok (map (stored (as_i32 (length (merge_versions v p fi existing)))) (merge_versions v p fi existing))"
proof -
  have "\<forall>v' \<in> set (merge_versions v p fi existing). canonical_ids v'"
    using versions_at_ok(1) [OF assms(1,2)] assms(3) stored_file_info(2) by (auto simp: set_merge_versions)
  moreover have "sort_key (\<lambda>v. - int (fi_mod_time_ms v)) (merge_versions v p fi existing) = merge_versions v p fi existing"
    unfolding merge_versions_def by (rule sort_key_id_if_sorted) simp
  ultimately show ?thesis
    using encoded_decodes [OF _ assms(4)] assms(1,5) by (simp add: codec_ok_def encoded_to_vec_def)
qed

lemma find_filter: "find P xs = (case filter P xs of [] \<Rightarrow> None | x # _ \<Rightarrow> Some x)"
  by (induction xs) auto

lemma find_map: "find P (map f xs) = map_option f (find (P \<circ> f) xs)"
  by (induction xs) simp_all

lemma find_merged:
  assumes "codec_ok mc" "versions_at mc t p' = Some existing"
  shows "find (\<lambda>r. dr_version_id r = w) (map (stored n) (merge_versions v p fi existing)) =
    (if w = fi_version_id fi then Some (stored n fi)
     else map_option (\<lambda>r. r\<lparr>dr_num_versions := n\<rparr>) (find (\<lambda>r. dr_version_id r = w) existing))"
proof -
  let ?g = "\<lambda>rec. file_info_from_record rec v p" and ?k = "\<lambda>v. - int (fi_mod_time_ms v)"
  have vid: "fi_version_id (?g rec) = dr_version_id rec" "?k (?g rec) = - int (dr_mod_time_ms rec)" for rec
    by (simp_all add: file_info_from_record_def)
  have f: "filter (\<lambda>x. fi_version_id x = w) (merge_versions v p fi existing) =
      (if w = fi_version_id fi then [fi] else map ?g (filter (\<lambda>r. dr_version_id r = w) existing))"
  proof (cases "w = fi_version_id fi")
    case True
    then show ?thesis by (simp add: merge_versions_def filter_sort filter_map comp_def vid)
  next
    case False
    then have "filter (\<lambda>x. fi_version_id x = w) (merge_versions v p fi existing) =
        sort_key ?k (map ?g (filter (\<lambda>r. dr_version_id r = w) existing))"
      by (simp add: merge_versions_def filter_sort filter_map comp_def vid) (metis (mono_tags, lifting) filter_cong)
    also have "\<dots> = map ?g (filter (\<lambda>r. dr_version_id r = w) existing)"
    proof (rule sort_key_id_if_sorted)
      have "sorted (map (\<lambda>r. - int (dr_mod_time_ms r)) (filter (\<lambda>r. dr_version_id r = w) existing))"
        using versions_at_ok(2) [OF assms] by (rule sorted_filter)
      then show "sorted (map ?k (map ?g (filter (\<lambda>r. dr_version_id r = w) existing)))" by (simp add: comp_def vid)
    qed
    finally show ?thesis using False by simp
  qed
  have s: "dr_version_id (stored n x) = fi_version_id x" for x by (simp add: stored_def)
  have "find (\<lambda>r. dr_version_id r = w) (map (stored n) (merge_versions v p fi existing)) =
      map_option (stored n) (find (\<lambda>x. fi_version_id x = w) (merge_versions v p fi existing))"
    by (simp add: find_map s comp_def)
  also have "\<dots> = (if w = fi_version_id fi then Some (stored n fi)
     else map_option (stored n \<circ> ?g) (find (\<lambda>r. dr_version_id r = w) existing))"
    unfolding find_filter [of _ "merge_versions v p fi existing"] f find_filter [of _ existing]
    by (auto split: list.split)
  also have "map_option (stored n \<circ> ?g) (find (\<lambda>r. dr_version_id r = w) existing) =
      map_option (\<lambda>r. r\<lparr>dr_num_versions := n\<rparr>) (find (\<lambda>r. dr_version_id r = w) existing)"
    using versions_at_ok(1) [OF assms] stored_file_info(1)
    by (cases "find (\<lambda>r. dr_version_id r = w) existing") (auto dest: find_Some_mem)
  finally show ?thesis .
qed

lemma read_version_no_faults:
  assumes "wf_tree (dk_tree d)" "dk_faults d = (\<lambda>_. None)" "file_at (dk_tree d) (meta_path v p) = Some bs"
    and "plain_name v" "\<not> is_system_vol v"
  shows "fst (read_version mc v p vid rd d) = and_then (pick_version mc v p vid bs) (\<lambda>rec.
    let fi = file_info_from_record rec v p in Ok (if rd then fi else fi\<lparr>fi_data := None\<rparr>))"
proof -
  have "lookup_node (dk_tree d) (vol_path v @ segs p @ [META_FILENAME]) \<noteq> None"
    using assms(3) by (auto simp: file_at_Some meta_path_def file_path_def)
  then have "lookup_node (dk_tree d) (vol_path v) = Some Dir" using wf_prefix_Dir [OF assms(1)] by blast
  then have "stat (dk_tree d) (vol_path v) = Ok Dir" by (simp add: stat_Ok_iff assms(1))
  moreover have "read_file_at (dk_tree d) (meta_path v p) = Ok bs" by (simp add: read_file_at_Ok assms(1,3))
  ultimately show ?thesis
    using assms(2,5)
    by (cases "pick_version mc v p vid bs")
      (simp_all add: read_version_def then_do_def try_do_def require_vol_def fs_stat_def fs_read_def query_def sys_def ret_def
        map_err_do_def of_result_def Let_def)
qed

lemma promoted_live:
  assumes "wf_tree (dk_tree d)" "rename_data mc sv sp fi dv dp d = Some (Ok resp, d1)"
    and "plain_name dv" "dv \<noteq> sv" "fi_data_dir fi = [] \<or> data_name (fi_data_dir fi)"
  obtains existing enc where "versions_at mc (dk_tree d) (meta_path dv dp) = Some existing"
    "encode_versions (mc_to_vec mc) (mc_xxh64 mc) (merge_versions dv dp fi existing) = Some (Ok enc)"
    "file_at (dk_tree d1) (meta_path dv dp) = Some (encoded_to_vec enc)" "wf_tree (dk_tree d1)"
  using assms(2,1)
proof (cases rule: rename_data_cases)
  case (promoted a existing enc r0)
  have ap: "apart (file_path sv sp) (file_path dv dp)" using volumes_apart system_plain promoted(1) assms(3,4) by metis
  note wfa = frame_wf [OF promoted(2) assms(1)]
  have vec: "xl_meta_vectored enc = encoded_to_vec enc" by (simp add: xl_meta_vectored_def encoded_to_vec_def)
  have "file_at (dk_tree d1) (meta_path dv dp) = Some (encoded_to_vec enc)"
    using promote_staged_live [OF promoted(5) wfa ap assms(5)] promoted(6) vec by (simp add: meta_path_def)
  with promoted(3,4) frame_wf [OF promote_staged_frame [OF promoted(5)] wfa] show thesis by (intro that)
qed simp

text \<open>
  C16: a promoted version is read back and the others are kept. After a promotion that reports success,
  asking the drive for the new version gives exactly the promoted record; asking for any other
  version gives what the drive held before, with the number of versions updated, or the error
  for an unknown version; and the latest version is the first of the merged list, newest first.
\<close>

theorem promoted_version_is_read:
  assumes "codec_ok mc" "wf_tree (dk_tree d)" "rename_data mc src_volume src_path fi dst_volume dst_path d = Some (Ok resp, d1)"
    and "plain_name dst_volume" "\<not> is_system_vol dst_volume" "fi_data_dir fi = [] \<or> data_name (fi_data_dir fi)"
    and "canonical_ids fi" "\<forall>bs. file_at (dk_tree d1) (meta_path dst_volume dst_path) = Some bs \<longrightarrow> length bs < 2 ^ 32"
    and "dk_tree d2 = dk_tree d1" "dk_faults d2 = (\<lambda>_. None)"
  shows "\<exists>existing n. versions_at mc (dk_tree d) (meta_path dst_volume dst_path) = Some existing \<and>
    fst (read_version mc dst_volume dst_path (Some (fi_version_id fi)) True d2) =
      Ok (file_info_from_record (stored n fi) dst_volume dst_path) \<and>
    (\<forall>w. w \<noteq> fi_version_id fi \<longrightarrow> fst (read_version mc dst_volume dst_path (Some w) True d2) =
      (case find (\<lambda>r. dr_version_id r = w) existing of
         None \<Rightarrow> Err (FileVersionNotFound dst_volume dst_path w)
       | Some rec \<Rightarrow> Ok (file_info_from_record (rec\<lparr>dr_num_versions := n\<rparr>) dst_volume dst_path))) \<and>
    fst (read_version mc dst_volume dst_path None True d2) =
      Ok (file_info_from_record (stored n (hd (merge_versions dst_volume dst_path fi existing))) dst_volume dst_path)"
proof -
  have "dst_volume \<noteq> src_volume" using assms(3,5) by (auto simp: rename_data_def split: if_splits)
  from promoted_live [OF assms(2,3,4) this assms(6)] obtain existing enc
    where promoted: "versions_at mc (dk_tree d) (meta_path dst_volume dst_path) = Some existing"
      "encode_versions (mc_to_vec mc) (mc_xxh64 mc) (merge_versions dst_volume dst_path fi existing) = Some (Ok enc)"
      "file_at (dk_tree d1) (meta_path dst_volume dst_path) = Some (encoded_to_vec enc)" "wf_tree (dk_tree d1)" by metis
  let ?ms = "merge_versions dst_volume dst_path fi existing"
  obtain n where n: "as_i32 (length ?ms) = n" by simp
  have live: "file_at (dk_tree d2) (meta_path dst_volume dst_path) = Some (encoded_to_vec enc)" and wf2: "wf_tree (dk_tree d2)"
    using promoted(3,4) assms(9) by simp_all
  note rd = read_version_no_faults [OF wf2 assms(10) live assms(4,5)]
  have dec: "decode_all (mc_from_slice mc) (mc_xxh64 mc) (encoded_to_vec enc) = Ok (map (stored n) ?ms)"
    using merged_decodes [OF assms(1) promoted(1) assms(7) promoted(2)] assms(8,9) live n by simp
  have ne: "?ms \<noteq> []" using set_merge_versions [of dst_volume dst_path fi existing] by auto
  have pick: "pick_version mc dst_volume dst_path (Some w) (encoded_to_vec enc) =
      ok_or (FileVersionNotFound dst_volume dst_path w) (find (\<lambda>r. dr_version_id r = w) (map (stored n) ?ms))" for w
    by (simp add: pick_version_def find_version_def dec)
  have latest: "pick_version mc dst_volume dst_path None (encoded_to_vec enc) = Ok (stored n (hd ?ms))"
    using ne by (cases ?ms) (simp_all add: pick_version_def xl_decode_def dec)
  show ?thesis
    using promoted(1) by (intro exI [of _ existing] exI [of _ n])
      (simp add: rd pick latest find_merged [OF assms(1) promoted(1)] Let_def split: option.split)
qed

subsection \<open>Promotion on a healthy drive\<close>

lemma dir_clear: "wf_tree t \<Longrightarrow> lookup_node t p = Some Dir \<Longrightarrow> clear_path t p"
  unfolding clear_path_def
proof (intro allI impI)
  fix i
  assume wf: "wf_tree t" and p: "lookup_node t p = Some Dir"
  have "lookup_node t (take (Suc i) p @ drop (Suc i) p) \<noteq> None" using p by simp
  with wf_prefix_Dir [OF wf this] p show "lookup_node t (take (Suc i) p) \<in> {None, Some Dir}"
    by (cases "drop (Suc i) p = []") auto
qed

lemma write_new_healthy:
  assumes "healthy d" "lookup_node (dk_tree d) q = Some Dir" "lookup_node (dk_tree d) (q @ [x]) \<noteq> Some Dir"
  obtains d1 where "write_new_file fs_open_trunc (q @ [x]) bs d = (Ok (), d1)" "healthy d1"
    "\<And>p. lookup_node (dk_tree d1) p = (if p = q @ [x] then Some (File bs) else lookup_node (dk_tree d) p)"
proof -
  let ?t1 = "set_node (q @ [x]) (File []) (dk_tree d)"
  let ?d1 = "d\<lparr>dk_tree := ?t1, dk_calls := Suc (dk_calls d)\<rparr>"
  let ?d2 = "?d1\<lparr>dk_tree := set_node (q @ [x]) (File bs) ?t1, dk_calls := Suc (dk_calls ?d1)\<rparr>"
  have op: "fs_open_trunc (q @ [x]) d = (Ok (), ?d1)"
    using assms(3) healthy_parent [OF assms(1,2), of x] by (simp add: fs_open_trunc_def sys_healthy [OF assms(1)] open_trunc_at_def)
  have h1: "healthy ?d1" by (rule keeps_healthy [OF keeps_changes(2) [of "\<lambda>_. True"] assms(1) op]) simp
  then have wr: "fs_pwrite (q @ [x]) 0 bs ?d1 = (Ok (), ?d2)"
    by (simp add: fs_pwrite_def healthy_def pwrite_at_def overwrite_def)
  have h2: "healthy ?d2" by (rule keeps_healthy [OF keeps_pwrite [of "\<lambda>_. True"] h1 wr]) simp
  have "write_new_file fs_open_trunc (q @ [x]) bs d = (Ok (), ?d2\<lparr>dk_calls := Suc (Suc (dk_calls ?d2))\<rparr>)"
    using op wr h2 by (simp add: write_new_file_def then_do_def fs_sync_healthy)
  moreover have "healthy (?d2\<lparr>dk_calls := Suc (Suc (dk_calls ?d2))\<rparr>)" using h2 by (simp add: healthy_def)
  ultimately show thesis using that by simp
qed

lemma write_in_dir_healthy:
  assumes "healthy d" "clear_path (dk_tree d) q" "lookup_node (dk_tree d) (q @ [x]) \<noteq> Some Dir"
  obtains d1 where "then_do (io_do (fs_create_dir_all q)) (\<lambda>_. io_do (write_new_file fs_open_trunc (q @ [x]) bs)) d = (Ok (), d1)"
    "healthy d1" "lookup_node (dk_tree d1) q = Some Dir" "lookup_node (dk_tree d1) (q @ [x]) = Some (File bs)"
    "\<And>p. \<not> prefix p q \<Longrightarrow> p \<noteq> q @ [x] \<Longrightarrow> lookup_node (dk_tree d1) p = lookup_node (dk_tree d) p"
proof -
  obtain a where a: "fs_create_dir_all q d = (Ok (), a)" "healthy a" "lookup_node (dk_tree a) q = Some Dir"
    "\<And>p. \<not> prefix p q \<Longrightarrow> lookup_node (dk_tree a) p = lookup_node (dk_tree d) p"
    using create_dir_all_healthy [OF assms(1,2)] by metis
  have "lookup_node (dk_tree a) (q @ [x]) \<noteq> Some Dir" using a(4) [of "q @ [x]"] assms(3) by simp
  from write_new_healthy [OF a(2,3) this, of bs] obtain d1 where d1: "write_new_file fs_open_trunc (q @ [x]) bs a = (Ok (), d1)" "healthy d1"
    "\<And>p. lookup_node (dk_tree d1) p = (if p = q @ [x] then Some (File bs) else lookup_node (dk_tree a) p)"
    by metis
  have "then_do (io_do (fs_create_dir_all q)) (\<lambda>_. io_do (write_new_file fs_open_trunc (q @ [x]) bs)) d = (Ok (), d1)"
    using a(1) d1(1) by (simp add: then_do_def map_err_do_def)
  from that [OF this d1(2)] a(3,4) d1(3) show thesis by simp
qed

lemma graft_healthy:
  assumes "healthy d" "clear_path (dk_tree d) D" "apart S D"
    and "dd = [] \<or> data_name dd \<and> lookup_node (dk_tree d) (D @ [dd]) = None"
  obtains d1 where "graft_data_dir S D dd d = (Ok (), d1)" "healthy d1" "clear_path (dk_tree d1) D"
    "\<And>p. \<not> prefix p D \<Longrightarrow> \<not> prefix (S @ [dd]) p \<Longrightarrow> \<not> prefix (D @ [dd]) p \<Longrightarrow>
       lookup_node (dk_tree d1) p = lookup_node (dk_tree d) p"
    "\<And>p. data_name dd \<Longrightarrow> lookup_node (dk_tree d) (S @ [dd]) = Some Dir \<Longrightarrow>
       lookup_node (dk_tree d1) (D @ dd # p) = lookup_node (dk_tree d) (S @ dd # p)"
proof (cases "dd \<noteq> [] \<and> lookup_node (dk_tree d) (S @ [dd]) = Some Dir")
  case False
  let ?d1 = "if dd = [] then d else d\<lparr>dk_calls := Suc (dk_calls d)\<rparr>"
  have wf: "wf_tree (dk_tree d)" using assms(1) by (simp add: healthy_def)
  have "graft_data_dir S D dd d = (Ok (), ?d1)"
  proof (cases "dd = []")
    case ne: False
    then have "stat (dk_tree d) (S @ segs dd) \<noteq> Ok Dir"
      using False assms(4) stat_Ok_iff [OF wf] by (auto simp: data_name_def segs_plain)
    with ne show ?thesis
      by (auto simp: graft_data_dir_def Let_def try_do_def fs_stat_healthy [OF assms(1)] ret_def split: sum.split node.split)
  qed (simp add: graft_data_dir_def Let_def ret_def)
  moreover have "healthy ?d1" "clear_path (dk_tree ?d1) D" using assms(1,2) by simp_all
  ultimately show thesis using that [of ?d1] False by (auto simp: data_name_def plain_name_def split: if_splits)
next
  case True
  then have dd: "segs dd = [dd]" "data_name dd" "lookup_node (dk_tree d) (D @ [dd]) = None"
    using assms(4) by (auto simp: data_name_def segs_plain)
  let ?d0 = "d\<lparr>dk_calls := Suc (dk_calls d)\<rparr>"
  have st: "fs_stat (S @ [dd]) d = (Ok Dir, ?d0)"
    using True assms(1) by (simp add: fs_stat_healthy stat_Ok_iff healthy_def)
  obtain a where a: "fs_create_dir_all D ?d0 = (Ok (), a)" "healthy a" "lookup_node (dk_tree a) D = Some Dir"
    "\<And>p. \<not> prefix p D \<Longrightarrow> lookup_node (dk_tree a) p = lookup_node (dk_tree d) p"
    using create_dir_all_healthy [of ?d0 D] assms(1,2) by (metis disk.select_convs(1) disk.surjective disk.update_convs(2) healthy_calls)
  have ap: "apart (S @ [dd]) (D @ [dd])" by (rule apart_append [OF assms(3)])
  have nD: "\<not> prefix (S @ dd # r) D" for r using apart_append [OF assms(3), of "dd # r" "[]"] by (simp add: apart_def)
  obtain b where b: "fs_rename (S @ [dd]) (D @ [dd]) a = (Ok (), b)" "healthy b"
    "dk_tree b = move_tree (S @ [dd]) (D @ [dd]) (dk_tree a)"
  proof (rule rename_healthy [OF a(2), of "S @ [dd]" Dir "D @ [dd]"])
    show "lookup_node (dk_tree a) (S @ [dd]) = Some Dir" using a(4) nD [of "[]"] True by simp
    show "lookup_node (dk_tree a) (butlast (D @ [dd])) = Some Dir" using a(3) by simp
  qed (use ap dd(3) a(4) that in \<open>auto simp: apart_def\<close>)
  have look: "lookup_node (dk_tree b) p = (if prefix (D @ [dd]) p then lookup_node (dk_tree a) (S @ dd # drop (Suc (length D)) p)
      else if prefix (S @ [dd]) p then None else lookup_node (dk_tree a) p)" for p
    unfolding b(3) using lookup_move_tree [of "S @ [dd]" "D @ [dd]" "dk_tree a" p] ap by (simp add: apart_def)
  have "lookup_node (dk_tree b) D = Some Dir"
    using look [of D] a(3) apart_prefix [OF assms(3)] by (auto dest: append_prefixD)
  then have "clear_path (dk_tree b) D" using b(2) dir_clear by (simp add: healthy_def)
  moreover have "graft_data_dir S D dd d = (Ok (), b)"
    using True st a(1) b(1) by (simp add: graft_data_dir_def Let_def dd(1) try_do_def then_do_def map_err_do_def)
  moreover have "lookup_node (dk_tree b) p = lookup_node (dk_tree d) p"
    if "\<not> prefix p D" "\<not> prefix (S @ [dd]) p" "\<not> prefix (D @ [dd]) p" for p
    using look [of p] a(4) that by simp
  moreover have "lookup_node (dk_tree b) (D @ dd # p) = lookup_node (dk_tree d) (S @ dd # p)" for p
    using look [of "D @ dd # p"] a(4) nD [of p] by simp
  ultimately show thesis using that b(2) by blast
qed

lemma fsync_dir_healthy:
  assumes "healthy d" "lookup_node (dk_tree d) D = Some Dir"
  shows "fsync_dir D d = (Ok (), d\<lparr>dk_calls := Suc (Suc (Suc (dk_calls d)))\<rparr>)"
proof -
  have "stat (dk_tree d) D = Ok Dir" using assms by (simp add: stat_Ok_iff healthy_def)
  then show ?thesis
    using assms(1) by (simp add: fsync_dir_def map_err_do_def then_do_def fs_stat_healthy fs_sync_healthy)
qed

lemma commit_healthy:
  assumes "healthy d" "clear_path (dk_tree d) D" "apart S D" "lookup_node (dk_tree d) (S @ [META_FILENAME]) = Some (File bs)"
    and "lookup_node (dk_tree d) (D @ [META_FILENAME]) \<noteq> Some Dir"
  obtains d1 where "commit_meta S D d = (Ok (), d1)" "healthy d1" "lookup_node (dk_tree d1) (D @ [META_FILENAME]) = Some (File bs)"
    "\<And>p. \<not> prefix p D \<Longrightarrow> \<not> prefix S p \<Longrightarrow> \<not> prefix (D @ [META_FILENAME]) p \<Longrightarrow>
       lookup_node (dk_tree d1) p = lookup_node (dk_tree d) p"
proof -
  let ?s = "S @ [META_FILENAME]" and ?l = "D @ [META_FILENAME]"
  obtain a where a: "fs_create_dir_all D d = (Ok (), a)" "healthy a" "lookup_node (dk_tree a) D = Some Dir"
    "\<And>p. \<not> prefix p D \<Longrightarrow> lookup_node (dk_tree a) p = lookup_node (dk_tree d) p"
    using create_dir_all_healthy [OF assms(1,2)] by metis
  have ap: "apart ?s ?l" "\<not> prefix ?s D"
    using apart_append [OF assms(3), of "[META_FILENAME]" "[META_FILENAME]"]
      apart_append [OF assms(3), of "[META_FILENAME]" "[]"]
    by (simp_all add: apart_def)
  have src: "lookup_node (dk_tree a) ?s = Some (File bs)" using a(4) ap(2) assms(4) by simp
  obtain b where b: "fs_rename ?s ?l a = (Ok (), b)" "healthy b" "dk_tree b = move_tree ?s ?l (dk_tree a)"
    by (rule rename_healthy [OF a(2) src, of ?l]) (use ap a(3,4) assms(5) in \<open>auto simp: apart_def\<close>)
  have look: "lookup_node (dk_tree b) p = (if prefix ?l p then lookup_node (dk_tree a) (?s @ drop (length ?l) p)
      else if prefix ?s p then None else lookup_node (dk_tree a) p)" for p
    unfolding b(3) using lookup_move_tree [of ?s ?l "dk_tree a" p] ap by (simp add: apart_def)
  have D: "lookup_node (dk_tree b) D = Some Dir" using look [of D] a(3) ap(2) by auto
  let ?c = "b\<lparr>dk_calls := Suc (Suc (Suc (dk_calls b)))\<rparr>"
  obtain r d1 where rm: "fs_rmdir S ?c = (r, d1)" by fastforce
  have "commit_meta S D d = (Ok (), d1)"
    using a(1) b(1) rm fsync_dir_healthy [OF b(2) D] by (simp add: commit_meta_def then_do_def try_do_def map_err_do_def ret_def)
  moreover have "healthy d1" using keeps_healthy [OF keeps_calls(6) _ rm] b(2) by simp
  moreover have rm_same: "lookup_node (dk_tree d1) p = lookup_node (dk_tree b) p" if "p \<noteq> S" for p
    using nodesD [OF nodes_rmdir [of "\<lambda>q. q = S"] rm] that by simp
  have "lookup_node (dk_tree d1) ?l = Some (File bs)"
    using rm_same [of ?l] apart_append [OF assms(3), of "[]" "[META_FILENAME]"] look [of ?l] src by (auto simp: apart_def)
  moreover have "lookup_node (dk_tree d1) p = lookup_node (dk_tree d) p"
    if "\<not> prefix p D" "\<not> prefix S p" "\<not> prefix ?l p" for p
    using rm_same [of p] look [of p] a(4) [of p] that by (auto dest: append_prefixD)
  ultimately show thesis using that by blast
qed

text \<open>Where a promotion can go: no file in the way of a directory and no directory in the way of a file.\<close>

definition promotable :: "tree \<Rightarrow> fs_path \<Rightarrow> fs_path \<Rightarrow> string \<Rightarrow> bool" where
  "promotable t S D dd \<longleftrightarrow> clear_path t S \<and> clear_path t D \<and> lookup_node t (S @ [META_FILENAME]) \<noteq> Some Dir \<and>
     lookup_node t (D @ [META_FILENAME]) \<noteq> Some Dir \<and> lookup_node t (D @ [META_BACKUP_FILENAME]) \<noteq> Some Dir \<and>
     (dd = [] \<or> data_name dd \<and> lookup_node t (D @ [dd]) = None)"

definition promoted_tree :: "fs_path \<Rightarrow> fs_path \<Rightarrow> string \<Rightarrow> byte list option \<Rightarrow> byte list \<Rightarrow> tree \<Rightarrow> tree \<Rightarrow> bool" where
  "promoted_tree S D dd bk bs t t1 \<longleftrightarrow>
     lookup_node t1 (D @ [META_FILENAME]) = Some (File bs) \<and>
     lookup_node t1 (D @ [META_BACKUP_FILENAME]) =
       (case bk of Some raw \<Rightarrow> Some (File raw) | None \<Rightarrow> lookup_node t (D @ [META_BACKUP_FILENAME])) \<and>
     (data_name dd \<and> lookup_node t (S @ [dd]) = Some Dir \<longrightarrow> (\<forall>p. lookup_node t1 (D @ dd # p) = lookup_node t (S @ dd # p))) \<and>
     (\<forall>p. \<not> prefix p D \<and> \<not> prefix p S \<and> \<not> prefix S p \<and> \<not> prefix (D @ [META_FILENAME]) p \<and>
        p \<noteq> D @ [META_BACKUP_FILENAME] \<and> \<not> prefix (D @ [dd]) p \<longrightarrow> lookup_node t1 p = lookup_node t p)"

lemma clear_path_cong:
  assumes "clear_path t D" "\<And>p. prefix p D \<Longrightarrow> p \<noteq> [] \<Longrightarrow> lookup_node t1 p = lookup_node t p"
  shows "clear_path t1 D"
  unfolding clear_path_def
proof (intro allI impI)
  fix i
  assume i: "i < length D"
  then have "take (Suc i) D \<noteq> []" by auto
  then show "lookup_node t1 (take (Suc i) D) \<in> {None, Some Dir}"
    using assms(1) assms(2) [of "take (Suc i) D"] i by (simp add: clear_path_def take_is_prefix)
qed

lemma hd_apart:
  assumes "S \<noteq> []" "D \<noteq> []" "hd S \<noteq> hd D"
  shows "apart S D" "prefix p D \<Longrightarrow> p \<noteq> [] \<Longrightarrow> \<not> prefix p S \<and> \<not> prefix S p"
    "prefix D p \<Longrightarrow> \<not> prefix p S \<and> \<not> prefix S p"
  using assms by (cases S; cases D; cases p; auto simp: apart_def)+

lemma stage_graft_healthy:
  assumes "healthy d" "S \<noteq> []" "D \<noteq> []" "hd S \<noteq> hd D" "promotable (dk_tree d) S D dd"
  obtains a b where "stage_meta S bs d = (Ok (), a)" "graft_data_dir S D dd a = (Ok (), b)" "healthy b" "clear_path (dk_tree b) D"
    "lookup_node (dk_tree b) (S @ [META_FILENAME]) = Some (File bs)"
    "\<And>n. n \<in> {META_FILENAME, META_BACKUP_FILENAME} \<Longrightarrow> lookup_node (dk_tree b) (D @ [n]) = lookup_node (dk_tree d) (D @ [n])"
    "\<And>p. data_name dd \<Longrightarrow> lookup_node (dk_tree d) (S @ [dd]) = Some Dir \<Longrightarrow>
       lookup_node (dk_tree b) (D @ dd # p) = lookup_node (dk_tree d) (S @ dd # p)"
    "\<And>p. \<not> prefix p D \<Longrightarrow> \<not> prefix p S \<Longrightarrow> \<not> prefix S p \<Longrightarrow> \<not> prefix (D @ [dd]) p \<Longrightarrow>
       lookup_node (dk_tree b) p = lookup_node (dk_tree d) p"
proof -
  let ?l = "D @ [META_FILENAME]" and ?b = "D @ [META_BACKUP_FILENAME]"
  note pr = assms(5) [unfolded promotable_def] and hd = hd_apart [OF assms(2-4)]
  have names: "\<not> prefix (D @ [dd]) ?l" "\<not> prefix (D @ [dd]) ?b" "\<not> prefix (S @ [dd]) (S @ [META_FILENAME])"
    using pr by (auto simp: data_name_def META_FILENAME_def META_BACKUP_FILENAME_def)
  have cross: "\<not> prefix (S @ xs) (D @ ys)" "\<not> prefix (D @ ys) (S @ xs)" for xs ys
    using apart_append [OF hd(1), of xs ys] by (simp_all add: apart_def)
  obtain a where a: "stage_meta S bs d = (Ok (), a)" "healthy a" "lookup_node (dk_tree a) (S @ [META_FILENAME]) = Some (File bs)"
    "\<And>p. \<not> prefix p S \<Longrightarrow> p \<noteq> S @ [META_FILENAME] \<Longrightarrow> lookup_node (dk_tree a) p = lookup_node (dk_tree d) p"
    using write_in_dir_healthy [OF assms(1), of S META_FILENAME bs] pr unfolding stage_meta_def by metis
  have outS: "lookup_node (dk_tree a) p = lookup_node (dk_tree d) p" if "\<not> prefix p S" "\<not> prefix S p" for p
    by (rule a(4) [OF that(1)]) (use that(2) in auto)
  have inD: "lookup_node (dk_tree a) p = lookup_node (dk_tree d) p" if "prefix D p \<or> prefix p D \<and> p \<noteq> []" for p
    by (rule outS) (use hd(2,3) [of p] that in auto)
  have cl: "clear_path (dk_tree a) D"
    by (rule clear_path_cong [of "dk_tree d" D]) (use pr in blast, simp add: inD)
  have ndd: "dd = [] \<or> data_name dd \<and> lookup_node (dk_tree a) (D @ [dd]) = None" using pr inD [of "D @ [dd]"] by auto
  obtain b where b: "graft_data_dir S D dd a = (Ok (), b)" "healthy b" "clear_path (dk_tree b) D"
    "\<And>p. \<not> prefix p D \<Longrightarrow> \<not> prefix (S @ [dd]) p \<Longrightarrow> \<not> prefix (D @ [dd]) p \<Longrightarrow>
       lookup_node (dk_tree b) p = lookup_node (dk_tree a) p"
    "\<And>p. data_name dd \<Longrightarrow> lookup_node (dk_tree a) (S @ [dd]) = Some Dir \<Longrightarrow>
       lookup_node (dk_tree b) (D @ dd # p) = lookup_node (dk_tree a) (S @ dd # p)"
    by (rule graft_healthy [OF a(2) cl hd(1) ndd]) (rule that)
  show thesis
  proof (rule that [OF a(1) b(1-3)])
    show "lookup_node (dk_tree b) (S @ [META_FILENAME]) = Some (File bs)"
      using b(4) [of "S @ [META_FILENAME]"] names cross [of "[META_FILENAME]" "[]"] cross(2) [of "[dd]" "[META_FILENAME]"] a(3)
        cross(2) [of "[META_FILENAME]" "[dd]"] by simp
    show "lookup_node (dk_tree b) (D @ [n]) = lookup_node (dk_tree d) (D @ [n])" if "n \<in> {META_FILENAME, META_BACKUP_FILENAME}" for n
      using b(4) [of "D @ [n]"] names cross [of "[dd]" "[n]"] inD [of "D @ [n]"] that by auto
    show "lookup_node (dk_tree b) (D @ dd # p) = lookup_node (dk_tree d) (S @ dd # p)"
      if "data_name dd" "lookup_node (dk_tree d) (S @ [dd]) = Some Dir" for p
      using b(5) [OF that(1), of p] a(4) [of "S @ dd # p"] a(4) [of "S @ [dd]"] that by (simp add: data_name_def)
    show "lookup_node (dk_tree b) p = lookup_node (dk_tree d) p"
      if "\<not> prefix p D" "\<not> prefix p S" "\<not> prefix S p" "\<not> prefix (D @ [dd]) p" for p
      using b(4) [of p] outS [of p] that by (auto dest: append_prefixD)
  qed
qed

lemma backup_healthy:
  assumes "healthy b" "clear_path (dk_tree b) D" "lookup_node (dk_tree b) (D @ [META_BACKUP_FILENAME]) \<noteq> Some Dir"
  obtains c where "(case bk of Some raw \<Rightarrow> write_backup D raw | None \<Rightarrow> ret ()) b = (Ok (), c)" "healthy c" "clear_path (dk_tree c) D"
    "lookup_node (dk_tree c) (D @ [META_BACKUP_FILENAME]) =
       (case bk of Some raw \<Rightarrow> Some (File raw) | None \<Rightarrow> lookup_node (dk_tree b) (D @ [META_BACKUP_FILENAME]))"
    "\<And>p. \<not> prefix p D \<Longrightarrow> p \<noteq> D @ [META_BACKUP_FILENAME] \<Longrightarrow> lookup_node (dk_tree c) p = lookup_node (dk_tree b) p"
proof (cases bk)
  case (Some raw)
  from write_in_dir_healthy [OF assms, of raw] obtain c where c: "write_backup D raw b = (Ok (), c)" "healthy c"
    "lookup_node (dk_tree c) D = Some Dir" "lookup_node (dk_tree c) (D @ [META_BACKUP_FILENAME]) = Some (File raw)"
    "\<And>p. \<not> prefix p D \<Longrightarrow> p \<noteq> D @ [META_BACKUP_FILENAME] \<Longrightarrow> lookup_node (dk_tree c) p = lookup_node (dk_tree b) p"
    unfolding write_backup_def by metis
  have "clear_path (dk_tree c) D" using dir_clear c(2,3) by (simp add: healthy_def)
  with c Some show thesis by (intro that [of c]) simp_all
next
  case None
  with assms show thesis by (intro that [of b]) (simp_all add: ret_def)
qed

lemma promote_healthy:
  assumes "healthy d" "S \<noteq> []" "D \<noteq> []" "hd S \<noteq> hd D" "promotable (dk_tree d) S D dd"
  obtains d1 where "promote_staged S D dd bk bs d = (Ok (), d1)" "healthy d1" "promoted_tree S D dd bk bs (dk_tree d) (dk_tree d1)"
proof -
  let ?l = "D @ [META_FILENAME]" and ?b = "D @ [META_BACKUP_FILENAME]"
  note pr = assms(5) [unfolded promotable_def] and hd = hd_apart [OF assms(2-4)]
  have cross: "\<not> prefix (S @ xs) (D @ ys)" "\<not> prefix (D @ ys) (S @ xs)" for xs ys
    using apart_append [OF hd(1), of xs ys] by (simp_all add: apart_def)
  obtain a b where b: "stage_meta S bs d = (Ok (), a)" "graft_data_dir S D dd a = (Ok (), b)" "healthy b" "clear_path (dk_tree b) D"
    "lookup_node (dk_tree b) (S @ [META_FILENAME]) = Some (File bs)"
    "\<And>n. n \<in> {META_FILENAME, META_BACKUP_FILENAME} \<Longrightarrow> lookup_node (dk_tree b) (D @ [n]) = lookup_node (dk_tree d) (D @ [n])"
    "\<And>p. data_name dd \<Longrightarrow> lookup_node (dk_tree d) (S @ [dd]) = Some Dir \<Longrightarrow>
       lookup_node (dk_tree b) (D @ dd # p) = lookup_node (dk_tree d) (S @ dd # p)"
    "\<And>p. \<not> prefix p D \<Longrightarrow> \<not> prefix p S \<Longrightarrow> \<not> prefix S p \<Longrightarrow> \<not> prefix (D @ [dd]) p \<Longrightarrow>
       lookup_node (dk_tree b) p = lookup_node (dk_tree d) p"
    by (rule stage_graft_healthy [OF assms, of bs]) (rule that)
  have "lookup_node (dk_tree b) ?b \<noteq> Some Dir" using b(6) pr by simp
  then obtain c where c: "(case bk of Some raw \<Rightarrow> write_backup D raw | None \<Rightarrow> ret ()) b = (Ok (), c)" "healthy c" "clear_path (dk_tree c) D"
    "lookup_node (dk_tree c) ?b = (case bk of Some raw \<Rightarrow> Some (File raw) | None \<Rightarrow> lookup_node (dk_tree b) ?b)"
    "\<And>p. \<not> prefix p D \<Longrightarrow> p \<noteq> ?b \<Longrightarrow> lookup_node (dk_tree c) p = lookup_node (dk_tree b) p"
    by (rule backup_healthy [OF b(3,4)]) (rule that)
  have cm: "lookup_node (dk_tree c) (S @ [META_FILENAME]) = Some (File bs)" "lookup_node (dk_tree c) ?l \<noteq> Some Dir"
    using c(5) [of "S @ [META_FILENAME]"] c(5) [of ?l] b(5,6) pr cross(1) [of "[META_FILENAME]" "[]"]
      cross(1) [of "[META_FILENAME]" "[META_BACKUP_FILENAME]"] file_names by auto
  obtain d1 where d1: "commit_meta S D c = (Ok (), d1)" "healthy d1" "lookup_node (dk_tree d1) ?l = Some (File bs)"
    "\<And>p. \<not> prefix p D \<Longrightarrow> \<not> prefix S p \<Longrightarrow> \<not> prefix ?l p \<Longrightarrow> lookup_node (dk_tree d1) p = lookup_node (dk_tree c) p"
    by (rule commit_healthy [OF c(2,3) hd(1) cm]) (rule that)
  have run: "promote_staged S D dd bk bs d = (Ok (), d1)"
    using b(1,2) c(1) d1(1) by (simp add: promote_staged_def then_do_def)
  have "lookup_node (dk_tree d1) ?b = (case bk of Some raw \<Rightarrow> Some (File raw) | None \<Rightarrow> lookup_node (dk_tree d) ?b)"
    using d1(4) [of ?b] c(4) b(6) cross(1) [of "[]" "[META_BACKUP_FILENAME]"] file_names by (simp split: option.splits)
  moreover have "lookup_node (dk_tree d1) (D @ dd # p) = lookup_node (dk_tree d) (S @ dd # p)"
    if "data_name dd" "lookup_node (dk_tree d) (S @ [dd]) = Some Dir" for p
    using b(7) [OF that, of p] c(5) [of "D @ dd # p"] d1(4) [of "D @ dd # p"] cross(1) [of "[]" "dd # p"] that(1)
    by (auto simp: data_name_def)
  moreover have "lookup_node (dk_tree d1) p = lookup_node (dk_tree d) p"
    if "\<not> prefix p D" "\<not> prefix p S" "\<not> prefix S p" "\<not> prefix ?l p" "p \<noteq> ?b" "\<not> prefix (D @ [dd]) p" for p
    using that d1(4) [of p] c(5) [of p] b(8) [of p] by simp
  ultimately have "promoted_tree S D dd bk bs (dk_tree d) (dk_tree d1)"
    using d1(3) unfolding promoted_tree_def by blast
  with run d1(2) show thesis by (rule that)
qed

lemma walk_err_clear:
  "(\<And>i. i < length xs \<Longrightarrow> lookup_node t (q @ take i xs) \<in> {None, Some Dir}) \<Longrightarrow> walk_err t q xs \<in> {None, Some ENOENT}"
proof (induction xs arbitrary: q)
  case (Cons x xs)
  have "lookup_node t q \<in> {None, Some Dir}" using Cons.prems [of 0] by simp
  moreover have "walk_err t (q @ [x]) xs \<in> {None, Some ENOENT}"
    by (rule Cons.IH) (use Cons.prems [of "Suc i" for i] in simp)
  ultimately show ?case by auto
qed simp

lemma stat_missing:
  assumes "clear_path t D" "lookup_node t (D @ [x]) = None"
  shows "stat t (D @ [x]) = Err ENOENT"
proof -
  have "lookup_node t ([] @ take i (D @ [x])) \<in> {None, Some Dir}" if "i < length (D @ [x])" for i
  proof (cases i)
    case (Suc j)
    then show ?thesis using assms(1) that by (auto simp: clear_path_def)
  qed simp
  from walk_err_clear [OF this] assms(2) show ?thesis by (auto simp: stat_def)
qed

lemma require_vol_healthy:
  assumes "healthy d" "lookup_node (dk_tree d) (vol_path v) = Some Dir" "\<not> is_system_vol v"
  shows "require_vol v d = (Ok (), d\<lparr>dk_calls := Suc (dk_calls d)\<rparr>)"
proof -
  have "stat (dk_tree d) (vol_path v) = Ok Dir" using assms(1,2) by (simp add: stat_Ok_iff healthy_def)
  with assms show ?thesis by (simp add: require_vol_def try_do_def fs_stat_healthy ret_def)
qed

lemma live_versions_healthy:
  assumes "healthy d" "clear_path (dk_tree d) (file_path v p)" "lookup_node (dk_tree d) (meta_path v p) \<noteq> Some Dir"
    and "versions_at mc (dk_tree d) (meta_path v p) = Some rs"
  shows "live_versions mc v p d = (Ok (file_at (dk_tree d) (meta_path v p), rs), d\<lparr>dk_calls := Suc (dk_calls d)\<rparr>)"
proof (cases "file_at (dk_tree d) (meta_path v p)")
  case None
  then have "lookup_node (dk_tree d) (meta_path v p) = None"
    using assms(3) by (auto simp: file_at_def split: option.splits node.splits)
  then have "read_file_at (dk_tree d) (meta_path v p) = Err ENOENT"
    using stat_missing [OF assms(2)] by (simp add: read_file_at_def meta_path_def)
  with None assms(1,4) show ?thesis
    by (simp add: live_versions_def try_do_def fs_read_def query_def sys_healthy ret_def versions_at_def)
next
  case (Some raw)
  then have "read_file_at (dk_tree d) (meta_path v p) = Ok raw" using assms(1) by (simp add: read_file_at_Ok healthy_def)
  moreover have "decode_all (mc_from_slice mc) (mc_xxh64 mc) raw = Ok rs"
    using Some assms(4) by (auto simp: versions_at_def split: sum.splits)
  ultimately show ?thesis
    using Some assms(1) by (simp add: live_versions_def try_do_def fs_read_def query_def sys_healthy of_result_def)
qed

lemma rename_data_healthy:
  assumes "healthy d" "is_system_vol sv" "plain_name dv" "\<not> is_system_vol dv" "lookup_node (dk_tree d) [dv] = Some Dir"
    and "promotable (dk_tree d) (file_path sv sp) (file_path dv dp) (fi_data_dir fi)"
    and "versions_at mc (dk_tree d) (meta_path dv dp) = Some existing"
    and "encode_versions (mc_to_vec mc) (mc_xxh64 mc) (merge_versions dv dp fi existing) = Some (Ok enc)"
  obtains resp d1 where "rename_data mc sv sp fi dv dp d = Some (Ok resp, d1)" "healthy d1" "dk_names d1 = dk_names d"
    "promoted_tree (file_path sv sp) (file_path dv dp) (fi_data_dir fi)
       (if list_ex (\<lambda>r. dr_version_id r = fi_version_id fi) existing then file_at (dk_tree d) (meta_path dv dp) else None)
       (encoded_to_vec enc) (dk_tree d) (dk_tree d1)"
proof -
  let ?S = "file_path sv sp" and ?D = "file_path dv dp"
  let ?bk = "if list_ex (\<lambda>r. dr_version_id r = fi_version_id fi) existing then file_at (dk_tree d) (meta_path dv dp) else None"
  let ?d0 = "d\<lparr>dk_calls := Suc (Suc (dk_calls d))\<rparr>"
  have "vol_path dv = [dv]" using assms(3) by (simp add: vol_path_def segs_plain)
  then have "require_vol dv d = (Ok (), d\<lparr>dk_calls := Suc (dk_calls d)\<rparr>)" using assms by (simp add: require_vol_healthy)
  moreover have "live_versions mc dv dp (d\<lparr>dk_calls := Suc (dk_calls d)\<rparr>) = (Ok (file_at (dk_tree d) (meta_path dv dp), existing), ?d0)"
    using live_versions_healthy [of "d\<lparr>dk_calls := Suc (dk_calls d)\<rparr>" dv dp mc existing] assms(1,6,7)
    by (simp add: promotable_def meta_path_def)
  ultimately have pre: "then_do (require_vol dv) (\<lambda>_. live_versions mc dv dp) d = (Ok (file_at (dk_tree d) (meta_path dv dp), existing), ?d0)"
    by (simp add: then_do_def)
  have vols: "?S \<noteq> []" "?D \<noteq> []" "hd ?S \<noteq> hd ?D"
    using system_plain [OF assms(2)] assms(2-4) by (auto simp: file_path_def vol_path_def segs_plain)
  have h0: "healthy ?d0" "promotable (dk_tree ?d0) ?S ?D (fi_data_dir fi)" using assms(1,6) by simp_all
  obtain d1 where d1: "promote_staged ?S ?D (fi_data_dir fi) ?bk (encoded_to_vec enc) ?d0 = (Ok (), d1)" "healthy d1"
    "promoted_tree ?S ?D (fi_data_dir fi) ?bk (encoded_to_vec enc) (dk_tree ?d0) (dk_tree d1)"
    by (rule promote_healthy [OF h0(1) vols h0(2)]) (rule that)
  have vec: "xl_meta_vectored enc = encoded_to_vec enc" by (simp add: xl_meta_vectored_def encoded_to_vec_def)
  obtain resp where "rename_data mc sv sp fi dv dp d = Some (Ok resp, d1)"
    using assms(2,8) pre d1(1) by (simp add: rename_data_def then_do_def of_result_def ret_def vec)
  moreover have "dk_names d1 = dk_names d" using promote_staged_frame [OF d1(1)] by (simp add: frame_def)
  ultimately show thesis using that d1(2,3) by simp
qed

subsection \<open>Undoing a promotion\<close>

abbreviation undo :: delete_options where
  "undo \<equiv> \<lparr>do_force_del_marker = False, do_undo_write = True\<rparr>"

lemma keeps_move_to_trash:
  assumes "\<And>q. prefix p q \<or> prefix [TRASH_DIRNAME] q \<Longrightarrow> A q"
  shows "keeps (frame A) (move_to_trash p)"
  unfolding keeps_def
proof
  fix d
  have "prefix [TRASH_DIRNAME] q" if "prefix [TRASH_DIRNAME, fresh_name d] q" for q
    using that by (auto simp: prefix_def)
  then have "keeps (frame A) (fs_rename p [TRASH_DIRNAME, fresh_name d])" using assms by (intro keeps_rename) blast
  then show "frame A d (snd (move_to_trash p d))" by (simp add: keeps_def move_to_trash_def)
qed

lemma undo_restores:
  assumes "healthy d" "lookup_node (dk_tree d) (D @ [META_BACKUP_FILENAME]) = Some (File raw)"
    and "lookup_node (dk_tree d) (D @ [META_FILENAME]) \<noteq> Some Dir"
    and "D = file_path v p" "D \<noteq> []" "hd D \<noteq> TRASH_DIRNAME" "fi_data_dir fi = [] \<or> data_name (fi_data_dir fi)"
  obtains d2 where "delete_version mc v p fi undo d = (Ok (), d2)" "file_at (dk_tree d2) (D @ [META_FILENAME]) = Some raw"
proof -
  let ?l = "D @ [META_FILENAME]" and ?b = "D @ [META_BACKUP_FILENAME]" and ?dd = "fi_data_dir fi"
  have wf: "wf_tree (dk_tree d)" using assms(1) by (simp add: healthy_def)
  have D: "lookup_node (dk_tree d) D = Some Dir" using wf_prefix_Dir [OF wf, of D "[META_BACKUP_FILENAME]"] assms(2) by simp
  obtain a where a: "fs_rename ?b ?l d = (Ok (), a)" "healthy a" "dk_tree a = move_tree ?b ?l (dk_tree d)"
    by (rule rename_healthy [OF assms(1,2), of ?l]) (use D assms(3) file_names in \<open>auto\<close>)
  have look: "lookup_node (dk_tree a) q = (if prefix ?l q then lookup_node (dk_tree d) (?b @ drop (length ?l) q)
      else if prefix ?b q then None else lookup_node (dk_tree d) q)" for q
    unfolding a(3) using lookup_move_tree [of ?b ?l "dk_tree d" q] file_names by auto
  have live: "file_at (dk_tree a) ?l = Some raw" using look [of ?l] assms(2) by (simp add: file_at_def)
  have "lookup_node (dk_tree a) D = Some Dir" using look [of D] D by auto
  note sync = fsync_dir_healthy [OF a(2) this]
  let ?a1 = "a\<lparr>dk_calls := Suc (Suc (Suc (dk_calls a)))\<rparr>"
  show thesis
  proof (cases "?dd = []")
    case True
    then have "delete_version mc v p fi undo d = (Ok (), ?a1)"
      using a(1) sync assms(4) by (simp add: delete_version_def Let_def try_do_def then_do_def ret_def)
    then show thesis using that live by simp
  next
    case False
    then have dd: "segs ?dd = [?dd]" "?dd \<noteq> META_FILENAME" using assms(7) by (auto simp: data_name_def segs_plain)
    obtain r d2 where tr: "move_to_trash (D @ [?dd]) ?a1 = (r, d2)" by fastforce
    have "keeps (frame (\<lambda>q. prefix (D @ [?dd]) q \<or> prefix [TRASH_DIRNAME] q)) (move_to_trash (D @ [?dd]))"
      by (rule keeps_move_to_trash)
    from frame_file [OF keepsD [OF this tr], of ?l] have "file_at (dk_tree d2) ?l = Some raw"
      using live a(2) dd(2) assms(5,6) by (cases D) (simp_all add: healthy_def)
    moreover have "delete_version mc v p fi undo d = (Ok (), d2)"
      using a(1) sync assms(4) False dd(1) tr by (simp add: delete_version_def Let_def try_do_def then_do_def ret_def)
    ultimately show thesis using that by blast
  qed
qed

text \<open>
  C28: the undo of an overwrite restores the metadata. When a promotion replaces a version of the same
  identifier and reports success on a drive without faults, \<open>delete_version\<close> with \<open>undo_write\<close>
  succeeds, and the live metadata is byte for byte what it was before the promotion.
\<close>

theorem undo_of_overwrite_restores:
  assumes "healthy d" "rename_data mc src_volume src_path fi dst_volume dst_path d = Some (Ok resp, d1)"
    and "versions_at mc (dk_tree d) (meta_path dst_volume dst_path) = Some existing"
    and "list_ex (\<lambda>r. dr_version_id r = fi_version_id fi) existing"
    and "plain_name dst_volume" "dst_volume \<noteq> src_volume" "dst_volume \<noteq> TRASH_DIRNAME"
    and "fi_data_dir fi = [] \<or> data_name (fi_data_dir fi)"
  shows "\<exists>d2. delete_version mc dst_volume dst_path fi undo d1 = (Ok (), d2) \<and>
    file_at (dk_tree d2) (meta_path dst_volume dst_path) = file_at (dk_tree d) (meta_path dst_volume dst_path) \<and>
    file_at (dk_tree d2) (meta_path dst_volume dst_path) \<noteq> None"
proof -
  have wf: "wf_tree (dk_tree d)" using assms(1) by (simp add: healthy_def)
  let ?S = "file_path src_volume src_path" and ?D = "file_path dst_volume dst_path"
  obtain raw where raw: "file_at (dk_tree d) (meta_path dst_volume dst_path) = Some raw"
    using assms(3,4) by (cases "file_at (dk_tree d) (meta_path dst_volume dst_path)") (auto simp: versions_at_def)
  from assms(2) wf show ?thesis
  proof (cases rule: rename_data_cases)
    case (promoted a ex enc r0)
    then have "ex = existing" using assms(3) by simp
    with promoted(5,6) assms(4) raw
    have pr: "promote_staged ?S ?D (fi_data_dir fi) (Some raw) (xl_meta_vectored enc) a = (Ok (), d1)"
      by (cases r0) auto
    have ap: "apart ?S ?D" using volumes_apart system_plain promoted(1) assms(5,6) by metis
    note wfa = frame_wf [OF promoted(2) wf]
    have "healthy d1"
      using frame_healthy [OF promote_staged_frame [OF pr] frame_healthy [OF promoted(2) assms(1)]] .
    moreover have "lookup_node (dk_tree d1) (?D @ [META_BACKUP_FILENAME]) = Some (File raw)"
      using promote_staged_backup [OF pr wfa ap] by (simp add: file_at_Some)
    moreover have "lookup_node (dk_tree d1) (?D @ [META_FILENAME]) \<noteq> Some Dir"
      using promote_staged_live [OF pr wfa ap assms(8)] by (auto simp: file_at_def)
    moreover have "?D \<noteq> []" "hd ?D \<noteq> TRASH_DIRNAME"
      using assms(5,7) by (simp_all add: file_path_def vol_path_def segs_plain)
    ultimately obtain d2 where "delete_version mc dst_volume dst_path fi undo d1 = (Ok (), d2)"
      "file_at (dk_tree d2) (?D @ [META_FILENAME]) = Some raw"
      using undo_restores [OF _ _ _ refl _ _ assms(8)] by metis
    then show ?thesis using raw by (auto simp: meta_path_def)
  qed simp
qed

lemma undo_removes:
  assumes "healthy d" "D = file_path v p" "plain_name v" "\<not> is_system_vol v" "v \<noteq> TRASH_DIRNAME"
    and "lookup_node (dk_tree d) D = Some Dir" "lookup_node (dk_tree d) (D @ [META_BACKUP_FILENAME]) = None"
    and "lookup_node (dk_tree d) [TRASH_DIRNAME] = Some Dir" "\<And>k. lookup_node (dk_tree d) [TRASH_DIRNAME, dk_names d k] = None"
  obtains d2 where "delete_version mc v p fi undo d = (Ok (), d2)" "\<And>q. prefix D q \<Longrightarrow> file_at (dk_tree d2) q = None"
proof -
  let ?l = "D @ [META_FILENAME]" and ?b = "D @ [META_BACKUP_FILENAME]"
  have D: "D = v # segs p" using assms(2,3) by (simp add: file_path_def vol_path_def segs_plain)
  have wf: "wf_tree (dk_tree d)" using assms(1) by (simp add: healthy_def)
  have "stat (dk_tree d) ?b = Err ENOENT" by (rule stat_missing [OF dir_clear [OF wf assms(6)] assms(7)])
  then have rn: "fs_rename ?b ?l d = (Err ENOENT, d\<lparr>dk_calls := Suc (dk_calls d)\<rparr>)"
    by (simp add: fs_rename_def sys_healthy [OF assms(1)] rename_at_def)
  let ?a = "d\<lparr>dk_calls := Suc (Suc (Suc (dk_calls d)))\<rparr>"
  let ?slot = "[TRASH_DIRNAME, fresh_name ?a]"
  have vol: "lookup_node (dk_tree d) (vol_path v) = Some Dir"
    using wf_prefix_Dir [OF wf, of "[v]" "segs p"] assms(3,6) D by (cases "segs p") (simp_all add: vol_path_def segs_plain)
  have ha: "healthy ?a" using assms(1) by simp
  have slot: "lookup_node (dk_tree ?a) ?slot = None" using assms(9) by (simp add: fresh_name_def)
  obtain d2 where d2: "fs_rename D ?slot ?a = (Ok (), d2)" "dk_tree d2 = move_tree D ?slot (dk_tree d)"
    by (rule rename_healthy [OF ha, of D Dir ?slot]) (use assms(5,6,8) slot D that in auto)
  have st: "stat (dk_tree d) D = Ok Dir" using assms(6) wf by (simp add: stat_Ok_iff)
  have "delete_path v p True (d\<lparr>dk_calls := Suc (dk_calls d)\<rparr>) = (Ok (), d2)"
    using require_vol_healthy [of "d\<lparr>dk_calls := Suc (dk_calls d)\<rparr>" v] assms(1,2,4) vol st d2(1)
    by (simp add: delete_path_def Let_def then_do_def map_err_do_def fs_stat_healthy move_to_trash_def)
  then have run: "delete_version mc v p fi undo d = (Ok (), d2)"
    using rn assms(2) by (simp add: delete_version_def Let_def try_do_def)
  have "file_at (dk_tree d2) q = None" if "prefix D q" for q
  proof -
    have "\<not> prefix ?slot q" using that assms(5) D by (cases q) auto
    with lookup_move_tree [of D ?slot "dk_tree d" q] that assms(5) D show ?thesis by (simp add: d2(2) file_at_def)
  qed
  with run show thesis by (rule that)
qed


subsection \<open>A drive with one object\<close>

text \<open>
  The drive holds the object \<^verbatim>\<open>k\<close> of the bucket \<^verbatim>\<open>b\<close> with one inline version; the example promotes a
  second version, and a replacement of the first. The codec knows just the bodies that occur.
\<close>

definition old_version :: file_info where
  "old_version = xl_example 5 [[1, 2, 3]]"

definition new_version :: file_info where
  "new_version = (xl_example 7 [[4, 5]])\<lparr>fi_version_id := format_version_id_bytes (replicate 16 1)\<rparr>"

definition replacement :: file_info where
  "replacement = xl_example 7 [[4, 5]]"

definition records_of :: "(file_info \<times> nat \<times> nat) list \<Rightarrow> on_disk_meta" where
  "records_of xs = (case encode_records xs of Some (Inr rs) \<Rightarrow> \<lparr>od_versions = rs\<rparr> | _ \<Rightarrow> \<lparr>od_versions = []\<rparr>)"

definition ex_bodies :: "(byte list \<times> on_disk_meta) list" where
  "ex_bodies = [([8], records_of [(old_version, 0, 3)]), ([9], records_of [(new_version, 0, 2), (old_version, 2, 3)]),
     ([7], records_of [(replacement, 0, 2)])]"

definition ex_codec :: meta_codec where
  "ex_codec = \<lparr>mc_to_vec = (\<lambda>od. case find (\<lambda>e. snd e = od) ex_bodies of Some e \<Rightarrow> Ok (fst e) | None \<Rightarrow> Err ''unsupported''),
     mc_from_slice = (\<lambda>bs. case map_of ex_bodies bs of Some od \<Rightarrow> Ok od | None \<Rightarrow> Err ''bad body''),
     mc_xxh64 = (\<lambda>bs. word_of_nat (length bs))\<rparr>"

definition ex_drive :: disk where
  "ex_drive = \<lparr>dk_tree = [([''b''], Dir), ([''b'', ''k''], Dir),
       ([''b'', ''k'', META_FILENAME], File (xl_head (mc_xxh64 ex_codec) [8] @ [1, 2, 3])),
       ([STAGING_VOL], Dir), ([TRASH_DIRNAME], Dir)],
     dk_calls = 0, dk_faults = (\<lambda>_. None), dk_names = show_nat\<rparr>"

lemma xl_example_fields [simp]:
  "fi_version_id (xl_example t frames) = ''null''" "fi_data_dir (xl_example t frames) = []" "fi_deleted (xl_example t frames) = False"
  "fi_mod_time_ms (xl_example t frames) = t" "fi_size (xl_example t frames) = int (length (concat frames))"
  "fi_metadata (xl_example t frames) = []" "fi_meta_sys (xl_example t frames) = []"
  "fi_data (xl_example t frames) = Some frames"
  by (simp_all add: xl_example_def file_info_default_def)

lemma parse_null: "parse_uuid_bytes ''null'' f = Some (Ok (replicate 16 0))" "parse_uuid_bytes [] f = Some (Ok (replicate 16 0))"
  by (simp_all add: parse_uuid_bytes_def NULL_VERSION_ID_def)

lemma ex_encode_record:
  "encode_record new_version l = Some (Ok \<lparr>vr_version_id = replicate 16 1, vr_ty = 0, vr_mod_time = 7, vr_data_dir = replicate 16 0,
     vr_size = 2, vr_erasure = encode_erasure (fi_erasure new_version), vr_parts = map encode_part (fi_parts new_version),
     vr_metadata = [], vr_meta_sys = [], vr_inline_offset = fst l, vr_inline_length = snd l\<rparr>)"
  "encode_record replacement l = Some (Ok \<lparr>vr_version_id = replicate 16 0, vr_ty = 0, vr_mod_time = 7, vr_data_dir = replicate 16 0,
     vr_size = 2, vr_erasure = encode_erasure (fi_erasure replacement), vr_parts = map encode_part (fi_parts replacement),
     vr_metadata = [], vr_meta_sys = [], vr_inline_offset = fst l, vr_inline_length = snd l\<rparr>)"
  "encode_record old_version l = Some (Ok \<lparr>vr_version_id = replicate 16 0, vr_ty = 0, vr_mod_time = 5, vr_data_dir = replicate 16 0,
     vr_size = 3, vr_erasure = encode_erasure (fi_erasure old_version), vr_parts = map encode_part (fi_parts old_version),
     vr_metadata = [], vr_meta_sys = [], vr_inline_offset = fst l, vr_inline_length = snd l\<rparr>)"
  by (simp_all add: encode_record_def new_version_def replacement_def old_version_def parse_format_version_id
      parse_null)

lemma ex_codec_ok: "codec_ok ex_codec"
proof -
  have "typed_record v" if "(bs, od) \<in> set ex_bodies" "v \<in> set (od_versions od)" for bs od v
    using that by (auto simp: ex_bodies_def records_of_def ex_encode_record typed_record_def split: if_splits)
  then have "\<forall>body od. mc_from_slice ex_codec body = Ok od \<longrightarrow> (\<forall>v \<in> set (od_versions od). typed_record v)"
    by (auto simp: ex_codec_def split: option.splits dest: map_of_SomeD)
  moreover have "mc_from_slice ex_codec body = Ok od" if "mc_to_vec ex_codec od = Ok body" for od body
    using that by (auto simp: ex_codec_def ex_bodies_def split: option.splits if_splits)
  ultimately show ?thesis by (simp add: codec_ok_def)
qed

lemma ex_valid: "validate_for_encode old_version = Ok ()" "validate_for_encode new_version = Ok ()" "validate_for_encode replacement = Ok ()"
  unfolding validate_for_encode_Ok
  by (simp_all add: old_version_def new_version_def replacement_def xl_example_def has_inline_def frame_total_def erasure_ok_def
      file_info_default_def)

lemma ex_canonical: "canonical_ids old_version" "canonical_ids new_version" "canonical_ids replacement"
proof -
  have example: "canonical_ids (xl_example t frames)" for t frames
    using xl_pair_canonical by (simp add: canonical_ids_def)
  then show "canonical_ids old_version" "canonical_ids replacement" by (simp_all add: old_version_def replacement_def)
  have "\<exists>b. length b = 16 \<and> format_version_id_bytes (replicate 16 1) = format_version_id_bytes b"
    by (rule exI [of _ "replicate 16 1"]) simp
  with example [of 7 "[[4, 5]]"] show "canonical_ids new_version"
    by (simp add: canonical_ids_def new_version_def)
qed

text \<open>The version read back from the drive differs from the version written in its volume, path and counters only.\<close>

lemma ex_frames:
  "inline_frames old_version = [[1, 2, 3]]" "inline_frames new_version = [[4, 5]]" "inline_frames replacement = [[4, 5]]"
  "inline_bytes old_version = [1, 2, 3]"
  by (simp_all add: old_version_def new_version_def replacement_def inline_frames_def inline_bytes_def)

lemma ex_read_back:
  "encode_record (file_info_from_record (stored 1 old_version) v p) l = encode_record old_version l"
  "validate_for_encode (file_info_from_record (stored 1 old_version) v p) = Ok ()"
  "inline_frames (file_info_from_record (stored 1 old_version) v p) = [[1, 2, 3]]"
  "fi_mod_time_ms (file_info_from_record (stored 1 old_version) v p) = 5"
proof -
  show "encode_record (file_info_from_record (stored 1 old_version) v p) l = encode_record old_version l"
    by (simp add: file_info_from_record_def stored_def encode_record_def split del: if_split cong: option.case_cong sum.case_cong)
  show "validate_for_encode (file_info_from_record (stored 1 old_version) v p) = Ok ()"
    unfolding validate_for_encode_Ok
    by (simp add: file_info_from_record_def stored_def ex_frames)
      (simp add: old_version_def xl_example_def has_inline_def frame_total_def erasure_ok_def file_info_default_def)
  show "inline_frames (file_info_from_record (stored 1 old_version) v p) = [[1, 2, 3]]"
    "fi_mod_time_ms (file_info_from_record (stored 1 old_version) v p) = 5"
    by (simp_all add: file_info_from_record_def stored_def ex_frames) (simp_all add: inline_frames_def old_version_def)
qed

lemma ex_encodes_old:
  "encode_versions (mc_to_vec ex_codec) (mc_xxh64 ex_codec) [old_version] =
     Some (Ok \<lparr>ex_head = xl_head (mc_xxh64 ex_codec) [8], ex_tail = [[1, 2, 3]]\<rparr>)"
  by (simp add: encode_versions_def ex_valid ex_frames Let_def ex_encode_record)
    (simp add: ex_codec_def ex_bodies_def records_of_def ex_encode_record)

lemma ex_new_id: "''null'' \<noteq> format_version_id_bytes (replicate 16 1)"
  using parse_null(1) [of "[]"] parse_format_version_id [of "replicate 16 1" "[]"] by auto

lemma ex_encodes_new:
  "encode_versions (mc_to_vec ex_codec) (mc_xxh64 ex_codec) (merge_versions ''b'' ''k'' new_version [stored 1 old_version]) =
     Some (Ok \<lparr>ex_head = xl_head (mc_xxh64 ex_codec) [9], ex_tail = [[4, 5], [1, 2, 3]]\<rparr>)"
proof -
  let ?old = "file_info_from_record (stored 1 old_version) ''b'' ''k''"
  have "merge_versions ''b'' ''k'' new_version [stored 1 old_version] = [new_version, ?old]"
    using ex_new_id by (simp add: merge_versions_def ex_read_back(4)) (simp add: stored_def old_version_def new_version_def)
  then show ?thesis
    by (simp add: encode_versions_def ex_valid ex_frames ex_read_back Let_def ex_encode_record)
      (simp add: ex_codec_def ex_bodies_def records_of_def ex_encode_record)
qed

lemma ex_encodes_replacement:
  "encode_versions (mc_to_vec ex_codec) (mc_xxh64 ex_codec) (merge_versions ''b'' ''k'' replacement [stored 1 old_version]) =
     Some (Ok \<lparr>ex_head = xl_head (mc_xxh64 ex_codec) [7], ex_tail = [[4, 5]]\<rparr>)"
proof -
  have "merge_versions ''b'' ''k'' replacement [stored 1 old_version] = [replacement]"
    by (simp add: merge_versions_def stored_def old_version_def replacement_def)
  then show ?thesis
    by (simp add: encode_versions_def ex_valid ex_frames ex_read_back Let_def ex_encode_record)
      (simp add: ex_codec_def ex_bodies_def records_of_def ex_encode_record)
qed

lemma wf_treeI:
  assumes "list_all (\<lambda>e. fst e = [] \<or> lookup_node t (butlast (fst e)) = Some Dir) t"
  shows "wf_tree t"
  unfolding wf_tree_def
proof (intro allI impI)
  fix p x
  assume "lookup_node t (p @ [x]) \<noteq> None"
  then obtain n where "map_of t (p @ [x]) = Some n" by (auto simp: lookup_node_def)
  then have "(p @ [x], n) \<in> set t" by (rule map_of_SomeD)
  with assms show "lookup_node t p = Some Dir" by (force simp: list_all_iff)
qed

lemma ex_healthy: "healthy ex_drive"
  by (simp add: healthy_def wf_treeI ex_drive_def lookup_node_def)

lemma ex_segs: "segs [CHR ''b''] = [''b'']" "segs [CHR ''k''] = [''k'']" "segs [CHR ''t''] = [''t'']" "segs STAGING_VOL = [STAGING_VOL]"
  by (simp_all add: segs_def STAGING_VOL_def)

lemma ex_promotable: "promotable (dk_tree ex_drive) (file_path STAGING_VOL ''t'') (file_path ''b'' ''k'') []"
  by (simp add: promotable_def file_path_def vol_path_def ex_segs ex_drive_def clear_path_def lookup_node_def)

lemma ex_versions: "versions_at ex_codec (dk_tree ex_drive) (meta_path ''b'' ''k'') = Some [stored 1 old_version]"
proof -
  have "file_at (dk_tree ex_drive) (meta_path ''b'' ''k'') = Some (xl_head (mc_xxh64 ex_codec) [8] @ [1, 2, 3])"
    by (simp add: file_at_def meta_path_def file_path_def vol_path_def ex_segs ex_drive_def lookup_node_def)
  moreover have "decode_all (mc_from_slice ex_codec) (mc_xxh64 ex_codec) (xl_head (mc_xxh64 ex_codec) [8] @ [1, 2, 3]) =
      Ok [stored 1 old_version]"
    using encoded_decodes [OF _ ex_encodes_old, of "mc_from_slice ex_codec"] ex_codec_ok ex_canonical
    by (simp add: codec_ok_def encoded_to_vec_def as_i32_def)
  ultimately show ?thesis by (simp add: versions_at_def)
qed

lemmas ex_names = plain_name_def is_system_vol_def TRASH_DIRNAME_def STAGING_VOL_def MULTIPART_VOL_def SYSTEM_BUCKET_def

lemma ex_volumes:
  "is_system_vol STAGING_VOL" "plain_name ''b''" "\<not> is_system_vol ''b''" "''b'' \<noteq> TRASH_DIRNAME" "''b'' \<noteq> STAGING_VOL"
  "lookup_node (dk_tree ex_drive) [''b''] = Some Dir"
  by (simp_all add: ex_names ex_drive_def lookup_node_def)

lemma ex_data_dirs: "fi_data_dir new_version = []" "fi_data_dir replacement = []"
  by (simp_all add: new_version_def replacement_def)

lemma promoted_meta: "promoted_tree S D dd bk bs t t1 \<Longrightarrow> file_at t1 (D @ [META_FILENAME]) = Some bs"
  by (simp add: promoted_tree_def file_at_def)

lemma ex_rename_new:
  obtains resp d1 where "rename_data ex_codec STAGING_VOL ''t'' new_version ''b'' ''k'' ex_drive = Some (Ok resp, d1)" "healthy d1"
    "file_at (dk_tree d1) (meta_path ''b'' ''k'') = Some (xl_head (mc_xxh64 ex_codec) [9] @ [4, 5, 1, 2, 3])"
proof (rule rename_data_healthy [OF ex_healthy ex_volumes(1-3,6) _ ex_versions ex_encodes_new, where sp = "''t''"])
  show "promotable (dk_tree ex_drive) (file_path STAGING_VOL ''t'') (file_path ''b'' ''k'') (fi_data_dir new_version)"
    using ex_promotable by (simp add: ex_data_dirs)
qed (rule that, assumption, assumption, drule promoted_meta, simp add: meta_path_def encoded_to_vec_def)

lemma ex_rename_replacement:
  obtains resp d1 where "rename_data ex_codec STAGING_VOL ''t'' replacement ''b'' ''k'' ex_drive = Some (Ok resp, d1)"
proof (rule rename_data_healthy [OF ex_healthy ex_volumes(1-3,6) _ ex_versions ex_encodes_replacement, where sp = "''t''"])
  show "promotable (dk_tree ex_drive) (file_path STAGING_VOL ''t'') (file_path ''b'' ''k'') (fi_data_dir replacement)"
    using ex_promotable by (simp add: ex_data_dirs)
qed (rule that)

theorem rename_data_atomic_witness:
  "\<exists>resp d1. rename_data ex_codec STAGING_VOL ''t'' new_version ''b'' ''k'' ex_drive = Some (Ok resp, d1) \<and> wf_tree (dk_tree d1) \<and>
     file_at (dk_tree d1) (meta_path ''b'' ''k'') = Some (xl_head (mc_xxh64 ex_codec) [9] @ [4, 5, 1, 2, 3])"
proof -
  obtain resp d1 where d1: "rename_data ex_codec STAGING_VOL ''t'' new_version ''b'' ''k'' ex_drive = Some (Ok resp, d1)"
    by (rule ex_rename_new)
  have "wf_tree (dk_tree ex_drive)" using ex_healthy by (simp add: healthy_def)
  from rename_data_atomic [OF this d1 ex_volumes(2,5)] show ?thesis
    using d1 by (simp add: ex_data_dirs ex_versions ex_encodes_new encoded_to_vec_def)
qed

theorem promoted_version_is_read_witness:
  "\<exists>resp d1 n. rename_data ex_codec STAGING_VOL ''t'' new_version ''b'' ''k'' ex_drive = Some (Ok resp, d1) \<and>
     fst (read_version ex_codec ''b'' ''k'' (Some (fi_version_id new_version)) True d1) =
       Ok (file_info_from_record (stored n new_version) ''b'' ''k'')"
proof -
  obtain resp d1 where d1: "rename_data ex_codec STAGING_VOL ''t'' new_version ''b'' ''k'' ex_drive = Some (Ok resp, d1)" "healthy d1"
    "file_at (dk_tree d1) (meta_path ''b'' ''k'') = Some (xl_head (mc_xxh64 ex_codec) [9] @ [4, 5, 1, 2, 3])"
    by (rule ex_rename_new)
  have "wf_tree (dk_tree ex_drive)" "dk_faults d1 = (\<lambda>_. None)" using ex_healthy d1(2) by (simp_all add: healthy_def)
  from promoted_version_is_read [OF ex_codec_ok this(1) d1(1) ex_volumes(2,3) _ ex_canonical(2) _ refl this(2)] show ?thesis
    using d1(1,3) by (auto simp: ex_data_dirs)
qed

theorem undo_of_overwrite_restores_witness:
  "\<exists>resp d1 d2. rename_data ex_codec STAGING_VOL ''t'' replacement ''b'' ''k'' ex_drive = Some (Ok resp, d1) \<and>
     delete_version ex_codec ''b'' ''k'' replacement undo d1 = (Ok (), d2) \<and>
     file_at (dk_tree d2) (meta_path ''b'' ''k'') = file_at (dk_tree ex_drive) (meta_path ''b'' ''k'')"
proof -
  obtain resp d1 where d1: "rename_data ex_codec STAGING_VOL ''t'' replacement ''b'' ''k'' ex_drive = Some (Ok resp, d1)"
    by (rule ex_rename_replacement)
  have "list_ex (\<lambda>r. dr_version_id r = fi_version_id replacement) [stored 1 old_version]"
    by (simp add: stored_def old_version_def replacement_def)
  from undo_of_overwrite_restores [OF ex_healthy d1 ex_versions this ex_volumes(2,5,4)] show ?thesis
    using d1 by (auto simp: ex_data_dirs)
qed


end
