(* ===== verification/Backend.thy ===== *)
theory Backend
  imports Local_Promote Cluster
begin

text \<open>
  The interface between the engine and its drives, \<^verbatim>\<open>StorageBackend\<close> of
  \<^verbatim>\<open>crates/openlake_io/src/backend.rs\<close>, as a record of operations on the state of one drive, with the
  local drive as an instance, and the fan-out of an operation to several drives.

  The futures of a fan-out run concurrently, but each of them acts on its own drive and
  \<^verbatim>\<open>join_all\<close> returns the results in the order of the futures; the model runs them in that order.
  A panic of any of them, \<open>None\<close>, ends the task.
\<close>

subsection \<open>The interface\<close>

type_synonym ('a, 'd) drive_op = "'d \<Rightarrow> ('a, io_error) result \<times> 'd"
type_synonym ('a, 'd) panicking_op = "'d \<Rightarrow> (('a, io_error) result \<times> 'd) option"

record ('d, 'k, 's) backend =
  bk_make_vol :: "string \<Rightarrow> (unit, 'd) drive_op"
  bk_list_vols :: "(string list, 'd) drive_op"
  bk_stat_vol :: "string \<Rightarrow> (string, 'd) drive_op"
  bk_delete_vol :: "string \<Rightarrow> bool \<Rightarrow> (unit, 'd) drive_op"
  bk_list_dir :: "string \<Rightarrow> string \<Rightarrow> nat \<Rightarrow> (string list, 'd) drive_op"
  bk_read_file_stream :: "string \<Rightarrow> string \<Rightarrow> nat \<Rightarrow> nat \<Rightarrow> ('s, 'd) drive_op"
  bk_read :: "'s reader"
  bk_create_file_writer :: "string \<Rightarrow> string \<Rightarrow> nat \<Rightarrow> ('k, 'd) drive_op"
  bk_write_all :: "byte list \<Rightarrow> 'k \<Rightarrow> 'd \<Rightarrow> (unit, io_error) result \<times> 'k \<times> 'd"
  bk_finish :: "'k \<Rightarrow> 'd \<Rightarrow> (unit, io_error) result \<times> 'k \<times> 'd"
  bk_rename_file :: "string \<Rightarrow> string \<Rightarrow> string \<Rightarrow> string \<Rightarrow> (unit, 'd) drive_op"
  bk_check_file :: "string \<Rightarrow> string \<Rightarrow> (unit, 'd) drive_op"
  bk_delete :: "string \<Rightarrow> string \<Rightarrow> bool \<Rightarrow> (unit, 'd) drive_op"
  bk_delete_batch :: "string \<Rightarrow> string list \<Rightarrow> ((unit, io_error) result list, 'd) drive_op"
  bk_write_metadata :: "string \<Rightarrow> string \<Rightarrow> file_info \<Rightarrow> (unit, 'd) panicking_op"
  bk_read_version :: "string \<Rightarrow> string \<Rightarrow> string option \<Rightarrow> bool \<Rightarrow> (file_info, 'd) drive_op"
  bk_walk_dir :: "string \<Rightarrow> string \<Rightarrow> bool \<Rightarrow> string \<Rightarrow> string option \<Rightarrow> nat option \<Rightarrow> ((string \<times> file_info) list, 'd) drive_op"
  bk_update_metadata :: "string \<Rightarrow> string \<Rightarrow> file_info \<Rightarrow> (unit, 'd) panicking_op"
  bk_delete_version :: "string \<Rightarrow> string \<Rightarrow> file_info \<Rightarrow> delete_options \<Rightarrow> (unit, 'd) drive_op"
  bk_rename_data :: "string \<Rightarrow> string \<Rightarrow> file_info \<Rightarrow> string \<Rightarrow> string \<Rightarrow> (rename_data_resp, 'd) panicking_op"
  bk_verify_file :: "string \<Rightarrow> string \<Rightarrow> (unit, 'd) drive_op"
  bk_write_file :: "string \<Rightarrow> string \<Rightarrow> byte list \<Rightarrow> (unit, 'd) drive_op"
  bk_read_file :: "string \<Rightarrow> string \<Rightarrow> (byte list option, 'd) drive_op"
  bk_make_dir_all :: "string \<Rightarrow> string \<Rightarrow> (unit, 'd) drive_op"

text \<open>The local drive; \<open>grant\<close> and \<open>fault\<close> describe the reads of open files.\<close>

definition local_backend :: "meta_codec \<Rightarrow> (nat \<Rightarrow> nat) \<Rightarrow> (nat \<Rightarrow> string option)
    \<Rightarrow> (disk, local_file_sink, local_file_stream) backend" where
  "local_backend mc grant fault =
     \<lparr>bk_make_vol = make_vol, bk_list_vols = list_vols, bk_stat_vol = stat_vol, bk_delete_vol = delete_vol,
      bk_list_dir = list_dir, bk_read_file_stream = read_file_stream grant fault, bk_read = local_read,
      bk_create_file_writer = create_file_writer, bk_write_all = local_write_all, bk_finish = local_finish,
      bk_rename_file = rename_file, bk_check_file = check_file, bk_delete = delete_path,
      bk_delete_batch = delete_batch mc, bk_write_metadata = write_metadata mc, bk_read_version = read_version mc,
      bk_walk_dir = walk_dir mc, bk_update_metadata = update_metadata mc, bk_delete_version = delete_version mc,
      bk_rename_data = rename_data mc, bk_verify_file = verify_file, bk_write_file = write_file,
      bk_read_file = read_file, bk_make_dir_all = make_dir_all\<rparr>"

text \<open>An open sink together with its drive, as the stripe loop writes to it.\<close>

definition drive_write :: "('d, 'k, 's) backend \<Rightarrow> ('k \<times> 'd) writer" where
  "drive_write ops bs kd = (case bk_write_all ops bs (fst kd) (snd kd) of (r, k, d) \<Rightarrow> (r, k, d))"

subsection \<open>Fan-outs\<close>

type_synonym 'd store = "disk_addr \<Rightarrow> 'd"

fun fan_out :: "(disk_addr \<times> ('d \<Rightarrow> 'a \<times> 'd)) list \<Rightarrow> 'd store \<Rightarrow> 'a list \<times> 'd store" where
  "fan_out [] st = ([], st)"
| "fan_out ((a, f) # ops) st =
     (let (x, d) = f (st a); (xs, st1) = fan_out ops (st(a := d)) in (x # xs, st1))"

fun fan_out_panicking :: "(disk_addr \<times> ('d \<Rightarrow> ('a \<times> 'd) option)) list \<Rightarrow> 'd store \<Rightarrow> ('a list \<times> 'd store) option" where
  "fan_out_panicking [] st = Some ([], st)"
| "fan_out_panicking ((a, f) # ops) st =
     (case f (st a) of
        None \<Rightarrow> None
      | Some (x, d) \<Rightarrow> map_option (\<lambda>(xs, st1). (x # xs, st1)) (fan_out_panicking ops (st(a := d))))"

text \<open>What a fan-out to different drives does: every drive sees its own operation only.\<close>

lemma fan_out_panicking_results:
  "distinct (map fst ops) \<Longrightarrow> fan_out_panicking ops st = Some (xs, st1) \<Longrightarrow>
     length xs = length ops \<and> (\<forall>i < length ops. snd (ops ! i) (st (fst (ops ! i))) = Some (xs ! i, st1 (fst (ops ! i)))) \<and>
     (\<forall>a. a \<notin> fst ` set ops \<longrightarrow> st1 a = st a)"
proof (induction ops st arbitrary: xs st1 rule: fan_out_panicking.induct)
  case (2 a f ops st)
  from 2(3) obtain x d ys where x: "f (st a) = Some (x, d)" and ys: "fan_out_panicking ops (st(a := d)) = Some (ys, st1)" "xs = x # ys"
    by (auto split: option.splits)
  note IH = 2(1) [OF x refl _ ys(1)]
  have "fst (ops ! i) \<noteq> a" if "i < length ops" for i using 2(2) that by (auto simp: image_iff)
  with IH 2(2) x ys(2) show ?case by (auto simp: nth_Cons split: nat.splits)
qed simp

lemma fan_out_eq: "fan_out_panicking (map (\<lambda>(a, f). (a, \<lambda>d. Some (f d))) ops) st = Some (fan_out ops st)"
  by (induction ops arbitrary: st) (auto split: prod.splits)

lemma fan_out_results:
  assumes "distinct (map fst ops)" "fan_out ops st = (xs, st1)"
  shows "length xs = length ops" "i < length ops \<Longrightarrow> snd (ops ! i) (st (fst (ops ! i))) = (xs ! i, st1 (fst (ops ! i)))"
    "a \<notin> fst ` set ops \<Longrightarrow> st1 a = st a"
proof -
  have "map fst (map (\<lambda>(a, f). (a, \<lambda>d. Some (f d))) ops) = map fst ops" by auto
  with assms(1) have "distinct (map fst (map (\<lambda>(a, f). (a, \<lambda>d. Some (f d))) ops))" by metis
  note r = fan_out_panicking_results [OF this, of st xs st1, unfolded fan_out_eq assms(2), OF refl]
  show "length xs = length ops" using r by simp
  show "a \<notin> fst ` set ops \<Longrightarrow> st1 a = st a" using r by (force simp: image_iff)
  show "i < length ops \<Longrightarrow> snd (ops ! i) (st (fst (ops ! i))) = (xs ! i, st1 (fst (ops ! i)))"
    using r by (auto simp: split_beta)
qed

lemma fan_out_inv:
  "(\<And>a f d. (a, f) \<in> set ops \<Longrightarrow> P a d \<Longrightarrow> P a (snd (f d))) \<Longrightarrow> (\<And>a. P a (st a)) \<Longrightarrow> P a (snd (fan_out ops st) a)"
proof (induction ops arbitrary: st)
  case (Cons op ops)
  obtain a' f x d where op: "op = (a', f)" "f (st a') = (x, d)" by (cases op) fastforce
  have "P a' d" using Cons.prems(1) [of a' f "st a'"] Cons.prems(2) [of a'] op by simp
  then have "P a (snd (fan_out ops (st(a' := d))) a)" by (intro Cons.IH Cons.prems(1)) (simp_all add: Cons.prems(2))
  with op show ?case by (auto split: prod.splits)
qed simp

end
