(* ===== verification/Consensus.thy ===== *)
theory Consensus
  imports Io_Types
begin

text \<open>
  The votes of \<^verbatim>\<open>crates/openlake_storage/src/engine.rs\<close>: the reduction of a fan-out's results
  to one verdict, the dominant error, the parity, etag and decode-contract votes, and the read
  consensus that combines them.

  A hash map is visited in an order that the code does not control. A parameter of type
  \<open>'k order\<close> gives it: from the distinct keys to the sequence in which they are visited.
  BLAKE3 is the parameter \<open>blake\<close>.
\<close>

subsection \<open>Hash maps of counts\<close>

type_synonym 'k order = "'k list \<Rightarrow> 'k list"

definition is_order :: "'k order \<Rightarrow> bool" where
  "is_order iter \<longleftrightarrow> (\<forall>ks. distinct ks \<longrightarrow> distinct (iter ks) \<and> set (iter ks) = set ks)"

text \<open>\<open>Iterator::max_by_key\<close>: of several maxima the last one.\<close>

fun max_by_key :: "('a \<Rightarrow> nat) \<Rightarrow> 'a list \<Rightarrow> 'a option" where
  "max_by_key f [] = None"
| "max_by_key f (x # xs) =
     (case max_by_key f xs of None \<Rightarrow> Some x | Some y \<Rightarrow> if f y < f x then Some x else Some y)"

definition most_counted :: "'k order \<Rightarrow> 'k list \<Rightarrow> 'k option" where
  "most_counted iter ks = max_by_key (count_list ks) (iter (remdups ks))"

subsection \<open>Errors\<close>

fun error_tag :: "io_error \<Rightarrow> string" where
  "error_tag (FileNotFound _ _) = ''FileNotFound''"
| "error_tag (FileAlreadyExists _ _) = ''FileAlreadyExists''"
| "error_tag (FileVersionNotFound _ _ _) = ''FileVersionNotFound''"
| "error_tag (VolumeNotFound _) = ''VolumeNotFound''"
| "error_tag (VolumeExists _) = ''VolumeExists''"
| "error_tag (VolumeNotEmpty _) = ''VolumeNotEmpty''"
| "error_tag (CorruptMetadata _ _ _) = ''CorruptMetadata''"
| "error_tag (UnsupportedMetadataVersion _ _) = ''UnsupportedMetadataVersion''"
| "error_tag (BitrotCheckFailed _ _) = ''BitrotCheckFailed''"
| "error_tag (InvalidArgument _) = ''InvalidArgument''"
| "error_tag (Unsupported _) = ''Unsupported''"
| "error_tag (Encode _) = ''Encode''"
| "error_tag (Decode _) = ''Decode''"
| "error_tag (Io _ _) = ''Io''"

fun clone_io_error :: "io_error \<Rightarrow> io_error" where
  "clone_io_error (FileNotFound v p) = FileNotFound v p"
| "clone_io_error (FileAlreadyExists v p) = FileAlreadyExists v p"
| "clone_io_error (FileVersionNotFound v p i) = FileVersionNotFound v p i"
| "clone_io_error (VolumeNotFound v) = VolumeNotFound v"
| "clone_io_error (VolumeExists v) = VolumeExists v"
| "clone_io_error (VolumeNotEmpty v) = VolumeNotEmpty v"
| "clone_io_error (CorruptMetadata v p m) = CorruptMetadata v p m"
| "clone_io_error (UnsupportedMetadataVersion f m) = UnsupportedMetadataVersion f m"
| "clone_io_error (BitrotCheckFailed v p) = BitrotCheckFailed v p"
| "clone_io_error (InvalidArgument s) = InvalidArgument s"
| "clone_io_error (Unsupported s) = Unsupported s"
| "clone_io_error (Encode s) = Encode s"
| "clone_io_error (Decode s) = Decode s"
| "clone_io_error (Io k msg) = Io k msg"

fun liveness_noise :: "io_error \<Rightarrow> bool" where
  "liveness_noise (Io k _) = (k = ConnectionRefused \<or> k = TimedOut)"
| "liveness_noise _ = False"

definition dominant_error :: "string order \<Rightarrow> io_error option list \<Rightarrow> nat \<times> io_error option" where
  "dominant_error iter errs =
     (let voters = filter (\<lambda>e. \<not> liveness_noise e) (List.map_filter (\<lambda>e. e) errs);
          tags = map error_tag voters in
      case most_counted iter tags of
        None \<Rightarrow> (0, None)
      | Some t \<Rightarrow> (count_list tags t, map_option clone_io_error (find (\<lambda>e. error_tag e = t) voters)))"

definition map_bucket_or_io :: "string \<Rightarrow> io_error \<Rightarrow> storage_error" where
  "map_bucket_or_io bucket e = (case e of VolumeNotFound _ \<Rightarrow> BucketNotFound bucket | other \<Rightarrow> SIo other)"

definition map_object_missing :: "string \<Rightarrow> string \<Rightarrow> io_error \<Rightarrow> storage_error" where
  "map_object_missing bucket key e =
     (case e of
        FileNotFound _ _ \<Rightarrow> ObjectNotFound bucket key
      | FileVersionNotFound _ _ v \<Rightarrow> VersionNotFound bucket key v
      | VolumeNotFound _ \<Rightarrow> BucketNotFound bucket
      | other \<Rightarrow> SIo other)"

text \<open>
  \<open>require_quorum\<close> counts successes and groups the other errors by their variant; \<open>err_buckets\<close>
  is the vector of groups, with the first error of each.
\<close>

fun add_bucket :: "io_error \<Rightarrow> (string \<times> nat \<times> io_error) list \<Rightarrow> (string \<times> nat \<times> io_error) list" where
  "add_bucket e [] = [(error_tag e, 1, e)]"
| "add_bucket e ((d, c, x) # bs) =
     (if d = error_tag e then (d, c + 1, x) # bs else (d, c, x) # add_bucket e bs)"

fun quorum_scan :: "(io_error \<Rightarrow> bool) \<Rightarrow> nat \<Rightarrow> (string \<times> nat \<times> io_error) list \<Rightarrow> ('a, io_error) result list
    \<Rightarrow> nat \<times> (string \<times> nat \<times> io_error) list" where
  "quorum_scan benign ok bs [] = (ok, bs)"
| "quorum_scan benign ok bs (Inr _ # rs) = quorum_scan benign (Suc ok) bs rs"
| "quorum_scan benign ok bs (Inl e # rs) =
     (if benign e then quorum_scan benign (Suc ok) bs rs
      else quorum_scan benign ok (add_bucket e bs) rs)"

definition require_quorum :: "('a, io_error) result list \<Rightarrow> nat \<Rightarrow> (io_error \<Rightarrow> bool) \<Rightarrow> (unit, io_error) result" where
  "require_quorum results quorum benign =
     (let (ok, bs) = quorum_scan benign 0 [] results in
      if quorum \<le> ok then Ok ()
      else case max_by_key (\<lambda>(_, c, _). c) bs of
             None \<Rightarrow> Err (InvalidArgument ''no results'')
           | Some (_, _, e) \<Rightarrow> Err e)"

subsection \<open>Votes on the records\<close>

definition ETAG_META_KEY :: string where
  "ETAG_META_KEY = ''etag''"

definition CONTENT_TYPE_META_KEY :: string where
  "CONTENT_TYPE_META_KEY = ''content-type''"

definition erasure_is_valid :: "erasure_info \<Rightarrow> bool" where
  "erasure_is_valid ei =
     (let n = ei_data_blocks ei + ei_parity_blocks ei in
      \<not> (ei_data_blocks ei = 0) \<and> \<not> (ei_parity_blocks ei > ei_data_blocks ei) \<and>
      length (ei_distribution ei) = n \<and> \<not> (ei_index ei = 0 \<or> ei_index ei > n))"

text \<open>Subtraction of machine words in a release build: it wraps.\<close>

definition usize_sub :: "nat \<Rightarrow> nat \<Rightarrow> nat" where
  "usize_sub a b = (if b \<le> a then a - b else 2 ^ 64 + a - b)"

definition voted_parity :: "nat \<Rightarrow> file_info \<Rightarrow> nat" where
  "voted_parity n fi =
     (if fi_deleted fi \<or> fi_size fi = 0 then n div 2 mod 2 ^ 8 else ei_parity_blocks (fi_erasure fi))"

fun best_parity :: "nat \<Rightarrow> nat list \<Rightarrow> (nat \<times> nat) option \<Rightarrow> nat list \<Rightarrow> (nat \<times> nat) option" where
  "best_parity n votes best [] = best"
| "best_parity n votes best (p # ps) =
     (let occ = count_list votes p in
      if occ < usize_sub n p then best_parity n votes best ps
      else if (case best of None \<Rightarrow> True | Some (_, prev) \<Rightarrow> prev < occ)
      then best_parity n votes (Some (p, occ)) ps
      else best_parity n votes best ps)"

definition parity_votes :: "nat \<Rightarrow> file_info option list \<Rightarrow> nat list" where
  "parity_votes n metas =
     map (voted_parity n) (filter (\<lambda>m. erasure_is_valid (fi_erasure m)) (List.map_filter (\<lambda>m. m) metas))"

definition common_parity :: "nat order \<Rightarrow> file_info option list \<Rightarrow> nat \<Rightarrow> nat option" where
  "common_parity iter metas n =
     (let votes = parity_votes n metas in
      map_option fst (best_parity n votes None (iter (remdups votes))))"

definition etag_votes :: "file_info option list \<Rightarrow> string list" where
  "etag_votes metas =
     filter (\<lambda>e. e \<noteq> []) (List.map_filter (\<lambda>m. map_of (fi_metadata m) ETAG_META_KEY)
       (List.map_filter (\<lambda>m. m) metas))"

definition common_etag :: "string order \<Rightarrow> file_info option list \<Rightarrow> nat \<Rightarrow> string option" where
  "common_etag iter metas quorum =
     (let votes = etag_votes metas in
      case most_counted iter votes of
        None \<Rightarrow> None
      | Some winner \<Rightarrow> if count_list votes winner \<ge> quorum then Some winner else None)"

definition record_etag_matches :: "file_info \<Rightarrow> string \<Rightarrow> bool" where
  "record_etag_matches fi etag = (map_of (fi_metadata fi) ETAG_META_KEY = Some etag)"

definition str_bytes :: "string \<Rightarrow> byte list" where
  "str_bytes s = map (\<lambda>c. word_of_nat (of_char c)) s"

text \<open>Signed integers are written in two's complement.\<close>

definition le_signed :: "nat \<Rightarrow> int \<Rightarrow> byte list" where
  "le_signed k i = le_bytes k (nat (i mod 2 ^ (8 * k)))"

definition contract_bytes :: "file_info \<Rightarrow> byte list" where
  "contract_bytes fi =
     str_bytes (fi_version_id fi) @ le_bytes 8 (fi_mod_time_ms fi)
       @ (case map_of (fi_metadata fi) ETAG_META_KEY of Some etag \<Rightarrow> str_bytes etag | None \<Rightarrow> [])
       @ [if fi_deleted fi then 1 else 0]
       @ concat (map (\<lambda>p. le_signed 4 (op_number p) @ le_signed 8 (op_size p)) (fi_parts fi))
       @ (if \<not> fi_deleted fi \<and> fi_size fi \<noteq> 0
          then [word_of_nat (ei_data_blocks (fi_erasure fi)), word_of_nat (ei_parity_blocks (fi_erasure fi))]
                 @ le_bytes 4 (ei_block_size (fi_erasure fi))
                 @ map word_of_nat (ei_distribution (fi_erasure fi))
          else [])"

definition decode_contract_hash :: "(byte list \<Rightarrow> 'h) \<Rightarrow> file_info \<Rightarrow> 'h" where
  "decode_contract_hash blake fi = blake (contract_bytes fi)"

subsection \<open>The read consensus\<close>

definition metas_of :: "(file_info, io_error) result list \<Rightarrow> file_info option list" where
  "metas_of results = map (\<lambda>r. case r of Inr fi \<Rightarrow> Some fi | Inl _ \<Rightarrow> None) results"

definition errs_of :: "(file_info, io_error) result list \<Rightarrow> io_error option list" where
  "errs_of results = map (\<lambda>r. case r of Inr _ \<Rightarrow> None | Inl e \<Rightarrow> Some e) results"

text \<open>The disks whose record has the winning etag, with their hashes.\<close>

definition contract_hashes :: "(byte list \<Rightarrow> 'h) \<Rightarrow> string \<Rightarrow> file_info option list \<Rightarrow> (nat \<times> 'h) list" where
  "contract_hashes blake etag metas =
     List.map_filter (\<lambda>(i, m). case m of
         None \<Rightarrow> None
       | Some fi \<Rightarrow> if record_etag_matches fi etag then Some (i, decode_contract_hash blake fi) else None)
       (enumerate 0 metas)"

record 'h orders =
  ord_tag :: "string order"
  ord_parity :: "nat order"
  ord_etag :: "string order"
  ord_hash :: "'h order"

text \<open>The winning index and its record; \<open>results\<close> are the answers of the backends, in order.\<close>

definition read_with_consensus :: "'h orders \<Rightarrow> (byte list \<Rightarrow> 'h) \<Rightarrow> string \<Rightarrow> string
    \<Rightarrow> (file_info, io_error) result list \<Rightarrow> (nat \<times> file_info, storage_error) result" where
  "read_with_consensus ords blake bucket key results =
     (let n = length results; metas = metas_of results; errs = errs_of results;
          half = max (n div 2) 1;
          (max_err_count, dominant_err) = dominant_error (ord_tag ords) errs in
      if dominant_err \<noteq> None \<and> half \<le> max_err_count
      then Err (map_object_missing bucket key (the dominant_err))
      else case common_parity (ord_parity ords) metas n of
        None \<Rightarrow> Err (InsufficientOnlineDrives bucket key ''no parity value reached its quorum across the set'')
      | Some parity \<Rightarrow>
          let data_blocks = usize_sub n parity in
          (case common_etag (ord_etag ords) metas data_blocks of
             None \<Rightarrow> Err (InconsistentMeta bucket key (''no etag reached quorum '' @ show_nat data_blocks @ '' (have ''
                        @ show_nat (length (filter (\<lambda>m. m \<noteq> None) metas)) @ '' valid records)''))
           | Some etag \<Rightarrow>
               let hashes = contract_hashes blake etag metas in
               (case most_counted (ord_hash ords) (map snd hashes) of
                  None \<Rightarrow> Err (InconsistentMeta bucket key ''no records matched the winning etag'')
                | Some h \<Rightarrow>
                    let winner_count = count_list (map snd hashes) h in
                    if winner_count < data_blocks
                    then Err (InconsistentMeta bucket key (''decode-contract hash reached only ''
                                @ show_nat winner_count @ ''/'' @ show_nat data_blocks @ '' disks''))
                    else let i = fst (hd (filter (\<lambda>(_, g). g = h) hashes)) in Ok (i, the (metas ! i)))))"

subsection \<open>Counting votes\<close>

lemma max_by_key_eq_None [simp]: "max_by_key f xs = None \<longleftrightarrow> xs = []"
  by (cases xs) (auto split: option.splits)

lemma max_by_key_Some:
  "max_by_key f xs = Some x \<Longrightarrow> x \<in> set xs \<and> (\<forall>y \<in> set xs. f y \<le> f x)"
proof (induction xs arbitrary: x)
  case (Cons z zs)
  then show ?case by (cases "max_by_key f zs") (auto split: if_splits)
qed simp

lemma max_by_key_unique:
  assumes "x \<in> set xs" "\<And>y. y \<in> set xs \<Longrightarrow> y \<noteq> x \<Longrightarrow> f y < f x"
  shows "max_by_key f xs = Some x"
proof -
  obtain y where y: "max_by_key f xs = Some y" using assms(1) by (cases "max_by_key f xs") auto
  with max_by_key_Some [OF this] assms show ?thesis by (metis leD)
qed

lemma most_counted_Some:
  assumes "is_order iter" "most_counted iter ks = Some k"
  shows "k \<in> set ks \<and> (\<forall>j. count_list ks j \<le> count_list ks k)"
proof -
  have s: "set (iter (remdups ks)) = set ks" using assms(1) by (simp add: is_order_def)
  note m = max_by_key_Some [OF assms(2) [unfolded most_counted_def], unfolded s]
  have "count_list ks j \<le> count_list ks k" for j
    using m by (cases "j \<in> set ks") simp_all
  with m show ?thesis by blast
qed

lemma most_counted_None: "is_order iter \<Longrightarrow> most_counted iter ks = None \<longleftrightarrow> ks = []"
proof -
  assume "is_order iter"
  then have "set (iter (remdups ks)) = set ks" by (simp add: is_order_def)
  then show ?thesis unfolding most_counted_def by (metis max_by_key_eq_None set_empty)
qed

lemma most_counted_unique:
  assumes "is_order iter" "k \<in> set ks" "\<And>j. j \<noteq> k \<Longrightarrow> count_list ks j < count_list ks k"
  shows "most_counted iter ks = Some k"
  unfolding most_counted_def
  by (rule max_by_key_unique) (use assms in \<open>simp_all add: is_order_def\<close>)

text \<open>Votes are cast by the members of a list; \<open>f\<close> gives the vote of each, if it votes.\<close>

lemma votes_of_members:
  assumes "S \<subseteq> {..<length xs}" "\<And>j. j \<in> S \<Longrightarrow> f (xs ! j) = Some v"
  shows "card S \<le> count_list (List.map_filter f xs) v"
    "w \<noteq> v \<Longrightarrow> count_list (List.map_filter f xs) w \<le> length xs - card S"
proof -
  have fin: "finite S" using assms(1) finite_subset by blast
  show "card S \<le> count_list (List.map_filter f xs) v"
    unfolding count_map_filter length_filter_conv_card
    by (rule card_mono) (use assms in auto)
  assume "w \<noteq> v"
  then have "{i. i < length xs \<and> f (xs ! i) = Some w} \<subseteq> {..<length xs} - S" using assms(2) by auto
  from card_mono [OF _ this] have "card {i. i < length xs \<and> f (xs ! i) = Some w} \<le> card ({..<length xs} - S)" by simp
  also have "\<dots> = length xs - card S" using assms(1) fin by (simp add: card_Diff_subset)
  finally show "count_list (List.map_filter f xs) w \<le> length xs - card S"
    by (simp add: count_map_filter length_filter_conv_card)
qed

lemma majority_vote:
  assumes "is_order iter" "S \<subseteq> {..<length xs}" "\<And>j. j \<in> S \<Longrightarrow> f (xs ! j) = Some v" "length xs < 2 * card S"
  shows "most_counted iter (List.map_filter f xs) = Some v" "card S \<le> count_list (List.map_filter f xs) v"
proof -
  show c: "card S \<le> count_list (List.map_filter f xs) v"
    by (rule votes_of_members(1)) (use assms in auto)
  have "count_list (List.map_filter f xs) w \<le> length xs - card S" if "w \<noteq> v" for w
    by (rule votes_of_members(2)) (use assms that in auto)
  with c assms(4) have "count_list (List.map_filter f xs) w < count_list (List.map_filter f xs) v" if "w \<noteq> v" for w
    using that by fastforce
  moreover have "v \<in> set (List.map_filter f xs)"
    using c assms(4) count_notin [of v "List.map_filter f xs"] by fastforce
  ultimately show "most_counted iter (List.map_filter f xs) = Some v"
    using assms(1) by (intro most_counted_unique)
qed

text \<open>The four votes, per answer.\<close>

definition error_vote :: "(file_info, io_error) result \<Rightarrow> string option" where
  "error_vote r = (case r of Inl e \<Rightarrow> if liveness_noise e then None else Some (error_tag e) | Inr _ \<Rightarrow> None)"

definition parity_vote :: "nat \<Rightarrow> (file_info, io_error) result \<Rightarrow> nat option" where
  "parity_vote n r =
     (case r of Inr fi \<Rightarrow> if erasure_is_valid (fi_erasure fi) then Some (voted_parity n fi) else None | Inl _ \<Rightarrow> None)"

definition etag_vote :: "(file_info, io_error) result \<Rightarrow> string option" where
  "etag_vote r =
     (case r of
        Inr fi \<Rightarrow> (case map_of (fi_metadata fi) ETAG_META_KEY of
                    Some e \<Rightarrow> if e = [] then None else Some e | None \<Rightarrow> None)
      | Inl _ \<Rightarrow> None)"

definition hash_vote :: "(byte list \<Rightarrow> 'h) \<Rightarrow> string \<Rightarrow> (file_info, io_error) result \<Rightarrow> 'h option" where
  "hash_vote blake etag r =
     (case r of
        Inr fi \<Rightarrow> if record_etag_matches fi etag then Some (decode_contract_hash blake fi) else None
      | Inl _ \<Rightarrow> None)"

lemmas vote_defs = error_vote_def parity_vote_def etag_vote_def hash_vote_def

lemma etag_vote_Some: "etag_vote r = Some t \<Longrightarrow> t \<noteq> []"
  by (cases r) (auto simp: etag_vote_def split: option.splits if_splits)

lemma error_votes:
  "map error_tag (filter (\<lambda>e. \<not> liveness_noise e) (List.map_filter (\<lambda>e. e) (errs_of rs)))
     = List.map_filter error_vote rs"
  by (induction rs) (auto simp: errs_of_def error_vote_def List.map_filter_simps split: sum.splits)

lemma parity_votes_eq: "parity_votes n (metas_of rs) = List.map_filter (parity_vote n) rs"
  unfolding parity_votes_def
  by (induction rs) (auto simp: metas_of_def parity_vote_def List.map_filter_simps split: sum.splits)

lemma etag_votes_eq: "etag_votes (metas_of rs) = List.map_filter etag_vote rs"
  unfolding etag_votes_def
  by (induction rs) (auto simp: metas_of_def etag_vote_def List.map_filter_simps split: sum.splits option.splits)

lemma hash_votes_eq:
  "contract_hashes blake etag (metas_of rs)
     = List.map_filter (\<lambda>(i, r). map_option (Pair i) (hash_vote blake etag r)) (enumerate 0 rs)"
proof -
  have "List.map_filter (\<lambda>(i, m). case m of None \<Rightarrow> None
       | Some fi \<Rightarrow> if record_etag_matches fi etag then Some (i, decode_contract_hash blake fi) else None)
       (enumerate k (metas_of rs))
     = List.map_filter (\<lambda>(i, r). map_option (Pair i) (hash_vote blake etag r)) (enumerate k rs)" for k
    by (induction rs arbitrary: k)
      (auto simp: metas_of_def hash_vote_def List.map_filter_simps split: sum.splits option.splits)
  then show ?thesis by (simp add: contract_hashes_def)
qed

lemma snd_indexed_votes:
  "map snd (List.map_filter (\<lambda>(i, r). map_option (Pair i) (g r)) (enumerate k rs)) = List.map_filter g rs"
  by (induction rs arbitrary: k) (auto simp: List.map_filter_simps split: option.splits)

lemma first_indexed_vote:
  assumes "h \<in> set (List.map_filter g rs)"
  shows "\<exists>j < length rs. fst (hd (filter (\<lambda>(_, x). x = h)
      (List.map_filter (\<lambda>(i, r). map_option (Pair i) (g r)) (enumerate k rs)))) = k + j \<and>
    g (rs ! j) = Some h \<and> (\<forall>l < j. g (rs ! l) \<noteq> Some h)"
  using assms
proof (induction rs arbitrary: k)
  case (Cons r rs)
  show ?case
  proof (cases "g r = Some h")
    case True
    then show ?thesis by (intro exI [of _ 0]) (simp add: List.map_filter_simps)
  next
    case False
    with Cons.prems have "h \<in> set (List.map_filter g rs)"
      by (auto simp: List.map_filter_simps split: option.splits)
    from Cons.IH [OF this, of "Suc k"] obtain j where j: "j < length rs"
      "fst (hd (filter (\<lambda>(_, x). x = h) (List.map_filter (\<lambda>(i, r). map_option (Pair i) (g r)) (enumerate (Suc k) rs))))
        = Suc k + j" "g (rs ! j) = Some h" "\<forall>l < j. g (rs ! l) \<noteq> Some h" by blast
    with False show ?thesis
      by (intro exI [of _ "Suc j"]) (auto simp: List.map_filter_simps less_Suc_eq_0_disj split: option.splits)
  qed
qed (simp add: List.map_filter_simps)

lemma best_parity_keeps:
  "P \<notin> set ps \<Longrightarrow> \<forall>p \<in> set ps. count_list votes p < count_list votes P \<Longrightarrow>
     best_parity n votes (Some (P, count_list votes P)) ps = Some (P, count_list votes P)"
  by (induction ps) (auto simp: Let_def)

lemma best_parity_majority:
  assumes "P \<in> set ps" "distinct ps" "usize_sub n P \<le> count_list votes P"
    and "\<And>p. p \<noteq> P \<Longrightarrow> count_list votes p < count_list votes P"
    and "\<And>p c. best = Some (p, c) \<Longrightarrow> c < count_list votes P"
  shows "best_parity n votes best ps = Some (P, count_list votes P)"
  using assms(1,2,5)
proof (induction ps arbitrary: best)
  case (Cons p ps)
  show ?case
  proof (cases "p = P")
    case True
    with Cons.prems have "P \<notin> set ps" by simp
    moreover from this have "\<forall>p \<in> set ps. count_list votes p < count_list votes P" using assms(4) by metis
    ultimately have "best_parity n votes (Some (P, count_list votes P)) ps = Some (P, count_list votes P)"
      by (rule best_parity_keeps)
    with True assms(3) Cons.prems(3) show ?thesis by (auto simp: Let_def split: option.splits)
  next
    case False
    have p: "P \<in> set ps" "distinct ps" using Cons.prems False by simp_all
    have "best_parity n votes (Some (p, count_list votes p)) ps = Some (P, count_list votes P)"
      by (rule Cons.IH [OF p]) (use assms(4) [OF False] in simp)
    moreover have "best_parity n votes best ps = Some (P, count_list votes P)"
      by (rule Cons.IH [OF p Cons.prems(3)])
    ultimately show ?thesis by (simp add: Let_def)
  qed
qed simp

lemma best_parity_sound:
  "best_parity n votes best ps = Some (p, c) \<Longrightarrow>
     best = Some (p, c) \<or> p \<in> set ps \<and> c = count_list votes p \<and> usize_sub n p \<le> c"
proof (induction ps arbitrary: best)
  case (Cons q qs)
  show ?case
  proof (cases "count_list votes q < usize_sub n q")
    case True
    with Cons show ?thesis by auto
  next
    case False
    with Cons.prems Cons.IH [of "Some (q, count_list votes q)"] Cons.IH [of best] show ?thesis
      by (auto simp: Let_def split: if_splits)
  qed
qed simp

lemma common_parity_sound:
  assumes "is_order iter" "common_parity iter (metas_of rs) n = Some p"
  shows "p \<in> set (List.map_filter (parity_vote n) rs) \<and>
    usize_sub n p \<le> count_list (List.map_filter (parity_vote n) rs) p"
  using assms best_parity_sound [of n "List.map_filter (parity_vote n) rs" None]
  by (fastforce simp: common_parity_def Let_def parity_votes_eq is_order_def)

lemma common_parity_majority:
  assumes "is_order iter" "S \<subseteq> {..<length rs}" "\<And>j. j \<in> S \<Longrightarrow> parity_vote n (rs ! j) = Some P"
    and "length rs < 2 * card S" "usize_sub n P \<le> card S"
  shows "common_parity iter (metas_of rs) n = Some P"
proof -
  let ?v = "List.map_filter (parity_vote n) rs"
  have c: "card S \<le> count_list ?v P" by (rule votes_of_members(1)) (use assms in auto)
  have o: "count_list ?v p < count_list ?v P" if "p \<noteq> P" for p
  proof -
    have "count_list ?v p \<le> length rs - card S" by (rule votes_of_members(2)) (use assms that in auto)
    with c assms(4) show ?thesis by linarith
  qed
  have "P \<in> set ?v" using c assms(4) count_notin [of P ?v] by fastforce
  then have "best_parity n ?v None (iter (remdups ?v)) = Some (P, count_list ?v P)"
    using assms(1,5) c o by (intro best_parity_majority) (auto simp: is_order_def)
  then show ?thesis by (simp add: common_parity_def Let_def parity_votes_eq)
qed

lemma clone_io_error_id [simp]: "clone_io_error e = e"
  by (cases e) simp_all

lemma dominant_error_Some:
  assumes "is_order iter" "dominant_error iter (errs_of rs) = (c, Some e)"
  shows "error_vote (Inl e) = Some (error_tag e) \<and> Inl e \<in> set rs \<and>
    c = count_list (List.map_filter error_vote rs) (error_tag e) \<and>
    (\<forall>t. count_list (List.map_filter error_vote rs) t \<le> c)"
proof -
  let ?voters = "filter (\<lambda>e. \<not> liveness_noise e) (List.map_filter (\<lambda>e. e) (errs_of rs))"
  obtain t where t: "most_counted iter (List.map_filter error_vote rs) = Some t"
    "c = count_list (List.map_filter error_vote rs) t" "find (\<lambda>e. error_tag e = t) ?voters = Some e"
    using assms(2) by (auto simp: dominant_error_def Let_def error_votes option.map_id0 split: option.splits)
  have e: "error_tag e = t" "e \<in> set ?voters" using find_Some_mem [OF t(3)] by simp_all
  have "Inl e \<in> set rs" using e(2) by (auto simp: errs_of_def List.map_filter_def split: sum.splits)
  with e t(2) most_counted_Some [OF assms(1) t(1)] show ?thesis by (auto simp: error_vote_def)
qed

lemma dominant_error_None:
  assumes "is_order iter" "dominant_error iter (errs_of rs) = (c, None)"
  shows "List.map_filter error_vote rs = []"
proof -
  let ?voters = "filter (\<lambda>e. \<not> liveness_noise e) (List.map_filter (\<lambda>e. e) (errs_of rs))"
  show ?thesis
  proof (cases "most_counted iter (List.map_filter error_vote rs)")
    case None
    then show ?thesis by (simp add: most_counted_None [OF assms(1)])
  next
    case (Some t)
    then have "t \<in> set (map error_tag ?voters)" using most_counted_Some [OF assms(1) Some] by (simp add: error_votes)
    moreover have "find (\<lambda>e. error_tag e = t) ?voters = None"
      using assms(2) Some by (auto simp: dominant_error_def Let_def error_votes)
    ultimately show ?thesis by (auto simp: find_None_iff)
  qed
qed

definition all_orders :: "'h orders \<Rightarrow> bool" where
  "all_orders ords \<longleftrightarrow>
     is_order (ord_tag ords) \<and> is_order (ord_parity ords) \<and> is_order (ord_etag ords) \<and> is_order (ord_hash ords)"

lemma errors_outside:
  assumes "S \<subseteq> {..<length rs}" "\<And>j. j \<in> S \<Longrightarrow> error_vote (rs ! j) = None"
  shows "count_list (List.map_filter error_vote rs) t \<le> length rs - card S"
proof -
  have "{i. i < length rs \<and> error_vote (rs ! i) = Some t} \<subseteq> {..<length rs} - S" using assms(2) by fastforce
  from card_mono [OF _ this] have "card {i. i < length rs \<and> error_vote (rs ! i) = Some t} \<le> card ({..<length rs} - S)"
    by simp
  also have "\<dots> = length rs - card S"
    using assms(1) finite_subset [OF assms(1)] by (simp add: card_Diff_subset)
  finally show ?thesis by (simp add: count_map_filter length_filter_conv_card)
qed

lemma not_dominated:
  assumes "is_order iter" "S \<subseteq> {..<length rs}" "\<And>j. j \<in> S \<Longrightarrow> error_vote (rs ! j) = None"
    and "length rs - card S < half" "dominant_error iter (errs_of rs) = (c, d)"
  shows "\<not> (d \<noteq> None \<and> half \<le> c)"
proof (cases d)
  case (Some e)
  then have "c = count_list (List.map_filter error_vote rs) (error_tag e)"
    using dominant_error_Some [OF assms(1)] assms(5) by blast
  moreover have "count_list (List.map_filter error_vote rs) (error_tag e) \<le> length rs - card S"
    by (rule errors_outside [OF assms(2,3)])
  ultimately show ?thesis using assms(4) by linarith
qed simp

lemma winner_of_hashes:
  assumes "is_order iter" "most_counted iter (map snd (contract_hashes blake etag (metas_of rs))) = Some h"
  shows "\<exists>i fi. fst (hd (filter (\<lambda>(_, g). g = h) (contract_hashes blake etag (metas_of rs)))) = i \<and>
    the (metas_of rs ! i) = fi \<and> i < length rs \<and> rs ! i = Ok fi \<and> record_etag_matches fi etag \<and>
    decode_contract_hash blake fi = h \<and> (\<forall>l < i. hash_vote blake etag (rs ! l) \<noteq> Some h)"
proof -
  have "h \<in> set (List.map_filter (hash_vote blake etag) rs)"
    using most_counted_Some [OF assms] by (simp add: hash_votes_eq snd_indexed_votes)
  from first_indexed_vote [OF this, of 0] obtain i where i: "i < length rs"
    "fst (hd (filter (\<lambda>(_, g). g = h) (contract_hashes blake etag (metas_of rs)))) = i"
    "hash_vote blake etag (rs ! i) = Some h" "\<forall>l < i. hash_vote blake etag (rs ! l) \<noteq> Some h"
    by (auto simp: hash_votes_eq)
  from i(3) obtain fi where "rs ! i = Ok fi" "record_etag_matches fi etag" "decode_contract_hash blake fi = h"
    by (auto simp: hash_vote_def split: sum.splits if_splits)
  with i show ?thesis by (intro exI [of _ i] exI [of _ fi]) (simp add: metas_of_def)
qed

text \<open>The groups that \<open>require_quorum\<close> builds from the errors \<open>seen\<close>.\<close>

definition groups :: "io_error list \<Rightarrow> (string \<times> nat \<times> io_error) list \<Rightarrow> bool" where
  "groups seen bs \<longleftrightarrow> distinct (map fst bs) \<and> fst ` set bs = error_tag ` set seen \<and>
     (\<forall>(d, c, x) \<in> set bs. c = count_list (map error_tag seen) d \<and> find (\<lambda>e. error_tag e = d) seen = Some x)"

lemma fst_add_bucket: "map fst (add_bucket e bs) = (if error_tag e \<in> fst ` set bs then map fst bs else map fst bs @ [error_tag e])"
  by (induction e bs rule: add_bucket.induct) auto

lemma set_add_bucket:
  "distinct (map fst bs) \<Longrightarrow> (d, c, x) \<in> set (add_bucket e bs) \<longleftrightarrow>
     (if d = error_tag e then (\<exists>c'. c = Suc c' \<and> (d, c', x) \<in> set bs) \<or> error_tag e \<notin> fst ` set bs \<and> c = 1 \<and> x = e
      else (d, c, x) \<in> set bs)"
  by (induction e bs rule: add_bucket.induct) (auto simp: image_iff split: if_splits, metis fst_conv)

lemma groups_add: "groups seen bs \<Longrightarrow> groups (seen @ [e]) (add_bucket e bs)"
proof -
  assume g: "groups seen bs"
  then have d: "distinct (map fst bs)" and f: "fst ` set bs = error_tag ` set seen"
    and b: "\<And>d c x. (d, c, x) \<in> set bs \<Longrightarrow> c = count_list (map error_tag seen) d \<and> find (\<lambda>e. error_tag e = d) seen = Some x"
    by (auto simp: groups_def)
  have "distinct (map fst (add_bucket e bs))" using d by (simp add: fst_add_bucket)
  moreover have "fst ` set (add_bucket e bs) = error_tag ` set (seen @ [e])"
    using arg_cong [OF fst_add_bucket [of e bs], of set] f by (auto split: if_splits)
  moreover have "c = count_list (map error_tag (seen @ [e])) d \<and> find (\<lambda>e. error_tag e = d) (seen @ [e]) = Some x"
    if "(d, c, x) \<in> set (add_bucket e bs)" for d c x
  proof (cases "d = error_tag e")
    case True
    have new: "find (\<lambda>y. error_tag y = error_tag e) seen = None" "count_list (map error_tag seen) (error_tag e) = 0"
      if "error_tag e \<notin> fst ` set bs"
      using that unfolding f by (auto simp: find_None_iff count_list_0_iff dest: sym)
    from True that b new show ?thesis
      by (auto simp: set_add_bucket [OF d] find_append split: option.splits)
  next
    case False
    with that b [of d c x] show ?thesis by (auto simp: set_add_bucket [OF d] find_append)
  qed
  ultimately show ?thesis by (auto simp: groups_def)
qed

lemma quorum_scan_spec:
  "groups seen bs \<Longrightarrow> \<exists>bs'. quorum_scan benign ok bs results
     = (ok + length (filter (\<lambda>r. case r of Inr _ \<Rightarrow> True | Inl e \<Rightarrow> benign e) results), bs') \<and>
     groups (seen @ List.map_filter (\<lambda>r. case r of Inr _ \<Rightarrow> None | Inl e \<Rightarrow> if benign e then None else Some e) results) bs'"
proof (induction benign ok bs results arbitrary: seen rule: quorum_scan.induct)
  case (1 benign ok bs)
  then show ?case by (simp add: List.map_filter_simps)
next
  case (2 benign ok bs x rs)
  then show ?case by (auto simp: List.map_filter_simps)
next
  case (3 benign ok bs e rs)
  show ?case
  proof (cases "benign e")
    case True
    with 3 show ?thesis by (auto simp: List.map_filter_simps)
  next
    case False
    with "3.IH"(2) [OF False groups_add [OF "3.prems"]] show ?thesis by (simp add: List.map_filter_simps)
  qed
qed

lemma majority_read:
  assumes "all_orders ords" and "S \<subseteq> {..<length results}"
    and "\<And>j. j \<in> S \<Longrightarrow> \<exists>fi. results ! j = Ok fi \<and> erasure_is_valid (fi_erasure fi) \<and>
        voted_parity (length results) fi = P \<and> record_etag_matches fi t \<and> contract_bytes fi = c"
    and "t \<noteq> []" "length results < 2 * card S" "usize_sub (length results) P \<le> card S"
    and "length results - card S < max (length results div 2) 1"
  shows "\<exists>i fi. read_with_consensus ords blake bucket key results = Ok (i, fi) \<and> i < length results \<and>
    results ! i = Ok fi \<and> record_etag_matches fi t \<and> blake (contract_bytes fi) = blake c \<and>
    (\<forall>l < i. hash_vote blake t (results ! l) \<noteq> Some (blake c))"
proof -
  let ?n = "length results"
  have ord: "is_order (ord_tag ords)" "is_order (ord_parity ords)" "is_order (ord_etag ords)" "is_order (ord_hash ords)"
    using assms(1) by (simp_all add: all_orders_def)
  have votes: "error_vote (results ! j) = None" "parity_vote ?n (results ! j) = Some P"
    "etag_vote (results ! j) = Some t" "hash_vote blake t (results ! j) = Some (blake c)" if "j \<in> S" for j
    using assms(3) [OF that] assms(4) by (auto simp: vote_defs record_etag_matches_def decode_contract_hash_def)
  obtain cnt d where dom: "dominant_error (ord_tag ords) (errs_of results) = (cnt, d)" by fastforce
  have nd: "\<not> (d \<noteq> None \<and> max (?n div 2) 1 \<le> cnt)"
    by (rule not_dominated [OF ord(1) assms(2) votes(1) assms(7) dom])
  have par: "common_parity (ord_parity ords) (metas_of results) ?n = Some P"
    by (rule common_parity_majority [OF ord(2) assms(2) votes(2) assms(5,6)])
  have "most_counted (ord_etag ords) (List.map_filter etag_vote results) = Some t"
    "card S \<le> count_list (List.map_filter etag_vote results) t"
    by (rule majority_vote [where f = etag_vote, OF ord(3) assms(2) votes(3) assms(5)], assumption)+
  then have etag: "common_etag (ord_etag ords) (metas_of results) (usize_sub ?n P) = Some t"
    using assms(6) by (simp add: common_etag_def Let_def etag_votes_eq)
  let ?hs = "contract_hashes blake t (metas_of results)"
  have hs: "map snd ?hs = List.map_filter (hash_vote blake t) results"
    by (simp add: hash_votes_eq snd_indexed_votes)
  have h: "most_counted (ord_hash ords) (map snd ?hs) = Some (blake c)" "card S \<le> count_list (map snd ?hs) (blake c)"
    unfolding hs by (rule majority_vote [where f = "hash_vote blake t", OF ord(4) assms(2) votes(4) assms(5)], assumption)+
  then have cnt: "\<not> count_list (map snd ?hs) (blake c) < usize_sub ?n P" using assms(6) by linarith
  obtain i fi where i: "fst (hd (filter (\<lambda>(_, g). g = blake c) ?hs)) = i" "the (metas_of results ! i) = fi"
    "i < ?n" "results ! i = Ok fi" "record_etag_matches fi t" "decode_contract_hash blake fi = blake c"
    "\<forall>l < i. hash_vote blake t (results ! l) \<noteq> Some (blake c)"
    using winner_of_hashes [OF ord(4) h(1)] by blast
  have "read_with_consensus ords blake bucket key results = Ok (i, fi)"
    unfolding read_with_consensus_def Let_def dom par
    using nd etag h(1) cnt i(1,2) by simp
  with i show ?thesis by (simp add: decode_contract_hash_def)
qed

subsection \<open>Properties\<close>


text \<open>A valid record of three data shards and one parity shard, and visiting in key order.\<close>

definition example_record :: "string \<Rightarrow> nat \<Rightarrow> file_info" where
  "example_record etag slot = file_info_default\<lparr>fi_size := 5, fi_metadata := [(ETAG_META_KEY, etag)],
     fi_erasure := erasure_default\<lparr>ei_data_blocks := 3, ei_parity_blocks := 1, ei_index := slot,
       ei_distribution := [1, 2, 3, 4]\<rparr>\<rparr>"

definition plain_orders :: "'h orders" where
  "plain_orders = \<lparr>ord_tag = (\<lambda>ks. ks), ord_parity = (\<lambda>ks. ks), ord_etag = (\<lambda>ks. ks), ord_hash = (\<lambda>ks. ks)\<rparr>"

lemma plain_orders [simp]: "all_orders plain_orders"
  by (simp add: all_orders_def plain_orders_def is_order_def)

lemma example_record:
  "0 < slot \<Longrightarrow> slot \<le> 4 \<Longrightarrow> erasure_is_valid (fi_erasure (example_record etag slot))"
  "voted_parity n (example_record etag slot) = 1" "record_etag_matches (example_record etag slot) etag"
  "contract_bytes (example_record etag slot) = contract_bytes (example_record etag slot')"
  by (simp_all add: example_record_def erasure_is_valid_def voted_parity_def record_etag_matches_def
      contract_bytes_def file_info_default_def erasure_default_def)




text \<open>
  C33: one drive that has lost its data hides every object of a set of three. Two drives answer with
  records of the object, the third reports that it has no such file; whatever the records are,
  the read reports that the object does not exist, although two of three shards are enough to
  decode it. The threshold for surfacing an error is half of the set rounded down, that is, one.
\<close>

theorem one_missing_drive_of_three:
  assumes "is_order (ord_tag ords)"
  shows "read_with_consensus ords blake bucket key [Ok f, Ok g, Err (FileNotFound v p)]
    = Err (ObjectNotFound bucket key)"
proof -
  let ?rs = "[Ok f, Ok g, Err (FileNotFound v p)]"
  have votes: "List.map_filter error_vote ?rs = [''FileNotFound'']"
    by (simp add: List.map_filter_simps error_vote_def)
  have "most_counted (ord_tag ords) [''FileNotFound''] = Some ''FileNotFound''"
    by (rule most_counted_unique [OF assms]) simp_all
  then have "dominant_error (ord_tag ords) (errs_of ?rs) = (1, Some (FileNotFound v p))"
    unfolding dominant_error_def Let_def error_votes votes
    by (simp add: errs_of_def List.map_filter_simps)
  then show ?thesis by (simp add: read_with_consensus_def Let_def map_object_missing_def)
qed

theorem one_missing_drive_of_three_witness:
  "read_with_consensus plain_orders (\<lambda>bs. bs) ''b'' ''k''
     [Ok (example_record ''e'' 1), Ok (example_record ''e'' 2), Err (FileNotFound ''b'' ''k'')]
   = Err (ObjectNotFound ''b'' ''k'')"
  using one_missing_drive_of_three plain_orders unfolding all_orders_def by blast

text \<open>
  The verdict of a fan-out. With \<open>k\<close> results that succeed or fail in a tolerated way, the
  verdict is success exactly when \<open>k\<close> reaches the quorum; otherwise, if anything failed, the error
  is the first of a variant that at least as many drives reported as any other.
\<close>

theorem quorum_verdict:
  "let good = (\<lambda>r. case r of Inr _ \<Rightarrow> True | Inl e \<Rightarrow> benign e);
       bad = List.map_filter (\<lambda>r. case r of Inr _ \<Rightarrow> None | Inl e \<Rightarrow> if benign e then None else Some e) results;
       tags = map error_tag bad in
   if quorum \<le> length (filter good results) then require_quorum results quorum benign = Ok ()
   else if bad = [] then require_quorum results quorum benign = Err (InvalidArgument ''no results'')
   else \<exists>e. require_quorum results quorum benign = Err e \<and> find (\<lambda>x. error_tag x = error_tag e) bad = Some e \<and>
          (\<forall>t. count_list tags t \<le> count_list tags (error_tag e))"
proof -
  let ?good = "\<lambda>r. case r of Inr _ \<Rightarrow> True | Inl e \<Rightarrow> benign e"
  let ?bad = "List.map_filter (\<lambda>r. case r of Inr _ \<Rightarrow> None | Inl e \<Rightarrow> if benign e then None else Some e) results"
  have "groups [] []" by (simp add: groups_def)
  from quorum_scan_spec [OF this, of benign 0 results] obtain bs where
    q: "quorum_scan benign 0 [] results = (length (filter ?good results), bs)" "groups ?bad bs" by auto
  have e: "\<exists>e. require_quorum results quorum benign = Err e \<and> find (\<lambda>x. error_tag x = error_tag e) ?bad = Some e \<and>
          (\<forall>t. count_list (map error_tag ?bad) t \<le> count_list (map error_tag ?bad) (error_tag e))"
    if "\<not> quorum \<le> length (filter ?good results)" "?bad \<noteq> []"
  proof -
    have "bs \<noteq> []" using that(2) q(2) by (auto simp: groups_def)
    then obtain d c e where m: "max_by_key (\<lambda>(_, c, _). c) bs = Some (d, c, e)"
      by (metis max_by_key_eq_None not_None_eq prod_cases3)
    have mem: "(d, c, e) \<in> set bs" and max: "\<forall>(d', c', e') \<in> set bs. c' \<le> c"
      using max_by_key_Some [OF m] by auto
    then have de: "c = count_list (map error_tag ?bad) d" "find (\<lambda>x. error_tag x = d) ?bad = Some e"
      using q(2) by (auto simp: groups_def)
    then have "error_tag e = d" by (auto simp: find_Some_iff)
    moreover have "count_list (map error_tag ?bad) t \<le> c" for t
    proof (cases "t \<in> set (map error_tag ?bad)")
      case True
      then obtain c' e' where "(t, c', e') \<in> set bs" using q(2) by (fastforce simp: groups_def)
      with max q(2) show ?thesis by (fastforce simp: groups_def)
    qed simp
    ultimately show ?thesis using that(1) q(1) m de by (simp add: require_quorum_def)
  qed
  have "require_quorum results quorum benign = Err (InvalidArgument ''no results'')"
    if "\<not> quorum \<le> length (filter ?good results)" "?bad = []"
    using that q by (auto simp: require_quorum_def groups_def)
  with e q(1) show ?thesis unfolding Let_def by (auto simp: require_quorum_def)
qed

end
