(* ===== verification/Listing.thy ===== *)
theory Listing
  imports Consensus
begin

text \<open>
  Listing objects, from \<^verbatim>\<open>crates/openlake_storage/src/engine.rs\<close>: the merge of the directory walks
  of one set's drives with a vote per key, the merge of the sets' results, and \<open>list\<close>.

  The merges walk their streams with one position each; the model keeps, instead of a position, the
  rest of the stream from there.
\<close>

subsection \<open>Object information\<close>

datatype storage_class = Inline | Single

record object_info =
  oi_bucket :: string
  oi_key :: string
  oi_size :: nat
  oi_etag :: string
  oi_storage_class :: storage_class
  oi_modified_ms :: nat
  oi_content_type :: "string option"
  oi_version_id :: string
  oi_is_delete_marker :: bool

definition to_object_info :: "string \<Rightarrow> file_info \<Rightarrow> object_info" where
  "to_object_info bucket fi =
     \<lparr>oi_bucket = bucket, oi_key = fi_name fi, oi_size = nat (max (fi_size fi) 0),
      oi_etag = (case map_of (fi_metadata fi) ETAG_META_KEY of Some e \<Rightarrow> e | None \<Rightarrow> []),
      oi_storage_class = (if fi_data fi \<noteq> None then Inline else Single),
      oi_modified_ms = fi_mod_time_ms fi, oi_content_type = map_of (fi_metadata fi) CONTENT_TYPE_META_KEY,
      oi_version_id = fi_version_id fi, oi_is_delete_marker = fi_deleted fi\<rparr>"

subsection \<open>Streams with a key\<close>

text \<open>The smallest key among the heads of the streams.\<close>

fun smallest :: "('a \<Rightarrow> string) \<Rightarrow> 'a list list \<Rightarrow> string option \<Rightarrow> string option" where
  "smallest key [] cur = cur"
| "smallest key ([] # ss) cur = smallest key ss cur"
| "smallest key ((x # _) # ss) cur =
     smallest key ss (if (case cur of None \<Rightarrow> True | Some c \<Rightarrow> key x < c) then Some (key x) else cur)"

text \<open>The heads with a given key, in stream order, and the streams after taking them.\<close>

fun heads_at :: "('a \<Rightarrow> string) \<Rightarrow> string \<Rightarrow> 'a list list \<Rightarrow> 'a list" where
  "heads_at key t [] = []"
| "heads_at key t ([] # ss) = heads_at key t ss"
| "heads_at key t ((x # _) # ss) = (if key x = t then x # heads_at key t ss else heads_at key t ss)"

fun pop_at :: "('a \<Rightarrow> string) \<Rightarrow> string \<Rightarrow> 'a list \<Rightarrow> 'a list" where
  "pop_at key t [] = []"
| "pop_at key t (x # xs) = (if key x = t then xs else x # xs)"

lemma smallest_head:
  "smallest key ss cur = Some t \<Longrightarrow> cur = Some t \<or> (\<exists>x xs. x # xs \<in> set ss \<and> key x = t)"
  by (induction key ss cur rule: smallest.induct) (auto split: if_splits option.splits)

lemma length_pop_at: "length (pop_at key t s) \<le> length s"
  by (cases s) simp_all

lemma pop_at_decreases:
  assumes "smallest key ss None = Some t"
  shows "sum_list (map (length \<circ> pop_at key t) ss) < sum_list (map length ss)"
proof -
  obtain x xs where x: "x # xs \<in> set ss" "key x = t" using smallest_head [OF assms] by auto
  then obtain pre post where ss: "ss = pre @ (x # xs) # post" by (metis in_set_conv_decomp)
  have "sum_list (map (length \<circ> pop_at key t) ys) \<le> sum_list (map length ys)" for ys
    by (rule sum_list_mono) (simp add: length_pop_at)
  from this [of pre] this [of post] show ?thesis using x(2) by (simp add: ss)
qed

subsection \<open>The merge within a set\<close>

type_synonym signature = "string \<times> nat \<times> string \<times> int \<times> bool"

definition signature_of :: "file_info \<Rightarrow> signature" where
  "signature_of fi =
     (case map_of (fi_metadata fi) ETAG_META_KEY of Some e \<Rightarrow> e | None \<Rightarrow> [],
      fi_mod_time_ms fi, fi_version_id fi, fi_size fi, fi_deleted fi)"

definition vote_fileinfo :: "signature order \<Rightarrow> file_info list \<Rightarrow> nat \<Rightarrow> file_info option" where
  "vote_fileinfo iter candidates quorum =
     (let sigs = map signature_of candidates in
      case max_by_key (count_list sigs) (filter (\<lambda>g. quorum \<le> count_list sigs g) (iter (remdups sigs))) of
        None \<Rightarrow> None
      | Some g \<Rightarrow> find (\<lambda>fi. signature_of fi = g) candidates)"

function merge_within_set :: "signature order \<Rightarrow> nat \<Rightarrow> string \<Rightarrow> (string \<times> file_info) list list
    \<Rightarrow> object_info list" where
  "merge_within_set iter quorum bucket streams =
     (case smallest fst streams None of
        None \<Rightarrow> []
      | Some target \<Rightarrow>
          let candidates = map snd (heads_at fst target streams);
              rest = merge_within_set iter quorum bucket (map (pop_at fst target) streams) in
          if length candidates < quorum then rest
          else case vote_fileinfo iter candidates quorum of
                 None \<Rightarrow> rest
               | Some canonical \<Rightarrow>
                   if \<not> fi_deleted canonical then to_object_info bucket canonical # rest else rest)"
  by pat_completeness auto

termination
  by (relation "measure (\<lambda>(iter, quorum, bucket, streams). sum_list (map length streams))")
    (auto dest!: pop_at_decreases)

declare merge_within_set.simps [simp del]

subsection \<open>The merge across sets\<close>

definition newest :: "object_info list \<Rightarrow> object_info" where
  "newest cs = foldl (\<lambda>chosen oi. if oi_modified_ms oi > oi_modified_ms chosen then oi else chosen) (hd cs) (tl cs)"

function merge_across_sets :: "object_info list list \<Rightarrow> object_info list" where
  "merge_across_sets streams =
     (case smallest oi_key streams None of
        None \<Rightarrow> []
      | Some target \<Rightarrow> newest (heads_at oi_key target streams)
                        # merge_across_sets (map (pop_at oi_key target) streams))"
  by pat_completeness auto

termination
  by (relation "measure (\<lambda>streams. sum_list (map length streams))") (auto dest!: pop_at_decreases)

declare merge_across_sets.simps [simp del]

subsection \<open>Listing\<close>

text \<open>\<open>walks\<close> are the answers of the set's drives; drives that fail are left out.\<close>

definition list_one_set :: "signature order \<Rightarrow> string \<Rightarrow> ((string \<times> file_info) list, io_error) result list
    \<Rightarrow> object_info list" where
  "list_one_set iter bucket walks =
     (let n = length walks;
          streams = List.map_filter (\<lambda>r. case r of Inr s \<Rightarrow> Some s | Inl _ \<Rightarrow> None) walks;
          quorum = (n + 1) div 2 in
      if n = 0 then []
      else if length streams < quorum then []
      else merge_within_set iter quorum bucket streams)"

text \<open>
  One more than the requested number of keys is asked for and returned; a request for 0 keys has no
  limit. \<open>sets\<close> gives the drives' walks for each set, under the per-set limit.
\<close>

definition list_cap :: "nat \<Rightarrow> nat option" where
  "list_cap max_keys = (if max_keys = 0 then None else Some (max_keys + 1))"

definition list_objects :: "signature order \<Rightarrow> string \<Rightarrow> nat
    \<Rightarrow> (nat option \<Rightarrow> ((string \<times> file_info) list, io_error) result list list) \<Rightarrow> object_info list" where
  "list_objects iter bucket max_keys sets =
     (let merged = merge_across_sets (map (list_one_set iter bucket) (sets (list_cap max_keys))) in
      if 0 < max_keys \<and> max_keys + 1 < length merged then take (max_keys + 1) merged else merged)"

subsection \<open>Merging sorted streams\<close>

definition keys_of :: "('a \<Rightarrow> string) \<Rightarrow> 'a list list \<Rightarrow> string set" where
  "keys_of key ss = (\<Union>s \<in> set ss. key ` set s)"

definition key_sorted :: "('a \<Rightarrow> string) \<Rightarrow> 'a list \<Rightarrow> bool" where
  "key_sorted key s = sorted_wrt (\<lambda>x y. key x < key y) s"

text \<open>All entries with a key, at most one from each sorted stream.\<close>

definition entries_at :: "('a \<Rightarrow> string) \<Rightarrow> string \<Rightarrow> 'a list list \<Rightarrow> 'a list" where
  "entries_at key k ss = List.map_filter (find (\<lambda>x. key x = k)) ss"

lemma keys_of_simps [simp]: "keys_of key [] = {}" "keys_of key (s # ss) = key ` set s \<union> keys_of key ss"
  by (simp_all add: keys_of_def)

lemma finite_keys_of [simp]: "finite (keys_of key ss)"
  by (simp add: keys_of_def)

lemma smallest_None: "smallest key ss cur = None \<longleftrightarrow> cur = None \<and> keys_of key ss = {}"
  by (induction key ss cur rule: smallest.induct) (auto split: if_splits option.splits)

lemma smallest_min:
  assumes "smallest key ss cur = Some t" "\<forall>s \<in> set ss. key_sorted key s"
  shows "(\<forall>k \<in> keys_of key ss. t \<le> k) \<and> (\<forall>c. cur = Some c \<longrightarrow> t \<le> c)"
  using assms
proof (induction key ss cur rule: smallest.induct)
  case (3 key x xs ss cur)
  let ?cur = "if (case cur of None \<Rightarrow> True | Some c \<Rightarrow> key x < c) then Some (key x) else cur"
  have ih: "\<forall>k \<in> keys_of key ss. t \<le> k" "\<forall>c. ?cur = Some c \<longrightarrow> t \<le> c"
    using "3.IH" "3.prems" by auto
  have le: "t \<le> key x" and cur: "\<forall>c. cur = Some c \<longrightarrow> t \<le> c"
    using ih(2) by (auto split: option.splits if_splits)
  have "\<forall>y \<in> set xs. key x < key y" using "3.prems"(2) by (simp add: key_sorted_def)
  then have "\<forall>k \<in> key ` set (x # xs). t \<le> k" using le by fastforce
  with ih(1) cur show ?case by auto
qed auto

lemma smallest_in: "smallest key ss None = Some t \<Longrightarrow> t \<in> keys_of key ss"
  using smallest_head [of key ss None t] by (force simp: keys_of_def)

lemma heads_at_entries:
  assumes "\<forall>s \<in> set ss. key_sorted key s" "\<forall>k \<in> keys_of key ss. t \<le> k"
  shows "heads_at key t ss = entries_at key t ss"
  using assms
proof (induction key t ss rule: heads_at.induct)
  case (3 key t x xs ss)
  have "\<forall>y \<in> set xs. key x < key y" "t \<le> key x" using "3.prems" by (simp_all add: key_sorted_def)
  then have "find (\<lambda>x. key x = t) xs = None" by (fastforce simp: find_None_iff)
  with 3 show ?case by (auto simp: entries_at_def List.map_filter_simps)
qed (simp_all add: entries_at_def List.map_filter_simps)

lemma pop_at_sorted:
  assumes "key_sorted key s" "\<forall>x \<in> set s. t \<le> key x"
  shows "key_sorted key (pop_at key t s) \<and> key ` set (pop_at key t s) = key ` set s - {t} \<and>
    (k \<noteq> t \<longrightarrow> find (\<lambda>x. key x = k) (pop_at key t s) = find (\<lambda>x. key x = k) s)"
proof (cases s)
  case (Cons x xs)
  have "\<forall>y \<in> set xs. key x < key y" "t \<le> key x" using assms Cons by (simp_all add: key_sorted_def)
  then have "t \<notin> key ` set xs" by fastforce
  with assms Cons show ?thesis by (auto simp: key_sorted_def)
qed (simp add: key_sorted_def)

lemma pop_all_sorted:
  assumes "\<forall>s \<in> set ss. key_sorted key s" "\<forall>k \<in> keys_of key ss. t \<le> k"
  shows "\<forall>s \<in> set (map (pop_at key t) ss). key_sorted key s"
    "keys_of key (map (pop_at key t) ss) = keys_of key ss - {t}"
    "k \<noteq> t \<Longrightarrow> entries_at key k (map (pop_at key t) ss) = entries_at key k ss"
proof -
  have p: "key_sorted key (pop_at key t s) \<and> key ` set (pop_at key t s) = key ` set s - {t} \<and>
      (k \<noteq> t \<longrightarrow> find (\<lambda>x. key x = k) (pop_at key t s) = find (\<lambda>x. key x = k) s)" if "s \<in> set ss" for s k
    using assms that by (intro pop_at_sorted) (auto simp: keys_of_def)
  show "\<forall>s \<in> set (map (pop_at key t) ss). key_sorted key s" using p by auto
  show "keys_of key (map (pop_at key t) ss) = keys_of key ss - {t}" using p unfolding keys_of_def by auto
  show "entries_at key k (map (pop_at key t) ss) = entries_at key k ss" if "k \<noteq> t"
    using p that unfolding entries_at_def by (induction ss) (auto simp: List.map_filter_simps split: option.splits)
qed

lemma sorted_keys_step:
  assumes "finite K" "t \<in> K" "\<forall>k \<in> K. t \<le> (k :: string)"
  shows "sorted_list_of_set K = t # sorted_list_of_set (K - {t})"
proof -
  have "Min K = t" using assms by (intro Min_eqI) auto
  with assms show ?thesis using sorted_list_of_set_nonempty [of K] by auto
qed

text \<open>
  The common step of both merges: the next key is the least, its entries are at the heads, and the
  rest of the keys keep their entries.
\<close>

lemma merge_step:
  assumes "smallest key ss None = Some t" "\<forall>s \<in> set ss. key_sorted key s"
  shows "heads_at key t ss = entries_at key t ss" "\<forall>s \<in> set (map (pop_at key t) ss). key_sorted key s"
    "sorted_list_of_set (keys_of key ss) = t # sorted_list_of_set (keys_of key (map (pop_at key t) ss))"
    "k \<in> keys_of key (map (pop_at key t) ss) \<Longrightarrow>
       entries_at key k (map (pop_at key t) ss) = entries_at key k ss"
proof -
  have min: "\<forall>k \<in> keys_of key ss. t \<le> k" using smallest_min [OF assms] by blast
  show "heads_at key t ss = entries_at key t ss" by (rule heads_at_entries [OF assms(2) min])
  show "\<forall>s \<in> set (map (pop_at key t) ss). key_sorted key s" by (rule pop_all_sorted(1) [OF assms(2) min])
  note keys = pop_all_sorted(2) [OF assms(2) min]
  show "sorted_list_of_set (keys_of key ss) = t # sorted_list_of_set (keys_of key (map (pop_at key t) ss))"
    unfolding keys by (rule sorted_keys_step) (use smallest_in [OF assms(1)] min in auto)
  show "k \<in> keys_of key (map (pop_at key t) ss) \<Longrightarrow> entries_at key k (map (pop_at key t) ss) = entries_at key k ss"
    unfolding keys by (rule pop_all_sorted(3) [OF assms(2) min]) auto
qed

subsection \<open>What is listed\<close>

definition set_entry :: "signature order \<Rightarrow> nat \<Rightarrow> string \<Rightarrow> (string \<times> file_info) list list \<Rightarrow> string \<Rightarrow> object_info option" where
  "set_entry iter quorum bucket streams k =
     (let candidates = map snd (entries_at fst k streams) in
      if length candidates < quorum then None
      else case vote_fileinfo iter candidates quorum of
             None \<Rightarrow> None
           | Some canonical \<Rightarrow> if fi_deleted canonical then None else Some (to_object_info bucket canonical))"

lemma merge_within_set_entries:
  assumes "\<forall>s \<in> set streams. key_sorted fst s"
  shows "merge_within_set iter quorum bucket streams
    = List.map_filter (set_entry iter quorum bucket streams) (sorted_list_of_set (keys_of fst streams))"
  using assms
proof (induction "sum_list (map length streams)" arbitrary: streams rule: less_induct)
  case less
  show ?case
  proof (cases "smallest fst streams None")
    case None
    then have "keys_of fst streams = {}" by (simp add: smallest_None)
    with None show ?thesis by (subst merge_within_set.simps) (simp add: List.map_filter_simps)
  next
    case (Some t)
    note step = merge_step [OF Some less.prems]
    let ?rest = "map (pop_at fst t) streams"
    have ih: "merge_within_set iter quorum bucket ?rest
        = List.map_filter (set_entry iter quorum bucket ?rest) (sorted_list_of_set (keys_of fst ?rest))"
      by (rule less.hyps [OF _ step(2)]) (use pop_at_decreases [OF Some] in \<open>simp add: comp_def\<close>)
    also have "\<dots> = List.map_filter (set_entry iter quorum bucket streams) (sorted_list_of_set (keys_of fst ?rest))"
      using step(4) by (intro map_filter_cong) (simp add: set_entry_def)
    finally show ?thesis
      unfolding step(3) List.map_filter_simps using Some step(1)
      by (subst merge_within_set.simps) (auto simp: set_entry_def Let_def split: option.splits)
  qed
qed

lemma merge_across_sets_entries:
  assumes "\<forall>s \<in> set streams. key_sorted oi_key s"
  shows "merge_across_sets streams
    = map (\<lambda>k. newest (entries_at oi_key k streams)) (sorted_list_of_set (keys_of oi_key streams))"
  using assms
proof (induction "sum_list (map length streams)" arbitrary: streams rule: less_induct)
  case less
  show ?case
  proof (cases "smallest oi_key streams None")
    case None
    then have "keys_of oi_key streams = {}" by (simp add: smallest_None)
    with None show ?thesis by (subst merge_across_sets.simps) simp
  next
    case (Some t)
    note step = merge_step [OF Some less.prems]
    let ?rest = "map (pop_at oi_key t) streams"
    have "merge_across_sets ?rest
        = map (\<lambda>k. newest (entries_at oi_key k ?rest)) (sorted_list_of_set (keys_of oi_key ?rest))"
      by (rule less.hyps [OF _ step(2)]) (use pop_at_decreases [OF Some] in \<open>simp add: comp_def\<close>)
    also have "\<dots> = map (\<lambda>k. newest (entries_at oi_key k streams)) (sorted_list_of_set (keys_of oi_key ?rest))"
      using step(4) by simp
    finally show ?thesis
      unfolding step(3) using Some step(1) by (subst merge_across_sets.simps) simp
  qed
qed

lemma foldl_newest:
  fixes x :: object_info
  defines "later \<equiv> \<lambda>c oi. if oi_modified_ms oi > oi_modified_ms c then oi else c"
  shows "foldl later x xs \<in> set (x # xs) \<and> (\<forall>y \<in> set (x # xs). oi_modified_ms y \<le> oi_modified_ms (foldl later x xs))"
proof (induction xs arbitrary: x)
  case (Cons z zs)
  have "later x z = x \<or> later x z = z" "oi_modified_ms x \<le> oi_modified_ms (later x z)"
    "oi_modified_ms z \<le> oi_modified_ms (later x z)" by (simp_all add: later_def)
  with Cons [of "later x z"] show ?case by (auto intro: order_trans)
qed simp

lemma newest_max:
  "cs \<noteq> [] \<Longrightarrow> newest cs \<in> set cs \<and> (\<forall>y \<in> set cs. oi_modified_ms y \<le> oi_modified_ms (newest cs))"
  using foldl_newest [of "hd cs" "tl cs"] by (simp add: newest_def)

lemma entries_at_key: "x \<in> set (entries_at key k ss) \<Longrightarrow> key x = k \<and> (\<exists>s \<in> set ss. x \<in> set s)"
  by (auto simp: entries_at_def in_map_filter dest: find_Some_mem)

lemma length_entries_at: "length (entries_at key k ss) \<le> length ss"
  by (simp add: entries_at_def List.map_filter_def)

lemma vote_fileinfo_mem:
  "vote_fileinfo iter candidates quorum = Some fi \<Longrightarrow>
     fi \<in> set candidates \<and> quorum \<le> count_list (map signature_of candidates) (signature_of fi)"
  by (auto simp: vote_fileinfo_def Let_def split: option.splits dest!: find_Some_mem max_by_key_Some)

lemma set_entry_Some:
  assumes "set_entry iter quorum bucket streams k = Some oi"
  shows "\<exists>fi s. s \<in> set streams \<and> (k, fi) \<in> set s \<and> \<not> fi_deleted fi \<and> oi = to_object_info bucket fi \<and>
    quorum \<le> count_list (map (signature_of \<circ> snd) (entries_at fst k streams)) (signature_of fi)"
proof -
  let ?c = "map snd (entries_at fst k streams)"
  obtain fi where v: "vote_fileinfo iter ?c quorum = Some fi" "\<not> fi_deleted fi" "oi = to_object_info bucket fi"
    using assms by (auto simp: set_entry_def Let_def split: if_splits option.splits)
  note m = vote_fileinfo_mem [OF v(1)]
  then obtain x where "x \<in> set (entries_at fst k streams)" "fi = snd x" by auto
  with entries_at_key [of x fst k streams] v m show ?thesis by (cases x) auto
qed

text \<open>What one set shows at a key.\<close>

definition visible :: "signature order \<Rightarrow> string \<Rightarrow> ((string \<times> file_info) list, io_error) result list
    \<Rightarrow> string \<Rightarrow> object_info option" where
  "visible iter bucket walks k =
     (let streams = List.map_filter (\<lambda>r. case r of Inr s \<Rightarrow> Some s | Inl _ \<Rightarrow> None) walks;
          quorum = (length walks + 1) div 2 in
      if length streams < quorum then None else set_entry iter quorum bucket streams k)"

definition walk_ok :: "((string \<times> file_info) list, io_error) result list \<Rightarrow> bool" where
  "walk_ok walks \<longleftrightarrow>
     (\<forall>s. Ok s \<in> set walks \<longrightarrow> key_sorted fst s \<and> (\<forall>(name, fi) \<in> set s. fi_name fi = name))"

lemma ok_streams:
  "s \<in> set (List.map_filter (\<lambda>r. case r of Inr s \<Rightarrow> Some s | Inl _ \<Rightarrow> None) walks) \<longleftrightarrow> Ok s \<in> set walks"
proof -
  have "(case r of Inr s \<Rightarrow> Some s | Inl _ \<Rightarrow> None) = Some s \<longleftrightarrow> r = Ok s" for r :: "('a, 'b) result" and s
    by (cases r) auto
  then show ?thesis by (auto simp: in_map_filter)
qed

lemma visible_Some:
  assumes "visible iter bucket walks k = Some oi"
  shows "\<exists>fi s. Ok s \<in> set walks \<and> (k, fi) \<in> set s \<and> oi = to_object_info bucket fi"
proof -
  let ?streams = "List.map_filter (\<lambda>r. case r of Inr s \<Rightarrow> Some s | Inl _ \<Rightarrow> None) walks"
  have "set_entry iter ((length walks + 1) div 2) bucket ?streams k = Some oi"
    using assms by (simp add: visible_def Let_def split: if_splits)
  from set_entry_Some [OF this] show ?thesis by (auto simp: ok_streams)
qed

lemma visible_key:
  assumes "walk_ok walks" "visible iter bucket walks k = Some oi"
  shows "oi_key oi = k"
proof -
  obtain fi s where "Ok s \<in> set walks" "(k, fi) \<in> set s" "oi = to_object_info bucket fi"
    using visible_Some [OF assms(2)] by blast
  with assms(1) show ?thesis unfolding walk_ok_def to_object_info_def by fastforce
qed

lemma sorted_wrt_map_filter:
  assumes "sorted_wrt (<) ks" "\<And>k oi. f k = Some oi \<Longrightarrow> oi_key oi = k"
  shows "key_sorted oi_key (List.map_filter f ks)"
  using assms(1)
proof (induction ks)
  case (Cons k ks)
  have "\<forall>oi \<in> set (List.map_filter f ks). k < oi_key oi"
    using Cons.prems assms(2) by (auto simp: in_map_filter)
  with Cons assms(2) show ?case
    by (cases "f k") (auto simp: key_sorted_def List.map_filter_simps)
qed (simp add: key_sorted_def List.map_filter_simps)

lemma list_one_set_spec:
  assumes "walk_ok walks"
  shows "key_sorted oi_key (list_one_set iter bucket walks) \<and>
    (oi \<in> set (list_one_set iter bucket walks) \<longleftrightarrow> visible iter bucket walks (oi_key oi) = Some oi)"
proof -
  let ?streams = "List.map_filter (\<lambda>r. case r of Inr s \<Rightarrow> Some s | Inl _ \<Rightarrow> None) walks"
  let ?q = "(length walks + 1) div 2"
  show ?thesis
  proof (cases "length walks = 0 \<or> length ?streams < ?q")
    case True
    have "visible iter bucket walks k = None" for k
      using True by (auto simp: visible_def Let_def List.map_filter_simps set_entry_def entries_at_def
          vote_fileinfo_def key_sorted_def split: option.splits)
    with True show ?thesis by (auto simp: list_one_set_def Let_def key_sorted_def)
  next
    case False
    have sorted: "\<forall>s \<in> set ?streams. key_sorted fst s" using assms by (simp add: ok_streams walk_ok_def)
    have eq: "list_one_set iter bucket walks
        = List.map_filter (visible iter bucket walks) (sorted_list_of_set (keys_of fst ?streams))"
    proof -
      have "visible iter bucket walks = set_entry iter ?q bucket ?streams"
        using False by (intro ext) (simp add: visible_def Let_def)
      with False merge_within_set_entries [OF sorted, of iter ?q bucket] show ?thesis
        unfolding list_one_set_def Let_def by simp
    qed
    have keys: "k \<in> keys_of fst ?streams" if "visible iter bucket walks k = Some oi" for k
      using visible_Some [OF that] by (force simp: keys_of_def ok_streams)
    have "key_sorted oi_key (list_one_set iter bucket walks)"
      unfolding eq by (rule sorted_wrt_map_filter) (auto intro: visible_key [OF assms])
    moreover have "oi \<in> set (list_one_set iter bucket walks) \<longleftrightarrow> visible iter bucket walks (oi_key oi) = Some oi"
      unfolding eq in_map_filter using keys visible_key [OF assms] by auto
    ultimately show ?thesis ..
  qed
qed

lemma find_in_sorted: "key_sorted key s \<Longrightarrow> y \<in> set s \<Longrightarrow> find (\<lambda>x. key x = key y) s = Some y"
  by (induction s) (auto simp: key_sorted_def)

lemma in_entries_at:
  "\<forall>s \<in> set ss. key_sorted key s \<Longrightarrow> s \<in> set ss \<Longrightarrow> y \<in> set s \<Longrightarrow> y \<in> set (entries_at key (key y) ss)"
  unfolding entries_at_def in_map_filter by (rule bexI [of _ s]) (auto intro: find_in_sorted)

lemma merge_across_sets_spec:
  assumes sorted: "\<forall>s \<in> set ss. key_sorted oi_key s"
  shows "key_sorted oi_key (merge_across_sets ss)"
    "oi \<in> set (merge_across_sets ss) \<Longrightarrow> \<exists>s \<in> set ss. oi \<in> set s"
    "oi \<in> set (merge_across_sets ss) \<Longrightarrow> s \<in> set ss \<Longrightarrow> y \<in> set s \<Longrightarrow> oi_key y = oi_key oi \<Longrightarrow>
       oi_modified_ms y \<le> oi_modified_ms oi"
    "s \<in> set ss \<Longrightarrow> y \<in> set s \<Longrightarrow> oi_key y \<in> oi_key ` set (merge_across_sets ss)"
proof -
  let ?K = "keys_of oi_key ss" and ?e = "\<lambda>k. entries_at oi_key k ss"
  note full = merge_across_sets_entries [OF sorted]
  have set: "set (merge_across_sets ss) = (\<lambda>k. newest (?e k)) ` ?K" unfolding full by simp
  have new: "oi_key (newest (?e k)) = k \<and> newest (?e k) \<in> set (?e k) \<and>
    (\<forall>y \<in> set (?e k). oi_modified_ms y \<le> oi_modified_ms (newest (?e k)))" if "k \<in> ?K" for k
  proof -
    obtain s y where "s \<in> set ss" "y \<in> set s" "k = oi_key y" using \<open>k \<in> ?K\<close> unfolding keys_of_def by blast
    then have "?e k \<noteq> []" using in_entries_at [OF sorted, of s y] by force
    note n = newest_max [OF this]
    then have "oi_key (newest (?e k)) = k" using entries_at_key [of "newest (?e k)" oi_key k ss] by simp
    with n show ?thesis by simp
  qed
  have "map oi_key (merge_across_sets ss) = sorted_list_of_set ?K"
    unfolding full map_map comp_def by (rule map_idI) (use new in simp)
  then have "sorted_wrt (<) (map oi_key (merge_across_sets ss))" by simp
  then show "key_sorted oi_key (merge_across_sets ss)" by (simp add: key_sorted_def sorted_wrt_map)
  show "oi_key y \<in> oi_key ` set (merge_across_sets ss)" if "s \<in> set ss" "y \<in> set s"
  proof -
    have "oi_key y \<in> ?K" using that unfolding keys_of_def by blast
    then show ?thesis unfolding set image_image by (rule rev_image_eqI) (simp add: new \<open>oi_key y \<in> ?K\<close>)
  qed
  assume "oi \<in> set (merge_across_sets ss)"
  then obtain k where k: "k \<in> ?K" "oi = newest (?e k)" unfolding set by blast
  have oi: "oi \<in> set (?e k)" "oi_key oi = k" "\<forall>y \<in> set (?e k). oi_modified_ms y \<le> oi_modified_ms oi"
    using new [OF k(1)] unfolding k(2) by simp_all
  show "\<exists>s \<in> set ss. oi \<in> set s" using entries_at_key [OF oi(1)] by simp
  show "oi_modified_ms y \<le> oi_modified_ms oi" if "s \<in> set ss" "y \<in> set s" "oi_key y = oi_key oi"
    using in_entries_at [OF sorted that(1,2)] oi(2,3) that(3) by simp
qed

subsection \<open>Properties\<close>


definition live_record :: "string \<Rightarrow> nat \<Rightarrow> file_info" where
  "live_record name modified = file_info_default\<lparr>fi_name := name, fi_mod_time_ms := modified\<rparr>"

definition example_walk :: "(string \<times> file_info) list" where
  "example_walk = [(''a'', live_record ''a'' 1), (''b'', live_record ''b'' 1)]"




end
