(* ===== verification/Object_Engine.thy ===== *)
theory Object_Engine
  imports Backend Listing
begin

text \<open>
  The object operations of \<^verbatim>\<open>crates/openlake_storage/src/engine.rs\<close>: PUT with its inline and
  erasure-coded paths, the promotion of a version on all drives of a set with its undo, GET with a
  byte range, HEAD and DELETE.

  An operation maps the state of all drives to a result and the new state; \<open>None\<close> is a panic. The
  clock, the fresh identifiers, the outcome of the lock acquisition and that of the check of the lock
  before the commit are arguments. Hash functions, the Reed-Solomon coder, the codecs and the
  iteration order of hash maps are fields of the engine.
\<close>

subsection \<open>The engine\<close>

definition DEFAULT_INLINE_THRESHOLD :: nat where
  "DEFAULT_INLINE_THRESHOLD = 128 * 1024"

definition DEFAULT_EC_PER_SHARD_BYTES :: nat where
  "DEFAULT_EC_PER_SHARD_BYTES = 1024 * 1024"

definition PART1_PATH_SUFFIX :: string where
  "PART1_PATH_SUFFIX = ''part.1''"

record ('d, 'k, 's, 'h) engine =
  eg_cluster :: cluster_config
  eg_disks :: "disk_addr list"
  eg_ops :: "('d, 'k, 's) backend"
  eg_inline_threshold :: nat
  eg_sip :: "string \<Rightarrow> nat"
  eg_md5_hex :: "byte list \<Rightarrow> string"
  eg_blake_hex :: "byte list \<Rightarrow> string"
  eg_blake :: "byte list \<Rightarrow> 'h"
  eg_orders :: "'h orders"
  eg_sig_order :: "signature order"
  eg_rs_encode :: rs_encoder
  eg_rs_decode :: rs_decoder
  eg_print :: "storage_error \<Rightarrow> string"
  eg_bucket_to_vec :: "bucket_meta \<Rightarrow> (byte list, string) result"
  eg_bucket_from_slice :: "byte list \<Rightarrow> (bucket_meta, string) result"
  eg_crc32c :: "byte list \<Rightarrow> 32 word"
  eg_part_to_vec :: "object_part_info \<Rightarrow> (byte list, string) result"
  eg_part_from_slice :: "byte list \<Rightarrow> (object_part_info, string) result"
  eg_hex_decode :: "string \<Rightarrow> (byte list, string) result"

text \<open>Results and effects of the operations.\<close>

type_synonym ('a, 'd) eng = "'d store \<Rightarrow> (('a, storage_error) result \<times> 'd store) option"

definition eng_of :: "('a, storage_error) result \<Rightarrow> ('a, 'd) eng" where
  "eng_of r st = Some (r, st)"

abbreviation eng_ok :: "'a \<Rightarrow> ('a, 'd) eng" where
  "eng_ok x \<equiv> eng_of (Ok x)"

abbreviation eng_err :: "storage_error \<Rightarrow> ('a, 'd) eng" where
  "eng_err e \<equiv> eng_of (Err e)"

definition eng_bind :: "('a, 'd) eng \<Rightarrow> ('a \<Rightarrow> ('b, 'd) eng) \<Rightarrow> ('b, 'd) eng" where
  "eng_bind m f st =
     (case m st of
        None \<Rightarrow> None
      | Some (Inl e, st1) \<Rightarrow> Some (Err e, st1)
      | Some (Inr x, st1) \<Rightarrow> f x st1)"

definition eng_try :: "('a, 'd) eng \<Rightarrow> (('a, storage_error) result \<Rightarrow> ('b, 'd) eng) \<Rightarrow> ('b, 'd) eng" where
  "eng_try m f st = (case m st of None \<Rightarrow> None | Some (r, st1) \<Rightarrow> f r st1)"

definition eng_fan :: "(disk_addr \<times> ('d \<Rightarrow> 'a \<times> 'd)) list \<Rightarrow> ('a list \<Rightarrow> ('b, 'd) eng) \<Rightarrow> ('b, 'd) eng" where
  "eng_fan ops f st = (let (xs, st1) = fan_out ops st in f xs st1)"

definition eng_fan_panicking :: "(disk_addr \<times> ('d \<Rightarrow> ('a \<times> 'd) option)) list \<Rightarrow> ('a list \<Rightarrow> ('b, 'd) eng) \<Rightarrow> ('b, 'd) eng" where
  "eng_fan_panicking ops f st = (case fan_out_panicking ops st of None \<Rightarrow> None | Some (xs, st1) \<Rightarrow> f xs st1)"

definition on_all :: "disk_addr list \<Rightarrow> ('d \<Rightarrow> 'a \<times> 'd) \<Rightarrow> (disk_addr \<times> ('d \<Rightarrow> 'a \<times> 'd)) list" where
  "on_all addrs f = map (\<lambda>a. (a, f)) addrs"

text \<open>Routing; an arithmetic panic of the topology is a panic of the operation.\<close>

definition known_backend :: "('d, 'k, 's, 'h) engine \<Rightarrow> disk_addr \<Rightarrow> (disk_addr, storage_error) result" where
  "known_backend eg addr =
     (if addr \<in> set (eg_disks eg) then Ok addr
      else Err (SIo (InvalidArgument (''unknown disk '' @ show_disk_addr addr))))"

definition all_backends :: "('d, 'k, 's, 'h) engine \<Rightarrow> (disk_addr list, storage_error) result" where
  "all_backends eg = collect_results (map (known_backend eg) (all_disks (eg_cluster eg)))"

definition set_backends :: "('d, 'k, 's, 'h) engine \<Rightarrow> string \<Rightarrow> string \<Rightarrow> (disk_addr list, storage_error) result option" where
  "set_backends eg bucket key =
     map_option (\<lambda>addrs. collect_results (map (known_backend eg) addrs)) (disks_for (eg_sip eg) (eg_cluster eg) bucket key)"

definition with_set :: "('d, 'k, 's, 'h) engine \<Rightarrow> string \<Rightarrow> string \<Rightarrow> (disk_addr list \<Rightarrow> ('b, 'd) eng) \<Rightarrow> ('b, 'd) eng" where
  "with_set eg bucket key f st =
     (case set_backends eg bucket key of
        None \<Rightarrow> None
      | Some (Inl e) \<Rightarrow> Some (Err e, st)
      | Some (Inr addrs) \<Rightarrow> f addrs st)"

definition obj_lock_key :: "string \<Rightarrow> string \<Rightarrow> string" where
  "obj_lock_key bucket key = ''obj:'' @ bucket @ ''/'' @ key"

definition bkt_lock_key :: "string \<Rightarrow> string" where
  "bkt_lock_key bucket = ''bkt:'' @ bucket"

definition part_lock_key :: "string \<Rightarrow> string \<Rightarrow> string \<Rightarrow> nat \<Rightarrow> string" where
  "part_lock_key bucket key upload_id part_number =
     ''part:'' @ bucket @ ''/'' @ key @ ''/'' @ upload_id @ ''/'' @ show_nat part_number"

definition bkt_meta_key :: "string \<Rightarrow> string" where
  "bkt_meta_key bucket = ''buckets/'' @ bucket @ ''/.metadata.bin''"

subsection \<open>Byte ranges\<close>

datatype byte_range = Bounded nat nat | OpenEnded nat | Suffix nat

text \<open>Subtraction and addition wrap at 64 bits in a release build.\<close>

fun byte_range_resolve :: "byte_range \<Rightarrow> nat \<Rightarrow> (nat \<times> nat) option" where
  "byte_range_resolve (Bounded start fin) sz =
     (if sz = 0 \<or> sz \<le> start then None
      else let fin = min fin (sz - 1) in Some (start, (usize_sub fin start + 1) mod 2 ^ 64))"
| "byte_range_resolve (OpenEnded start) sz = (if sz = 0 \<or> sz \<le> start then None else Some (start, sz - start))"
| "byte_range_resolve (Suffix last_n) sz =
     (if sz = 0 \<or> last_n = 0 then None else let n = min last_n sz in Some (sz - n, n))"

subsection \<open>Records of a new version\<close>

definition as_i64 :: "nat \<Rightarrow> int" where
  "as_i64 n = (int n + 2 ^ 63) mod 2 ^ 64 - 2 ^ 63"

text \<open>Insertion into a map with ordered keys.\<close>

fun btree_insert :: "string \<Rightarrow> 'v \<Rightarrow> (string \<times> 'v) list \<Rightarrow> (string \<times> 'v) list" where
  "btree_insert k v [] = [(k, v)]"
| "btree_insert k v ((k', v') # m) =
     (if k = k' then (k, v) # m else if k < k' then (k, v) # (k', v') # m else (k', v') # btree_insert k v m)"

definition build_file_info :: "string \<Rightarrow> string \<Rightarrow> int \<Rightarrow> string \<Rightarrow> nat \<Rightarrow> string option \<Rightarrow> byte list list option
    \<Rightarrow> object_part_info list \<Rightarrow> file_info" where
  "build_file_info volume name sz etag mod_time_ms content_type inline parts =
     (let m = btree_insert ETAG_META_KEY etag [] in
      file_info_default\<lparr>fi_volume := volume, fi_name := name, fi_size := sz, fi_mod_time_ms := mod_time_ms,
        fi_is_latest := True, fi_num_versions := 1, fi_fresh := True, fi_parts := parts, fi_data := inline,
        fi_metadata := (case content_type of None \<Rightarrow> m | Some ct \<Rightarrow> btree_insert CONTENT_TYPE_META_KEY ct m)\<rparr>)"

text \<open>Slot numbers and shard counts are bytes.\<close>

definition default_erasure_info :: "nat \<Rightarrow> nat \<Rightarrow> nat \<Rightarrow> erasure_info" where
  "default_erasure_info data_shards parity_shards n =
     \<lparr>ei_algorithm = ''ReedSolomon'', ei_data_blocks = data_shards, ei_parity_blocks = parity_shards,
      ei_block_size = DEFAULT_EC_PER_SHARD_BYTES * data_shards mod 2 ^ 32, ei_index = 0,
      ei_distribution = [1..<Suc n], ei_checksums = []\<rparr>"

definition with_per_disk_index :: "file_info \<Rightarrow> erasure_info \<Rightarrow> nat \<Rightarrow> file_info list" where
  "with_per_disk_index base_fi base_erasure n =
     map (\<lambda>i. base_fi\<lparr>fi_erasure := base_erasure\<lparr>ei_index := (i + 1) mod 2 ^ 8\<rparr>\<rparr>) [0..<n]"

definition single_part_info :: "string \<Rightarrow> int \<Rightarrow> int \<Rightarrow> nat \<Rightarrow> object_part_info list" where
  "single_part_info etag on_disk_size actual_size mod_time_ms =
     [\<lparr>op_etag = etag, op_number = 1, op_size = on_disk_size, op_actual_size = actual_size,
       op_mod_time_ms = mod_time_ms, op_index = [], op_checksums = []\<rparr>]"

text \<open>\<open>hashed\<close> is what the MD5 state has seen: the bytes of the frames.\<close>

function drain_inline_payload :: "(byte list \<Rightarrow> string) \<Rightarrow> 's reader \<Rightarrow> nat \<Rightarrow> byte list list \<Rightarrow> nat \<Rightarrow> 's
    \<Rightarrow> (byte list list \<times> string, io_error) result" where
  "drain_inline_payload md5_hex rd payload_len frames read_bytes s =
     (if read_bytes < payload_len
      then case rd s of
             (Inl e, _) \<Rightarrow> Err e
           | (Inr chunk, s1) \<Rightarrow>
               if chunk = []
               then Err (Io UnexpectedEof (''inline put: source ended at '' @ show_nat read_bytes @ ''/'' @ show_nat payload_len))
               else let frame = take (min (payload_len - read_bytes) (length chunk)) chunk in
                 drain_inline_payload md5_hex rd payload_len (frames @ [frame]) (read_bytes + length frame) s1
      else Ok (frames, md5_hex (concat frames)))"
  by pat_completeness auto

termination
  by (relation "measure (\<lambda>(md5_hex, rd, payload_len, frames, read_bytes, s). payload_len - read_bytes)")
    (auto simp flip: length_greater_0_conv)

declare drain_inline_payload.simps [simp del]

subsection \<open>Promotion on a set\<close>

definition cleanup_src :: "('d, 'k, 's, 'h) engine \<Rightarrow> disk_addr list \<Rightarrow> string \<Rightarrow> string \<Rightarrow> 'd store \<Rightarrow> 'd store" where
  "cleanup_src eg backends src_volume src_path st =
     snd (fan_out (on_all backends (bk_delete (eg_ops eg) src_volume src_path True)) st)"

definition undo_options :: delete_options where
  "undo_options = \<lparr>do_force_del_marker = False, do_undo_write = True\<rparr>"

definition delete_default :: delete_options where
  "delete_default = \<lparr>do_force_del_marker = False, do_undo_write = False\<rparr>"

text \<open>The first error of a fan-out in slot order.\<close>

fun first_err :: "('a, 'e) result list \<Rightarrow> 'e option" where
  "first_err [] = None"
| "first_err (Inl e # rs) = Some e"
| "first_err (Inr _ # rs) = first_err rs"

definition successes :: "disk_addr list \<Rightarrow> file_info list \<Rightarrow> ('a, io_error) result list \<Rightarrow> (disk_addr \<times> file_info \<times> 'a) list" where
  "successes backends fis results =
     List.map_filter (\<lambda>(a, fi, r). case r of Inr resp \<Rightarrow> Some (a, fi, resp) | Inl _ \<Rightarrow> None) (zip backends (zip fis results))"

definition promote_versions :: "('d, 'k, 's, 'h) engine \<Rightarrow> disk_addr list \<Rightarrow> string \<Rightarrow> string \<Rightarrow> file_info list \<Rightarrow> string \<Rightarrow> string
    \<Rightarrow> nat \<Rightarrow> (unit, 'd) eng" where
  "promote_versions eg backends src_volume src_path per_disk_fis bucket key quorum st =
     (if length per_disk_fis \<noteq> length backends then None
      else eng_fan_panicking
        (map (\<lambda>(a, fi). (a, bk_rename_data (eg_ops eg) src_volume src_path fi bucket key)) (zip backends per_disk_fis))
        (\<lambda>results st1.
           let won = successes backends per_disk_fis results in
           if length won < quorum
           then let st2 = snd (fan_out (map (\<lambda>(a, fi, _). (a, bk_delete_version (eg_ops eg) bucket key fi undo_options)) won) st1);
                    e = (case first_err results of Some e \<Rightarrow> e | None \<Rightarrow> InvalidArgument ''no quorum'') in
             Some (Err (map_bucket_or_io bucket e), cleanup_src eg backends src_volume src_path st2)
           else let stale = filter (\<lambda>(_, fi, resp). rd_old_data_dir resp \<noteq> [] \<and> rd_old_data_dir resp \<noteq> fi_data_dir fi) won;
                    st2 = snd (fan_out (map (\<lambda>(a, _, resp).
                            (a, bk_delete (eg_ops eg) bucket (key @ ''/'' @ rd_old_data_dir resp) True)) stale) st1) in
             Some (Ok (), cleanup_src eg backends src_volume src_path st2)) st)"

subsection \<open>PUT\<close>

definition put_inline :: "('d, 'k, 's, 'h) engine \<Rightarrow> (unit, storage_error) result \<Rightarrow> string \<Rightarrow> string \<Rightarrow> string \<Rightarrow> nat
    \<Rightarrow> 'r reader \<Rightarrow> 'r \<Rightarrow> string option \<Rightarrow> nat \<Rightarrow> string \<Rightarrow> disk_addr list \<Rightarrow> nat \<Rightarrow> (object_info, 'd) eng" where
  "put_inline eg fence staging_id bucket key sz rd src content_type mod_time_ms version_id backends quorum =
     (let n = length backends; parity_shards = cc_default_parity_count (eg_cluster eg);
          data_shards = usize_sub n parity_shards in
      eng_bind (eng_of (map_err SIo (drain_inline_payload (eg_md5_hex eg) rd sz [] 0 src))) (\<lambda>(frames, etag).
      let parts = single_part_info etag (as_i64 sz) (as_i64 sz) mod_time_ms;
          base_fi = (build_file_info bucket key (as_i64 sz) etag mod_time_ms content_type (Some frames) parts)
                      \<lparr>fi_version_id := version_id\<rparr>;
          base_erasure = default_erasure_info (data_shards mod 2 ^ 8) (parity_shards mod 2 ^ 8) (n mod 2 ^ 8);
          per_disk_fis = with_per_disk_index base_fi base_erasure n in
      eng_bind (eng_of fence) (\<lambda>_.
      eng_bind (promote_versions eg backends STAGING_VOL staging_id per_disk_fis bucket key quorum) (\<lambda>_.
        eng_ok \<lparr>oi_bucket = bucket, oi_key = key, oi_size = sz, oi_etag = etag, oi_storage_class = Inline,
                 oi_modified_ms = mod_time_ms, oi_content_type = content_type, oi_version_id = version_id,
                 oi_is_delete_marker = False\<rparr>))))"

definition open_staging_sinks :: "('d, 'k, 's, 'h) engine \<Rightarrow> disk_addr list \<Rightarrow> string \<Rightarrow> string \<Rightarrow> nat \<Rightarrow> 'd store
    \<Rightarrow> ('k list, io_error) result \<times> 'd store" where
  "open_staging_sinks eg backends staging_id data_dir per_shard_size st =
     (let part_path = staging_id @ ''/'' @ data_dir @ ''/'' @ PART1_PATH_SUFFIX;
          (results, st1) = fan_out (on_all backends (bk_create_file_writer (eg_ops eg) STAGING_VOL part_path per_shard_size)) st in
      (collect_results results, st1))"

text \<open>The drives after the sinks have been used: each sink was paired with its drive.\<close>

fun put_back :: "disk_addr list \<Rightarrow> ('k \<times> 'd) list \<Rightarrow> 'd store \<Rightarrow> 'd store" where
  "put_back (a # as) ((k, d) # kds) st = put_back as kds (st(a := d))"
| "put_back _ _ st = st"

definition write_to_sinks :: "('d, 'k, 's, 'h) engine \<Rightarrow> erasure \<Rightarrow> 'r reader \<Rightarrow> 'r \<Rightarrow> nat \<Rightarrow> nat \<Rightarrow> nat \<Rightarrow> disk_addr list \<Rightarrow> 'k list
    \<Rightarrow> 'd store \<Rightarrow> (string, io_error) result \<times> 'k list \<times> 'd store" where
  "write_to_sinks eg ec rd src sz stripe_data stripes backends sinks st =
     (case encode_and_write_stripes (eg_rs_encode eg) (eg_md5_hex eg) rd (drive_write (eg_ops eg)) ec sz stripe_data stripes
             src (zip sinks (map st backends)) of
        (r, kds, _) \<Rightarrow> (r, map fst kds, put_back backends kds st))"

definition finalize_sinks_quorum :: "('d, 'k, 's, 'h) engine \<Rightarrow> disk_addr list \<Rightarrow> 'k list \<Rightarrow> nat \<Rightarrow> 'd store
    \<Rightarrow> (unit, io_error) result \<times> 'd store" where
  "finalize_sinks_quorum eg backends sinks quorum st =
     (let (results, st1) = fan_out (map (\<lambda>(a, k). (a, \<lambda>d. case bk_finish (eg_ops eg) k d of (r, _, d1) \<Rightarrow> (r, d1)))
                                      (zip backends sinks)) st in
      (require_quorum results quorum (\<lambda>_. False), st1))"

text \<open>Steps that return an error of a drive for the bucket.\<close>

definition eng_io :: "(io_error \<Rightarrow> storage_error) \<Rightarrow> ('d store \<Rightarrow> ('a, io_error) result \<times> 'd store) \<Rightarrow> ('a, 'd) eng" where
  "eng_io f m st = (case m st of (r, st1) \<Rightarrow> Some (map_err f r, st1))"

text \<open>The shards of one body, staged at the drives; the result is its etag.\<close>

definition stage_shards :: "('d, 'k, 's, 'h) engine \<Rightarrow> erasure \<Rightarrow> ('d store \<Rightarrow> ('k list, io_error) result \<times> 'd store)
    \<Rightarrow> 'r reader \<Rightarrow> 'r \<Rightarrow> nat \<Rightarrow> nat \<Rightarrow> nat \<Rightarrow> string \<Rightarrow> disk_addr list \<Rightarrow> nat \<Rightarrow> (string, 'd) eng" where
  "stage_shards eg ec open_sinks rd src sz stripe_data stripes bucket backends quorum =
     eng_bind (eng_io (map_bucket_or_io bucket) open_sinks) (\<lambda>sinks st.
       case write_to_sinks eg ec rd src sz stripe_data stripes backends sinks st of
         (Inl e, _, st1) \<Rightarrow> Some (Err (map_bucket_or_io bucket e), st1)
       | (Inr etag, sinks1, st1) \<Rightarrow>
           eng_bind (eng_io (map_bucket_or_io bucket) (finalize_sinks_quorum eg backends sinks1 quorum)) (\<lambda>_. eng_ok etag) st1)"

definition ec_init_error :: "nat \<Rightarrow> nat \<Rightarrow> io_kind \<times> string \<Rightarrow> storage_error" where
  "ec_init_error data_shards parity_shards e =
     SIo (InvalidArgument (''EC init ('' @ show_nat data_shards @ ''+'' @ show_nat parity_shards @ ''): '' @ snd e))"

definition put_ec :: "('d, 'k, 's, 'h) engine \<Rightarrow> (unit, storage_error) result \<Rightarrow> string \<Rightarrow> string \<Rightarrow> string \<Rightarrow> string \<Rightarrow> nat
    \<Rightarrow> 'r reader \<Rightarrow> 'r \<Rightarrow> string option \<Rightarrow> nat \<Rightarrow> string \<Rightarrow> disk_addr list \<Rightarrow> nat \<Rightarrow> (object_info, 'd) eng" where
  "put_ec eg fence data_dir staging_id bucket key sz rd src content_type mod_time_ms version_id backends quorum =
     (let n = length backends; parity_shards = cc_default_parity_count (eg_cluster eg);
          data_shards = usize_sub n parity_shards in
      eng_bind (eng_of (map_err (ec_init_error data_shards parity_shards) (erasure_new data_shards parity_shards))) (\<lambda>ec.
      let stripe_unit = DEFAULT_EC_PER_SHARD_BYTES; stripe_data = data_shards * stripe_unit;
          stripes = stripes_of sz stripe_data; per_shard_on_disk = stripes * stripe_unit mod 2 ^ 64 in
      case shard_size sz data_shards of
        None \<Rightarrow> (\<lambda>_. None)
      | Some per_shard_actual \<Rightarrow>
          eng_try
            (eng_bind (stage_shards eg ec (open_staging_sinks eg backends staging_id data_dir per_shard_on_disk)
                         rd src sz stripe_data stripes bucket backends quorum) (\<lambda>etag.
             let parts = single_part_info etag (as_i64 per_shard_actual) (as_i64 sz) mod_time_ms;
                 base_fi = (build_file_info bucket key (as_i64 sz) etag mod_time_ms content_type None parts)
                             \<lparr>fi_version_id := version_id, fi_data_dir := data_dir\<rparr>;
                 base_erasure = default_erasure_info (data_shards mod 2 ^ 8) (parity_shards mod 2 ^ 8) (n mod 2 ^ 8);
                 per_disk_fis = with_per_disk_index base_fi base_erasure n in
             eng_bind (eng_of fence) (\<lambda>_.
             eng_bind (promote_versions eg backends STAGING_VOL staging_id per_disk_fis bucket key quorum) (\<lambda>_.
               eng_ok \<lparr>oi_bucket = bucket, oi_key = key, oi_size = sz, oi_etag = etag, oi_storage_class = Single,
                        oi_modified_ms = mod_time_ms, oi_content_type = content_type, oi_version_id = version_id,
                        oi_is_delete_marker = False\<rparr>))))
            (\<lambda>result st1. Some (result, if is_ok result then st1 else cleanup_src eg backends STAGING_VOL staging_id st1))))"

subsection \<open>GET and HEAD\<close>

text \<open>The streams that a GET returns.\<close>

datatype ('d, 's) get_stream =
    RopeStream "byte list list"
  | RangedRope "byte list list skip_take"
  | EcStream "('d, 's) multi_part_stream"
  | RangedEc "('d, 's) multi_part_stream skip_take"

definition open_file :: "('d, 'k, 's) backend \<Rightarrow> 'd \<Rightarrow> string \<Rightarrow> string \<Rightarrow> nat \<Rightarrow> nat \<Rightarrow> ('s, io_error) result" where
  "open_file ops d bucket path off len = fst (bk_read_file_stream ops bucket path off len d)"

definition ec_stream_read :: "('d, 'k, 's, 'h) engine \<Rightarrow> ('d, 's) multi_part_stream reader" where
  "ec_stream_read eg = multi_read (eg_rs_decode eg) (bk_read (eg_ops eg)) (open_file (eg_ops eg)) (eg_print eg)"

fun get_read :: "('d, 'k, 's, 'h) engine \<Rightarrow> ('d, 's) get_stream reader" where
  "get_read eg (RopeStream t) = map_prod id RopeStream (rope_read t)"
| "get_read eg (RangedRope t) = map_prod id RangedRope (skip_take_read rope_read t)"
| "get_read eg (EcStream t) = map_prod id EcStream (ec_stream_read eg t)"
| "get_read eg (RangedEc t) = map_prod id RangedEc (skip_take_read (ec_stream_read eg) t)"

definition consensus_read :: "('d, 'k, 's, 'h) engine \<Rightarrow> disk_addr list \<Rightarrow> string \<Rightarrow> string \<Rightarrow> string option \<Rightarrow> bool \<Rightarrow> (nat \<times> file_info, 'd) eng" where
  "consensus_read eg backends bucket key version_id read_data =
     eng_fan (on_all backends (bk_read_version (eg_ops eg) bucket key version_id read_data)) (\<lambda>results.
       eng_of (read_with_consensus (eg_orders eg) (eg_blake eg) bucket key results))"

text \<open>
  The stream for the record that was read; \<open>window\<close> is the resolved range. The drives are in the
  state in which the stream opens their files.
\<close>

definition ec_stream_for :: "('d, 'k, 's, 'h) engine \<Rightarrow> 'd list \<Rightarrow> string \<Rightarrow> string \<Rightarrow> file_info \<Rightarrow> (nat \<times> nat) option
    \<Rightarrow> (('d, 's) get_stream, storage_error) result option" where
  "ec_stream_for eg drives bucket key fi window =
     (let n = length drives; data_shards = ei_data_blocks (fi_erasure fi); parity_shards = ei_parity_blocks (fi_erasure fi);
          block_size = ei_block_size (fi_erasure fi);
          (offset, len) = (case window of Some w \<Rightarrow> w | None \<Rightarrow> (0, as_u64 (fi_size fi))) in
      if data_shards + parity_shards \<noteq> n
      then Some (Err (InconsistentMeta bucket key (''EC config (D='' @ show_nat data_shards @ '', P='' @ show_nat parity_shards
                   @ '') does not match set size N='' @ show_nat n)))
      else if block_size \<noteq> 0 \<and> data_shards = 0 then None
      else if block_size = 0 \<or> block_size mod data_shards \<noteq> 0
      then Some (Err (InconsistentMeta bucket key (''block_size '' @ show_nat block_size @ '' not a multiple of data_shards ''
                   @ show_nat data_shards)))
      else let stripe_unit = block_size div data_shards in
        if stripe_unit mod 512 \<noteq> 0
        then Some (Err (InconsistentMeta bucket key (''stripe_unit '' @ show_nat stripe_unit @ '' not 512-byte aligned'')))
        else Some (and_then (map_err (ec_init_error data_shards parity_shards) (erasure_new data_shards parity_shards)) (\<lambda>ec.
          if fi_data_dir fi = [] then Err (InconsistentMeta bucket key ''EC object missing data_dir in xl.meta'')
          else let (t, sub) = multi_at drives bucket key (fi_data_dir fi) (fi_parts fi) block_size stripe_unit
                                data_shards parity_shards ec offset in
            Ok (if window \<noteq> None then RangedEc (skip_take_new t sub len) else EcStream t))))"

definition get_versioned :: "('d, 'k, 's, 'h) engine \<Rightarrow> string \<Rightarrow> string \<Rightarrow> string option \<Rightarrow> byte_range option
    \<Rightarrow> (object_info \<times> (nat \<times> nat) option \<times> ('d, 's) get_stream, 'd) eng" where
  "get_versioned eg bucket key version_id rng =
     with_set eg bucket key (\<lambda>backends.
     eng_bind (consensus_read eg backends bucket key version_id True) (\<lambda>(_, fi) st.
       let info = to_object_info bucket fi;
           window = Option.bind rng (\<lambda>r. byte_range_resolve r (as_u64 (fi_size fi))) in
       if rng \<noteq> None \<and> window = None then Some (Ok (info, None, RopeStream []), st)
       else if (case fi_data fi of Some frames \<Rightarrow> frames \<noteq> [] | None \<Rightarrow> False)
       then let frames = the (fi_data fi) in
         Some (Ok (info, window, case window of
                     Some (offset, len) \<Rightarrow> RangedRope (skip_take_new frames offset len)
                   | None \<Rightarrow> RopeStream frames), st)
       else if fi_size fi = 0 then Some (Ok (info, window, RopeStream []), st)
       else map_option (\<lambda>r. (map_sum id (\<lambda>stream. (info, window, stream)) r, st))
              (ec_stream_for eg (map st backends) bucket key fi window)))"

definition get_latest :: "('d, 'k, 's, 'h) engine \<Rightarrow> string \<Rightarrow> string \<Rightarrow> (object_info \<times> ('d, 's) get_stream, 'd) eng" where
  "get_latest eg bucket key = eng_bind (get_versioned eg bucket key None None) (\<lambda>(info, _, stream). eng_ok (info, stream))"

definition get_version :: "('d, 'k, 's, 'h) engine \<Rightarrow> string \<Rightarrow> string \<Rightarrow> string \<Rightarrow> (object_info \<times> ('d, 's) get_stream, 'd) eng" where
  "get_version eg bucket key version_id =
     eng_bind (get_versioned eg bucket key (Some version_id) None) (\<lambda>(info, _, stream). eng_ok (info, stream))"

definition get_opts :: "('d, 'k, 's, 'h) engine \<Rightarrow> string \<Rightarrow> string \<Rightarrow> string option \<Rightarrow> byte_range option
    \<Rightarrow> (object_info \<times> (nat \<times> nat) option \<times> ('d, 's) get_stream, 'd) eng" where
  "get_opts eg bucket key version_id rng = get_versioned eg bucket key version_id rng"

definition stat_object :: "('d, 'k, 's, 'h) engine \<Rightarrow> string \<Rightarrow> string \<Rightarrow> (object_info, 'd) eng" where
  "stat_object eg bucket key =
     with_set eg bucket key (\<lambda>backends.
     eng_bind (consensus_read eg backends bucket key None False) (\<lambda>(_, fi). eng_ok (to_object_info bucket fi)))"

definition stat_version :: "('d, 'k, 's, 'h) engine \<Rightarrow> string \<Rightarrow> string \<Rightarrow> string \<Rightarrow> (object_info, 'd) eng" where
  "stat_version eg bucket key version_id =
     with_set eg bucket key (\<lambda>backends.
     eng_bind (consensus_read eg backends bucket key (Some version_id) False) (\<lambda>(_, fi). eng_ok (to_object_info bucket fi)))"

subsection \<open>DELETE\<close>

definition delete_verdict :: "string \<Rightarrow> string \<Rightarrow> (unit, io_error) result list \<Rightarrow> (unit, storage_error) result" where
  "delete_verdict bucket key results =
     (let real = filter (\<lambda>r. case r of Inl (FileNotFound _ _) \<Rightarrow> False | _ \<Rightarrow> True) results in
      if list_ex is_ok results then Ok ()
      else case first_err real of
             Some e \<Rightarrow> Err (map_object_missing bucket key e)
           | None \<Rightarrow> Err (ObjectNotFound bucket key))"

definition delete_object :: "('d, 'k, 's, 'h) engine \<Rightarrow> (unit, storage_error) result \<Rightarrow> string \<Rightarrow> string \<Rightarrow> (unit, 'd) eng" where
  "delete_object eg lock bucket key =
     eng_bind (eng_of lock) (\<lambda>_.
     with_set eg bucket key (\<lambda>backends.
     eng_fan (on_all backends (bk_delete_version (eg_ops eg) bucket key file_info_default delete_default)) (\<lambda>results.
       eng_of (delete_verdict bucket key results))))"

text \<open>
  The verdict for the \<open>i\<close>-th key of a batch from the answers of the drives; a drive that failed as a
  whole does not vote. The recorded error is wrapped as an I/O error with its text.
\<close>

definition batch_verdict :: "string \<Rightarrow> nat \<Rightarrow> ((unit, io_error) result list, io_error) result list \<Rightarrow> nat \<Rightarrow> string
    \<Rightarrow> (unit, storage_error) result" where
  "batch_verdict bucket quorum per_drive i key =
     (let answers = List.map_filter (\<lambda>r. case r of Inr per_key \<Rightarrow> if i < length per_key then Some (per_key ! i) else None
                                               | Inl _ \<Rightarrow> None) per_drive;
          fine = filter (\<lambda>r. case r of Inr _ \<Rightarrow> True | Inl (FileNotFound _ _) \<Rightarrow> True | _ \<Rightarrow> False) answers;
          bad = filter (\<lambda>r. case r of Inr _ \<Rightarrow> False | Inl (FileNotFound _ _) \<Rightarrow> False | _ \<Rightarrow> True) answers in
      if quorum \<le> length fine then Ok ()
      else case first_err bad of
             Some e \<Rightarrow> Err (map_object_missing bucket key (Io OtherKind (show_io_error e)))
           | None \<Rightarrow> Err (ObjectNotFound bucket key))"

text \<open>The sets are handled one after the other, in order of first appearance; their drives are different.\<close>

fun delete_sets :: "('d, 'k, 's, 'h) engine \<Rightarrow> string \<Rightarrow> (nat \<times> string) list \<Rightarrow> nat list
    \<Rightarrow> 'd store \<Rightarrow> ((nat \<times> (unit, storage_error) result) list \<times> 'd store) option" where
  "delete_sets eg bucket placed [] st = Some ([], st)"
| "delete_sets eg bucket placed (s # sets) st =
     (case set_disks (eg_cluster eg) s of
        None \<Rightarrow> None
      | Some disks \<Rightarrow>
          let idx_keys = filter (\<lambda>(i, s', k). s' = s) (zip [0..<length placed] placed);
              keys = map (snd \<circ> snd) idx_keys;
              known = filter (\<lambda>a. a \<in> set (eg_disks eg)) disks;
              (per_drive, st1) = fan_out (on_all known (bk_delete_batch (eg_ops eg) bucket keys)) st;
              verdicts = map (\<lambda>j. (fst (idx_keys ! j), batch_verdict bucket (write_quorum (eg_cluster eg)) per_drive j (keys ! j)))
                           [0..<length keys] in
          map_option (\<lambda>(rest, st2). (verdicts @ rest, st2)) (delete_sets eg bucket placed sets st1))"

definition delete_objects :: "('d, 'k, 's, 'h) engine \<Rightarrow> string \<Rightarrow> string list \<Rightarrow> ((unit, storage_error) result list, 'd) eng" where
  "delete_objects eg bucket keys st =
     (if keys = [] then Some (Ok [], st)
      else case those (map (set_index_for (eg_sip eg) (eg_cluster eg) bucket) keys) of
             None \<Rightarrow> None
           | Some idxs \<Rightarrow>
               map_option (\<lambda>(verdicts, st1).
                   (Ok (map (\<lambda>i. case map_of verdicts i of Some r \<Rightarrow> r | None \<Rightarrow> Ok ()) [0..<length keys]), st1))
                 (delete_sets eg bucket (zip idxs keys) (remdups idxs) st))"

subsection \<open>Bucket records and PUT\<close>

text \<open>Reading a stream to its end; \<open>None\<close> if it has none.\<close>

partial_function (option) drain_stream :: "'s reader \<Rightarrow> byte list \<Rightarrow> 's \<Rightarrow> (byte list, io_error) result option" where
  "drain_stream rd buf s =
     (case rd s of
        (Inl e, _) \<Rightarrow> Some (Err e)
      | (Inr chunk, s1) \<Rightarrow> if chunk = [] then Some (Ok buf) else drain_stream rd (buf @ chunk) s1)"

definition get_bucket_meta :: "('d, 'k, 's, 'h) engine \<Rightarrow> string \<Rightarrow> (bucket_meta, 'd) eng" where
  "get_bucket_meta eg bucket =
     eng_bind (get_latest eg SYSTEM_BUCKET (bkt_meta_key bucket)) (\<lambda>(_, stream) st.
       map_option (\<lambda>r. (and_then (map_err SIo r) (\<lambda>buf.
                          map_err SIo (bucket_meta_decode (eg_bucket_from_slice eg) (eg_crc32c eg) buf)), st))
         (drain_stream (get_read eg) [] stream))"

definition save_config :: "('d, 'k, 's, 'h) engine \<Rightarrow> nat \<Rightarrow> string \<Rightarrow> string \<Rightarrow> string \<Rightarrow> byte list \<Rightarrow> (unit, 'd) eng" where
  "save_config eg mod_time_ms staging_id volume key body =
     with_set eg volume key (\<lambda>backends.
     let quorum = write_quorum (eg_cluster eg); n = length backends;
         parity_shards = cc_default_parity_count (eg_cluster eg); data_shards = usize_sub n parity_shards;
         sz = as_i64 (length body); etag = eg_blake_hex eg body;
         parts = single_part_info etag sz sz mod_time_ms;
         base_fi = (build_file_info volume key sz etag mod_time_ms None (Some [body]) parts)\<lparr>fi_version_id := NULL_VERSION_ID\<rparr>;
         base_erasure = default_erasure_info (data_shards mod 2 ^ 8) (parity_shards mod 2 ^ 8) (n mod 2 ^ 8);
         per_disk_fis = with_per_disk_index base_fi base_erasure n in
     promote_versions eg backends STAGING_VOL staging_id per_disk_fis volume key quorum)"

definition put_bucket_meta :: "('d, 'k, 's, 'h) engine \<Rightarrow> nat \<Rightarrow> string \<Rightarrow> string \<Rightarrow> bucket_meta \<Rightarrow> (unit, 'd) eng" where
  "put_bucket_meta eg now staging_id bucket meta =
     eng_bind (eng_of (map_err SIo (bucket_meta_encode (eg_bucket_to_vec eg) (eg_crc32c eg) meta))) (\<lambda>body.
       save_config eg now staging_id SYSTEM_BUCKET (bkt_meta_key bucket) body)"

definition resolve_put_version_id :: "('d, 'k, 's, 'h) engine \<Rightarrow> string \<Rightarrow> string \<Rightarrow> (string, 'd) eng" where
  "resolve_put_version_id eg fresh bucket =
     eng_bind (get_bucket_meta eg bucket) (\<lambda>meta. eng_ok (next_version_id fresh meta))"

definition put_object :: "('d, 'k, 's, 'h) engine \<Rightarrow> (unit, storage_error) result \<Rightarrow> (unit, storage_error) result \<Rightarrow> nat \<Rightarrow> string
    \<Rightarrow> string \<Rightarrow> string \<Rightarrow> string \<Rightarrow> string \<Rightarrow> nat \<Rightarrow> 'r reader \<Rightarrow> 'r \<Rightarrow> string option \<Rightarrow> (object_info, 'd) eng" where
  "put_object eg lock fence now fresh data_dir staging_id bucket key sz rd src content_type =
     eng_bind (eng_of lock) (\<lambda>_.
     with_set eg bucket key (\<lambda>backends.
     let quorum = write_quorum (eg_cluster eg) in
     eng_bind (resolve_put_version_id eg fresh bucket) (\<lambda>version_id.
       if sz \<le> eg_inline_threshold eg
       then put_inline eg fence staging_id bucket key sz rd src content_type now version_id backends quorum
       else put_ec eg fence data_dir staging_id bucket key sz rd src content_type now version_id backends quorum)))"

end
