(* ===== verification/Bucket_Engine.thy ===== *)
theory Bucket_Engine
  imports Object_Engine
begin

text \<open>
  The bucket operations of \<^verbatim>\<open>crates/openlake_storage/src/engine.rs\<close>: the name rules, creation with its
  roll-back, existence, versioning, deletion and listing of buckets. A bucket is a volume on every
  drive and a record in the system bucket.
\<close>

subsection \<open>Bucket names\<close>

text \<open>
  The rules of \<open>validate_bucket_name\<close>, for names of ASCII characters; the two regular expressions are
  written out. White space around the name is ignored.
\<close>

definition is_ws :: "char \<Rightarrow> bool" where
  "is_ws c \<longleftrightarrow> c \<in> {CHR 0x09, CHR 0x0a, CHR 0x0b, CHR 0x0c, CHR 0x0d, CHR 0x20}"

definition trim :: "string \<Rightarrow> string" where
  "trim s = rev (dropWhile is_ws (rev (dropWhile is_ws s)))"

definition is_digit :: "char \<Rightarrow> bool" where
  "is_digit c \<longleftrightarrow> CHR ''0'' \<le> c \<and> c \<le> CHR ''9''"

definition name_edge :: "char \<Rightarrow> bool" where
  "name_edge c \<longleftrightarrow> CHR ''a'' \<le> c \<and> c \<le> CHR ''z'' \<or> is_digit c"

definition strict_name :: "string \<Rightarrow> bool" where
  "strict_name s \<longleftrightarrow> 3 \<le> length s \<and> length s \<le> 63 \<and> name_edge (hd s) \<and> name_edge (last s) \<and>
     list_all (\<lambda>c. name_edge c \<or> c = CHR ''.'' \<or> c = CHR ''-'') s"

definition ip_address :: "string \<Rightarrow> bool" where
  "ip_address s \<longleftrightarrow> (let fields = split_on CHR ''.'' [] s in
     length fields = 4 \<and> list_all (\<lambda>f. f \<noteq> [] \<and> list_all is_digit f) fields)"

fun contains :: "string \<Rightarrow> string \<Rightarrow> bool" where
  "contains pat [] = (pat = [])"
| "contains pat (c # s) = (prefix pat (c # s) \<or> contains pat s)"

definition validate_bucket_name :: "string \<Rightarrow> (unit, storage_error) result" where
  "validate_bucket_name name =
     (let trimmed = trim name in
      if trimmed = [] \<or> length trimmed < 3 \<or> 63 < length trimmed \<or> trimmed = ''openlake'' \<or> ip_address trimmed
         \<or> contains ''..'' trimmed \<or> contains ''.-'' trimmed \<or> contains ''-.'' trimmed \<or> \<not> strict_name trimmed
      then Err (InvalidBucketName name) else Ok ())"

subsection \<open>Operations\<close>

definition with_all :: "('d, 'k, 's, 'h) engine \<Rightarrow> (disk_addr list \<Rightarrow> ('b, 'd) eng) \<Rightarrow> ('b, 'd) eng" where
  "with_all eg f = eng_bind (eng_of (all_backends eg)) f"

text \<open>Every volume of the bucket is moved to the trash, whatever the drives answer.\<close>

definition drop_volumes :: "('d, 'k, 's, 'h) engine \<Rightarrow> disk_addr list \<Rightarrow> string \<Rightarrow> 'd store \<Rightarrow> 'd store" where
  "drop_volumes eg backends bucket st = snd (fan_out (on_all backends (bk_delete_vol (eg_ops eg) bucket True)) st)"

fun is_vol_exists :: "('a, io_error) result \<Rightarrow> bool" where
  "is_vol_exists (Inl (VolumeExists _)) = True"
| "is_vol_exists _ = False"

fun is_vol_missing :: "('a, io_error) result \<Rightarrow> bool" where
  "is_vol_missing (Inl (VolumeNotFound _)) = True"
| "is_vol_missing _ = False"

definition other_errors :: "(('a, io_error) result \<Rightarrow> bool) \<Rightarrow> ('a, io_error) result list \<Rightarrow> io_error list" where
  "other_errors expected results =
     List.map_filter (\<lambda>r. case r of Inl e \<Rightarrow> if expected r then None else Some e | Inr _ \<Rightarrow> None) results"

definition create_bucket :: "('d, 'k, 's, 'h) engine \<Rightarrow> (unit, storage_error) result \<Rightarrow> nat \<Rightarrow> string \<Rightarrow> string \<Rightarrow> bucket_meta \<Rightarrow> (unit, 'd) eng" where
  "create_bucket eg lock now staging_id bucket meta =
     eng_bind (eng_of (validate_bucket_name bucket)) (\<lambda>_.
     eng_bind (eng_of lock) (\<lambda>_.
     with_all eg (\<lambda>backends.
     let n = length backends in
     eng_fan (on_all backends (bk_make_vol (eg_ops eg) bucket)) (\<lambda>results st.
       let ok = length (filter is_ok results); existing = length (filter is_vol_exists results);
           others = other_errors is_vol_exists results in
       if n div 2 + 1 \<le> existing then Some (Err (BucketAlreadyExists bucket), st)
       else if ok \<noteq> n
       then Some (Err (SIo (if others \<noteq> [] then last others
                            else if 0 < existing then VolumeExists bucket
                            else InvalidArgument ''no results'')), drop_volumes eg backends bucket st)
       else eng_try (put_bucket_meta eg now staging_id bucket meta)
              (\<lambda>r st1. Some (r, if is_ok r then st1 else drop_volumes eg backends bucket st1)) st))))"

definition stat_bucket :: "('d, 'k, 's, 'h) engine \<Rightarrow> string \<Rightarrow> (unit, 'd) eng" where
  "stat_bucket eg bucket =
     eng_bind (eng_of (validate_bucket_name bucket)) (\<lambda>_.
     with_all eg (\<lambda>backends.
     eng_fan (on_all backends (bk_stat_vol (eg_ops eg) bucket)) (\<lambda>results.
       let found = length (filter is_ok results); missing = length (filter is_vol_missing results);
           others = other_errors is_vol_missing results in
       if read_quorum (eg_cluster eg) \<le> found then eng_ok ()
       else if length backends - found \<le> missing \<and> others = [] then eng_err (BucketNotFound bucket)
       else if others \<noteq> [] then eng_err (SIo (hd others))
       else eng_err (BucketNotFound bucket))))"

definition get_bucket_versioning :: "('d, 'k, 's, 'h) engine \<Rightarrow> string \<Rightarrow> (versioning_status, 'd) eng" where
  "get_bucket_versioning eg bucket =
     eng_bind (eng_of (validate_bucket_name bucket)) (\<lambda>_.
     eng_bind (stat_bucket eg bucket) (\<lambda>_.
     eng_bind (get_bucket_meta eg bucket) (\<lambda>meta. eng_ok (bm_versioning_status meta))))"

definition put_bucket_versioning :: "('d, 'k, 's, 'h) engine \<Rightarrow> (unit, storage_error) result \<Rightarrow> nat \<Rightarrow> string \<Rightarrow> string
    \<Rightarrow> versioning_status \<Rightarrow> (unit, 'd) eng" where
  "put_bucket_versioning eg lock now staging_id bucket new_status =
     eng_bind (eng_of (validate_bucket_name bucket)) (\<lambda>_.
     eng_bind (eng_of lock) (\<lambda>_.
     eng_bind (stat_bucket eg bucket) (\<lambda>_.
     eng_bind (get_bucket_meta eg bucket) (\<lambda>meta.
       put_bucket_meta eg now staging_id bucket
         (meta\<lparr>bm_versioning_status := new_status, bm_versioning_updated_ms := now\<rparr>)))))"

fun not_empty_check :: "string \<Rightarrow> (string list, io_error) result list \<Rightarrow> (unit, storage_error) result" where
  "not_empty_check bucket [] = Ok ()"
| "not_empty_check bucket (Inr entries # rs) = (if entries \<noteq> [] then Err (BucketNotEmpty bucket) else not_empty_check bucket rs)"
| "not_empty_check bucket (Inl (VolumeNotFound _) # rs) = not_empty_check bucket rs"
| "not_empty_check bucket (Inl e # rs) = Err (SIo e)"

definition delete_bucket :: "('d, 'k, 's, 'h) engine \<Rightarrow> (unit, storage_error) result \<Rightarrow> (unit, storage_error) result \<Rightarrow> string \<Rightarrow> bool \<Rightarrow> (unit, 'd) eng" where
  "delete_bucket eg lock meta_lock bucket force =
     eng_bind (eng_of (validate_bucket_name bucket)) (\<lambda>_.
     eng_bind (eng_of lock) (\<lambda>_.
     with_all eg (\<lambda>backends.
     eng_bind (if force then eng_ok ()
               else eng_fan (on_all backends (bk_list_dir (eg_ops eg) bucket [] 1)) (\<lambda>results. eng_of (not_empty_check bucket results)))
       (\<lambda>_.
     eng_try (delete_object eg meta_lock SYSTEM_BUCKET (bkt_meta_key bucket)) (\<lambda>_.
     eng_fan (on_all backends (bk_delete_vol (eg_ops eg) bucket True)) (\<lambda>results.
       eng_of (map_err SIo (require_quorum results (length backends) (\<lambda>e. is_vol_missing (Inl e))))))))))"

text \<open>The names with their counts, in the order of the ordered map.\<close>

definition bucket_names :: "nat \<Rightarrow> (string list, io_error) result list \<Rightarrow> string list" where
  "bucket_names quorum results =
     (let seen = concat (List.map_filter (\<lambda>r. case r of Inr vols \<Rightarrow> Some vols | Inl _ \<Rightarrow> None) results) in
      filter (\<lambda>name. quorum \<le> count_list seen name) (sort (remdups seen)))"

fun bucket_metas :: "('d, 'k, 's, 'h) engine \<Rightarrow> string list \<Rightarrow> 'd store \<Rightarrow> ((string \<times> nat) list \<times> 'd store) option" where
  "bucket_metas eg [] st = Some ([], st)"
| "bucket_metas eg (name # names) st =
     (case get_bucket_meta eg name st of
        None \<Rightarrow> None
      | Some (r, st1) \<Rightarrow>
          map_option (\<lambda>(rest, st2). ((name, case r of Inr m \<Rightarrow> bm_created_ms m | Inl _ \<Rightarrow> 0) # rest, st2))
            (bucket_metas eg names st1))"

definition list_buckets :: "('d, 'k, 's, 'h) engine \<Rightarrow> ((string \<times> nat) list, 'd) eng" where
  "list_buckets eg =
     with_all eg (\<lambda>backends.
     eng_fan (on_all backends (bk_list_vols (eg_ops eg))) (\<lambda>results st.
       if length (filter is_ok results) < read_quorum (eg_cluster eg)
       then Some (Err (SIo (case first_err (rev results) of Some e \<Rightarrow> e | None \<Rightarrow> InvalidArgument ''no disks responded to list_vols'')), st)
       else map_option (\<lambda>(xs, st1). (Ok xs, st1))
              (bucket_metas eg (bucket_names (read_quorum (eg_cluster eg)) results) st)))"

end
