(* ===== verification/Multipart_Engine.thy ===== *)
theory Multipart_Engine
  imports Bucket_Engine
begin

text \<open>
  Multipart uploads, from \<^verbatim>\<open>crates/openlake_storage/src/engine.rs\<close>: the session record, the upload of a
  part with its side-car record, and the completion that assembles the parts into a version.
\<close>

subsection \<open>Sessions\<close>

record complete_part =
  cp_part_number :: nat
  cp_etag :: string

definition session_path_of :: "string \<Rightarrow> string \<Rightarrow> string \<Rightarrow> string" where
  "session_path_of bucket key upload_id = bucket @ ''/'' @ key @ ''/'' @ upload_id"

definition session_file_info :: "string \<Rightarrow> string \<Rightarrow> nat \<Rightarrow> string \<Rightarrow> string option \<Rightarrow> file_info" where
  "session_file_info session_path version_id mod_time_ms data_dir content_type =
     file_info_default\<lparr>fi_volume := MULTIPART_VOL, fi_name := session_path, fi_version_id := version_id,
       fi_is_latest := True, fi_mod_time_ms := mod_time_ms, fi_data_dir := data_dir, fi_fresh := True,
       fi_metadata := (case content_type of None \<Rightarrow> [] | Some ct \<Rightarrow> btree_insert CONTENT_TYPE_META_KEY ct [])\<rparr>"

definition create_multipart_upload :: "('d, 'k, 's, 'h) engine \<Rightarrow> nat \<Rightarrow> string \<Rightarrow> string \<Rightarrow> string \<Rightarrow> string \<Rightarrow> string \<Rightarrow> string option
    \<Rightarrow> (string, 'd) eng" where
  "create_multipart_upload eg now fresh data_dir upload_id bucket key content_type =
     eng_bind (eng_of (validate_bucket_name bucket)) (\<lambda>_.
     eng_bind (get_bucket_meta eg bucket) (\<lambda>meta.
     with_set eg bucket key (\<lambda>backends.
     let n = length backends; parity_shards = cc_default_parity_count (eg_cluster eg);
         data_shards = usize_sub n parity_shards; session_path = session_path_of bucket key upload_id;
         session_fi = session_file_info session_path (next_version_id fresh meta) now data_dir content_type;
         base_erasure = default_erasure_info (data_shards mod 2 ^ 8) (parity_shards mod 2 ^ 8) (n mod 2 ^ 8);
         per_disk_fis = with_per_disk_index session_fi base_erasure n in
     eng_fan_panicking (map (\<lambda>(a, fi). (a, bk_update_metadata (eg_ops eg) MULTIPART_VOL session_path fi)) (zip backends per_disk_fis))
       (\<lambda>results st.
          if length (filter is_ok results) < write_quorum (eg_cluster eg)
          then Some (Err (SIo (case first_err results of Some e \<Rightarrow> e | None \<Rightarrow> InvalidArgument ''no quorum'')),
                     cleanup_src eg backends MULTIPART_VOL session_path st)
          else Some (Ok upload_id, st)))))"

fun majority_scan :: "nat \<Rightarrow> 'k list \<Rightarrow> 'k list \<Rightarrow> 'k option" where
  "majority_scan threshold seen [] = None"
| "majority_scan threshold seen (k # ks) =
     (if threshold \<le> count_list (k # seen) k then Some k else majority_scan threshold (k # seen) ks)"

definition majority_key :: "'k list \<Rightarrow> nat \<Rightarrow> 'k option" where
  "majority_key items threshold = majority_scan threshold [] items"

definition session_key :: "file_info \<Rightarrow> string \<times> nat \<times> nat" where
  "session_key fi = (fi_data_dir fi, ei_data_blocks (fi_erasure fi), ei_parity_blocks (fi_erasure fi))"

definition session_winner :: "string \<Rightarrow> (file_info, io_error) result list \<Rightarrow> (file_info, storage_error) result" where
  "session_winner session_path metas =
     (let valid = List.map_filter (\<lambda>r. case r of Inr fi \<Rightarrow> Some fi | Inl _ \<Rightarrow> None) metas;
          needed = length metas div 2 + 1 in
      case majority_key (map session_key valid) needed of
        None \<Rightarrow> Err (SIo (case first_err (rev metas) of
                   Some e \<Rightarrow> e
                 | None \<Rightarrow> InvalidArgument (''session '' @ session_path @ '': no quorum on data_dir/erasure'')))
      | Some winner \<Rightarrow> Ok (hd (filter (\<lambda>fi. session_key fi = winner) valid)))"

definition read_session_fi :: "('d, 'k, 's, 'h) engine \<Rightarrow> disk_addr list \<Rightarrow> string \<Rightarrow> (file_info, 'd) eng" where
  "read_session_fi eg backends session_path =
     eng_fan (on_all backends (bk_read_version (eg_ops eg) MULTIPART_VOL session_path None False)) (\<lambda>metas.
       eng_of (session_winner session_path metas))"

definition session_for :: "('d, 'k, 's, 'h) engine \<Rightarrow> disk_addr list \<Rightarrow> string \<Rightarrow> (file_info, 'd) eng" where
  "session_for eg backends session_path =
     eng_bind (read_session_fi eg backends session_path) (\<lambda>fi.
       if fi_data_dir fi = [] then eng_err (SIo (InvalidArgument ''session xl.meta missing data_dir'')) else eng_ok fi)"

subsection \<open>Uploading a part\<close>

definition open_part_staging_sinks :: "('d, 'k, 's, 'h) engine \<Rightarrow> disk_addr list \<Rightarrow> string \<Rightarrow> nat \<Rightarrow> 'd store
    \<Rightarrow> ('k list, io_error) result \<times> 'd store" where
  "open_part_staging_sinks eg backends tmp_part_path per_shard_size st =
     (let (results, st1) = fan_out (on_all backends (bk_create_file_writer (eg_ops eg) STAGING_VOL tmp_part_path per_shard_size)) st in
      (collect_results results, st1))"

text \<open>An operation that must succeed on every drive.\<close>

definition on_every :: "('d, 'k, 's, 'h) engine \<Rightarrow> string \<Rightarrow> disk_addr list \<Rightarrow> (unit, 'd) drive_op \<Rightarrow> (unit, 'd) eng" where
  "on_every eg bucket backends f =
     eng_fan (on_all backends f) (\<lambda>results.
       eng_of (map_err (map_bucket_or_io bucket) (require_quorum results (length backends) (\<lambda>_. False))))"

text \<open>The two calls that a drive makes, one after the other; the second runs whatever the first returns.\<close>

definition delete_both :: "('d, 'k, 's) backend \<Rightarrow> string \<Rightarrow> string \<Rightarrow> 'd \<Rightarrow> unit \<times> 'd" where
  "delete_both ops p q d = ((), snd (bk_delete ops MULTIPART_VOL q False (snd (bk_delete ops MULTIPART_VOL p False d))))"

definition place_part :: "('d, 'k, 's) backend \<Rightarrow> string \<Rightarrow> string \<Rightarrow> string \<Rightarrow> byte list \<Rightarrow> (unit, 'd) drive_op" where
  "place_part ops src dst meta bs d =
     (case bk_rename_file ops STAGING_VOL src MULTIPART_VOL dst d of
        (Inl e, d1) \<Rightarrow> (Err e, d1)
      | (Inr _, d1) \<Rightarrow> bk_write_file ops MULTIPART_VOL meta bs d1)"

definition commit_part :: "('d, 'k, 's, 'h) engine \<Rightarrow> string \<Rightarrow> disk_addr list \<Rightarrow> string \<Rightarrow> string \<Rightarrow> nat \<Rightarrow> byte list \<Rightarrow> (unit, 'd) eng" where
  "commit_part eg bucket backends tmp_part_path final_dir part_number sidecar =
     (let final_part = final_dir @ ''/part.'' @ show_nat part_number;
          final_meta = final_dir @ ''/part.'' @ show_nat part_number @ ''.meta'' in
      eng_fan (on_all backends (delete_both (eg_ops eg) final_part final_meta)) (\<lambda>_.
      eng_bind (on_every eg bucket backends (bk_make_dir_all (eg_ops eg) MULTIPART_VOL final_dir)) (\<lambda>_.
        on_every eg bucket backends (place_part (eg_ops eg) tmp_part_path final_part final_meta sidecar))))"

definition upload_part :: "('d, 'k, 's, 'h) engine \<Rightarrow> (unit, storage_error) result \<Rightarrow> nat \<Rightarrow> string \<Rightarrow> string \<Rightarrow> string \<Rightarrow> string \<Rightarrow> nat \<Rightarrow> nat
    \<Rightarrow> 'r reader \<Rightarrow> 'r \<Rightarrow> (object_part_info, 'd) eng" where
  "upload_part eg lock now staging_id bucket key upload_id part_number sz rd src =
     (if part_number = 0 \<or> 10000 < part_number
      then eng_err (SIo (InvalidArgument (''partNumber must be in 1..=10000, got '' @ show_nat part_number)))
      else eng_bind (eng_of (validate_bucket_name bucket)) (\<lambda>_.
      with_set eg bucket key (\<lambda>backends.
      let quorum = write_quorum (eg_cluster eg); session_path = session_path_of bucket key upload_id in
      eng_bind (session_for eg backends session_path) (\<lambda>session_fi.
      let data_dir = fi_data_dir session_fi; parity_shards = ei_parity_blocks (fi_erasure session_fi);
          data_shards = ei_data_blocks (fi_erasure session_fi) in
      eng_bind (eng_of (map_err (ec_init_error data_shards parity_shards) (erasure_new data_shards parity_shards))) (\<lambda>ec.
      let stripe_unit = DEFAULT_EC_PER_SHARD_BYTES; stripe_data = data_shards * stripe_unit;
          stripes = stripes_of sz stripe_data; per_shard_on_disk = stripes * stripe_unit mod 2 ^ 64;
          tmp_part_path = staging_id @ ''/part.'' @ show_nat part_number; final_dir = session_path @ ''/'' @ data_dir in
      case shard_size sz data_shards of
        None \<Rightarrow> (\<lambda>_. None)
      | Some per_shard_actual \<Rightarrow>
          eng_try
            (eng_bind (stage_shards eg ec (open_part_staging_sinks eg backends tmp_part_path per_shard_on_disk)
                         rd src sz stripe_data stripes bucket backends quorum) (\<lambda>etag.
             let part_info = \<lparr>op_etag = etag, op_number = int part_number, op_size = as_i64 per_shard_actual,
                   op_actual_size = as_i64 sz, op_mod_time_ms = now, op_index = [], op_checksums = []\<rparr> in
             eng_bind (eng_of (map_err (\<lambda>e. SIo (Encode (''part sidecar: '' @ e))) (eg_part_to_vec eg part_info))) (\<lambda>sidecar.
             eng_bind (eng_of lock) (\<lambda>_.
             eng_bind (commit_part eg bucket backends tmp_part_path final_dir part_number sidecar) (\<lambda>_.
               eng_ok part_info)))))
            (\<lambda>result st1. Some (result, if is_ok result then st1 else cleanup_src eg backends STAGING_VOL staging_id st1)))))))"

subsection \<open>Completing an upload\<close>

fun ascending :: "complete_part list \<Rightarrow> (unit, storage_error) result" where
  "ascending (p # q # ps) =
     (if cp_part_number q \<le> cp_part_number p
      then Err (SIo (InvalidArgument (''parts must be ascending by part_number (got '' @ show_nat (cp_part_number q)
                  @ '' after '' @ show_nat (cp_part_number p) @ '')'')))
      else ascending (q # ps))"
| "ascending _ = Ok ()"

definition sidecar_verdict :: "('d, 'k, 's, 'h) engine \<Rightarrow> nat \<Rightarrow> nat \<Rightarrow> (byte list option, io_error) result list
    \<Rightarrow> (object_part_info, storage_error) result" where
  "sidecar_verdict eg min_present part_number results =
     (let present = List.map_filter (\<lambda>r. case r of Inr (Some bs) \<Rightarrow> Some bs | _ \<Rightarrow> None) results;
          missing = Err (SIo (InvalidArgument (''part.'' @ show_nat part_number @ '' sidecar missing or below read quorum (''
                      @ show_nat (length present) @ ''/'' @ show_nat min_present @ '')''))) in
      case present of
        [] \<Rightarrow> missing
      | bs # _ \<Rightarrow>
          and_then (map_err (\<lambda>e. SIo (Decode (''part.'' @ show_nat part_number @ ''.meta: '' @ e))) (eg_part_from_slice eg bs)) (\<lambda>info.
            if length present < min_present then missing else Ok info))"

fun read_part_sidecars :: "('d, 'k, 's, 'h) engine \<Rightarrow> disk_addr list \<Rightarrow> string \<Rightarrow> nat \<Rightarrow> complete_part list \<Rightarrow> (object_part_info list, 'd) eng" where
  "read_part_sidecars eg backends dir min_present [] = eng_ok []"
| "read_part_sidecars eg backends dir min_present (p # ps) =
     eng_fan (on_all backends (bk_read_file (eg_ops eg) MULTIPART_VOL (dir @ ''/part.'' @ show_nat (cp_part_number p) @ ''.meta'')))
       (\<lambda>results.
     eng_bind (eng_of (sidecar_verdict eg min_present (cp_part_number p) results)) (\<lambda>info.
     eng_bind (read_part_sidecars eg backends dir min_present ps) (\<lambda>infos. eng_ok (info # infos))))"

definition to_ascii_lowercase :: "string \<Rightarrow> string" where
  "to_ascii_lowercase s = map (\<lambda>c. if CHR ''A'' \<le> c \<and> c \<le> CHR ''Z'' then char_of (of_char c + 32 :: nat) else c) s"

definition trim_quotes :: "string \<Rightarrow> string" where
  "trim_quotes s = (let q = (\<lambda>c. c = CHR 0x22) in rev (dropWhile q (rev (dropWhile q s))))"

definition MIN_PART_SIZE :: int where
  "MIN_PART_SIZE = 5 * 1024 * 1024"

definition wrap_i64 :: "int \<Rightarrow> int" where
  "wrap_i64 i = (i + 2 ^ 63) mod 2 ^ 64 - 2 ^ 63"

text \<open>The checks of the claimed parts against the side-cars: the total size and the digests to hash.\<close>

fun check_claims :: "('d, 'k, 's, 'h) engine \<Rightarrow> int \<Rightarrow> byte list \<Rightarrow> (complete_part \<times> object_part_info) list
    \<Rightarrow> (int \<times> byte list, storage_error) result" where
  "check_claims eg acc etags [] = Ok (acc, etags)"
| "check_claims eg acc etags ((claimed, actual) # rest) =
     (let claimed_etag = to_ascii_lowercase (trim_quotes (cp_etag claimed)); number = show_nat (cp_part_number claimed) in
      if claimed_etag \<noteq> to_ascii_lowercase (op_etag actual)
      then Err (SIo (InvalidArgument (''part '' @ number @ '' etag mismatch: client '' @ debug_str claimed_etag @ '', server ''
                  @ debug_str (op_etag actual))))
      else if rest \<noteq> [] \<and> op_actual_size actual < MIN_PART_SIZE
      then Err (SIo (InvalidArgument (''part '' @ number @ '' below 5 MiB minimum (got '' @ show_int (op_actual_size actual) @ '' bytes)'')))
      else and_then (map_err (\<lambda>e. SIo (InvalidArgument (''part '' @ number @ '' etag not hex: '' @ e))) (eg_hex_decode eg (op_etag actual)))
             (\<lambda>raw. check_claims eg (wrap_i64 (acc + op_actual_size actual)) (etags @ raw) rest))"

definition assembled_file_info :: "string \<Rightarrow> string \<Rightarrow> file_info \<Rightarrow> int \<Rightarrow> nat \<Rightarrow> object_part_info list \<Rightarrow> string \<Rightarrow> file_info" where
  "assembled_file_info bucket key session_fi sz mod_time_ms parts etag =
     file_info_default\<lparr>fi_volume := bucket, fi_name := key, fi_version_id := fi_version_id session_fi, fi_is_latest := True,
       fi_size := sz, fi_mod_time_ms := mod_time_ms, fi_data_dir := fi_data_dir session_fi, fi_fresh := True,
       fi_parts := parts, fi_metadata := btree_insert ETAG_META_KEY etag (fi_metadata session_fi), fi_num_versions := 1\<rparr>"

definition complete_multipart_upload :: "('d, 'k, 's, 'h) engine \<Rightarrow> (unit, storage_error) result \<Rightarrow> (unit, storage_error) result \<Rightarrow> nat
    \<Rightarrow> string \<Rightarrow> string \<Rightarrow> string \<Rightarrow> complete_part list \<Rightarrow> (object_info, 'd) eng" where
  "complete_multipart_upload eg lock fence now bucket key upload_id parts =
     eng_bind (eng_of (validate_bucket_name bucket)) (\<lambda>_.
     if parts = [] then eng_err (SIo (InvalidArgument ''CompleteMultipartUpload requires at least one part''))
     else eng_bind (eng_of (ascending parts)) (\<lambda>_.
     eng_bind (eng_of lock) (\<lambda>_.
     with_set eg bucket key (\<lambda>backends.
     let n = length backends; session_path = session_path_of bucket key upload_id in
     eng_bind (session_for eg backends session_path) (\<lambda>session_fi.
     let dir = session_path @ ''/'' @ fi_data_dir session_fi; ei = fi_erasure session_fi in
     eng_bind (read_part_sidecars eg backends dir (max (read_quorum (eg_cluster eg)) 1) parts) (\<lambda>part_infos.
     eng_bind (eng_of (check_claims eg 0 [] (zip parts part_infos))) (\<lambda>(sz, etags).
     let etag = eg_md5_hex eg etags @ ''-'' @ show_nat (length parts);
         fi = assembled_file_info bucket key session_fi sz now part_infos etag;
         base_erasure = default_erasure_info (ei_data_blocks ei mod 2 ^ 8) (ei_parity_blocks ei mod 2 ^ 8) (n mod 2 ^ 8);
         per_disk_fis = with_per_disk_index fi base_erasure n in
     eng_fan (concat (map (\<lambda>a. map (\<lambda>p. (a, bk_delete (eg_ops eg) MULTIPART_VOL (dir @ ''/part.'' @ show_nat (cp_part_number p) @ ''.meta'') False))
                             parts) backends)) (\<lambda>_.
     eng_bind (eng_of fence) (\<lambda>_.
     eng_bind (promote_versions eg backends MULTIPART_VOL session_path per_disk_fis bucket key (write_quorum (eg_cluster eg))) (\<lambda>_.
       eng_ok \<lparr>oi_bucket = bucket, oi_key = key, oi_size = as_u64 sz, oi_etag = etag, oi_storage_class = Single,
                oi_modified_ms = now, oi_content_type = map_of (fi_metadata fi) CONTENT_TYPE_META_KEY,
                oi_version_id = fi_version_id fi, oi_is_delete_marker = False\<rparr>))))))))))"

end
