(* ===== verification/Object_Store.thy ===== *)
theory Object_Store
  imports Multipart_Engine
begin

text \<open>
  What the engine's object operations guarantee on a set of drives. The contract of a drive that the
  engine relies on is the locale \<open>version_store\<close>; the local drive meets it.
\<close>

subsection \<open>Data directories\<close>

lemma uuid_plain: "CHR ''/'' \<notin> set (format_uuid_hex b)"
proof -
  have "hex_val CHR ''/'' = None" by (simp add: hex_val_def Let_def)
  then have "CHR ''/'' \<noteq> hex_char d" if "d < 16" for d
    using hex_val_hex_char [OF that] by auto
  then have "CHR ''/'' \<notin> set (hex_digits k n)" for k n
    by (induction k n rule: hex_digits.induct) simp_all
  then have "CHR ''/'' \<notin> set (hex2 x)" for x :: byte by (simp add: hex2_def)
  then show ?thesis by (auto simp: format_uuid_hex_def)
qed

lemma data_dir_name:
  assumes "length b = 16"
  shows "format_data_dir_bytes b = [] \<or> data_name (format_data_dir_bytes b)"
proof (cases "b = replicate 16 0")
  case False
  then have f: "format_data_dir_bytes b = format_uuid_hex b" by (simp add: format_data_dir_bytes_def)
  have "parse_uuid_bytes META_FILENAME [] \<noteq> Some (Ok b)" "parse_uuid_bytes META_BACKUP_FILENAME [] \<noteq> Some (Ok b)"
    by (simp_all add: parse_uuid_bytes_def META_FILENAME_def META_BACKUP_FILENAME_def NULL_VERSION_ID_def Let_def)
  with parse_format_data_dir [OF assms, of "[]"] uuid_plain [of b] show ?thesis unfolding f by (auto simp: data_name_def plain_name_def)
qed (simp add: format_data_dir_bytes_def)

lemma split_on_append: "split_on c acc (s @ c # t) = split_on c acc s @ split_on c [] t"
  by (induction s arbitrary: acc) auto

lemma segs_slash: "segs (s @ CHR ''/'' # t) = segs s @ segs t"
  by (simp add: segs_def split_on_append)

subsection \<open>The contract of a drive\<close>

text \<open>
  \<open>inv\<close> is the invariant of a drive, \<open>up\<close> that it answers without faults, \<open>kept d b k fi\<close> that it holds
  the version \<open>fi\<close> of an object, and \<open>fits\<close> that the metadata of the object is below the size that the
  format can express. The engine promotes from the staging volume into a user bucket.
\<close>

locale version_store =
  fixes ops :: "('d, 'k, 's) backend" and inv up lost :: "'d \<Rightarrow> bool" and kept :: "'d \<Rightarrow> string \<Rightarrow> string \<Rightarrow> file_info \<Rightarrow> bool"
    and fits :: "'d \<Rightarrow> string \<Rightarrow> string \<Rightarrow> bool" and user_bucket :: "string \<Rightarrow> bool"
  assumes read_inv: "inv d \<Longrightarrow> inv (snd (bk_read_version ops b k v rd d))"
    and rename_law: "inv d \<Longrightarrow> user_bucket b \<Longrightarrow> canonical_ids fi \<Longrightarrow>
      bk_rename_data ops STAGING_VOL sid fi b k d = Some (Ok resp, d1) \<Longrightarrow>
      inv d1 \<and> kept d1 b k fi \<and> (rd_old_data_dir resp = [] \<or> data_name (rd_old_data_dir resp))"
    and staging_law: "inv d \<Longrightarrow> user_bucket b \<Longrightarrow> kept d b k fi \<Longrightarrow>
      inv (snd (bk_delete ops STAGING_VOL p True d)) \<and> kept (snd (bk_delete ops STAGING_VOL p True d)) b k fi"
    and stale_law: "inv d \<Longrightarrow> user_bucket b \<Longrightarrow> kept d b k fi \<Longrightarrow> data_name dd \<Longrightarrow>
      inv (snd (bk_delete ops b (k @ ''/'' @ dd) True d)) \<and> kept (snd (bk_delete ops b (k @ ''/'' @ dd) True d)) b k fi"
    and version_law: "inv d \<Longrightarrow> user_bucket b \<Longrightarrow> kept d b k fi \<Longrightarrow> fits d b k \<Longrightarrow>
      (\<exists>e. fst (bk_read_version ops b k (Some (fi_version_id fi)) True d) = Err e) \<and> \<not> up d \<or>
      (\<exists>n. fst (bk_read_version ops b k (Some (fi_version_id fi)) True d) = Ok (file_info_from_record (stored n fi) b k))"
    and lost_law: "lost d \<Longrightarrow> user_bucket b \<Longrightarrow> \<exists>e. fst (bk_read_version ops b k v rd d) = Err e"

subsection \<open>The local drive\<close>

lemma keeps_delete_path:
  assumes "\<And>q. prefix (file_path v p) q \<or> prefix [TRASH_DIRNAME] q \<Longrightarrow> A q"
  shows "keeps (frame A) (delete_path v p rec)"
  unfolding delete_path_def Let_def
  by (auto intro!: keeps_intros keeps_require_vol keeps_move_to_trash assms split: node.split)

lemma keeps_read_version: "keeps (frame A) (read_version mc v p vid rd)"
  unfolding read_version_def Let_def by (intro keeps_intros keeps_require_vol)

definition user_bucket :: "string \<Rightarrow> bool" where
  "user_bucket b \<longleftrightarrow> plain_name b \<and> \<not> is_system_vol b \<and> b \<noteq> TRASH_DIRNAME"

definition meta_fits :: "disk \<Rightarrow> string \<Rightarrow> string \<Rightarrow> bool" where
  "meta_fits d b k \<longleftrightarrow> (\<forall>raw. file_at (dk_tree d) (meta_path b k) = Some raw \<longrightarrow> length raw < 2 ^ 32)"

text \<open>The metadata on the drive, if it fits, decodes to records of which the first with the identifier of \<open>fi\<close> is \<open>fi\<close>.\<close>

definition version_kept :: "meta_codec \<Rightarrow> disk \<Rightarrow> string \<Rightarrow> string \<Rightarrow> file_info \<Rightarrow> bool" where
  "version_kept mc d b k fi \<longleftrightarrow> (\<exists>raw. file_at (dk_tree d) (meta_path b k) = Some raw \<and>
     (length raw < 2 ^ 32 \<longrightarrow> (\<exists>rs n. decode_all (mc_from_slice mc) (mc_xxh64 mc) raw = Ok rs \<and>
        find (\<lambda>r. dr_version_id r = fi_version_id fi) rs = Some (stored n fi))))"

lemma version_kept_frame:
  assumes "frame A d d1" "wf_tree (dk_tree d)" "\<not> A (meta_path b k)" "version_kept mc d b k fi"
  shows "wf_tree (dk_tree d1) \<and> version_kept mc d1 b k fi"
  using frame_wf [OF assms(1,2)] frame_file [OF assms(1,2,3)] assms(4) by (simp add: version_kept_def)

lemma read_version_outcome:
  assumes "wf_tree (dk_tree d)" "file_at (dk_tree d) (meta_path v p) = Some bs" "\<not> is_system_vol v"
  shows "(\<exists>e. fst (read_version mc v p vid rd d) = Err e) \<or>
    fst (read_version mc v p vid rd d) = and_then (pick_version mc v p vid bs) (\<lambda>rec.
      let fi = file_info_from_record rec v p in Ok (if rd then fi else fi\<lparr>fi_data := None\<rparr>))"
proof -
  have "read_file_at (dk_tree d) (meta_path v p) = Ok bs" by (simp add: read_file_at_Ok assms(1,2))
  then show ?thesis
    using assms(3)
    by (cases "pick_version mc v p vid bs")
      (auto simp: read_version_def then_do_def try_do_def require_vol_def fs_stat_def fs_read_def query_def sys_def ret_def raise_def
        map_err_do_def of_result_def Let_def split: option.splits sum.splits node.splits prod.splits)
qed

lemma rename_data_resp:
  assumes "codec_ok mc" "wf_tree (dk_tree d)" "rename_data mc sv sp fi dv dp d = Some (Ok resp, d1)"
  shows "rd_old_data_dir resp = [] \<or> data_name (rd_old_data_dir resp)"
proof -
  obtain q a where pre: "then_do (require_vol dv) (\<lambda>_. live_versions mc dv dp) d = (q, a)" by fastforce
  have sys: "is_system_vol sv" using assms(3) by (auto simp: rename_data_def split: if_splits)
  then have "q \<noteq> Inl e" for e using assms(3) pre by (auto simp: rename_data_def)
  then obtain raw existing where q: "q = Ok (raw, existing)" by (cases q) auto
  let ?old = "case old_data_dir_of fi existing of None \<Rightarrow> [] | Some s \<Rightarrow> s"
  let ?f = "\<lambda>enc. promote_staged (file_path sv sp) (file_path dv dp) (fi_data_dir fi)
     (if list_ex (\<lambda>r. dr_version_id r = fi_version_id fi) existing then raw else None) (xl_meta_vectored enc)"
  obtain encoded where "then_do (of_result encoded) (\<lambda>enc. then_do (?f enc) (\<lambda>_. ret \<lparr>rd_sign = [], rd_old_data_dir = ?old\<rparr>)) a = (Ok resp, d1)"
    using assms(3) pre q sys by (auto simp: rename_data_def)
  then have resp: "rd_old_data_dir resp = ?old"
    by (auto simp: then_do_def of_result_def ret_def split: sum.splits prod.splits)
  obtain u b where u: "require_vol dv d = (Ok u, b)" "live_versions mc dv dp b = (Ok (raw, existing), a)"
    using pre q by (auto simp: then_do_def split: prod.splits sum.splits)
  have wfb: "wf_tree (dk_tree b)" using frame_wf [OF keepsD [OF keeps_require_vol u(1)] assms(2)] .
  from live_versions_Ok(2) [OF u(2) wfb] have "\<forall>r \<in> set existing. record_ok r" using versions_at_ok(1) [OF assms(1)] by blast
  then have "dr_data_dir r = [] \<or> data_name (dr_data_dir r)" if "find P existing = Some r" for P r
    using find_Some_mem [OF that] data_dir_name unfolding record_ok_def by metis
  then show ?thesis unfolding resp old_data_dir_of_def by (auto split: option.splits)
qed

lemma canonical_data_dir: "canonical_ids fi \<Longrightarrow> fi_data_dir fi = [] \<or> data_name (fi_data_dir fi)"
  using data_dir_name unfolding canonical_ids_def by metis

lemma rename_data_keeps:
  assumes "codec_ok mc" "wf_tree (dk_tree d)" "user_bucket b" "canonical_ids fi"
    and "rename_data mc sv sid fi b k d = Some (Ok resp, d1)"
  shows "wf_tree (dk_tree d1)" "version_kept mc d1 b k fi"
proof -
  have "b \<noteq> sv" using assms(3,5) by (auto simp: user_bucket_def rename_data_def split: if_splits)
  moreover have "plain_name b" using assms(3) by (simp add: user_bucket_def)
  ultimately obtain existing enc where e: "versions_at mc (dk_tree d) (meta_path b k) = Some existing"
    "encode_versions (mc_to_vec mc) (mc_xxh64 mc) (merge_versions b k fi existing) = Some (Ok enc)"
    "file_at (dk_tree d1) (meta_path b k) = Some (encoded_to_vec enc)" "wf_tree (dk_tree d1)"
    using promoted_live [OF assms(2,5) _ _ canonical_data_dir [OF assms(4)]] by metis
  show "wf_tree (dk_tree d1)" by (rule e(4))
  show "version_kept mc d1 b k fi"
    unfolding version_kept_def using e(3) merged_decodes [OF assms(1) e(1) assms(4) e(2)] find_merged [OF assms(1) e(1)] by auto
qed

lemma user_bucket_apart:
  assumes "user_bucket b"
  shows "\<not> prefix (file_path STAGING_VOL p) (meta_path b k)" "\<not> prefix [TRASH_DIRNAME] (meta_path b k)"
    "data_name dd \<Longrightarrow> \<not> prefix (file_path b (k @ ''/'' @ dd)) (meta_path b k)"
proof -
  have b: "vol_path b = [b]" "b \<noteq> STAGING_VOL" "b \<noteq> TRASH_DIRNAME"
    using assms by (auto simp: user_bucket_def vol_path_def segs_plain is_system_vol_def)
  have s: "vol_path STAGING_VOL = [STAGING_VOL]" by (simp add: vol_path_def ex_segs)
  show "\<not> prefix (file_path STAGING_VOL p) (meta_path b k)" "\<not> prefix [TRASH_DIRNAME] (meta_path b k)"
    using b by (auto simp: meta_path_def file_path_def s)
  show "\<not> prefix (file_path b (k @ ''/'' @ dd)) (meta_path b k)" if "data_name dd"
    using that by (auto simp: meta_path_def file_path_def segs_slash segs_plain data_name_def)
qed

lemma require_vol_empty:
  assumes "dk_tree d = []" "plain_name v" "\<not> is_system_vol v"
  shows "\<exists>e d1. require_vol v d = (Err e, d1)"
proof -
  have "vol_path v = [v]" using assms(2) by (simp add: vol_path_def segs_plain)
  then have "stat (dk_tree d) (vol_path v) = Err ENOENT" using assms(1) by (simp add: stat_def lookup_node_def)
  then show ?thesis
    using assms(3) by (auto simp: require_vol_def try_do_def fs_stat_def query_def sys_def ret_def raise_def split: option.splits)
qed

interpretation local_store: version_store "local_backend mc grant fault" "\<lambda>d. codec_ok mc \<and> wf_tree (dk_tree d)"
    "\<lambda>d. dk_faults d = (\<lambda>_. None)" "\<lambda>d. dk_tree d = []" "version_kept mc" meta_fits user_bucket for mc grant fault
proof (unfold_locales, goal_cases)
  case (1 d b k v rd)
  then show ?case
    using frame_wf [OF keepsD [OF keeps_read_version [of _ mc b k v rd]]] by (simp add: local_backend_def) (metis prod.collapse)
next
  case (2 d b fi sid k resp d1)
  then show ?case using rename_data_keeps rename_data_resp by (simp add: local_backend_def) metis
next
  case (3 d b k fi p)
  have "keeps (frame (\<lambda>q. prefix (file_path STAGING_VOL p) q \<or> prefix [TRASH_DIRNAME] q)) (delete_path STAGING_VOL p True)"
    by (rule keeps_delete_path) auto
  then have "frame (\<lambda>q. prefix (file_path STAGING_VOL p) q \<or> prefix [TRASH_DIRNAME] q) d (snd (delete_path STAGING_VOL p True d))"
    by (simp add: keeps_def)
  from version_kept_frame [OF this, of b k mc fi] user_bucket_apart [OF 3(2)] 3 show ?case by (simp add: local_backend_def)
next
  case (4 d b k fi dd)
  let ?p = "k @ ''/'' @ dd"
  have "keeps (frame (\<lambda>q. prefix (file_path b ?p) q \<or> prefix [TRASH_DIRNAME] q)) (delete_path b ?p True)"
    by (rule keeps_delete_path) auto
  then have "frame (\<lambda>q. prefix (file_path b ?p) q \<or> prefix [TRASH_DIRNAME] q) d (snd (delete_path b ?p True d))"
    by (simp add: keeps_def)
  from version_kept_frame [OF this, of b k mc fi] user_bucket_apart [OF 4(2)] 4 show ?case by (simp add: local_backend_def)
next
  case (5 d b k fi)
  then obtain raw rs n where raw: "file_at (dk_tree d) (meta_path b k) = Some raw"
    "decode_all (mc_from_slice mc) (mc_xxh64 mc) raw = Ok rs" "find (\<lambda>r. dr_version_id r = fi_version_id fi) rs = Some (stored n fi)"
    by (auto simp: version_kept_def meta_fits_def)
  have "pick_version mc b k (Some (fi_version_id fi)) raw = Ok (stored n fi)"
    using raw(2,3) by (simp add: pick_version_def find_version_def)
  with read_version_outcome [OF _ raw(1), of mc "Some (fi_version_id fi)" True] read_version_no_faults [OF _ _ raw(1), of mc "Some (fi_version_id fi)" True] 5
  show ?case by (auto simp: local_backend_def user_bucket_def Let_def)
next
  case (6 d b k v rd)
  then show ?case using require_vol_empty [of d b] by (auto simp: local_backend_def read_version_def then_do_def user_bucket_def)
qed

subsection \<open>Promotion on a set\<close>

lemma successes_mem:
  assumes "length backends = n" "length fis = n" "length results = n" "(a, fi, resp) \<in> set (successes backends fis results)"
  shows "\<exists>i < n. a = backends ! i \<and> fi = fis ! i \<and> results ! i = Ok resp"
  using assms by (force simp: successes_def List.map_filter_def set_zip split: sum.splits)

lemma filter_full: "length xs \<le> length (filter P xs) \<Longrightarrow> x \<in> set xs \<Longrightarrow> P x"
  using length_filter_less [of x xs P] by fastforce

lemma successes_all:
  assumes "length backends = n" "length fis = n" "length results = n" "n \<le> length (successes backends fis results)" "i < n"
  shows "\<exists>resp. results ! i = Ok resp"
proof -
  let ?xs = "zip backends (zip fis results)" and ?f = "\<lambda>(a, fi, r). case r of Inr resp \<Rightarrow> Some (a, fi, resp) | Inl _ \<Rightarrow> None"
  have "length ?xs \<le> length (filter (\<lambda>x. ?f x \<noteq> None) ?xs)"
    using assms(1-4) by (simp add: successes_def List.map_filter_def split_def)
  moreover have "(backends ! i, fis ! i, results ! i) \<in> set ?xs" using assms(1-3,5) by (auto simp: set_zip)
  ultimately have "?f (backends ! i, fis ! i, results ! i) \<noteq> None" by (rule filter_full)
  then show ?thesis by (auto split: sum.splits)
qed

text \<open>
  What a promotion with full quorum establishes on a drive: a property that its \<open>rename_data\<close>
  establishes and that the deletions of a stale data directory and of the staging directory keep.
\<close>

lemma promote_each:
  assumes "eg_ops eg = ops" "distinct backends" "length backends \<le> quorum"
    and "promote_versions eg backends STAGING_VOL sid fis b k quorum st = Some (Ok (), st1)"
    and "\<And>i resp d. i < length backends \<Longrightarrow> bk_rename_data ops STAGING_VOL sid (fis ! i) b k (st (backends ! i)) = Some (Ok resp, d) \<Longrightarrow>
      Q i d \<and> (rd_old_data_dir resp = [] \<or> data_name (rd_old_data_dir resp))"
    and "\<And>i d dd. i < length backends \<Longrightarrow> Q i d \<Longrightarrow> data_name dd \<Longrightarrow> dd \<noteq> fi_data_dir (fis ! i) \<Longrightarrow> Q i (snd (bk_delete ops b (k @ ''/'' @ dd) True d))"
    and "\<And>i d. i < length backends \<Longrightarrow> Q i d \<Longrightarrow> Q i (snd (bk_delete ops STAGING_VOL sid True d))"
  shows "length fis = length backends" "i < length backends \<Longrightarrow> Q i (st1 (backends ! i))"
proof -
  let ?n = "length backends"
  let ?ops = "map (\<lambda>(a, fi). (a, bk_rename_data ops STAGING_VOL sid fi b k)) (zip backends fis)"
  show len: "length fis = ?n" using assms(4) by (auto simp: promote_versions_def split: if_splits)
  have fst_ops: "map fst ?ops = backends" using len by (simp add: comp_def split_def)
  obtain results st0 where run: "fan_out_panicking ?ops st = Some (results, st0)"
    using assms(1,4) by (auto simp: promote_versions_def eng_fan_panicking_def split: if_splits option.splits)
  let ?won = "successes backends fis results"
  let ?stale = "filter (\<lambda>(_, fi, resp). rd_old_data_dir resp \<noteq> [] \<and> rd_old_data_dir resp \<noteq> fi_data_dir fi) ?won"
  let ?dels = "map (\<lambda>(a, _, resp). (a, bk_delete ops b (k @ ''/'' @ rd_old_data_dir resp) True)) ?stale"
  have won: "quorum \<le> length ?won" and st1: "st1 = cleanup_src eg backends STAGING_VOL sid (snd (fan_out ?dels st0))"
    using assms(1,4) len run by (auto simp: promote_versions_def eng_fan_panicking_def Let_def split: if_splits)
  have "distinct (map fst ?ops)" using assms(2) fst_ops by simp
  note fan = fan_out_panicking_results [OF this run]
  have rlen: "length results = ?n" using fan len by simp
  have one: "Q j (st0 (backends ! j)) \<and> (\<forall>resp. results ! j = Ok resp \<longrightarrow> rd_old_data_dir resp = [] \<or> data_name (rd_old_data_dir resp))"
    if j: "j < ?n" for j
  proof -
    have "length fis = length backends" "?n \<le> length ?won" using len won assms(3) by simp_all
    then obtain resp where resp: "results ! j = Ok resp" using successes_all [OF refl _ rlen _ j] by blast
    have "bk_rename_data ops STAGING_VOL sid (fis ! j) b k (st (backends ! j)) = Some (Ok resp, st0 (backends ! j))"
      using fan j len resp by auto
    from assms(5) [OF j this] resp show ?thesis by auto
  qed
  let ?P = "\<lambda>a d. \<forall>j < ?n. a = backends ! j \<longrightarrow> Q j d"
  have after: "?P a (snd (fan_out ?dels st0) a)" for a
  proof (rule fan_out_inv [where P = ?P])
    fix a f d assume af: "(a, f) \<in> set ?dels" and P: "?P a d"
    then obtain fi resp where f: "(a, fi, resp) \<in> set ?won" "rd_old_data_dir resp \<noteq> []" "rd_old_data_dir resp \<noteq> fi_data_dir fi"
      "f = bk_delete ops b (k @ ''/'' @ rd_old_data_dir resp) True" by auto
    obtain j where j: "j < ?n" "a = backends ! j" "fi = fis ! j" "results ! j = Ok resp" using successes_mem [OF refl len rlen f(1)] by auto
    then have "Q j (snd (f d))" using assms(6) [OF j(1)] one [of j] f(2-4) P by auto
    then show "?P a (snd (f d))" using j(1,2) assms(2) by (auto simp: nth_eq_iff_index_eq)
  next
    show "?P a (st0 a)" for a using one by blast
  qed
  have "?P a (st1 a)" for a
    unfolding st1 cleanup_src_def assms(1) on_all_def
    by (rule fan_out_inv [where P = ?P, OF _ after]) (auto intro: assms(7))
  then show "i < ?n \<Longrightarrow> Q i (st1 (backends ! i))" by blast
qed

context version_store
begin

lemma promote_ok:
  assumes "eg_ops eg = ops" "distinct backends" "\<forall>a \<in> set backends. inv (st a)" "user_bucket b" "\<forall>fi \<in> set fis. canonical_ids fi"
    and "length backends \<le> quorum" "promote_versions eg backends STAGING_VOL sid fis b k quorum st = Some (Ok (), st1)"
    and "i < length backends"
  shows "inv (st1 (backends ! i)) \<and> kept (st1 (backends ! i)) b k (fis ! i)"
proof (rule promote_each(2) [where Q = "\<lambda>i d. inv d \<and> kept d b k (fis ! i)", OF assms(1,2,6,7) _ _ _ assms(8)])
  have "length fis = length backends" using assms(7) by (auto simp: promote_versions_def split: if_splits)
  then show "(inv d \<and> kept d b k (fis ! i)) \<and> (rd_old_data_dir resp = [] \<or> data_name (rd_old_data_dir resp))"
    if "i < length backends" "bk_rename_data ops STAGING_VOL sid (fis ! i) b k (st (backends ! i)) = Some (Ok resp, d)" for i resp d
    using rename_law [OF _ assms(4) _ that(2)] assms(3,5) that(1) by simp
qed (use stale_law staging_law assms(4) in blast)+

end

subsection \<open>Streams\<close>

context byte_stream
begin

lemma drain_stream_content: "ok s \<Longrightarrow> drain_stream rd buf s = Some (Ok (buf @ content s))"
proof (induction "length (content s)" arbitrary: buf s rule: less_induct)
  case less
  from less.prems show ?case
  proof (cases rule: read_cases)
    case (data c s')
    then have "drain_stream rd (buf @ c) s' = Some (Ok ((buf @ c) @ content s'))" by (intro less.hyps) simp_all
    with data show ?thesis by (subst drain_stream.simps) simp
  qed (subst drain_stream.simps, simp)
qed

lemma drain_inline_content:
  "ok s \<Longrightarrow> n \<le> sz \<Longrightarrow> drain_inline_payload md5_hex rd sz frames n s = Ok (frames', etag) \<Longrightarrow>
   \<exists>new. frames' = frames @ new \<and> [] \<notin> set new \<and> concat new = take (sz - n) (content s) \<and> sz - n \<le> length (content s) \<and>
     etag = md5_hex (concat frames')"
proof (induction "sz - n" arbitrary: n frames s rule: less_induct)
  case less
  show ?case
  proof (cases "n < sz")
    case False
    with less.prems show ?thesis by (subst (asm) drain_inline_payload.simps) auto
  next
    case True
    from less.prems(1) show ?thesis
    proof (cases rule: read_cases)
      case eof
      with less.prems True show ?thesis by (subst (asm) drain_inline_payload.simps) simp
    next
      case (data c s')
      let ?f = "take (min (sz - n) (length c)) c"
      have step: "drain_inline_payload md5_hex rd sz (frames @ [?f]) (n + length ?f) s' = Ok (frames', etag)"
        using less.prems(3) True data(1,2) by (subst (asm) drain_inline_payload.simps) (simp add: Let_def)
      have f: "?f \<noteq> []" "n + length ?f \<le> sz" using True data(2) by auto
      have "0 < length ?f" using f(1) by (rule length_greater_0_conv [THEN iffD2])
      with True have "sz - (n + length ?f) < sz - n" by (metis add_diff_cancel_left' diff_diff_left diff_less zero_less_diff)
      from less.hyps [OF this data(3) f(2) step] obtain new where new: "frames' = (frames @ [?f]) @ new" "[] \<notin> set new"
        "concat new = take (sz - (n + length ?f)) (content s')" "sz - (n + length ?f) \<le> length (content s')" "etag = md5_hex (concat frames')"
        by blast
      have d: "sz - (n + length ?f) = sz - n - min (sz - n) (length c)" by simp
      have "concat (?f # new) = take (sz - n) (content s)"
        using new(3) by (simp only: concat.simps d data(4) take_append_split [of "sz - n" c])
      moreover have "sz - n \<le> length (content s)"
        using new(4) unfolding d data(4) length_append by linarith
      ultimately show ?thesis using new f(1) by (intro exI [of _ "?f # new"]) (simp del: concat.simps)
    qed
  qed
qed

end

text \<open>The stream of a GET over the streams that it wraps.\<close>

definition get_ok :: "(('d, 's) multi_part_stream \<Rightarrow> bool) \<Rightarrow> ('d, 's) get_stream \<Rightarrow> bool" where
  "get_ok ok t = (case t of RopeStream r \<Rightarrow> [] \<notin> set r | RangedRope r \<Rightarrow> [] \<notin> set (st_inner r) | EcStream e \<Rightarrow> ok e | RangedEc e \<Rightarrow> ok (st_inner e))"

definition ranged :: "('s \<Rightarrow> byte list) \<Rightarrow> 's skip_take \<Rightarrow> byte list" where
  "ranged content t = take (st_remaining t) (drop (st_to_skip t) (content (st_inner t)))"

definition get_content :: "(('d, 's) multi_part_stream \<Rightarrow> byte list) \<Rightarrow> ('d, 's) get_stream \<Rightarrow> byte list" where
  "get_content content t = (case t of RopeStream r \<Rightarrow> concat r | RangedRope r \<Rightarrow> ranged concat r | EcStream e \<Rightarrow> content e | RangedEc e \<Rightarrow> ranged content e)"

lemma byte_stream_wrap:
  assumes "byte_stream rd ok content" "ok s" "g (C s) = map_prod id C (rd s)" "\<And>s. okC (C s) = ok s" "\<And>s. contC (C s) = content s"
  shows "\<exists>c t'. g (C s) = (Ok c, t') \<and> okC t' \<and> contC (C s) = c @ contC t' \<and> (c = [] \<longrightarrow> contC (C s) = [])"
proof -
  obtain c s' where "rd s = (Ok c, s')" "ok s'" "content s = c @ content s'" "c = [] \<longrightarrow> content s = []"
    using byte_stream.read_law [OF assms(1,2)] by blast
  then show ?thesis using assms(3-5) by (intro exI [of _ c] exI [of _ "C s'"]) simp
qed

lemma get_stream_content:
  assumes "byte_stream (ec_stream_read eg) ok content"
  shows "byte_stream (get_read eg) (get_ok ok) (get_content content)"
proof
  fix t assume ok: "get_ok ok t"
  note defs = get_ok_def get_content_def ranged_def
  show "\<exists>c t'. get_read eg t = (Ok c, t') \<and> get_ok ok t' \<and> get_content content t = c @ get_content content t' \<and>
      (c = [] \<longrightarrow> get_content content t = [])"
  proof (cases t)
    case (RopeStream r)
    show ?thesis unfolding RopeStream
      by (rule byte_stream_wrap [OF rope.byte_stream_axioms]) (use ok RopeStream in \<open>simp_all add: defs\<close>)
  next
    case (RangedRope r)
    show ?thesis unfolding RangedRope
      by (rule byte_stream_wrap [OF skip_take_stream [OF rope.byte_stream_axioms]]) (use ok RangedRope in \<open>simp_all add: defs\<close>)
  next
    case (EcStream e)
    show ?thesis unfolding EcStream by (rule byte_stream_wrap [OF assms]) (use ok EcStream in \<open>simp_all add: defs\<close>)
  next
    case (RangedEc e)
    show ?thesis unfolding RangedEc
      by (rule byte_stream_wrap [OF skip_take_stream [OF assms]]) (use ok RangedEc in \<open>simp_all add: defs\<close>)
  qed
qed

end
