(* ===== verification/Put_Get.thy ===== *)
theory Put_Get
  imports Object_Store
begin

text \<open>
  A version that PUT reports as stored is read back by GET: the composition of the body stream, the
  promotion on every drive of the set, the consensus on the records and the stream that GET returns.
\<close>

subsection \<open>Records of one version\<close>

text \<open>The fields of a record that the votes look at do not depend on the slot of the drive.\<close>

lemma contract_read [simp]:
  "contract_bytes (file_info_from_record (stored m fi) b k) = contract_bytes fi"
  "voted_parity n (file_info_from_record (stored m fi) b k) = voted_parity n fi"
  "record_etag_matches (file_info_from_record (stored m fi) b k) t = record_etag_matches fi t"
  "fi_erasure (file_info_from_record (stored m fi) b k) = fi_erasure fi"
  "fi_version_id (file_info_from_record (stored m fi) b k) = fi_version_id fi"
  "fi_size (file_info_from_record (stored m fi) b k) = fi_size fi"
  by (simp_all add: file_info_from_record_def stored_def contract_bytes_def voted_parity_def record_etag_matches_def)

lemma contract_slot [simp]:
  "contract_bytes (fi\<lparr>fi_erasure := ei\<lparr>ei_index := i\<rparr>\<rparr>) = contract_bytes (fi\<lparr>fi_erasure := ei\<rparr>)"
  "voted_parity n (fi\<lparr>fi_erasure := ei\<lparr>ei_index := i\<rparr>\<rparr>) = voted_parity n (fi\<lparr>fi_erasure := ei\<rparr>)"
  "record_etag_matches (fi\<lparr>fi_erasure := ei\<lparr>ei_index := i\<rparr>\<rparr>) t = record_etag_matches fi t"
  "canonical_ids (fi\<lparr>fi_erasure := e\<rparr>) = canonical_ids fi"
  by (simp_all add: contract_bytes_def voted_parity_def record_etag_matches_def canonical_ids_def)

text \<open>The drives that answer are enough for the votes: a majority, the data shards, and too few errors to dominate.\<close>

definition readable :: "nat \<Rightarrow> nat \<Rightarrow> nat set \<Rightarrow> bool" where
  "readable n parity U \<longleftrightarrow> U \<subseteq> {..<n} \<and> n < 2 * card U \<and> n - parity \<le> card U \<and> n - card U < max (n div 2) 1"

lemma fan_out_on_all:
  assumes "distinct addrs" "fan_out (on_all addrs f) st = (xs, st1)"
  shows "length xs = length addrs" "i < length addrs \<Longrightarrow> xs ! i = fst (f (st (addrs ! i)))"
proof -
  have "distinct (map fst (on_all addrs f))" using assms(1) by (simp add: on_all_def comp_def)
  note r = fan_out_results [OF this assms(2)]
  show "length xs = length addrs" using r(1) by (simp add: on_all_def)
  show "i < length addrs \<Longrightarrow> xs ! i = fst (f (st (addrs ! i)))" using r(2) [of i] by (simp add: on_all_def)
qed

context version_store
begin

lemma consensus_reads:
  assumes "eg_ops eg = ops" "all_orders (eg_orders eg)" "distinct backends" "n = length backends" "user_bucket b"
    and "fis = with_per_disk_index fi ei n" "\<And>i. i < n \<Longrightarrow> erasure_is_valid (ei\<lparr>ei_index := (i + 1) mod 2 ^ 8\<rparr>)"
    and "record_etag_matches fi t" "t \<noteq> []" "voted_parity n (fi\<lparr>fi_erasure := ei\<rparr>) = P" "P \<le> n"
    and "\<And>i. i < n \<Longrightarrow> lost (st (backends ! i)) \<or> inv (st (backends ! i)) \<and> kept (st (backends ! i)) b k (fis ! i) \<and> fits (st (backends ! i)) b k"
    and "readable n P U" "\<And>i. i \<in> U \<Longrightarrow> up (st (backends ! i)) \<and> \<not> lost (st (backends ! i))"
  shows "\<exists>i m st1. consensus_read eg backends b k (Some (fi_version_id fi)) True st =
    Some (Ok (i, file_info_from_record (stored m (fis ! i)) b k), st1) \<and> i < n"
proof -
  obtain results st1 where run: "fan_out (on_all backends (bk_read_version ops b k (Some (fi_version_id fi)) True)) st = (results, st1)"
    by fastforce
  note fan = fan_out_on_all [OF assms(3) run]
  have len: "length results = n" using fan(1) assms(4) by simp
  have fi: "fis ! i = fi\<lparr>fi_erasure := ei\<lparr>ei_index := (i + 1) mod 2 ^ 8\<rparr>\<rparr>" if "i < n" for i
    using that by (simp add: assms(6) with_per_disk_index_def)
  have res: "(\<exists>e. results ! i = Err e) \<and> \<not> (up (st (backends ! i)) \<and> \<not> lost (st (backends ! i))) \<or> (\<exists>m. results ! i = Ok (file_info_from_record (stored m (fis ! i)) b k))"
    if i: "i < n" for i
  proof -
    have "fi_version_id (fis ! i) = fi_version_id fi" using fi [OF i] by simp
    with version_law [of "st (backends ! i)" b k "fis ! i"] lost_law [of "st (backends ! i)" b k "Some (fi_version_id fi)" True]
      assms(12) [OF i] assms(5) fan(2) [of i] i assms(4) show ?thesis by auto
  qed
  have U: "\<exists>fi'. results ! j = Ok fi' \<and> erasure_is_valid (fi_erasure fi') \<and> voted_parity (length results) fi' = P \<and>
      record_etag_matches fi' t \<and> contract_bytes fi' = contract_bytes (fi\<lparr>fi_erasure := ei\<rparr>)" if "j \<in> U" for j
  proof -
    have j: "j < n" using that assms(13) by (auto simp: readable_def)
    with res [of j] assms(14) [OF that] obtain m where "results ! j = Ok (file_info_from_record (stored m (fis ! j)) b k)" by blast
    with assms(7) [OF j] assms(8,10) len fi [OF j] show ?thesis by simp
  qed
  have prem: "U \<subseteq> {..<length results}" "length results < 2 * card U" "usize_sub (length results) P \<le> card U"
    "length results - card U < max (length results div 2) 1"
    using assms(11,13) len by (simp_all add: usize_sub_def readable_def)
  obtain i fi' where i: "read_with_consensus (eg_orders eg) (eg_blake eg) b k results = Ok (i, fi')" "i < length results" "results ! i = Ok fi'"
    using majority_read [OF assms(2) prem(1) U assms(9) prem(2-4), where blake = "eg_blake eg" and bucket = b and key = k] by blast
  with res [of i] len obtain m where "fi' = file_info_from_record (stored m (fis ! i)) b k" by auto
  then show ?thesis
    using i len run assms(1) by (intro exI [of _ i] exI [of _ m] exI [of _ st1]) (simp add: consensus_read_def eng_fan_def eng_of_def)
qed

end

subsection \<open>The engine\<close>

text \<open>A topology that the engine can serve, and the documented behaviour of what it uses.\<close>

definition engine_ok :: "('d, 'k, 's, 'h) engine \<Rightarrow> bool" where
  "engine_ok eg \<longleftrightarrow> topology_ok (eg_cluster eg) \<and> set (all_disks (eg_cluster eg)) \<subseteq> set (eg_disks eg) \<and>
     cc_set_drive_count (eg_cluster eg) \<le> 255 \<and>
     2 * cc_default_parity_count (eg_cluster eg) \<le> cc_set_drive_count (eg_cluster eg) \<and>
     all_orders (eg_orders eg) \<and> (\<forall>bs. eg_md5_hex eg bs \<noteq> [])"

abbreviation set_size :: "('d, 'k, 's, 'h) engine \<Rightarrow> nat" where
  "set_size eg \<equiv> cc_set_drive_count (eg_cluster eg)"

abbreviation parity_of :: "('d, 'k, 's, 'h) engine \<Rightarrow> nat" where
  "parity_of eg \<equiv> cc_default_parity_count (eg_cluster eg)"

lemma set_backends_ok:
  assumes "engine_ok eg"
  obtains backends where "set_backends eg b k = Some (Ok backends)" "distinct backends" "length backends = set_size eg"
proof -
  have top: "topology_ok (eg_cluster eg)" using assms by (simp add: engine_ok_def)
  let ?n = "total_disks (eg_cluster eg) div set_size eg"
  obtain s where s: "set_index_for (eg_sip eg) (eg_cluster eg) b k = Some s" "s < ?n"
    using num_sets_ok [OF top] num_sets_pos [OF top] by (simp add: set_index_for_def)
  let ?ds = "take (set_size eg) (drop (s * set_size eg) (all_disks (eg_cluster eg)))"
  have ds: "disks_for (eg_sip eg) (eg_cluster eg) b k = Some ?ds" using set_disks_ok [OF top s(2)] s(1) by (simp add: disks_for_def)
  have known: "set ?ds \<subseteq> set (eg_disks eg)" using assms set_drop_subset set_take_subset unfolding engine_ok_def by fast
  have "Suc s * set_size eg \<le> ?n * set_size eg" using s(2) by (intro mult_le_mono1) simp
  also have "\<dots> \<le> total_disks (eg_cluster eg)" by simp
  finally have "length ?ds = set_size eg" using length_all_disks [of "eg_cluster eg"] by simp
  moreover have "distinct ?ds" using distinct_all_disks top by (simp add: topology_ok_def)
  moreover have "set_backends eg b k = Some (Ok ?ds)"
    using known by (auto simp: set_backends_def ds known_backend_def intro!: collect_results_map [where g = "\<lambda>x. x", simplified])
  ultimately show thesis by (intro that)
qed

lemma eng_bind_Ok: "eng_bind m f st = Some (Ok x, st1) \<Longrightarrow> \<exists>y st0. m st = Some (Ok y, st0) \<and> f y st0 = Some (Ok x, st1)"
  by (auto simp: eng_bind_def split: option.splits sum.splits)

lemma eng_of_Ok: "eng_of r st = Some (Ok x, st1) \<longleftrightarrow> r = Ok x \<and> st1 = st"
  by (auto simp: eng_of_def)

text \<open>The null version and the absent data directory are the identifier of sixteen zero bytes.\<close>

lemma null_canonical: "\<exists>c. length c = 16 \<and> NULL_VERSION_ID = format_version_id_bytes c" "\<exists>c. length c = 16 \<and> [] = format_data_dir_bytes c"
  by (rule exI [of _ "replicate 16 0"]; simp add: format_version_id_bytes_def format_data_dir_bytes_def)+

text \<open>The base record of an inline version.\<close>

definition inline_fi :: "string \<Rightarrow> string \<Rightarrow> nat \<Rightarrow> string \<Rightarrow> nat \<Rightarrow> string option \<Rightarrow> string \<Rightarrow> byte list list \<Rightarrow> file_info" where
  "inline_fi bucket key sz etag now content_type version_id frames =
     (build_file_info bucket key (as_i64 sz) etag now content_type (Some frames) (single_part_info etag (as_i64 sz) (as_i64 sz) now))
       \<lparr>fi_version_id := version_id\<rparr>"

definition set_erasure :: "('d, 'k, 's, 'h) engine \<Rightarrow> nat \<Rightarrow> erasure_info" where
  "set_erasure eg n = default_erasure_info (usize_sub n (parity_of eg) mod 2 ^ 8) (parity_of eg mod 2 ^ 8) (n mod 2 ^ 8)"

lemma put_inline_Ok:
  assumes "put_inline eg fence staging_id bucket key sz rd src content_type now version_id backends quorum st = Some (Ok info, st1)"
  obtains frames where "drain_inline_payload (eg_md5_hex eg) rd sz [] 0 src = Ok (frames, oi_etag info)"
    "promote_versions eg backends STAGING_VOL staging_id
       (with_per_disk_index (inline_fi bucket key sz (oi_etag info) now content_type version_id frames) (set_erasure eg (length backends)) (length backends))
       bucket key quorum st = Some (Ok (), st1)"
    "oi_version_id info = version_id"
proof -
  obtain frames etag where d: "map_err SIo (drain_inline_payload (eg_md5_hex eg) rd sz [] 0 src) = Ok (frames, etag)"
    using eng_bind_Ok [OF assms [unfolded put_inline_def Let_def]] by (auto simp: eng_of_Ok)
  then have dr: "drain_inline_payload (eg_md5_hex eg) rd sz [] 0 src = Ok (frames, etag)"
    by (cases "drain_inline_payload (eg_md5_hex eg) rd sz [] 0 src") simp_all
  have "eng_bind (eng_of fence) (\<lambda>_. eng_bind (promote_versions eg backends STAGING_VOL staging_id
       (with_per_disk_index (inline_fi bucket key sz etag now content_type version_id frames) (set_erasure eg (length backends)) (length backends))
       bucket key quorum) (\<lambda>_. eng_ok \<lparr>oi_bucket = bucket, oi_key = key, oi_size = sz, oi_etag = etag, oi_storage_class = Inline,
                 oi_modified_ms = now, oi_content_type = content_type, oi_version_id = version_id,
                 oi_is_delete_marker = False\<rparr>)) st = Some (Ok info, st1)"
    using assms unfolding put_inline_def Let_def d inline_fi_def set_erasure_def by (simp add: eng_bind_def eng_of_def)
  then obtain u where "promote_versions eg backends STAGING_VOL staging_id
       (with_per_disk_index (inline_fi bucket key sz etag now content_type version_id frames) (set_erasure eg (length backends)) (length backends))
       bucket key quorum st = Some (Ok u, st1)" "oi_etag info = etag" "oi_version_id info = version_id"
    by (auto simp: eng_of_Ok dest!: eng_bind_Ok)
  with dr show thesis by (intro that) simp_all
qed

text \<open>The bytes that a GET of a range returns.\<close>

definition requested :: "byte_range option \<Rightarrow> nat \<Rightarrow> byte list \<Rightarrow> byte list" where
  "requested rng sz body =
     (case rng of
        None \<Rightarrow> body
      | Some r \<Rightarrow> (case byte_range_resolve r sz of None \<Rightarrow> [] | Some (offset, len) \<Rightarrow> take len (drop offset body)))"

lemma get_inline:
  assumes "set_backends eg b k = Some (Ok backends)" "consensus_read eg backends b k vid True st = Some (Ok (i, r), st1)"
    and "fi_size r = int (length body)" "length body < 2 ^ 63" "fi_data r = (if body = [] then None else Some [body])"
  shows "\<exists>window stream. get_versioned eg b k vid rng st = Some (Ok (to_object_info b r, window, stream), st1) \<and>
    get_ok ok stream \<and> get_content content stream = requested rng (length body) body"
proof -
  have u: "as_u64 (int (length body)) = length body" using assms(4) by (simp add: as_u64_def)
  show ?thesis
    using assms(1-3,5)
    by (cases rng; cases "body = []")
      (auto simp: get_versioned_def with_set_def eng_bind_def Let_def u requested_def get_ok_def get_content_def ranged_def skip_take_new_def
        split: option.splits)
qed

text \<open>A GET changes the drives by its reads only.\<close>

lemma get_versioned_state:
  assumes "get_versioned eg b k v rng st = Some (r, st1)"
  shows "st1 = st \<or> (\<exists>backends q. consensus_read eg backends b k v True st = Some (q, st1))"
proof (cases "set_backends eg b k")
  case (Some s)
  show ?thesis
  proof (cases s)
    case (Inr backends)
    obtain q st0 where q: "consensus_read eg backends b k v True st = Some (q, st0)"
      using assms Some Inr by (auto simp: get_versioned_def with_set_def eng_bind_def split: option.splits)
    then have "st1 = st0"
      using assms Some Inr
      by (cases q) (auto simp: get_versioned_def with_set_def eng_bind_def Let_def split: if_splits prod.splits option.splits)
    with q show ?thesis by blast
  qed (use assms Some in \<open>simp add: get_versioned_def with_set_def\<close>)
qed (use assms in \<open>simp add: get_versioned_def with_set_def\<close>)

text \<open>What every read of a record keeps of a drive, a PUT keeps until it has its version identifier.\<close>

lemma consensus_read_keeps:
  assumes "\<And>b k v rd d. P d \<Longrightarrow> P (snd (bk_read_version (eg_ops eg) b k v rd d))" "\<forall>a. P (st a)"
    and "consensus_read eg backends b k v rd st = Some (r, st1)"
  shows "P (st1 a)"
proof -
  have "st1 = snd (fan_out (on_all backends (bk_read_version (eg_ops eg) b k v rd)) st)"
    using assms(3) by (auto simp: consensus_read_def eng_fan_def eng_of_def split: prod.splits)
  moreover have "P (snd (fan_out (on_all backends (bk_read_version (eg_ops eg) b k v rd)) st) a)"
    by (rule fan_out_inv [where P = "\<lambda>_. P"]) (use assms(2) in \<open>auto simp: on_all_def intro: assms(1)\<close>)
  ultimately show ?thesis by simp
qed

lemma version_id_keeps:
  assumes "\<And>b k v rd d. P d \<Longrightarrow> P (snd (bk_read_version (eg_ops eg) b k v rd d))" "\<forall>a. P (st a)"
    and "resolve_put_version_id eg fresh b st = Some (Ok v, st1)"
  shows "P (st1 a)" "v = fresh \<or> v = NULL_VERSION_ID"
proof -
  obtain m st0 where m: "get_bucket_meta eg b st = Some (Ok m, st0)" "v = next_version_id fresh m" "st1 = st0"
    using eng_bind_Ok [OF assms(3) [unfolded resolve_put_version_id_def]] by (auto simp: eng_of_Ok)
  then show "v = fresh \<or> v = NULL_VERSION_ID" by (simp add: next_version_id_def split: versioning_status.splits)
  obtain gs st2 where g: "get_latest eg SYSTEM_BUCKET (bkt_meta_key b) st = Some (Ok gs, st2)" "st0 = st2"
    using eng_bind_Ok [OF m(1) [unfolded get_bucket_meta_def]] by (auto split: prod.splits)
  then obtain x where "get_versioned eg SYSTEM_BUCKET (bkt_meta_key b) None None st = Some (Ok x, st2)"
    using eng_bind_Ok [OF g(1) [unfolded get_latest_def]] by (auto simp: eng_of_Ok split: prod.splits)
  from get_versioned_state [OF this] show "P (st1 a)"
    using consensus_read_keeps [of P, OF assms(1,2)] assms(2) m(3) g(2) by metis
qed

lemma version_id_canonical:
  assumes "v = fresh \<or> v = NULL_VERSION_ID" "length uuid = 16" "fresh = format_version_id_bytes uuid"
  shows "\<exists>c. length c = 16 \<and> v = format_version_id_bytes c"
  using assms null_canonical(1) by blast

context version_store
begin

lemma inline_stored:
  assumes "eg_ops eg = ops" "engine_ok eg" "\<forall>a. inv (st a)" "user_bucket b" "length uuid = 16" "fresh = format_version_id_bytes uuid"
    and "byte_stream rd ok content" "ok src" "sz \<le> eg_inline_threshold eg"
    and "put_object eg lock fence now fresh data_dir staging_id b k sz rd src content_type st = Some (Ok info, st1)"
  obtains backends frames where "set_backends eg b k = Some (Ok backends)" "distinct backends" "length backends = set_size eg"
    "oi_etag info = eg_md5_hex eg (take sz (content src))" "concat frames = take sz (content src)" "sz \<le> length (content src)"
    "\<And>i. i < set_size eg \<Longrightarrow> inv (st1 (backends ! i)) \<and> kept (st1 (backends ! i)) b k
       (with_per_disk_index (inline_fi b k sz (oi_etag info) now content_type (oi_version_id info) frames) (set_erasure eg (set_size eg)) (set_size eg) ! i)"
proof -
  obtain backends where backends: "set_backends eg b k = Some (Ok backends)" "distinct backends" "length backends = set_size eg"
    by (rule set_backends_ok [OF assms(2)])
  obtain v st0 where v: "resolve_put_version_id eg fresh b st = Some (Ok v, st0)"
    and put: "put_inline eg fence staging_id b k sz rd src content_type now v backends (write_quorum (eg_cluster eg)) st0 = Some (Ok info, st1)"
    using assms(9,10) backends(1) unfolding put_object_def
    by (auto simp: eng_of_Ok with_set_def Let_def dest!: eng_bind_Ok)
  obtain frames where f: "drain_inline_payload (eg_md5_hex eg) rd sz [] 0 src = Ok (frames, oi_etag info)"
    "promote_versions eg backends STAGING_VOL staging_id
       (with_per_disk_index (inline_fi b k sz (oi_etag info) now content_type v frames) (set_erasure eg (length backends)) (length backends))
       b k (write_quorum (eg_cluster eg)) st0 = Some (Ok (), st1)" "oi_version_id info = v"
    by (rule put_inline_Ok [OF put])
  have keep: "inv d \<Longrightarrow> inv (snd (bk_read_version (eg_ops eg) b k v rd d))" for b k v rd d unfolding assms(1) by (rule read_inv)
  have inv0: "\<forall>a \<in> set backends. inv (st0 a)" using version_id_keeps(1) [of inv, OF keep assms(3) v] by blast
  have can: "\<exists>c. length c = 16 \<and> v = format_version_id_bytes c"
    by (rule version_id_canonical [OF version_id_keeps(2) [of inv, OF keep assms(3) v] assms(5,6)])
  with null_canonical(2) have "canonical_ids (inline_fi b k sz (oi_etag info) now content_type v frames)"
    by (simp add: canonical_ids_def inline_fi_def build_file_info_def file_info_default_def Let_def)
  then have "\<forall>fi \<in> set (with_per_disk_index (inline_fi b k sz (oi_etag info) now content_type v frames) (set_erasure eg (length backends)) (length backends)).
      canonical_ids fi" by (auto simp: with_per_disk_index_def)
  note kept = promote_ok [OF assms(1) backends(2) inv0 assms(4) this _ f(2)]
  obtain new where new: "frames = [] @ new" "concat new = take (sz - 0) (content src)" "sz - 0 \<le> length (content src)" "oi_etag info = eg_md5_hex eg (concat frames)"
    using byte_stream.drain_inline_content [OF assms(7,8) _ f(1)] by blast
  show thesis
    by (rule that [OF backends, of frames]) (use new kept backends(3) f(3) in \<open>simp_all add: write_quorum_def\<close>)
qed

end

text \<open>Validity of the layout that the engine writes.\<close>

lemma set_erasure_valid:
  assumes "engine_ok eg" "i < set_size eg"
  shows "erasure_is_valid ((set_erasure eg (set_size eg))\<lparr>ei_index := (i + 1) mod 2 ^ 8\<rparr>)"
    "ei_parity_blocks (set_erasure eg (set_size eg)) = parity_of eg"
  using assms by (auto simp: engine_ok_def erasure_is_valid_def set_erasure_def default_erasure_info_def usize_sub_def)


lemma inline_fi_fields:
  assumes "sz < 2 ^ 63"
  shows "fi_size (inline_fi b k sz etag now ct v frames) = int sz" "fi_deleted (inline_fi b k sz etag now ct v frames) = False"
    "fi_version_id (inline_fi b k sz etag now ct v frames) = v" "record_etag_matches (inline_fi b k sz etag now ct v frames) etag"
    "inline_bytes (inline_fi b k sz etag now ct v frames) = concat frames"
proof -
  have "as_i64 sz = int sz" using assms by (simp add: as_i64_def)
  then show "fi_size (inline_fi b k sz etag now ct v frames) = int sz" "fi_deleted (inline_fi b k sz etag now ct v frames) = False"
    "fi_version_id (inline_fi b k sz etag now ct v frames) = v" "inline_bytes (inline_fi b k sz etag now ct v frames) = concat frames"
    by (simp_all add: inline_fi_def build_file_info_def file_info_default_def Let_def inline_bytes_def)
  show "record_etag_matches (inline_fi b k sz etag now ct v frames) etag"
    by (auto simp: record_etag_matches_def inline_fi_def build_file_info_def Let_def ETAG_META_KEY_def CONTENT_TYPE_META_KEY_def split: option.split)
qed

lemma readable_half: "readable n p U \<Longrightarrow> readable n (n div 2) U"
  unfolding readable_def by linarith

end
