(* ===== verification/Shard_Store.thy ===== *)
theory Shard_Store
  imports Put_Get
begin

text \<open>
  The shards of an erasure-coded version on the drives: what the engine relies on when it stages the
  shards with sinks, promotes them with the version and reads them back with streams, and that the
  local drive provides it.
\<close>

subsection \<open>The contract\<close>

text \<open>
  \<open>sound\<close> drives are those on which staging and promotion run without faults. A \<open>sink\<close> is open on a
  staging path of its drive and has written some bytes; \<open>staged\<close> and \<open>part\<close> say what a file of the
  staging volume and of a bucket holds.
\<close>

definition staged_part :: "string \<Rightarrow> string \<Rightarrow> string" where
  "staged_part staging_id data_dir = staging_id @ ''/'' @ data_dir @ ''/'' @ PART1_PATH_SUFFIX"

definition object_part :: "string \<Rightarrow> string \<Rightarrow> string" where
  "object_part key data_dir = key @ ''/'' @ data_dir @ ''/'' @ PART1_PATH_SUFFIX"

locale shard_store = version_store ops inv up lost kept fits user_bucket + shard_source "bk_read ops" src_ok src_content src_honest
  for ops :: "('d, 'k, 's) backend" and inv up lost kept fits user_bucket src_ok src_content src_honest +
  fixes sound :: "'d \<Rightarrow> bool" and sink :: "string \<Rightarrow> 'k \<Rightarrow> 'd \<Rightarrow> byte list \<Rightarrow> bool" and staged :: "'d \<Rightarrow> string \<Rightarrow> byte list \<Rightarrow> bool"
    and part :: "'d \<Rightarrow> string \<Rightarrow> string \<Rightarrow> byte list \<Rightarrow> bool"
  assumes sound_inv: "sound d \<Longrightarrow> inv d"
    and sound_read: "sound d \<Longrightarrow> sound (snd (bk_read_version ops b k vid rd d))"
    and read_keeps: "inv d \<Longrightarrow> user_bucket b \<Longrightarrow> part d b' p v \<Longrightarrow> part (snd (bk_read_version ops b k vid rd d)) b' p v"
      "up d \<Longrightarrow> up (snd (bk_read_version ops b k vid rd d))" "lost d \<Longrightarrow> user_bucket b \<Longrightarrow> lost (snd (bk_read_version ops b k vid rd d))"
    and open_law: "sound d \<Longrightarrow> bk_create_file_writer ops STAGING_VOL p sz d = (Ok h, d1) \<Longrightarrow> sound d1 \<and> sink p h d1 []"
    and write_law: "sound d \<Longrightarrow> sink p h d v \<Longrightarrow> bk_write_all ops bs h d = (Ok (), h1, d1) \<Longrightarrow> sound d1 \<and> sink p h1 d1 (v @ bs)"
    and finish_law: "sound d \<Longrightarrow> sink p h d v \<Longrightarrow> bk_finish ops h d = (r, h1, d1) \<Longrightarrow> sound d1 \<and> staged d1 p v"
    and graft_law: "sound d \<Longrightarrow> user_bucket b \<Longrightarrow> canonical_ids fi \<Longrightarrow> fi_data_dir fi \<noteq> [] \<Longrightarrow>
      staged d (staged_part sid (fi_data_dir fi)) v \<Longrightarrow> bk_rename_data ops STAGING_VOL sid fi b k d = Some (Ok resp, d1) \<Longrightarrow>
      part d1 b (object_part k (fi_data_dir fi)) v"
    and part_staging_law: "inv d \<Longrightarrow> user_bucket b \<Longrightarrow> part d b (object_part k dd) v \<Longrightarrow>
      part (snd (bk_delete ops STAGING_VOL p True d)) b (object_part k dd) v"
    and part_stale_law: "inv d \<Longrightarrow> user_bucket b \<Longrightarrow> part d b (object_part k dd) v \<Longrightarrow> data_name dd' \<Longrightarrow> data_name dd \<Longrightarrow> dd' \<noteq> dd \<Longrightarrow>
      part (snd (bk_delete ops b (k @ ''/'' @ dd') True d)) b (object_part k dd) v"
    and stream_law: "inv d \<Longrightarrow> user_bucket b \<Longrightarrow> part d b p v \<Longrightarrow> fst (bk_read_file_stream ops b p off len d) = Ok s \<Longrightarrow>
      src_honest s \<and> src_content s = take len (drop off v)"
    and stream_up: "inv d \<Longrightarrow> user_bucket b \<Longrightarrow> part d b p v \<Longrightarrow> up d \<Longrightarrow> \<exists>s. fst (bk_read_file_stream ops b p off len d) = Ok s \<and> src_ok s"
    and stream_lost: "lost d \<Longrightarrow> user_bucket b \<Longrightarrow> \<exists>e. fst (bk_read_file_stream ops b p off len d) = Err e"

text \<open>A sink with its drive is a sink for the stripe loop.\<close>

sublocale shard_store \<subseteq> drive_sink: byte_sink "drive_write ops" "\<lambda>hd v. sound (snd hd) \<and> sink p (fst hd) (snd hd) v" for p
  by unfold_locales (auto simp: drive_write_def split: prod.splits dest: write_law)

subsection \<open>Staging\<close>

lemma put_back_nth:
  "distinct backends \<Longrightarrow> length kds = length backends \<Longrightarrow> i < length backends \<Longrightarrow> put_back backends kds st (backends ! i) = snd (kds ! i)"
proof (induction backends arbitrary: kds st i)
  case (Cons a as)
  have other: "c \<notin> set as \<Longrightarrow> put_back as kds st c = st c" for kds st and c :: disk_addr
    by (induction as kds st rule: put_back.induct) auto
  obtain h d kds1 where kds: "kds = (h, d) # kds1" using Cons.prems(2) by (cases kds) auto
  show ?case
  proof (cases i)
    case (Suc i')
    with Cons.IH [of kds1 i' "st(a := d)"] Cons.prems kds show ?thesis by (simp add: fun_upd_def)
  qed (use other [of a kds1 "st(a := d)"] Cons.prems kds in simp)
qed simp

lemma eng_io_Ok:
  "eng_bind (eng_io f m) g st = Some (Ok x, st1) \<Longrightarrow> \<exists>y st0. m st = (Ok y, st0) \<and> g y st0 = Some (Ok x, st1)"
  by (cases "m st") (auto simp: eng_bind_def eng_io_def map_err_eq_Ok split: sum.splits)

context shard_store
begin

lemma open_sinks:
  assumes "eg_ops eg = ops" "distinct backends" "\<forall>a \<in> set backends. sound (st a)"
    and "open_staging_sinks eg backends sid dd sz st = (Ok sinks, st1)"
  shows "length sinks = length backends" "i < length backends \<Longrightarrow> sound (st1 (backends ! i)) \<and> sink (staged_part sid dd) (sinks ! i) (st1 (backends ! i)) []"
proof -
  let ?f = "bk_create_file_writer ops STAGING_VOL (staged_part sid dd) sz"
  obtain results where run: "fan_out (on_all backends ?f) st = (results, st1)" and res: "results = map Inr sinks"
    using assms(1,4) by (auto simp: open_staging_sinks_def staged_part_def collect_results_eq_Ok split: prod.splits)
  have "distinct (map fst (on_all backends ?f))" using assms(2) by (simp add: on_all_def comp_def)
  note fan = fan_out_results [OF this run]
  show len: "length sinks = length backends" using fan(1) res by (simp add: on_all_def)
  show "sound (st1 (backends ! i)) \<and> sink (staged_part sid dd) (sinks ! i) (st1 (backends ! i)) []" if i: "i < length backends"
  proof -
    have "?f (st (backends ! i)) = (Ok (sinks ! i), st1 (backends ! i))" using fan(2) [of i] res i len by (simp add: on_all_def)
    from open_law [OF _ this] assms(3) i show ?thesis by simp
  qed
qed

lemma finish_sinks:
  assumes "eg_ops eg = ops" "distinct backends" "length sinks = length backends"
    and "\<And>i. i < length backends \<Longrightarrow> sound (st (backends ! i)) \<and> sink p (sinks ! i) (st (backends ! i)) (files ! i)"
    and "finalize_sinks_quorum eg backends sinks quorum st = (r, st1)" "i < length backends"
  shows "sound (st1 (backends ! i)) \<and> staged (st1 (backends ! i)) p (files ! i)"
proof -
  let ?ops = "map (\<lambda>(a, h). (a, \<lambda>d. case bk_finish ops h d of (r, _, d1) \<Rightarrow> (r, d1))) (zip backends sinks)"
  obtain results where run: "fan_out ?ops st = (results, st1)"
    using assms(1,5) by (auto simp: finalize_sinks_quorum_def split: prod.splits)
  have fst_ops: "map fst ?ops = backends" using assms(3) by (simp add: comp_def split_def)
  with assms(2) have "distinct (map fst ?ops)" by metis
  from fan_out_results(2) [OF this run, of i] assms(3,6)
  obtain r h1 where "bk_finish ops (sinks ! i) (st (backends ! i)) = (r, h1, st1 (backends ! i))"
    by (auto split: prod.splits)
  from finish_law [OF _ _ this] assms(4) [OF assms(6)] show ?thesis by blast
qed

lemma stage_shards_stored:
  assumes "eg_ops eg = ops" "distinct backends" "\<forall>a \<in> set backends. sound (st a)" "length backends = n + m"
    and "rs_contract n m (eg_rs_encode eg) rs_decode" "0 < n" "0 < unit" "even unit"
    and "byte_stream rd ok content" "ok src" "stripes = stripes_of sz (n * unit)"
    and "stage_shards eg \<lparr>er_data_shards = n, er_parity_shards = m\<rparr> (open_staging_sinks eg backends sid dd on_disk) rd src sz (n * unit) stripes
       b backends quorum st = Some (Ok etag, st1)"
  obtains ss where "etag = eg_md5_hex eg (take sz (content src))" "sz \<le> length (content src)" "length ss = stripes"
    "\<forall>sh \<in> set ss. good_stripe rs_decode n m unit sh" "take sz (payload n ss) = take sz (content src)"
    "\<And>i. i < n + m \<Longrightarrow> sound (st1 (backends ! i)) \<and> staged (st1 (backends ! i)) (staged_part sid dd) (shard_file i ss)"
proof -
  let ?e = "\<lparr>er_data_shards = n, er_parity_shards = m\<rparr>" and ?p = "staged_part sid dd"
  obtain sinks st0 where o: "open_staging_sinks eg backends sid dd on_disk st = (Ok sinks, st0)"
    and rest: "(case write_to_sinks eg ?e rd src sz (n * unit) stripes backends sinks st0 of
         (Inl e, _, st1) \<Rightarrow> Some (Err (map_bucket_or_io b e), st1)
       | (Inr etag, sinks1, st1) \<Rightarrow>
           eng_bind (eng_io (map_bucket_or_io b) (finalize_sinks_quorum eg backends sinks1 quorum)) (\<lambda>_. eng_ok etag) st1) = Some (Ok etag, st1)"
    using eng_io_Ok [OF assms(12) [unfolded stage_shards_def]] by blast
  note opened = open_sinks [OF assms(1-3) o]
  obtain r kds s' where w: "encode_and_write_stripes (eg_rs_encode eg) (eg_md5_hex eg) rd (drive_write ops) ?e sz (n * unit) stripes src
      (zip sinks (map st0 backends)) = (r, kds, s')" by (metis prod_cases3)
  obtain etag1 where r1: "r = Ok etag1" using rest w assms(1) by (cases r) (simp_all add: write_to_sinks_def)
  let ?st = "put_back backends kds st0"
  have "eng_bind (eng_io (map_bucket_or_io b) (finalize_sinks_quorum eg backends (map fst kds) quorum)) (\<lambda>_. eng_ok etag1) ?st = Some (Ok etag, st1)"
    using rest w assms(1) r1 by (simp add: write_to_sinks_def)
  from eng_io_Ok [OF this] obtain u where fin: "finalize_sinks_quorum eg backends (map fst kds) quorum ?st = (Ok u, st1)" and r: "r = Ok etag"
    using r1 by (auto simp: eng_of_Ok)
  let ?holds = "\<lambda>hd v. sound (snd hd) \<and> sink ?p (fst hd) (snd hd) v"
  have "list_all2 ?holds (zip sinks (map st0 backends)) (replicate (n + m) [])"
    using opened assms(4) by (simp add: list_all2_conv_all_nth)
  from drive_sink.write_stripes_holds [OF this w [unfolded r encode_and_write_stripes_def]]
  obtain files where v: "write_stripes (eg_rs_encode eg) (eg_md5_hex eg) rd vec_write ?e sz (n * unit) stripes 0 [] [] src (replicate (n + m) []) =
      (Ok etag, files, s')" and holds: "list_all2 ?holds kds files" by blast
  have k: "sz \<le> stripes * (n * unit)" using assms(6,7,11) length_body_bound [of "n * unit" sz] by simp
  have long: "sz \<le> length (content src)"
    using write_stripes_eof [OF assms(5-10), of "replicate (n + m) []" "[]" sz 0 stripes "eg_md5_hex eg" "[]"] k v by fastforce
  from write_stripes_content [OF assms(5-10), of "replicate (n + m) []" sz 0 "[]" "eg_md5_hex eg" stripes "[]"] long k v
  obtain ss where ss: "etag = eg_md5_hex eg (take sz (content src))" "length ss = stripes" "\<forall>sh \<in> set ss. good_stripe rs_decode n m unit sh"
    "payload n ss = take sz (content src) @ replicate (stripes * (n * unit) - sz) 0"
    "files = map2 (\<lambda>sink i. sink @ shard_file i ss) (replicate (n + m) []) [0..<n + m]"
    by (auto simp: min_absorb1)
  have len: "length kds = length backends" using holds ss(5) assms(4) by (simp add: list_all2_conv_all_nth)
  have shard: "files ! i = shard_file i ss" if "i < n + m" for i using that ss(5) by simp
  have sunk: "sound (?st (backends ! i)) \<and> sink ?p (map fst kds ! i) (?st (backends ! i)) (files ! i)" if "i < length backends" for i
    using holds put_back_nth [OF assms(2) len that, of st0] that len by (simp add: list_all2_conv_all_nth)
  note fin_sinks = finish_sinks [OF assms(1,2) _ sunk fin]
  show thesis
  proof (rule that [OF ss(1) long ss(2,3)])
    show "take sz (payload n ss) = take sz (content src)" using ss(4) long by simp
    show "sound (st1 (backends ! i)) \<and> staged (st1 (backends ! i)) ?p (shard_file i ss)" if "i < n + m" for i
      using fin_sinks [of i] that shard [OF that] len assms(4) by simp
  qed
qed

end

subsection \<open>A stored version\<close>

text \<open>The base record of an erasure-coded version.\<close>

definition ec_fi :: "string \<Rightarrow> string \<Rightarrow> nat \<Rightarrow> nat \<Rightarrow> string \<Rightarrow> nat \<Rightarrow> string option \<Rightarrow> string \<Rightarrow> string \<Rightarrow> file_info" where
  "ec_fi bucket key sz shard etag now content_type version_id data_dir =
     (build_file_info bucket key (as_i64 sz) etag now content_type None (single_part_info etag (as_i64 shard) (as_i64 sz) now))
       \<lparr>fi_version_id := version_id, fi_data_dir := data_dir\<rparr>"

lemma put_ec_Ok:
  assumes "put_ec eg fence data_dir staging_id bucket key sz rd src content_type now version_id backends quorum st = Some (Ok info, st1)"
    and "n = usize_sub (length backends) (parity_of eg)" "m = parity_of eg"
  obtains shard on_disk st0 where "0 < n" "0 < m"
    "stage_shards eg \<lparr>er_data_shards = n, er_parity_shards = m\<rparr> (open_staging_sinks eg backends staging_id data_dir on_disk) rd src sz
       (n * DEFAULT_EC_PER_SHARD_BYTES) (stripes_of sz (n * DEFAULT_EC_PER_SHARD_BYTES)) bucket backends quorum st = Some (Ok (oi_etag info), st0)"
    "promote_versions eg backends STAGING_VOL staging_id
       (with_per_disk_index (ec_fi bucket key sz shard (oi_etag info) now content_type version_id data_dir) (set_erasure eg (length backends)) (length backends))
       bucket key quorum st0 = Some (Ok (), st1)"
    "oi_version_id info = version_id"
proof -
  let ?sd = "n * DEFAULT_EC_PER_SHARD_BYTES"
  let ?body = "\<lambda>shard. eng_bind (stage_shards eg \<lparr>er_data_shards = n, er_parity_shards = m\<rparr>
      (open_staging_sinks eg backends staging_id data_dir (stripes_of sz ?sd * DEFAULT_EC_PER_SHARD_BYTES mod 2 ^ 64)) rd src sz ?sd (stripes_of sz ?sd)
      bucket backends quorum) (\<lambda>etag. eng_bind (eng_of fence) (\<lambda>_. eng_bind (promote_versions eg backends STAGING_VOL staging_id
       (with_per_disk_index (ec_fi bucket key sz shard etag now content_type version_id data_dir) (set_erasure eg (length backends)) (length backends))
       bucket key quorum) (\<lambda>_. eng_ok \<lparr>oi_bucket = bucket, oi_key = key, oi_size = sz, oi_etag = etag, oi_storage_class = Single,
                 oi_modified_ms = now, oi_content_type = content_type, oi_version_id = version_id, oi_is_delete_marker = False\<rparr>)))"
  have nm: "0 < n" "0 < m"
    using assms by (auto simp: put_ec_def Let_def erasure_new_def eng_bind_def eng_of_def split: if_splits)
  have "(case shard_size sz n of None \<Rightarrow> (\<lambda>_. None)
      | Some shard \<Rightarrow> eng_try (?body shard)
          (\<lambda>result st1. Some (result, if is_ok result then st1 else cleanup_src eg backends STAGING_VOL staging_id st1))) st = Some (Ok info, st1)"
    using assms(1) nm unfolding put_ec_def Let_def ec_fi_def set_erasure_def assms(2,3)
    by (simp add: erasure_new_def eng_bind_def [of "eng_of _"] eng_of_def)
  then obtain shard where "?body shard st = Some (Ok info, st1)"
    by (auto simp: eng_try_def split: option.splits)
  from eng_bind_Ok [OF this] obtain etag st0 where e: "stage_shards eg \<lparr>er_data_shards = n, er_parity_shards = m\<rparr>
      (open_staging_sinks eg backends staging_id data_dir (stripes_of sz ?sd * DEFAULT_EC_PER_SHARD_BYTES mod 2 ^ 64)) rd src sz ?sd (stripes_of sz ?sd)
      bucket backends quorum st = Some (Ok etag, st0)"
    and rest: "eng_bind (eng_of fence) (\<lambda>_. eng_bind (promote_versions eg backends STAGING_VOL staging_id
       (with_per_disk_index (ec_fi bucket key sz shard etag now content_type version_id data_dir) (set_erasure eg (length backends)) (length backends))
       bucket key quorum) (\<lambda>_. eng_ok \<lparr>oi_bucket = bucket, oi_key = key, oi_size = sz, oi_etag = etag, oi_storage_class = Single,
                 oi_modified_ms = now, oi_content_type = content_type, oi_version_id = version_id, oi_is_delete_marker = False\<rparr>)) st0 = Some (Ok info, st1)"
    by blast
  from rest have "promote_versions eg backends STAGING_VOL staging_id
       (with_per_disk_index (ec_fi bucket key sz shard etag now content_type version_id data_dir) (set_erasure eg (length backends)) (length backends))
       bucket key quorum st0 = Some (Ok (), st1)" "oi_etag info = etag" "oi_version_id info = version_id"
    by (auto simp: eng_of_Ok dest!: eng_bind_Ok)
  with e nm show thesis by (intro that) simp_all
qed

context shard_store
begin

lemma promoted_parts:
  assumes "eg_ops eg = ops" "distinct backends" "length backends \<le> quorum" "user_bucket b" "\<forall>a \<in> set backends. sound (st a)"
    and "\<forall>fi \<in> set fis. canonical_ids fi \<and> fi_data_dir fi = dd" "dd \<noteq> []"
    and "\<And>i. i < length backends \<Longrightarrow> staged (st (backends ! i)) (staged_part sid dd) (files i)"
    and "promote_versions eg backends STAGING_VOL sid fis b k quorum st = Some (Ok (), st1)" "i < length backends"
  shows "inv (st1 (backends ! i)) \<and> kept (st1 (backends ! i)) b k (fis ! i) \<and> part (st1 (backends ! i)) b (object_part k dd) (files i)"
proof (rule promote_each(2) [where Q = "\<lambda>i d. inv d \<and> kept d b k (fis ! i) \<and> part d b (object_part k dd) (files i)", OF assms(1-3,9) _ _ _ assms(10)])
  have len: "length fis = length backends" using assms(9) by (auto simp: promote_versions_def split: if_splits)
  have fi: "canonical_ids (fis ! i)" "fi_data_dir (fis ! i) = dd" "sound (st (backends ! i))" if "i < length backends" for i
    using that assms(5,6) len by simp_all
  have dn: "data_name dd" if "i < length backends" for i
    using canonical_data_dir [OF fi(1)] fi(2) assms(7) that by metis
  show "(inv d \<and> kept d b k (fis ! i) \<and> part d b (object_part k dd) (files i)) \<and> (rd_old_data_dir resp = [] \<or> data_name (rd_old_data_dir resp))"
    if i: "i < length backends" and r: "bk_rename_data ops STAGING_VOL sid (fis ! i) b k (st (backends ! i)) = Some (Ok resp, d)" for i resp d
    using rename_law [OF sound_inv assms(4) _ r] graft_law [OF _ assms(4) _ _ _ r] fi [OF i] assms(7,8) i by simp
  show "inv (snd (bk_delete ops b (k @ ''/'' @ dd') True d)) \<and> kept (snd (bk_delete ops b (k @ ''/'' @ dd') True d)) b k (fis ! i) \<and>
      part (snd (bk_delete ops b (k @ ''/'' @ dd') True d)) b (object_part k dd) (files i)"
    if "i < length backends" "inv d \<and> kept d b k (fis ! i) \<and> part d b (object_part k dd) (files i)" "data_name dd'" "dd' \<noteq> fi_data_dir (fis ! i)" for i d dd'
    using stale_law [of d b k "fis ! i" dd'] part_stale_law [of d b k dd "files i" dd'] that assms(4) fi(2) [OF that(1)] dn [OF that(1)] by simp
  show "inv (snd (bk_delete ops STAGING_VOL sid True d)) \<and> kept (snd (bk_delete ops STAGING_VOL sid True d)) b k (fis ! i) \<and>
      part (snd (bk_delete ops STAGING_VOL sid True d)) b (object_part k dd) (files i)"
    if "i < length backends" "inv d \<and> kept d b k (fis ! i) \<and> part d b (object_part k dd) (files i)" for i d
    using staging_law [of d b k "fis ! i" sid] part_staging_law [of d b k dd "files i" sid] that assms(4) by simp
qed

lemma ec_stored:
  assumes "eg_ops eg = ops" "engine_ok eg" "\<forall>a. sound (st a)" "user_bucket b" "length uuid = 16" "fresh = format_version_id_bytes uuid"
    and "length c = 16" "data_dir = format_data_dir_bytes c" "data_dir \<noteq> []" "byte_stream rd ok content" "ok src" "eg_inline_threshold eg < sz"
    and "n = set_size eg - parity_of eg" "m = parity_of eg" "rs_contract n m (eg_rs_encode eg) rs_decode"
    and "put_object eg lock fence now fresh data_dir sid b k sz rd src content_type st = Some (Ok info, st1)"
  obtains backends shard ss where "set_backends eg b k = Some (Ok backends)" "distinct backends" "length backends = set_size eg" "0 < n" "0 < m"
    "oi_etag info = eg_md5_hex eg (take sz (content src))" "sz \<le> length (content src)" "length ss = stripes_of sz (n * DEFAULT_EC_PER_SHARD_BYTES)"
    "\<forall>sh \<in> set ss. good_stripe rs_decode n m DEFAULT_EC_PER_SHARD_BYTES sh" "take sz (payload n ss) = take sz (content src)"
    "\<And>i. i < set_size eg \<Longrightarrow> inv (st1 (backends ! i)) \<and> kept (st1 (backends ! i)) b k
       (with_per_disk_index (ec_fi b k sz shard (oi_etag info) now content_type (oi_version_id info) data_dir) (set_erasure eg (set_size eg)) (set_size eg) ! i) \<and>
       part (st1 (backends ! i)) b (object_part k data_dir) (shard_file i ss)"
proof -
  obtain backends where backends: "set_backends eg b k = Some (Ok backends)" "distinct backends" "length backends = set_size eg"
    by (rule set_backends_ok [OF assms(2)])
  have sub: "n = usize_sub (length backends) (parity_of eg)" "length backends = n + m"
    using assms(2,13,14) backends(3) by (auto simp: usize_sub_def engine_ok_def)
  obtain v st0 where v: "resolve_put_version_id eg fresh b st = Some (Ok v, st0)"
    and put: "put_ec eg fence data_dir sid b k sz rd src content_type now v backends (write_quorum (eg_cluster eg)) st0 = Some (Ok info, st1)"
    using assms(12,16) backends(1) unfolding put_object_def
    by (auto simp: eng_of_Ok with_set_def Let_def dest!: eng_bind_Ok)
  have keep: "sound d \<Longrightarrow> sound (snd (bk_read_version (eg_ops eg) b k v rd d))" for b k v rd d unfolding assms(1) by (rule sound_read)
  have s0: "\<forall>a \<in> set backends. sound (st0 a)" using version_id_keeps(1) [of sound, OF keep assms(3) v] by blast
  have can: "\<exists>c. length c = 16 \<and> v = format_version_id_bytes c"
    by (rule version_id_canonical [OF version_id_keeps(2) [of sound, OF keep assms(3) v] assms(5,6)])
  obtain shard on_disk st2 where p: "0 < n" "0 < m"
    "stage_shards eg \<lparr>er_data_shards = n, er_parity_shards = m\<rparr> (open_staging_sinks eg backends sid data_dir on_disk) rd src sz
       (n * DEFAULT_EC_PER_SHARD_BYTES) (stripes_of sz (n * DEFAULT_EC_PER_SHARD_BYTES)) b backends (write_quorum (eg_cluster eg)) st0 = Some (Ok (oi_etag info), st2)"
    "promote_versions eg backends STAGING_VOL sid
       (with_per_disk_index (ec_fi b k sz shard (oi_etag info) now content_type v data_dir) (set_erasure eg (length backends)) (length backends))
       b k (write_quorum (eg_cluster eg)) st2 = Some (Ok (), st1)"
    "oi_version_id info = v"
    by (rule put_ec_Ok [OF put sub(1) assms(14)])
  have unit: "0 < DEFAULT_EC_PER_SHARD_BYTES" "even DEFAULT_EC_PER_SHARD_BYTES" by (simp_all add: DEFAULT_EC_PER_SHARD_BYTES_def)
  obtain ss where ss: "oi_etag info = eg_md5_hex eg (take sz (content src))" "sz \<le> length (content src)"
    "length ss = stripes_of sz (n * DEFAULT_EC_PER_SHARD_BYTES)"
    "\<forall>sh \<in> set ss. good_stripe rs_decode n m DEFAULT_EC_PER_SHARD_BYTES sh" "take sz (payload n ss) = take sz (content src)"
    "\<And>i. i < n + m \<Longrightarrow> sound (st2 (backends ! i)) \<and> staged (st2 (backends ! i)) (staged_part sid data_dir) (shard_file i ss)"
    using stage_shards_stored [OF assms(1) backends(2) s0 sub(2) assms(15) p(1) unit assms(10,11) refl p(3)] by blast
  let ?fi = "ec_fi b k sz shard (oi_etag info) now content_type v data_dir"
  have "canonical_ids ?fi" "fi_data_dir ?fi = data_dir"
    using can assms(7,8) by (auto simp: canonical_ids_def ec_fi_def)
  then have fis: "\<forall>fi \<in> set (with_per_disk_index ?fi (set_erasure eg (length backends)) (length backends)). canonical_ids fi \<and> fi_data_dir fi = data_dir"
    by (auto simp: with_per_disk_index_def)
  have s2: "\<forall>a \<in> set backends. sound (st2 a)" using ss(6) sub(2) by (auto simp: in_set_conv_nth)
  have q: "length backends \<le> write_quorum (eg_cluster eg)" using backends(3) by (simp add: write_quorum_def)
  note parts = promoted_parts [OF assms(1) backends(2) q assms(4) s2 fis assms(9) _ p(4), where files = "\<lambda>i. shard_file i ss"]
  show thesis
    by (rule that [OF backends p(1,2) ss(1-5)]) (use parts ss(6) sub(2) backends(3) p(5) in auto)
qed

end

subsection \<open>Reading it back\<close>

lemma ec_fi_fields:
  assumes "0 < sz" "sz < 2 ^ 63"
  shows "fi_size (ec_fi b k sz shard etag now ct v dd) = int sz" "fi_deleted (ec_fi b k sz shard etag now ct v dd) = False"
    "fi_version_id (ec_fi b k sz shard etag now ct v dd) = v" "record_etag_matches (ec_fi b k sz shard etag now ct v dd) etag"
    "inline_bytes (ec_fi b k sz shard etag now ct v dd) = []" "fi_data_dir (ec_fi b k sz shard etag now ct v dd) = dd"
    "\<exists>p. fi_parts (ec_fi b k sz shard etag now ct v dd) = [p] \<and> op_actual_size p = int sz \<and> part_path k dd p = object_part k dd"
proof -
  have "as_i64 sz = int sz" using assms by (simp add: as_i64_def)
  then show "fi_size (ec_fi b k sz shard etag now ct v dd) = int sz" "fi_deleted (ec_fi b k sz shard etag now ct v dd) = False"
    "fi_version_id (ec_fi b k sz shard etag now ct v dd) = v" "inline_bytes (ec_fi b k sz shard etag now ct v dd) = []"
    "fi_data_dir (ec_fi b k sz shard etag now ct v dd) = dd"
    by (simp_all add: ec_fi_def build_file_info_def file_info_default_def Let_def inline_bytes_def)
  have "show_int 1 = ''1''" by code_simp
  with \<open>as_i64 sz = int sz\<close> show "\<exists>p. fi_parts (ec_fi b k sz shard etag now ct v dd) = [p] \<and> op_actual_size p = int sz \<and> part_path k dd p = object_part k dd"
    by (simp add: ec_fi_def build_file_info_def Let_def single_part_info_def part_path_def object_part_def PART1_PATH_SUFFIX_def)
  show "record_etag_matches (ec_fi b k sz shard etag now ct v dd) etag"
    by (auto simp: record_etag_matches_def ec_fi_def build_file_info_def Let_def ETAG_META_KEY_def CONTENT_TYPE_META_KEY_def split: option.split)
qed

lemma set_erasure_layout:
  assumes "engine_ok eg"
  shows "ei_data_blocks (set_erasure eg (set_size eg)) = set_size eg - parity_of eg" "ei_parity_blocks (set_erasure eg (set_size eg)) = parity_of eg"
    "ei_block_size (set_erasure eg (set_size eg)) = (set_size eg - parity_of eg) * DEFAULT_EC_PER_SHARD_BYTES"
proof -
  have n: "set_size eg \<le> 255" "parity_of eg \<le> set_size eg" using assms by (auto simp: engine_ok_def)
  then have "set_size eg - parity_of eg \<le> 255" by simp
  then have "(set_size eg - parity_of eg) * DEFAULT_EC_PER_SHARD_BYTES \<le> 255 * DEFAULT_EC_PER_SHARD_BYTES" by (rule mult_le_mono1)
  also have "\<dots> < 2 ^ 32" by (simp add: DEFAULT_EC_PER_SHARD_BYTES_def)
  finally show "ei_data_blocks (set_erasure eg (set_size eg)) = set_size eg - parity_of eg" "ei_parity_blocks (set_erasure eg (set_size eg)) = parity_of eg"
    "ei_block_size (set_erasure eg (set_size eg)) = (set_size eg - parity_of eg) * DEFAULT_EC_PER_SHARD_BYTES"
    using n by (simp_all add: set_erasure_def default_erasure_info_def usize_sub_def mult.commute)
qed

text \<open>The stream of a GET over drives that serve the shard files.\<close>

lemma ec_stream_served:
  fixes eg :: "('d, 'k, 's, 'h) engine"
  assumes "shard_source (bk_read (eg_ops eg)) src_ok src_content src_honest"
    and "0 < n" "0 < m" "n + m \<le> 255" "\<forall>sh \<in> set ss. good_stripe (eg_rs_decode eg) n m DEFAULT_EC_PER_SHARD_BYTES sh"
    and "length ss = stripes_of sz (n * DEFAULT_EC_PER_SHARD_BYTES)" "0 < sz" "sz < 2 ^ 63" "take sz (payload n ss) = body" "length body = sz"
    and "fi_size fi = int sz" "fi_parts fi = [p]" "op_actual_size p = int sz" "fi_data_dir fi = dd" "dd \<noteq> []"
    and "ei_data_blocks (fi_erasure fi) = n" "ei_parity_blocks (fi_erasure fi) = m" "ei_block_size (fi_erasure fi) = n * DEFAULT_EC_PER_SHARD_BYTES"
    and "serves (open_file (eg_ops eg)) drives src_ok src_content src_honest n b (part_path k dd p) (map (\<lambda>i. shard_file i ss) [0..<n + m])"
    and "window = Option.bind rng (\<lambda>r. byte_range_resolve r sz)" "rng = None \<or> window \<noteq> None"
  shows "\<exists>stream. ec_stream_for eg drives b k fi window = Some (Ok stream) \<and> drain_stream (get_read eg) [] stream = Some (Ok (requested rng sz body))"
proof -
  let ?u = DEFAULT_EC_PER_SHARD_BYTES and ?e = "\<lparr>er_data_shards = n, er_parity_shards = m\<rparr>"
  have u: "0 < ?u" "?u mod 512 = 0" by (simp_all add: DEFAULT_EC_PER_SHARD_BYTES_def)
  have p: "as_u64 (op_actual_size p) = sz" using assms(8,13) by (simp add: as_u64_def)
  obtain offset len where w: "(case window of Some w \<Rightarrow> w | None \<Rightarrow> (0, as_u64 (fi_size fi))) = (offset, len)" by fastforce
  have off: "offset < sz" "rng = None \<Longrightarrow> offset = 0"
    using w assms(7,20,21) by (auto simp: Let_def split: option.splits if_splits bind_splits byte_range.splits elim!: byte_range_resolve.elims)
  obtain t :: "('d, 's) multi_part_stream" and sub where at: "multi_at drives b k dd [p] (n * ?u) ?u n m ?e offset = (t, sub)" by fastforce
  note obj = written_object [OF assms(1,2) u(1) assms(5,6) p assms(19)]
  obtain ok' content' where c: "byte_stream (ec_stream_read eg) ok' content'" "ok' t" "drop sub (content' t) = drop offset body"
    using range_read [OF obj _ at, of "eg_print eg"] p off(1) assms(9) unfolding ec_stream_read_def by (auto simp: object_bytes_def)
  have sub: "sub = 0" if "offset = 0"
    using at seek_part_split [of 0 "[p]" 0] that p assms(7) by (auto simp: multi_at_def)
  let ?stream = "if window \<noteq> None then RangedEc (skip_take_new t sub len) else EcStream t"
  have "length drives = n + m" using assms(19) by (simp add: serves_def)
  then have "ec_stream_for eg drives b k fi window = Some (Ok ?stream)"
    using assms(2,3,12,14,15,16,17,18) u w at by (simp add: ec_stream_for_def erasure_new_def Let_def)
  moreover have "get_ok ok' ?stream" "get_content content' ?stream = requested rng sz body"
    using c(2,3) w sub off(2) assms(20,21)
    by (auto simp: get_ok_def get_content_def ranged_def skip_take_new_def requested_def split: option.splits bind_splits)
  ultimately show ?thesis
    using byte_stream.drain_stream_content [OF get_stream_content [OF c(1)], of ?stream "[]"] by auto
qed

lemma consensus_read_state:
  assumes "consensus_read eg backends b k v rd st = Some (r, st1)" "distinct backends" "i < length backends"
  shows "st1 (backends ! i) = snd (bk_read_version (eg_ops eg) b k v rd (st (backends ! i)))"
proof -
  obtain xs where run: "fan_out (on_all backends (bk_read_version (eg_ops eg) b k v rd)) st = (xs, st1)"
    using assms(1) by (auto simp: consensus_read_def eng_fan_def eng_of_def split: prod.splits)
  have "distinct (map fst (on_all backends (bk_read_version (eg_ops eg) b k v rd)))" using assms(2) by (simp add: on_all_def comp_def)
  from fan_out_results(2) [OF this run, of i] assms(3) show ?thesis by (simp add: on_all_def)
qed

lemma ec_get:
  assumes "set_backends eg b k = Some (Ok backends)" "consensus_read eg backends b k vid True st = Some (Ok (i, r), st1)"
    and "fi_size r = int sz" "0 < sz" "sz < 2 ^ 63" "fi_data r = None"
    and "\<And>window. window = Option.bind rng (\<lambda>r. byte_range_resolve r sz) \<Longrightarrow> rng = None \<or> window \<noteq> None \<Longrightarrow>
      \<exists>stream. ec_stream_for eg (map st1 backends) b k r window = Some (Ok stream) \<and> drain_stream (get_read eg) [] stream = Some (Ok (requested rng sz body))"
  shows "\<exists>window stream. get_versioned eg b k vid rng st = Some (Ok (to_object_info b r, window, stream), st1) \<and>
    drain_stream (get_read eg) [] stream = Some (Ok (requested rng sz body))"
proof -
  have u: "as_u64 (int sz) = sz" using assms(5) by (simp add: as_u64_def)
  let ?w = "Option.bind rng (\<lambda>r. byte_range_resolve r sz)"
  show ?thesis
  proof (cases "rng = None \<or> ?w \<noteq> None")
    case True
    with assms(7) [OF refl] obtain stream where s: "ec_stream_for eg (map st1 backends) b k r ?w = Some (Ok stream)"
      "drain_stream (get_read eg) [] stream = Some (Ok (requested rng sz body))" by blast
    with True assms(1-6) u show ?thesis by (auto simp: get_versioned_def with_set_def eng_bind_def Let_def)
  next
    case False
    then obtain x where x: "rng = Some x" "byte_range_resolve x sz = None" by (metis bind.bind_lunit not_None_eq)
    then have "get_versioned eg b k vid rng st = Some (Ok (to_object_info b r, None, RopeStream []), st1)"
      using assms(1-6) u by (simp add: get_versioned_def with_set_def eng_bind_def Let_def)
    moreover have "drain_stream (get_read eg) [] (RopeStream []) = Some (Ok (requested rng sz body))"
      using x by (simp add: requested_def drain_stream.simps)
    ultimately show ?thesis by blast
  qed
qed

context shard_store
begin

lemma drives_serve:
  assumes "distinct backends" "length backends = N" "user_bucket b" "U \<subseteq> {..<N}" "n \<le> card U"
    and "\<And>i. i < N \<Longrightarrow> lost (st (backends ! i)) \<or> inv (st (backends ! i)) \<and> part (st (backends ! i)) b p (files ! i)"
    and "\<And>i. i \<in> U \<Longrightarrow> inv (st (backends ! i)) \<and> part (st (backends ! i)) b p (files ! i) \<and> up (st (backends ! i))" "length files = N"
  shows "serves (open_file ops) (map st backends) src_ok src_content src_honest n b p files"
proof -
  have opened: "src_honest s \<and> src_content s = take len (drop off (files ! i))"
    if "i < N" "open_file ops (st (backends ! i)) b p off len = Ok s" for i off len s
    using assms(6) [OF that(1)] stream_law [of "st (backends ! i)" b p "files ! i" off len s] stream_lost [of "st (backends ! i)" b p off len] assms(3) that(2)
    by (auto simp: open_file_def)
  have "n \<le> length (filter (\<lambda>d. \<exists>s. open_file ops d b p off len = Ok s \<and> src_ok s) (map st backends))" for off len
  proof -
    let ?G = "\<lambda>i. \<exists>s. open_file ops (st (backends ! i)) b p off len = Ok s \<and> src_ok s"
    have "?G i" if "i \<in> U" for i
    proof -
      have "inv (st (backends ! i))" "part (st (backends ! i)) b p (files ! i)" "up (st (backends ! i))"
        using assms(7) [OF that] by simp_all
      from stream_up [OF this(1) assms(3) this(2,3)] show ?thesis by (simp add: open_file_def)
    qed
    then have "U \<subseteq> {i. i < length backends \<and> ?G i}" using assms(2,4) by auto
    then have "card U \<le> card {i. i < length backends \<and> ?G i}" by (rule card_mono [rotated]) simp
    also have "\<dots> = length (filter (\<lambda>d. \<exists>s. open_file ops d b p off len = Ok s \<and> src_ok s) (map st backends))"
      by (simp add: length_filter_conv_card cong: conj_cong)
    finally show ?thesis using assms(5) by simp
  qed
  with opened assms(2,8) show ?thesis by (simp add: serves_def)
qed

lemma ec_kept_get:
  assumes "eg_ops eg = ops" "engine_ok eg" "user_bucket b" "0 < sz" "sz < 2 ^ 63" "0 < n" "0 < m"
    and "n = set_size eg - parity_of eg" "m = parity_of eg"
    and "set_backends eg b k = Some (Ok backends)" "distinct backends" "length backends = set_size eg"
    and "fi = ec_fi b k sz shard etag now content_type v dd" "etag \<noteq> []" "dd \<noteq> []"
    and "\<forall>sh \<in> set ss. good_stripe (eg_rs_decode eg) n m DEFAULT_EC_PER_SHARD_BYTES sh" "length ss = stripes_of sz (n * DEFAULT_EC_PER_SHARD_BYTES)"
    and "take sz (payload n ss) = body" "length body = sz"
    and "\<And>i. i < set_size eg \<Longrightarrow> lost (st (backends ! i)) \<or> inv (st (backends ! i)) \<and>
       kept (st (backends ! i)) b k (with_per_disk_index fi (set_erasure eg (set_size eg)) (set_size eg) ! i) \<and> fits (st (backends ! i)) b k \<and>
       part (st (backends ! i)) b (object_part k dd) (shard_file i ss)"
    and "readable (set_size eg) (parity_of eg) U" "\<And>i. i \<in> U \<Longrightarrow> up (st (backends ! i)) \<and> \<not> lost (st (backends ! i))"
  shows "\<exists>info window stream st1. get_versioned eg b k (Some v) rng st = Some (Ok (info, window, stream), st1) \<and>
    oi_etag info = etag \<and> oi_size info = sz \<and> drain_stream (get_read eg) [] stream = Some (Ok (requested rng sz body))"
proof -
  let ?N = "set_size eg" and ?ei = "set_erasure eg (set_size eg)" and ?u = DEFAULT_EC_PER_SHARD_BYTES
  note fields = ec_fi_fields [OF assms(4,5), of b k shard etag now content_type v dd, folded assms(13)]
  have N: "0 < ?N" "?N \<le> 255" "m \<le> ?N" "all_orders (eg_orders eg)" "?N = n + m"
    using assms(2,8,9) by (auto simp: engine_ok_def topology_ok_def)
  have P: "voted_parity ?N (fi\<lparr>fi_erasure := ?ei\<rparr>) = m"
    using fields(1,2) assms(4,9) set_erasure_valid(2) [OF assms(2), of 0] N(1) by (simp add: voted_parity_def)
  have kept: "lost (st (backends ! i)) \<or> inv (st (backends ! i)) \<and> kept (st (backends ! i)) b k (with_per_disk_index fi ?ei ?N ! i) \<and>
      fits (st (backends ! i)) b k" if "i < ?N" for i using assms(20) [OF that] by blast
  obtain i q st1 where i: "consensus_read eg backends b k (Some (fi_version_id fi)) True st =
      Some (Ok (i, file_info_from_record (stored q (with_per_disk_index fi ?ei ?N ! i)) b k), st1)" "i < ?N"
    using consensus_reads [OF assms(1) N(4) assms(11) assms(12) [symmetric] assms(3) refl set_erasure_valid(1) [OF assms(2)] fields(4) assms(14) P N(3)
        kept assms(21) [folded assms(9)] assms(22)] by blast
  let ?r = "file_info_from_record (stored q (with_per_disk_index fi ?ei ?N ! i)) b k"
  have r: "with_per_disk_index fi ?ei ?N ! i = fi\<lparr>fi_erasure := ?ei\<lparr>ei_index := (i + 1) mod 2 ^ 8\<rparr>\<rparr>"
    using i(2) by (simp add: with_per_disk_index_def)
  obtain p where p: "fi_parts fi = [p]" "op_actual_size p = int sz" "part_path k dd p = object_part k dd" using fields(7) by blast
  have rec: "fi_size ?r = int sz" "fi_data ?r = None" "fi_parts ?r = [p]" "fi_data_dir ?r = dd" "oi_etag (to_object_info b ?r) = etag" "oi_size (to_object_info b ?r) = sz"
    unfolding r using fields(1,4,5,6) p(1)
    by (simp_all add: file_info_from_record_def stored_def to_object_info_def record_etag_matches_def inline_bytes_def)
  have layout: "ei_data_blocks (fi_erasure ?r) = n" "ei_parity_blocks (fi_erasure ?r) = m" "ei_block_size (fi_erasure ?r) = n * ?u"
    unfolding r assms(8,9) using set_erasure_layout [OF assms(2)] by (simp_all add: file_info_from_record_def stored_def)
  have after: "st1 (backends ! j) = snd (bk_read_version ops b k (Some (fi_version_id fi)) True (st (backends ! j)))" if "j < ?N" for j
    using consensus_read_state [OF i(1) assms(11)] assms(1,12) that by simp
  have held: "lost (st1 (backends ! j)) \<or> inv (st1 (backends ! j)) \<and> part (st1 (backends ! j)) b (object_part k dd) (shard_file j ss)" if "j < ?N" for j
    using assms(20) [OF that] read_inv read_keeps(1,3) assms(3) unfolding after [OF that] by blast
  have U: "inv (st1 (backends ! j)) \<and> part (st1 (backends ! j)) b (object_part k dd) (shard_file j ss) \<and> up (st1 (backends ! j))" if "j \<in> U" for j
  proof -
    have j: "j < ?N" using that assms(21) by (auto simp: readable_def)
    show ?thesis using assms(20) [OF j] assms(22) [OF that] read_inv read_keeps(1,2) assms(3) unfolding after [OF j] by blast
  qed
  have "serves (open_file ops) (map st1 backends) src_ok src_content src_honest n b (part_path k dd p) (map (\<lambda>i. shard_file i ss) [0..<n + m])"
    unfolding p(3)
  proof (rule drives_serve [OF assms(11,12,3), where U = U])
    show "U \<subseteq> {..<?N}" "n \<le> card U" using assms(21) unfolding assms(8) readable_def by blast+
    show "length (map (\<lambda>i. shard_file i ss) [0..<n + m]) = ?N" using N(5) by simp
    show "lost (st1 (backends ! j)) \<or> inv (st1 (backends ! j)) \<and> part (st1 (backends ! j)) b (object_part k dd) (map (\<lambda>i. shard_file i ss) [0..<n + m] ! j)"
      if "j < ?N" for j using held [OF that] that unfolding N(5) by simp
    show "inv (st1 (backends ! j)) \<and> part (st1 (backends ! j)) b (object_part k dd) (map (\<lambda>i. shard_file i ss) [0..<n + m] ! j) \<and> up (st1 (backends ! j))"
      if "j \<in> U" for j using U [OF that] that assms(21) unfolding N(5) readable_def by auto
  qed
  note served = ec_stream_served [OF shard_source_axioms [folded assms(1)] assms(6,7) _ assms(16,17,4,5,18,19) rec(1,3) p(2) rec(4) assms(15) layout this [folded assms(1)]]
  have "n + m \<le> 255" using N(2) unfolding N(5) .
  from ec_get [OF assms(10) i(1) rec(1) assms(4,5) rec(2) served [OF this]]
  obtain window stream where "get_versioned eg b k (Some (fi_version_id fi)) rng st = Some (Ok (to_object_info b ?r, window, stream), st1)"
    "drain_stream (get_read eg) [] stream = Some (Ok (requested rng sz body))" by blast
  then show ?thesis using rec(5,6) fields(3) by blast
qed

end

subsection \<open>The local drive\<close>

lemma delete_keeps_file:
  assumes "wf_tree (dk_tree d)" "\<not> prefix (file_path v p) q" "\<not> prefix [TRASH_DIRNAME] q"
  shows "file_at (dk_tree (snd (delete_path v p rec d))) q = file_at (dk_tree d) q" "wf_tree (dk_tree (snd (delete_path v p rec d)))"
proof -
  have "keeps (frame (\<lambda>q. prefix (file_path v p) q \<or> prefix [TRASH_DIRNAME] q)) (delete_path v p rec)"
    by (rule keeps_delete_path) auto
  then have fr: "frame (\<lambda>q. prefix (file_path v p) q \<or> prefix [TRASH_DIRNAME] q) d (snd (delete_path v p rec d))"
    by (simp add: keeps_def)
  show "file_at (dk_tree (snd (delete_path v p rec d))) q = file_at (dk_tree d) q" using frame_file [OF fr assms(1)] assms(2,3) by simp
  show "wf_tree (dk_tree (snd (delete_path v p rec d)))" by (rule frame_wf [OF fr assms(1)])
qed

text \<open>The promotion moves the files of the staged data directory along.\<close>

lemma graft_moves:
  assumes "graft_data_dir S D dd a = (Ok (), a1)" "healthy a" "apart S D" "data_name dd" "file_at (dk_tree a) (S @ [dd, x]) = Some v"
  shows "file_at (dk_tree a1) (D @ [dd, x]) = Some v" "wf_tree (dk_tree a1)"
proof -
  have dd: "segs dd = [dd]" "dd \<noteq> []" using assms(4) by (auto simp: data_name_def segs_plain plain_name_def)
  have wf: "wf_tree (dk_tree a)" using assms(2) by (simp add: healthy_def)
  have "lookup_node (dk_tree a) ((S @ [dd]) @ [x]) \<noteq> None" using assms(5) by (auto simp: file_at_Some)
  then have "lookup_node (dk_tree a) (S @ [dd]) = Some Dir" using wf unfolding wf_tree_def by blast
  then have "stat (dk_tree a) (S @ [dd]) = Ok Dir" by (simp add: stat_Ok_iff wf)
  then obtain b where b: "fs_create_dir_all D (a\<lparr>dk_calls := Suc (dk_calls a)\<rparr>) = (Ok (), b)" "fs_rename (S @ [dd]) (D @ [dd]) b = (Ok (), a1)"
    using assms(1) dd by (auto simp: graft_data_dir_def Let_def try_do_def fs_stat_healthy [OF assms(2)] then_do_Ok map_err_do_Ok)
  have fr: "frame (\<lambda>_. False) (a\<lparr>dk_calls := Suc (dk_calls a)\<rparr>) b" by (rule keepsD [OF keeps_create_dir_all b(1)])
  have fb: "file_at (dk_tree b) (S @ [dd, x]) = Some v" "wf_tree (dk_tree b)"
    using frame_file [OF fr, of "S @ [dd, x]"] frame_wf [OF fr] wf assms(5) by simp_all
  note rn = fs_rename_Ok [OF b(2)]
  have "\<not> prefix (S @ [dd]) (D @ [dd])" "\<not> prefix (D @ [dd]) (S @ [dd])" "S @ [dd] \<noteq> D @ [dd]"
    using apart_append [OF assms(3), of "[dd]" "[dd]"] by (auto simp: apart_def)
  then have t: "dk_tree a1 = move_tree (S @ [dd]) (D @ [dd]) (dk_tree b)"
    using rn by (cases rule: rename_at_cases [of "S @ [dd]" "D @ [dd]" "dk_tree b"]) auto
  have "lookup_node (dk_tree a1) ((D @ [dd]) @ [x]) = lookup_node (dk_tree b) ((S @ [dd]) @ [x])"
    unfolding t using lookup_move_tree [of "S @ [dd]" "D @ [dd]" "dk_tree b" "(D @ [dd]) @ [x]"]
      apart_append [OF assms(3), of "[dd]" "[dd]"] by (simp add: apart_def)
  then show "file_at (dk_tree a1) (D @ [dd, x]) = Some v" using fb(1) by (simp add: file_at_def)
  show "wf_tree (dk_tree a1)" by (rule frame_wf [OF keepsD [OF keeps_rename [of _ _ "\<lambda>_. True"] b(2)] fb(2)]) simp
qed

lemma promoted_file:
  assumes "rename_data mc STAGING_VOL sid fi b k d = Some (Ok resp, d1)" "healthy d" "user_bucket b" "data_name (fi_data_dir fi)"
    and "file_at (dk_tree d) (file_path STAGING_VOL sid @ [fi_data_dir fi, x]) = Some v"
  shows "file_at (dk_tree d1) (file_path b k @ [fi_data_dir fi, x]) = Some v"
proof -
  let ?S = "file_path STAGING_VOL sid" and ?D = "file_path b k" and ?dd = "fi_data_dir fi"
  have wf: "wf_tree (dk_tree d)" using assms(2) by (simp add: healthy_def)
  have b: "plain_name b" "b \<noteq> STAGING_VOL" "plain_name STAGING_VOL"
    using assms(3) system_plain [of STAGING_VOL] by (auto simp: user_bucket_def is_system_vol_def)
  have ap: "apart ?S ?D" using volumes_apart b by metis
  from assms(1) wf show ?thesis
  proof (cases rule: rename_data_cases)
    case (promoted a existing enc r0)
    let ?bk = "if list_ex (\<lambda>r. dr_version_id r = fi_version_id fi) existing then file_at (dk_tree d) (meta_path b k) else None"
    have "promote_staged ?S ?D ?dd ?bk (xl_meta_vectored enc) a = (Ok (), d1)" using promoted(5,6) by (cases r0) auto
    then obtain a1 a2 a3 where s: "stage_meta ?S (xl_meta_vectored enc) a = (Ok (), a1)" "graft_data_dir ?S ?D ?dd a1 = (Ok (), a2)"
      "(case ?bk of Some raw \<Rightarrow> write_backup ?D raw | None \<Rightarrow> ret ()) a2 = (Ok (), a3)" "commit_meta ?S ?D a3 = (Ok (), d1)"
      unfolding promote_staged_def then_do_Ok by auto
    have ha: "healthy a" by (rule frame_healthy [OF promoted(2) assms(2)])
    have dd: "?dd \<noteq> META_FILENAME" "?dd \<noteq> META_BACKUP_FILENAME" using assms(4) by (simp_all add: data_name_def)
    have k1: "keeps (frame (\<lambda>q. q = ?S @ [META_FILENAME])) (stage_meta ?S (xl_meta_vectored enc))" by (rule keeps_stage_meta) simp
    have h1: "healthy a1" by (rule keeps_healthy [OF k1 ha s(1)])
    have f1: "file_at (dk_tree a1) (?S @ [?dd, x]) = Some v"
      using frame_file [OF keepsD [OF k1 s(1)], of "?S @ [?dd, x]"] frame_file [OF promoted(2) wf, of "?S @ [?dd, x]"] ha assms(5)
      by (simp add: healthy_def)
    note moved = graft_moves [OF s(2) h1 ap assms(4) f1]
    have "keeps (frame (\<lambda>q. q = ?D @ [META_BACKUP_FILENAME])) (case ?bk of Some raw \<Rightarrow> write_backup ?D raw | None \<Rightarrow> ret ())"
      by (auto intro!: keeps_intros keeps_write_backup split: option.split)
    note fr3 = keepsD [OF this s(3)]
    have "keeps (frame (\<lambda>q. prefix (?S @ [META_FILENAME]) q \<or> prefix (?D @ [META_FILENAME]) q)) (commit_meta ?S ?D)" by (rule keeps_commit_meta)
    note fr4 = keepsD [OF this s(4)]
    have "\<not> prefix (?S @ [META_FILENAME]) (?D @ [?dd, x])"
      using apart_append [OF ap, of "[META_FILENAME]" "[?dd, x]"] by (simp add: apart_def)
    then show ?thesis
      using frame_file [OF fr4 frame_wf [OF fr3 moved(2)], of "?D @ [?dd, x]"] frame_file [OF fr3 moved(2), of "?D @ [?dd, x]"] moved(1) dd by simp
  qed simp
qed

lemma part_paths:
  assumes "data_name dd"
  shows "file_path v (staged_part s dd) = file_path v s @ [dd, PART1_PATH_SUFFIX]" "file_path v (object_part s dd) = file_path v s @ [dd, PART1_PATH_SUFFIX]"
proof -
  have "segs PART1_PATH_SUFFIX = [PART1_PATH_SUFFIX]" by (rule segs_plain) (simp add: PART1_PATH_SUFFIX_def plain_name_def)
  moreover have "segs dd = [dd]" using assms by (simp add: data_name_def segs_plain)
  ultimately show "file_path v (staged_part s dd) = file_path v s @ [dd, PART1_PATH_SUFFIX]"
    "file_path v (object_part s dd) = file_path v s @ [dd, PART1_PATH_SUFFIX]"
    by (simp_all add: staged_part_def object_part_def file_path_def segs_slash)
qed

text \<open>Staging, part reads and the promotion on a drive without faults.\<close>

definition sink_at :: "string \<Rightarrow> local_file_sink \<Rightarrow> disk \<Rightarrow> byte list \<Rightarrow> bool" where
  "sink_at p h d v \<longleftrightarrow> lk_file h = Some (file_path STAGING_VOL p) \<and> lk_pos h = length v \<and> lk_written h = length v \<and>
     file_at (dk_tree d) (file_path STAGING_VOL p) = Some v"

definition stored_at :: "disk \<Rightarrow> string \<Rightarrow> string \<Rightarrow> byte list \<Rightarrow> bool" where
  "stored_at d b p v \<longleftrightarrow> segs p \<noteq> [] \<and> file_at (dk_tree d) (file_path b p) = Some v"

lemma writer_opens:
  assumes "create_file_writer STAGING_VOL p sz d = (Ok h, d1)" "healthy d"
  shows "healthy d1 \<and> sink_at p h d1 []"
proof -
  have "keeps (frame (\<lambda>_. True)) (create_file_writer STAGING_VOL p sz)"
    unfolding create_file_writer_def Let_def by (intro keeps_intros keeps_require_vol keeps_changes) simp
  from keeps_healthy [OF this assms(2,1)] have "healthy d1" .
  moreover obtain a where "fs_open_trunc (file_path STAGING_VOL p) a = (Ok (), d1)"
    "h = \<lparr>lk_file = Some (file_path STAGING_VOL p), lk_pos = 0, lk_expected = sz, lk_written = 0\<rparr>"
    using assms(1) by (auto simp: create_file_writer_def Let_def then_do_Ok map_err_do_Ok ret_def)
  ultimately show ?thesis by (simp add: sink_at_def file_at_Some open_trunc_Ok)
qed

lemma sink_writes:
  assumes "local_write_all bs h d = (Ok (), h1, d1)" "healthy d" "sink_at p h d v"
  shows "healthy d1 \<and> sink_at p h1 d1 (v @ bs)"
proof (cases "bs = []")
  case False
  let ?p = "file_path STAGING_VOL p"
  have w: "fs_pwrite ?p (length v) bs d = (Ok (), d1)" "h1 = h\<lparr>lk_pos := lk_pos h + length bs, lk_written := lk_written h + length bs\<rparr>"
    using assms(1,3) False by (auto simp: local_write_all_def sink_at_def map_err_do_def map_err_eq_Ok split: prod.splits sum.splits)
  have "healthy d1" by (rule keeps_healthy [OF keeps_pwrite [of "\<lambda>_. True"] assms(2) w(1)]) simp
  with pwrite_Ok [OF w(1), of v] w(2) assms(3) show ?thesis by (simp add: sink_at_def file_at_Some overwrite_end)
qed (use assms in \<open>simp add: local_write_all_def\<close>)

lemma sink_finishes:
  assumes "local_finish h d = (r, h1, d1)" "healthy d"
  shows "healthy d1" "dk_tree d1 = dk_tree d"
proof -
  have "healthy d1 \<and> dk_tree d1 = dk_tree d"
  proof (cases "lk_written h = lk_expected h \<and> lk_file h \<noteq> None")
    case True
    then have "d1 = snd (io_do (then_do fs_sync (\<lambda>_. fs_sync)) d)"
      using assms(1) by (auto simp: local_finish_def split: prod.splits)
    then show ?thesis using assms(2) by (simp add: map_err_do_def then_do_def fs_sync_healthy)
  qed (use assms in \<open>auto simp: local_finish_def split: if_splits\<close>)
  then show "healthy d1" "dk_tree d1 = dk_tree d" by simp_all
qed

lemma file_stream_opens:
  fixes off len :: nat and grant :: "nat \<Rightarrow> nat" and fault :: "nat \<Rightarrow> string option"
  assumes "wf_tree (dk_tree d)" "stored_at d b p v" "user_bucket b"
  defines "s \<equiv> \<lparr>lfs_file = v, lfs_pos = off, lfs_end = off + len, lfs_grant = grant, lfs_fault = fault\<rparr>"
  shows "fst (read_file_stream grant fault b p off len d) = Ok s' \<Longrightarrow> s' = s"
    "dk_faults d = (\<lambda>_. None) \<Longrightarrow> fst (read_file_stream grant fault b p off len d) = Ok s"
proof -
  have sys: "\<not> is_system_vol b" using assms(3) by (simp add: user_bucket_def)
  have "lookup_node (dk_tree d) (vol_path b @ segs p) \<noteq> None"
    using assms(2) by (auto simp: file_at_Some stored_at_def file_path_def)
  then have "lookup_node (dk_tree d) (vol_path b) = Some Dir" using wf_prefix_Dir [OF assms(1)] assms(2) by (auto simp: stored_at_def)
  then have "stat (dk_tree d) (vol_path b) = Ok Dir" by (simp add: stat_Ok_iff assms(1))
  moreover have "read_file_at (dk_tree d) (file_path b p) = Ok v" using assms(1,2) by (simp add: read_file_at_Ok stored_at_def)
  ultimately show "fst (read_file_stream grant fault b p off len d) = Ok s' \<Longrightarrow> s' = s"
    "dk_faults d = (\<lambda>_. None) \<Longrightarrow> fst (read_file_stream grant fault b p off len d) = Ok s"
    using sys by (auto simp: read_file_stream_def s_def then_do_def try_do_def require_vol_def fs_stat_def fs_read_def query_def sys_def
      ret_def raise_def map_err_do_def split: option.splits)
qed

lemma take_in_steps: "k \<le> n \<Longrightarrow> take n xs = take k xs @ take (n - length (take k xs)) (drop (length (take k xs)) xs)"
  using take_add [of k "n - k" xs] by (cases "k \<le> length xs") (simp_all add: min_def)

abbreviation stream_rest :: "local_file_stream \<Rightarrow> byte list" where
  "stream_rest s \<equiv> take (lfs_end s - lfs_pos s) (drop (lfs_pos s) (lfs_file s))"

lemma local_read_delivers:
  assumes "local_read s = (Ok c, s')"
  shows "stream_rest s = c @ stream_rest s' \<and> lfs_fault s' = lfs_fault s \<and> (c = [] \<longrightarrow> stream_rest s = [])"
proof (cases "lfs_end s \<le> lfs_pos s")
  case False
  define k where "k = min (min (lfs_end s - lfs_pos s) STREAM_CHUNK_BYTES) (max 1 (lfs_grant s (lfs_pos s)))"
  have chunk: "0 < STREAM_CHUNK_BYTES" by (simp add: STREAM_CHUNK_BYTES_def)
  have k: "0 < k" "k \<le> lfs_end s - lfs_pos s" using False chunk by (simp_all add: k_def)
  have c: "c = take k (drop (lfs_pos s) (lfs_file s))" "s' = s\<lparr>lfs_pos := lfs_pos s + length c\<rparr>"
    using assms False chunk unfolding k_def by (auto simp: local_read_def Let_def split: if_splits option.splits)
  have "stream_rest s' = take (lfs_end s - lfs_pos s - length c) (drop (length c) (drop (lfs_pos s) (lfs_file s)))"
    using c(2) by (simp add: add.commute)
  with take_in_steps [OF k(2), of "drop (lfs_pos s) (lfs_file s)"] c k(1) show ?thesis by simp
qed (use assms in \<open>auto simp: local_read_def\<close>)

interpretation local_src: shard_source local_read "\<lambda>s. \<forall>i. lfs_fault s i = None" stream_rest "\<lambda>_. True"
proof
  show "\<exists>c s'. local_read s = (Ok c, s') \<and> (\<forall>i. lfs_fault s' i = None) \<and> stream_rest s = c @ stream_rest s' \<and> (c = [] \<longrightarrow> stream_rest s = [])"
    if "\<forall>i. lfs_fault s i = None" for s
  proof -
    have "\<exists>c s'. local_read s = (Ok c, s')" using that by (auto simp: local_read_def Let_def)
    then obtain c s' where "local_read s = (Ok c, s')" by blast
    with local_read_delivers [OF this] that show ?thesis by auto
  qed
qed (use local_read_delivers in auto)

lemma read_version_lost:
  assumes "dk_tree d = []" "user_bucket b"
  shows "dk_tree (snd (read_version mc b k v rd d)) = []"
proof -
  have b: "plain_name b" "\<not> is_system_vol b" using assms(2) by (simp_all add: user_bucket_def)
  obtain e d1 where rv: "require_vol b d = (Err e, d1)" using require_vol_empty [OF assms(1) b] by blast
  then have "dk_tree d1 = []" using b assms(1)
    by (auto simp: require_vol_def try_do_def ret_def raise_def dest: fs_stat_tree split: prod.splits sum.splits node.splits if_splits)
  with rv show ?thesis by (simp add: read_version_def then_do_def)
qed

lemma kept_by_read:
  assumes "wf_tree (dk_tree d)"
  shows "stored_at d b' p v \<Longrightarrow> stored_at (snd (read_version mc b k vid rd d)) b' p v"
    "dk_faults (snd (read_version mc b k vid rd d)) = dk_faults d" "wf_tree (dk_tree (snd (read_version mc b k vid rd d)))"
proof -
  have fr: "frame (\<lambda>_. False) d (snd (read_version mc b k vid rd d))"
    using keeps_read_version [of "\<lambda>_. False" mc b k vid rd] by (simp add: keeps_def)
  show "stored_at d b' p v \<Longrightarrow> stored_at (snd (read_version mc b k vid rd d)) b' p v"
    using frame_file [OF fr assms] by (simp add: stored_at_def)
  show "dk_faults (snd (read_version mc b k vid rd d)) = dk_faults d" using fr by (simp add: frame_def)
  show "wf_tree (dk_tree (snd (read_version mc b k vid rd d)))" by (rule frame_wf [OF fr assms])
qed

text \<open>Deleting a staging directory or another data directory leaves the part.\<close>

lemma kept_by_delete:
  assumes "wf_tree (dk_tree d)" "stored_at d b (object_part k dd) v" "user_bucket b"
  shows "stored_at (snd (delete_path STAGING_VOL p True d)) b (object_part k dd) v"
    "data_name dd \<Longrightarrow> data_name dd' \<Longrightarrow> dd' \<noteq> dd \<Longrightarrow> stored_at (snd (delete_path b (k @ ''/'' @ dd') True d)) b (object_part k dd) v"
proof -
  have b: "plain_name b" "b \<noteq> STAGING_VOL" "b \<noteq> TRASH_DIRNAME" "plain_name STAGING_VOL"
    using assms(3) system_plain [of STAGING_VOL] by (auto simp: user_bucket_def is_system_vol_def)
  have trash: "\<not> prefix [TRASH_DIRNAME] (file_path b p)" for p using b by (simp add: file_path_def vol_path_def segs_plain)
  have "\<not> prefix (file_path STAGING_VOL p) (file_path b (object_part k dd))"
    using volumes_apart [of STAGING_VOL b] b by (auto simp: apart_def)
  from delete_keeps_file(1) [OF assms(1) this trash] assms(2)
  show "stored_at (snd (delete_path STAGING_VOL p True d)) b (object_part k dd) v" by (simp add: stored_at_def)
  assume dd: "data_name dd" "data_name dd'" "dd' \<noteq> dd"
  then have "file_path b (k @ ''/'' @ dd') = file_path b k @ [dd']" by (simp add: file_path_def segs_slash segs_plain data_name_def)
  then have "\<not> prefix (file_path b (k @ ''/'' @ dd')) (file_path b (object_part k dd))" using dd(3) by (simp add: part_paths(2) [OF dd(1)])
  from delete_keeps_file(1) [OF assms(1) this trash] assms(2)
  show "stored_at (snd (delete_path b (k @ ''/'' @ dd') True d)) b (object_part k dd) v" by (simp add: stored_at_def)
qed

lemma local_laws:
  "bk_read_version (local_backend mc grant fault) = read_version mc" "bk_delete (local_backend mc grant fault) = delete_path"
  "bk_create_file_writer (local_backend mc grant fault) = create_file_writer" "bk_write_all (local_backend mc grant fault) = local_write_all"
  "bk_finish (local_backend mc grant fault) = local_finish" "bk_rename_data (local_backend mc grant fault) = rename_data mc"
  "bk_read_file_stream (local_backend mc grant fault) = read_file_stream grant fault" "bk_read (local_backend mc grant fault) = local_read"
  by (simp_all add: local_backend_def)

interpretation local_shards: shard_store "local_backend mc grant fault" "\<lambda>d. codec_ok mc \<and> wf_tree (dk_tree d)"
    "\<lambda>d. dk_faults d = (\<lambda>_. None) \<and> fault = (\<lambda>_. None)" "\<lambda>d. dk_tree d = []" "version_kept mc" meta_fits user_bucket
    "\<lambda>s. \<forall>i. lfs_fault s i = None" stream_rest "\<lambda>_. True" "\<lambda>d. codec_ok mc \<and> healthy d" sink_at
    "\<lambda>d p v. file_at (dk_tree d) (file_path STAGING_VOL p) = Some v" stored_at
  for mc grant fault
proof (unfold_locales, goal_cases)
  case 1 then show ?case by (rule local_store.read_inv)
next
  case 2 then show ?case by (rule local_store.rename_law)
next
  case 3 then show ?case by (rule local_store.staging_law)
next
  case 4 then show ?case by (rule local_store.stale_law)
next
  case 5 with local_store.version_law [OF this, of grant fault] show ?case by blast
next
  case 6 then show ?case by (rule local_store.lost_law)
next
  case 7 with local_src.read_law [OF this] show ?case by (simp add: local_laws)
next
  case 8 with local_src.honest_law show ?case by (auto simp: local_laws)
next
  case (11 d b k vid rd)
  then show ?case using kept_by_read(2,3) [of d mc b k vid rd] by (simp add: local_laws healthy_def)
next
  case 12 with kept_by_read(1) show ?case by (simp add: local_laws)
next
  case (13 d b k vid rd) 
  have "frame (\<lambda>_. False) d (snd (read_version mc b k vid rd d))"
    using keeps_read_version [of "\<lambda>_. False" mc b k vid rd] by (simp add: keeps_def)
  with 13 show ?case by (simp add: local_laws frame_def)
next
  case 14 with read_version_lost show ?case by (simp add: local_laws)
next
  case 15 with writer_opens show ?case by (simp add: local_laws)
next
  case 16 with sink_writes show ?case by (simp add: local_laws)
next
  case 17 with sink_finishes show ?case by (simp add: local_laws sink_at_def)
next
  case (18 d b fi sid v k resp d1)
  then have dd: "data_name (fi_data_dir fi)" using canonical_data_dir by blast
  with promoted_file [of mc sid fi b k d resp d1 PART1_PATH_SUFFIX v] 18 part_paths [OF dd]
  show ?case by (simp add: local_laws stored_at_def object_part_def segs_slash segs_plain data_name_def)
next
  case 19 with kept_by_delete(1) show ?case by (simp add: local_laws)
next
  case 20 with kept_by_delete(2) show ?case by (simp add: local_laws)
next
  case 21 with file_stream_opens(1) show ?case by (fastforce simp: local_laws)
next
  case (22 d b p v off len)
  with file_stream_opens(2) [of d b p v grant fault off len] show ?case by (simp add: local_laws)
next
  case (23 d b p off len)
  then show ?case using require_vol_empty [of d b] by (auto simp: local_laws read_file_stream_def then_do_def user_bucket_def)
qed (simp_all add: healthy_def)

text \<open>The intact parts of an object on local drives: whole stripes of which enough drives serve the shards.\<close>

definition intact_part :: "(disk \<Rightarrow> string \<Rightarrow> string \<Rightarrow> nat \<Rightarrow> nat \<Rightarrow> (local_file_stream, io_error) result) \<Rightarrow> disk list \<Rightarrow> rs_decoder
    \<Rightarrow> nat \<Rightarrow> nat \<Rightarrow> nat \<Rightarrow> string \<Rightarrow> string \<Rightarrow> string \<Rightarrow> (object_part_info \<Rightarrow> byte list list list) \<Rightarrow> object_part_info \<Rightarrow> bool" where
  "intact_part opn drives rs_decode n m unit b k dd shards p \<longleftrightarrow>
     (\<forall>sh \<in> set (shards p). good_stripe rs_decode n m unit sh) \<and>
     length (shards p) = stripes_of (as_u64 (op_actual_size p)) (n * unit) \<and>
     serves opn drives (\<lambda>s. \<forall>i. lfs_fault s i = None) stream_rest (\<lambda>_. True) n b (part_path k dd p) (map (\<lambda>i. shard_file i (shards p)) [0..<n + m])"

interpretation local_object: ec_object local_read "\<lambda>s. \<forall>i. lfs_fault s i = None" stream_rest "\<lambda>_. True"
    "open_file (local_backend mc grant fault)" "(d # ds) @ es" b k dd
    "filter (intact_part (open_file (local_backend mc grant fault)) ((d # ds) @ es) rs_decode (Suc (length ds)) (length es) (Suc u) b k dd shards) parts"
    rs_decode "Suc (length ds)" "length es" "Suc u" shards
  for mc grant fault d ds es b k dd parts rs_decode u shards
  by unfold_locales (simp_all add: intact_part_def)

end
