(* ===== verification/Put_Progress.thy ===== *)
theory Put_Progress
  imports Shard_Store
begin

text \<open>
  Progress of a PUT: on drives without faults, with room at the paths it uses, the steps of a PUT
  succeed. Staging and promotion are shown to succeed separately; together they make an
  erasure-coded PUT succeed.
\<close>

subsection \<open>Promotion\<close>

lemma fan_out_panicking_total:
  assumes "distinct (map fst ops)" "\<And>i. i < length ops \<Longrightarrow> snd (ops ! i) (st (fst (ops ! i))) \<noteq> None"
  shows "\<exists>xs st1. fan_out_panicking ops st = Some (xs, st1)"
  using assms
proof (induction ops arbitrary: st)
  case (Cons op ops)
  obtain a f where op: "op = (a, f)" by fastforce
  obtain x d where x: "f (st a) = Some (x, d)" using Cons.prems(2) [of 0] op by auto
  have "snd (ops ! i) ((st(a := d)) (fst (ops ! i))) \<noteq> None" if "i < length ops" for i
  proof -
    have "fst (ops ! i) \<noteq> a" using Cons.prems(1) op that by (auto simp: image_iff)
    then show ?thesis using Cons.prems(2) [of "Suc i"] that by simp
  qed
  moreover have "distinct (map fst ops)" using Cons.prems(1) by simp
  ultimately obtain xs st1 where "fan_out_panicking ops (st(a := d)) = Some (xs, st1)" using Cons.IH [of "st(a := d)"] by blast
  with op x show ?case by simp
qed simp

lemma length_successes:
  assumes "length fis = length backends" "length results = length backends" "\<forall>r \<in> set results. is_ok r"
  shows "length (successes backends fis results) = length backends"
proof -
  let ?f = "\<lambda>(a, fi, r). case r of Inr resp \<Rightarrow> Some (a, fi, resp) | Inl _ \<Rightarrow> None"
  have "filter (\<lambda>x. ?f x \<noteq> None) (zip backends (zip fis results)) = zip backends (zip fis results)"
    by (rule filter_True) (use assms(3) in \<open>fastforce dest!: set_zip_rightD split: sum.splits\<close>)
  with assms(1,2) show ?thesis by (simp add: successes_def List.map_filter_def)
qed

lemma promote_succeeds:
  assumes "distinct backends" "length fis = length backends" "quorum \<le> length backends"
    and "\<And>i. i < length backends \<Longrightarrow> \<exists>resp d. bk_rename_data (eg_ops eg) v sid (fis ! i) b k (st (backends ! i)) = Some (Ok resp, d)"
  shows "\<exists>st1. promote_versions eg backends v sid fis b k quorum st = Some (Ok (), st1)"
proof -
  let ?ops = "map (\<lambda>(a, fi). (a, bk_rename_data (eg_ops eg) v sid fi b k)) (zip backends fis)"
  have "map fst ?ops = backends" using assms(2) by (simp add: comp_def split_def)
  with assms(1) have d: "distinct (map fst ?ops)" by metis
  have slot: "\<exists>resp d. snd (?ops ! i) (st (fst (?ops ! i))) = Some (Ok resp, d)" if "i < length ?ops" for i
    using assms(4) [of i] that assms(2) by simp
  have "\<exists>results st1. fan_out_panicking ?ops st = Some (results, st1)"
  proof (rule fan_out_panicking_total [OF d])
    fix i assume "i < length ?ops"
    from slot [OF this] show "snd (?ops ! i) (st (fst (?ops ! i))) \<noteq> None" by (metis option.distinct(1))
  qed
  then obtain results st1 where run: "fan_out_panicking ?ops st = Some (results, st1)" by blast
  note fan = fan_out_panicking_results [OF d run]
  have len: "length ?ops = length backends" using assms(2) by simp
  have "is_ok (results ! i)" if i: "i < length backends" for i
  proof -
    obtain resp e where "snd (?ops ! i) (st (fst (?ops ! i))) = Some (Ok resp, e)" using slot i unfolding len by blast
    moreover have "snd (?ops ! i) (st (fst (?ops ! i))) = Some (results ! i, st1 (fst (?ops ! i)))" using fan i unfolding len by blast
    ultimately have "results ! i = Ok resp" by (metis option.inject prod.inject)
    then show ?thesis by simp
  qed
  moreover have "length results = length backends" using fan unfolding len by blast
  ultimately have "length (successes backends fis results) = length backends"
    by (intro length_successes assms(2)) (auto simp: in_set_conv_nth)
  with run assms(2,3) show ?thesis by (simp add: promote_versions_def eng_fan_panicking_def Let_def)
qed

subsection \<open>The stripe loop\<close>

text \<open>Sinks that accept every write make the stripe loop succeed whenever it does for byte vectors.\<close>

lemma write_shards_live:
  assumes "\<And>i bs k. P i k \<Longrightarrow> \<exists>k'. wr bs k = (Ok (), k') \<and> P i k'" "\<And>i. i < length ks \<Longrightarrow> P (c + i) (ks ! i)"
  shows "\<exists>ks'. write_shards wr ks shs = (ks', None) \<and> length ks' = length ks \<and> (\<forall>i < length ks. P (c + i) (ks' ! i))"
  using assms(2)
proof (induction ks arbitrary: shs c)
  case (Cons k ks)
  show ?case
  proof (cases shs)
    case (Cons sh shs1)
    obtain k1 where k1: "wr sh k = (Ok (), k1)" "P c k1" using assms(1) [of c k sh] Cons.prems [of 0] by auto
    obtain ks1 where ks1: "write_shards wr ks shs1 = (ks1, None)" "length ks1 = length ks" "\<forall>i < length ks. P (Suc c + i) (ks1 ! i)"
      using Cons.IH [of "Suc c" shs1] Cons.prems [of "Suc i" for i] by auto
    have "P (c + i) ((k1 # ks1) ! i)" if "i < length (k # ks)" for i using k1(2) ks1(3) that by (cases i) auto
    with k1 ks1 Cons show ?thesis by auto
  qed (use Cons.prems in auto)
qed simp

lemma write_stripes_live:
  assumes live: "\<And>i bs k. P i k \<Longrightarrow> \<exists>k'. wr bs k = (Ok (), k') \<and> P i k'"
    and "\<And>i. i < length ks \<Longrightarrow> P i (ks ! i)"
    and "write_stripes rs_encode md5_hex rd vec_write ec sz stripe_data n consumed hashed carry s vs = (Ok etag, vs', s')"
  shows "\<exists>ks'. write_stripes rs_encode md5_hex rd wr ec sz stripe_data n consumed hashed carry s ks = (Ok etag, ks', s') \<and>
    length ks' = length ks \<and> (\<forall>i < length ks. P i (ks' ! i))"
  using assms(2,3)
proof (induction n arbitrary: consumed hashed carry s ks vs)
  case (Suc n)
  let ?want = "min (sz - consumed) stripe_data"
  obtain f s1 where f: "fill_stripe rd sz consumed ?want [] carry s = (f, s1)" by fastforce
  with Suc.prems(2) obtain buf carry1 where bc: "f = Ok (buf, carry1)" by (cases f) (auto simp: Let_def)
  with Suc.prems(2) f obtain shards where enc: "encode_stripe rs_encode ec (buf @ replicate (stripe_data - ?want) 0) = Ok shards"
    by (cases "encode_stripe rs_encode ec (buf @ replicate (stripe_data - ?want) 0)") (auto simp: Let_def)
  with Suc.prems(2) f bc obtain vs1 where v: "write_shards vec_write vs shards = (vs1, None)"
    by (auto simp: Let_def split: prod.splits option.splits)
  obtain ks1 where w: "write_shards wr ks shards = (ks1, None)" "length ks1 = length ks" "\<And>i. i < length ks1 \<Longrightarrow> P i (ks1 ! i)"
    using write_shards_live [where P = P and wr = wr and c = 0 and ks = ks and shs = shards, OF live] Suc.prems(1) by auto
  from Suc.IH [OF w(3), where vs = vs1] Suc.prems(2) f bc enc v w(1,2) show ?case by (simp add: Let_def)
qed auto

subsection \<open>Staging on a local drive\<close>

lemma require_system_vol:
  assumes "healthy d" "is_system_vol v" "lookup_node (dk_tree d) [v] = Some Dir"
  shows "require_vol v d = (Ok (), d\<lparr>dk_calls := Suc (Suc (dk_calls d))\<rparr>)"
proof -
  have "vol_path v = [v]" using system_plain [OF assms(2)] by (simp add: vol_path_def segs_plain)
  moreover have "stat (dk_tree d) [v] = Ok Dir" using assms(1,3) by (simp add: stat_Ok_iff healthy_def)
  moreover obtain e where "mkdir_at [v] (dk_tree d) = (Err e, dk_tree d)"
    using assms(1,3) by (auto simp: mkdir_at_def split: option.splits)
  ultimately show ?thesis
    using assms(1,2) by (simp add: require_vol_def map_err_do_def fs_create_dir_all_def try_do_def fs_mkdir_def fs_stat_def query_def sys_healthy ret_def)
qed


text \<open>The nodes that staging a part may change: the file, and the directories on the way to it.\<close>

abbreviation staging_dir :: "string \<Rightarrow> string \<Rightarrow> fs_path" where
  "staging_dir sid dd \<equiv> file_path STAGING_VOL sid @ [dd]"

abbreviation staging_nodes :: "string \<Rightarrow> string \<Rightarrow> fs_path \<Rightarrow> bool" where
  "staging_nodes sid dd p \<equiv> prefix p (staging_dir sid dd) \<or> p = staging_dir sid dd @ [PART1_PATH_SUFFIX]"

definition stageable :: "disk \<Rightarrow> string \<Rightarrow> string \<Rightarrow> bool" where
  "stageable d sid dd \<longleftrightarrow> healthy d \<and> lookup_node (dk_tree d) [STAGING_VOL] = Some Dir \<and> clear_path (dk_tree d) (staging_dir sid dd) \<and>
     lookup_node (dk_tree d) (staging_dir sid dd @ [PART1_PATH_SUFFIX]) \<noteq> Some Dir"

text \<open>A sink that still takes writes, on a drive that is otherwise as it was.\<close>

definition live_sink :: "string \<Rightarrow> string \<Rightarrow> nat \<Rightarrow> disk \<Rightarrow> local_file_sink \<times> disk \<Rightarrow> bool" where
  "live_sink sid dd sz d0 kd \<longleftrightarrow> healthy (snd kd) \<and> (\<exists>v. sink_at (staged_part sid dd) (fst kd) (snd kd) v) \<and> lk_expected (fst kd) = sz \<and>
     lookup_node (dk_tree (snd kd)) (staging_dir sid dd) = Some Dir \<and> nodes (staging_nodes sid dd) d0 (snd kd)"

lemma writer_live:
  assumes "stageable d sid dd" "data_name dd"
  shows "\<exists>h d1. create_file_writer STAGING_VOL (staged_part sid dd) sz d = (Ok h, d1) \<and> live_sink sid dd sz d (h, d1)"
proof -
  let ?q = "staging_dir sid dd" and ?p = "staging_dir sid dd @ [PART1_PATH_SUFFIX]"
  note st = assms(1) [unfolded stageable_def]
  have path: "file_path STAGING_VOL (staged_part sid dd) = ?p" using part_paths(1) [OF assms(2)] by simp
  have sys: "is_system_vol STAGING_VOL" by (simp add: is_system_vol_def)
  then have vol: "vol_path STAGING_VOL = [STAGING_VOL]" using system_plain by (simp add: vol_path_def segs_plain)
  let ?d0 = "d\<lparr>dk_calls := Suc (Suc (dk_calls d))\<rparr>"
  have rv: "require_vol STAGING_VOL d = (Ok (), ?d0)" using st require_system_vol [OF _ sys] by blast
  obtain a where a: "fs_create_dir_all ?q ?d0 = (Ok (), a)" "healthy a" "lookup_node (dk_tree a) ?q = Some Dir"
    "\<And>p. \<not> prefix p ?q \<Longrightarrow> lookup_node (dk_tree a) p = lookup_node (dk_tree ?d0) p"
    using create_dir_all_healthy [of ?d0 ?q] st by auto
  let ?d1 = "a\<lparr>dk_tree := set_node ?p (File []) (dk_tree a), dk_calls := Suc (dk_calls a)\<rparr>"
  have "lookup_node (dk_tree a) ?p \<noteq> Some Dir" using a(4) [of ?p] st by simp
  then have "fs_open_trunc ?p a = (Ok (), ?d1)"
    using healthy_parent [OF a(2,3), of PART1_PATH_SUFFIX] by (simp add: fs_open_trunc_def sys_healthy [OF a(2)] open_trunc_at_def)
  then have w: "create_file_writer STAGING_VOL (staged_part sid dd) sz d = (Ok \<lparr>lk_file = Some ?p, lk_pos = 0, lk_expected = sz, lk_written = 0\<rparr>, ?d1)"
    using rv a(1) by (simp add: create_file_writer_def path Let_def then_do_def map_err_do_def ret_def butlast_append)
  have "nodes (staging_nodes sid dd) d ?d1" using a(4) by (auto simp: nodes_def)
  with w writer_opens [OF w] a(3) st show ?thesis by (auto simp: live_sink_def)
qed

lemma write_live:
  assumes "live_sink sid dd sz d0 kd" "data_name dd"
  shows "\<exists>kd1. drive_write (local_backend mc grant fault) bs kd = (Ok (), kd1) \<and> live_sink sid dd sz d0 kd1"
proof (cases "bs = []")
  case True
  then show ?thesis using assms(1) by (auto simp: drive_write_def local_laws local_write_all_def live_sink_def)
next
  case False
  obtain h d where kd: "kd = (h, d)" by fastforce
  let ?p = "staging_dir sid dd @ [PART1_PATH_SUFFIX]"
  obtain v where v: "sink_at (staged_part sid dd) h d v" and d: "healthy d" "lk_expected h = sz" "lookup_node (dk_tree d) (staging_dir sid dd) = Some Dir"
    "nodes (staging_nodes sid dd) d0 d" using assms(1) kd by (auto simp: live_sink_def)
  have path: "file_path STAGING_VOL (staged_part sid dd) = ?p" using part_paths(1) [OF assms(2)] by simp
  obtain d1 where w: "fs_pwrite ?p (lk_pos h) bs d = (Ok (), d1)" using d(1) by (simp add: fs_pwrite_def healthy_def)
  let ?h1 = "h\<lparr>lk_pos := lk_pos h + length bs, lk_written := lk_written h + length bs\<rparr>"
  have wr: "local_write_all bs h d = (Ok (), ?h1, d1)"
    using False v w path by (simp add: local_write_all_def sink_at_def map_err_do_def)
  have n: "lookup_node (dk_tree d1) q = lookup_node (dk_tree d) q" if "q \<noteq> ?p" for q
    by (rule nodesD [OF nodes_pwrite [of "\<lambda>q. q = ?p"] w]) (use that in simp_all)
  then have "nodes (staging_nodes sid dd) d0 d1" using d(4) unfolding nodes_def by metis
  then have "live_sink sid dd sz d0 (?h1, d1)"
    using sink_writes [OF wr d(1) v] d(2,3) n [of "staging_dir sid dd"] by (auto simp: live_sink_def)
  then show ?thesis using wr kd by (auto simp: drive_write_def local_laws)
qed

lemma finish_live:
  assumes "live_sink sid dd sz d0 (h, d)" "sink_at (staged_part sid dd) h d v" "length v = sz"
  shows "\<exists>h1 d1. local_finish h d = (Ok (), h1, d1) \<and> healthy d1 \<and> dk_tree d1 = dk_tree d"
proof -
  have h: "healthy d" "lk_written h = lk_expected h" "lk_file h \<noteq> None" using assms by (auto simp: live_sink_def sink_at_def)
  then obtain h1 d1 where "local_finish h d = (Ok (), h1, d1)"
    by (auto simp: local_finish_def map_err_do_def then_do_def fs_sync_healthy)
  with sink_finishes [OF this h(1)] show ?thesis by blast
qed

lemma quorum_all_ok:
  assumes "\<forall>r \<in> set results. is_ok r" "quorum \<le> length results"
  shows "require_quorum results quorum benign = Ok ()"
proof -
  have "\<forall>r \<in> set rs. is_ok r \<Longrightarrow> quorum_scan benign c bs rs = (c + length rs, bs)" for rs :: "('a, io_error) result list" and c bs
  proof (induction rs arbitrary: c)
    case (Cons r rs)
    then show ?case by (cases r) auto
  qed simp
  from this [OF assms(1)] assms(2) show ?thesis by (simp add: require_quorum_def)
qed

lemma length_shard_file: "\<forall>sh \<in> set ss. good_stripe rs_decode n m unit sh \<Longrightarrow> i < n + m \<Longrightarrow> length (shard_file i ss) = length ss * unit"
  by (induction ss) (auto simp: good_stripe_def)

lemma sinks_open:
  assumes "eg_ops eg = local_backend mc grant fault" "distinct backends" "data_name dd"
    and "\<And>i. i < length backends \<Longrightarrow> stageable (st (backends ! i)) sid dd"
  obtains sinks st1 where "open_staging_sinks eg backends sid dd sz st = (Ok sinks, st1)" "length sinks = length backends"
    "\<And>i. i < length backends \<Longrightarrow> live_sink sid dd sz (st (backends ! i)) (sinks ! i, st1 (backends ! i))"
proof -
  let ?ops = "on_all backends (create_file_writer STAGING_VOL (staged_part sid dd) sz)"
  obtain results st1 where run: "fan_out ?ops st = (results, st1)" by fastforce
  have d: "distinct (map fst ?ops)" using assms(2) by (simp add: on_all_def comp_def)
  note fan = fan_out_results [OF d run]
  have len: "length results = length backends" using fan(1) by (simp add: on_all_def)
  have slot: "\<exists>h. results ! i = Ok h \<and> live_sink sid dd sz (st (backends ! i)) (h, st1 (backends ! i))" if "i < length backends" for i
    using writer_live [OF assms(4) [OF that] assms(3), of sz] fan(2) [of i] that by (auto simp: on_all_def)
  define sinks where "sinks = map (\<lambda>r. case r of Inr h \<Rightarrow> h) results"
  have "results = map Inr sinks"
  proof (rule nth_equalityI)
    show "results ! i = map Inr sinks ! i" if "i < length results" for i using slot [of i] that len by (auto simp: sinks_def)
  qed (simp add: sinks_def)
  then have "open_staging_sinks eg backends sid dd sz st = (Ok sinks, st1)"
    using run assms(1) by (simp add: open_staging_sinks_def staged_part_def local_laws collect_results_eq_Ok)
  moreover have "live_sink sid dd sz (st (backends ! i)) (sinks ! i, st1 (backends ! i))" if "i < length backends" for i
    using slot [OF that] that len by (auto simp: sinks_def)
  ultimately show thesis using that len by (simp add: sinks_def)
qed

lemma sinks_finish:
  assumes "eg_ops eg = local_backend mc grant fault" "distinct backends" "length sinks = length backends" "quorum \<le> length backends"
    and "\<And>i. i < length backends \<Longrightarrow> live_sink sid dd sz (d0 i) (sinks ! i, st (backends ! i)) \<and>
      (\<exists>v. sink_at (staged_part sid dd) (sinks ! i) (st (backends ! i)) v \<and> length v = sz)"
  obtains st1 where "finalize_sinks_quorum eg backends sinks quorum st = (Ok (), st1)"
    "\<And>i. i < length backends \<Longrightarrow> healthy (st1 (backends ! i)) \<and> dk_tree (st1 (backends ! i)) = dk_tree (st (backends ! i))"
proof -
  let ?ops = "map (\<lambda>(a, h). (a, \<lambda>d. case local_finish h d of (r, _, d1) \<Rightarrow> (r, d1))) (zip backends sinks)"
  obtain results st1 where run: "fan_out ?ops st = (results, st1)" by fastforce
  have "map fst ?ops = backends" using assms(3) by (simp add: comp_def split_def)
  then have d: "distinct (map fst ?ops)" using assms(2) by metis
  note fan = fan_out_results [OF d run]
  have slot: "results ! i = Ok () \<and> healthy (st1 (backends ! i)) \<and> dk_tree (st1 (backends ! i)) = dk_tree (st (backends ! i))"
    if i: "i < length backends" for i
  proof -
    obtain v where "sink_at (staged_part sid dd) (sinks ! i) (st (backends ! i)) v" "length v = sz" using assms(5) [OF i] by blast
    from finish_live [OF _ this] assms(5) [OF i] obtain h1 d1 where
      f: "local_finish (sinks ! i) (st (backends ! i)) = (Ok (), h1, d1)" "healthy d1" "dk_tree d1 = dk_tree (st (backends ! i))" by blast
    with fan(2) [of i] i assms(3) show ?thesis by simp
  qed
  have "\<forall>r \<in> set results. is_ok r" "quorum \<le> length results" using slot fan(1) assms(3,4) by (auto simp: in_set_conv_nth)
  from quorum_all_ok [OF this] have "finalize_sinks_quorum eg backends sinks quorum st = (Ok (), st1)"
    using run assms(1) by (simp add: finalize_sinks_quorum_def local_laws)
  from that [OF this] slot show thesis by blast
qed

lemma stage_succeeds:
  assumes ops: "eg_ops eg = local_backend mc grant fault" "codec_ok mc" and set: "distinct backends" "length backends = n + m" "quorum \<le> length backends"
    and code: "rs_contract n m (eg_rs_encode eg) rs_decode" "0 < n" "0 < unit" "even unit"
    and src: "byte_stream rd ok content" "ok src" "sz \<le> length (content src)" and stripes: "stripes = stripes_of sz (n * unit)"
    and room: "data_name dd" "\<And>i. i < length backends \<Longrightarrow> stageable (st (backends ! i)) sid dd"
  obtains st1 where "stage_shards eg \<lparr>er_data_shards = n, er_parity_shards = m\<rparr> (open_staging_sinks eg backends sid dd (stripes * unit)) rd src sz
      (n * unit) stripes b backends quorum st = Some (Ok (eg_md5_hex eg (take sz (content src))), st1)"
    "\<And>i. i < length backends \<Longrightarrow> healthy (st1 (backends ! i)) \<and> lookup_node (dk_tree (st1 (backends ! i))) (staging_dir sid dd) = Some Dir \<and>
      nodes (staging_nodes sid dd) (st (backends ! i)) (st1 (backends ! i))"
proof -
  let ?e = "\<lparr>er_data_shards = n, er_parity_shards = m\<rparr>" and ?p = "staged_part sid dd" and ?etag = "eg_md5_hex eg (take sz (content src))"
  let ?P = "\<lambda>i. live_sink sid dd (stripes * unit) (st (backends ! i))"
  obtain sinks st0 where o: "open_staging_sinks eg backends sid dd (stripes * unit) st = (Ok sinks, st0)" "length sinks = length backends"
    "\<And>i. i < length backends \<Longrightarrow> ?P i (sinks ! i, st0 (backends ! i))"
    by (rule sinks_open [where st = st and sid = sid and sz = "stripes * unit", OF ops(1) set(1) room]) (assumption, rule that)
  have k: "sz \<le> stripes * (n * unit)" using code(2,3) stripes length_body_bound [of "n * unit" sz] by simp
  let ?kds = "zip sinks (map st0 backends)"
  obtain ss s' where v: "write_stripes (eg_rs_encode eg) (eg_md5_hex eg) rd vec_write ?e sz (n * unit) stripes 0 [] [] src (replicate (n + m) []) =
      (Ok ?etag, map2 (\<lambda>sink i. sink @ shard_file i ss) (replicate (n + m) []) [0..<n + m], s')"
    and ss: "length ss = stripes" "\<forall>sh \<in> set ss. good_stripe rs_decode n m unit sh"
    using write_stripes_content [OF code src(1,2), of "replicate (n + m) []" sz 0 "[]" "eg_md5_hex eg" stripes "[]"] src(3) k by (auto simp: min_absorb1)
  have "?P i (?kds ! i)" if "i < length ?kds" for i using o(2,3) that by simp
  from write_stripes_live [where P = ?P and wr = "drive_write (local_backend mc grant fault)", OF write_live [OF _ room(1)] this v]
  obtain kds where w: "write_stripes (eg_rs_encode eg) (eg_md5_hex eg) rd (drive_write (eg_ops eg)) ?e sz (n * unit) stripes 0 [] [] src ?kds = (Ok ?etag, kds, s')"
    "length kds = length ?kds" "\<And>i. i < length ?kds \<Longrightarrow> ?P i (kds ! i)" unfolding ops(1) by blast
  let ?holds = "\<lambda>kd v. (codec_ok mc \<and> healthy (snd kd)) \<and> sink_at ?p (fst kd) (snd kd) v"
  have "\<forall>a \<in> set backends. codec_ok mc \<and> healthy (st a)" using room(2) ops(2) by (auto simp: stageable_def in_set_conv_nth)
  from local_shards.open_sinks(2) [OF ops(1) set(1) this o(1)]
  have "list_all2 ?holds ?kds (replicate (n + m) [])" using o(2) set(2) by (simp add: list_all2_conv_all_nth)
  from local_shards.drive_sink.write_stripes_holds [OF this w(1) [unfolded ops(1)]] v
  have files: "list_all2 ?holds kds (map2 (\<lambda>sink i. sink @ shard_file i ss) (replicate (n + m) []) [0..<n + m])" by simp
  let ?st = "put_back backends kds st0"
  have len: "length kds = length backends" using w(2) o(2) by simp
  have at: "kds ! i = (map fst kds ! i, ?st (backends ! i))" if "i < length backends" for i
    using put_back_nth [OF set(1) len that, of st0] that len by (simp add: prod_eq_iff)
  have done_at: "?P i (map fst kds ! i, ?st (backends ! i)) \<and> (\<exists>v. sink_at ?p (map fst kds ! i) (?st (backends ! i)) v \<and> length v = stripes * unit)"
    if i: "i < length backends" for i
  proof -
    have "sink_at ?p (fst (kds ! i)) (snd (kds ! i)) (shard_file i ss)"
      using list_all2_nthD [OF files, of i] i set(2) len by simp
    then have "sink_at ?p (map fst kds ! i) (?st (backends ! i)) (shard_file i ss)" using at [OF i] by (metis fst_conv snd_conv)
    moreover have "length (shard_file i ss) = stripes * unit" using length_shard_file [OF ss(2), of i] ss(1) i set(2) by simp
    moreover have "?P i (kds ! i)" using w(3) [of i] i o(2) by simp
    ultimately show ?thesis using at [OF i] by metis
  qed
  have flen: "length (map fst kds) = length backends" using len by simp
  from sinks_finish [where st = ?st and sid = sid and dd = dd and ?d0.0 = "\<lambda>i. st (backends ! i)", OF ops(1) set(1) flen set(3) done_at] obtain st1 where
    fin: "finalize_sinks_quorum eg backends (map fst kds) quorum ?st = (Ok (), st1)"
    "\<And>i. i < length backends \<Longrightarrow> healthy (st1 (backends ! i)) \<and> dk_tree (st1 (backends ! i)) = dk_tree (?st (backends ! i))" by metis
  have "stage_shards eg ?e (open_staging_sinks eg backends sid dd (stripes * unit)) rd src sz (n * unit) stripes b backends quorum st = Some (Ok ?etag, st1)"
    using o(1) w(1) fin(1) by (simp add: stage_shards_def eng_bind_def eng_io_def write_to_sinks_def encode_and_write_stripes_def eng_of_def)
  moreover have "healthy (st1 (backends ! i)) \<and> lookup_node (dk_tree (st1 (backends ! i))) (staging_dir sid dd) = Some Dir \<and>
      nodes (staging_nodes sid dd) (st (backends ! i)) (st1 (backends ! i))" if "i < length backends" for i
    using fin(2) [OF that] done_at [OF that] by (simp add: live_sink_def nodes_def)
  ultimately show thesis by (rule that)
qed

subsection \<open>An erasure-coded PUT\<close>

text \<open>Room for a version on a drive: its paths are free and its metadata can be encoded, as the last argument.\<close>

definition ec_room :: "meta_codec \<Rightarrow> string \<Rightarrow> string \<Rightarrow> string \<Rightarrow> file_info \<Rightarrow> disk \<Rightarrow> encoded_xl_meta \<Rightarrow> bool" where
  "ec_room mc sid b k fi d enc \<longleftrightarrow> stageable d sid (fi_data_dir fi) \<and> lookup_node (dk_tree d) [b] = Some Dir \<and>
     promotable (dk_tree d) (file_path STAGING_VOL sid) (file_path b k) (fi_data_dir fi) \<and>
     (\<exists>existing. versions_at mc (dk_tree d) (meta_path b k) = Some existing \<and>
        encode_versions (mc_to_vec mc) (mc_xxh64 mc) (merge_versions b k fi existing) = Some (Ok enc))"

lemma staged_promotes:
  assumes room: "ec_room mc sid b k fi d enc" and b: "user_bucket b" and dd: "data_name (fi_data_dir fi)"
    and d1: "healthy d1" "lookup_node (dk_tree d1) (staging_dir sid (fi_data_dir fi)) = Some Dir" "nodes (staging_nodes sid (fi_data_dir fi)) d d1"
  obtains resp d2 where "rename_data mc STAGING_VOL sid fi b k d1 = Some (Ok resp, d2)" "file_at (dk_tree d2) (meta_path b k) = Some (encoded_to_vec enc)"
proof -
  let ?dd = "fi_data_dir fi" and ?S = "file_path STAGING_VOL sid" and ?D = "file_path b k"
  note r = room [unfolded ec_room_def promotable_def]
  have sys: "is_system_vol STAGING_VOL" by (simp add: is_system_vol_def)
  have bn: "plain_name b" "\<not> is_system_vol b" "b \<noteq> STAGING_VOL" using b sys by (auto simp: user_bucket_def)
  have S: "?S = STAGING_VOL # segs sid" "?D = b # segs k" using bn system_plain [OF sys] by (simp_all add: file_path_def vol_path_def segs_plain)
  have same: "lookup_node (dk_tree d1) p = lookup_node (dk_tree d) p" if "\<not> staging_nodes sid ?dd p" for p
    using d1(3) that by (simp add: nodes_def)
  then have below: "lookup_node (dk_tree d1) (b # p) = lookup_node (dk_tree d) (b # p)" for p using bn(3) S by simp
  have "clear_path (dk_tree d1) ?D"
  proof (rule clear_path_cong [of "dk_tree d"])
    show "lookup_node (dk_tree d1) p = lookup_node (dk_tree d) p" if "prefix p ?D" "p \<noteq> []" for p
      using that below [of "tl p"] S(2) by (cases p) auto
  qed (use r in blast)
  moreover have "clear_path (dk_tree d1) ?S"
    using wf_prefix_Dir [of "dk_tree d1" ?S "[?dd]"] d1(1,2) dir_clear by (simp add: healthy_def)
  moreover have "lookup_node (dk_tree d1) (?S @ [META_FILENAME]) \<noteq> Some Dir"
    using same [of "?S @ [META_FILENAME]"] r dd by (auto simp: data_name_def)
  ultimately have p1: "promotable (dk_tree d1) ?S ?D ?dd"
    using r dd below unfolding promotable_def S(2) by simp
  obtain existing where ex: "versions_at mc (dk_tree d) (meta_path b k) = Some existing"
    "encode_versions (mc_to_vec mc) (mc_xxh64 mc) (merge_versions b k fi existing) = Some (Ok enc)" using r by blast
  have "versions_at mc (dk_tree d1) (meta_path b k) = Some existing"
    using ex(1) below by (simp add: versions_at_def file_at_def meta_path_def S(2))
  moreover have "lookup_node (dk_tree d1) [b] = Some Dir" using below [of "[]"] r by simp
  ultimately show thesis
    using that by (elim rename_data_healthy [OF d1(1) sys bn(1,2) _ p1 _ ex(2), rotated]) (auto simp: promoted_tree_def file_at_Some meta_path_def)
qed

text \<open>The promotion of staged versions, and the metadata it leaves on the drives.\<close>

lemma promote_writes:
  assumes ops: "eg_ops eg = local_backend mc grant fault" "codec_ok mc" and set: "distinct backends" "length fis = length backends" "quorum = length backends"
    and b: "user_bucket b" "\<forall>fi \<in> set fis. canonical_ids fi" "\<And>i. i < length backends \<Longrightarrow> wf_tree (dk_tree (st (backends ! i)))"
    and step: "\<And>i. i < length backends \<Longrightarrow> \<exists>resp d. rename_data mc STAGING_VOL sid (fis ! i) b k (st (backends ! i)) = Some (Ok resp, d) \<and>
      file_at (dk_tree d) (meta_path b k) = Some (raw i)"
  obtains st1 where "promote_versions eg backends STAGING_VOL sid fis b k quorum st = Some (Ok (), st1)"
    "\<And>i. i < length backends \<Longrightarrow> file_at (dk_tree (st1 (backends ! i))) (meta_path b k) = Some (raw i)"
proof -
  have "\<exists>st1. promote_versions eg backends STAGING_VOL sid fis b k quorum st = Some (Ok (), st1)"
    by (rule promote_succeeds) (simp_all add: set ops(1) local_laws, use step in blast)
  then obtain st1 where p: "promote_versions eg backends STAGING_VOL sid fis b k quorum st = Some (Ok (), st1)" by blast
  note out = user_bucket_apart [OF b(1)]
  have q: "length backends \<le> quorum" using set(3) by simp
  have "wf_tree (dk_tree (st1 (backends ! i))) \<and> file_at (dk_tree (st1 (backends ! i))) (meta_path b k) = Some (raw i)" if i: "i < length backends" for i
  proof (rule promote_each(2) [where Q = "\<lambda>i d. wf_tree (dk_tree d) \<and> file_at (dk_tree d) (meta_path b k) = Some (raw i)", OF ops(1) set(1) q p _ _ _ i])
    show "(wf_tree (dk_tree d) \<and> file_at (dk_tree d) (meta_path b k) = Some (raw i)) \<and> (rd_old_data_dir resp = [] \<or> data_name (rd_old_data_dir resp))"
      if "i < length backends" "bk_rename_data (local_backend mc grant fault) STAGING_VOL sid (fis ! i) b k (st (backends ! i)) = Some (Ok resp, d)" for i resp d
    proof -
      have r: "rename_data mc STAGING_VOL sid (fis ! i) b k (st (backends ! i)) = Some (Ok resp, d)" using that(2) by (simp add: local_laws)
      have "canonical_ids (fis ! i)" using b(2) set(2) that(1) by simp
      from rename_data_keeps(1) [OF ops(2) b(3) [OF that(1)] b(1) this r] rename_data_resp [OF ops(2) b(3) [OF that(1)] r] step [OF that(1)] r
      show ?thesis by auto
    qed
  next
    fix i and d :: disk and dd assume "wf_tree (dk_tree d) \<and> file_at (dk_tree d) (meta_path b k) = Some (raw i)" "data_name dd"
    then show "wf_tree (dk_tree (snd (bk_delete (local_backend mc grant fault) b (k @ ''/'' @ dd) True d))) \<and>
        file_at (dk_tree (snd (bk_delete (local_backend mc grant fault) b (k @ ''/'' @ dd) True d))) (meta_path b k) = Some (raw i)"
      using delete_keeps_file [of d b "k @ ''/'' @ dd" "meta_path b k" True] out by (simp add: local_laws)
  next
    fix i and d :: disk assume "wf_tree (dk_tree d) \<and> file_at (dk_tree d) (meta_path b k) = Some (raw i)"
    then show "wf_tree (dk_tree (snd (bk_delete (local_backend mc grant fault) STAGING_VOL sid True d))) \<and>
        file_at (dk_tree (snd (bk_delete (local_backend mc grant fault) STAGING_VOL sid True d))) (meta_path b k) = Some (raw i)"
      using delete_keeps_file [of d STAGING_VOL sid "meta_path b k" True] out by (simp add: local_laws)
  qed
  then show thesis using that p by blast
qed

lemma stripes_fit:
  assumes "sz < 2 ^ 63" "0 < n" "n \<le> 255"
  shows "stripes_of sz (n * DEFAULT_EC_PER_SHARD_BYTES) * DEFAULT_EC_PER_SHARD_BYTES mod 2 ^ 64 =
    stripes_of sz (n * DEFAULT_EC_PER_SHARD_BYTES) * DEFAULT_EC_PER_SHARD_BYTES"
proof -
  let ?u = DEFAULT_EC_PER_SHARD_BYTES and ?d = "n * DEFAULT_EC_PER_SHARD_BYTES"
  have u: "0 < ?u" "255 * ?u < 2 ^ 32" by (simp_all add: DEFAULT_EC_PER_SHARD_BYTES_def)
  have d: "?u \<le> ?d" "?d \<le> 255 * ?u" using assms(2,3) by simp_all
  have "(sz + ?d - 1) div ?d * ?u \<le> (sz + ?d - 1) div ?d * ?d" using d(1) by (rule mult_le_mono2)
  also have "\<dots> \<le> sz + ?d - 1" by (rule div_times_less_eq_dividend)
  finally have "(sz + ?d - 1) div ?d * ?u \<le> sz + ?d - 1" .
  then have bound: "(sz + ?d - 1) div ?d * ?u \<le> sz + ?d" "?u \<le> sz + ?d" using d(1) by linarith+
  have "x * u \<le> s \<Longrightarrow> u \<le> s \<Longrightarrow> max 1 x * u \<le> s" for x u s :: nat by (simp add: max_def)
  from this [OF bound] have "max 1 ((sz + ?d - 1) div ?d) * ?u \<le> sz + ?d" .
  then have "stripes_of sz ?d * ?u \<le> sz + ?d" by (simp only: stripes_of_def)
  also have "\<dots> < 2 ^ 63 + 2 ^ 32" using assms(1) d(2) u(2) by linarith
  finally show ?thesis by simp
qed

lemma ec_put_progress:
  assumes ops: "eg_ops eg = local_backend mc grant fault" "codec_ok mc" and eg: "engine_ok eg" "0 < parity_of eg"
    and nm: "n = set_size eg - parity_of eg" "m = parity_of eg" and code: "rs_contract n m (eg_rs_encode eg) rs_decode"
    and b: "user_bucket b" "length c = 16" "data_dir = format_data_dir_bytes c" "data_dir \<noteq> []" "length c' = 16" "v = format_version_id_bytes c'"
    and src: "byte_stream rd ok content" "ok src" "sz \<le> length (content src)" "eg_inline_threshold eg < sz" "sz < 2 ^ 63"
    and version: "resolve_put_version_id eg fresh b st = Some (Ok v, st0)" and backends: "set_backends eg b k = Some (Ok backends)"
    and shard: "shard_size sz n = Some shard" and etag: "etag = eg_md5_hex eg (take sz (content src))"
    and room: "\<And>i. i < set_size eg \<Longrightarrow> ec_room mc sid b k
      (with_per_disk_index (ec_fi b k sz shard etag now content_type v data_dir) (set_erasure eg (set_size eg)) (set_size eg) ! i) (st0 (backends ! i)) (enc i)"
  obtains st1 where "put_object eg (Ok ()) (Ok ()) now fresh data_dir sid b k sz rd src content_type st = Some (Ok
      \<lparr>oi_bucket = b, oi_key = k, oi_size = sz, oi_etag = etag, oi_storage_class = Single, oi_modified_ms = now, oi_content_type = content_type,
       oi_version_id = v, oi_is_delete_marker = False\<rparr>, st1)"
    "\<And>i. i < set_size eg \<Longrightarrow> file_at (dk_tree (st1 (backends ! i))) (meta_path b k) = Some (encoded_to_vec (enc i))"
proof -
  let ?u = DEFAULT_EC_PER_SHARD_BYTES and ?N = "set_size eg"
  let ?fis = "with_per_disk_index (ec_fi b k sz shard etag now content_type v data_dir) (set_erasure eg ?N) ?N"
  have N: "?N \<le> 255" "2 * m \<le> ?N" "0 < m" using eg nm(2) by (auto simp: engine_ok_def)
  have n: "0 < n" "n \<le> 255" "?N = n + m" using N nm by auto
  obtain backends' where "set_backends eg b k = Some (Ok backends')" "distinct backends'" "length backends' = ?N" by (rule set_backends_ok [OF eg(1)])
  with backends have set: "distinct backends" "length backends = ?N" by auto
  have dd: "data_name data_dir" using data_dir_name [OF b(2)] b(3,4) by metis
  have fi: "fi_data_dir (?fis ! i) = data_dir" if "i < ?N" for i using that by (simp add: with_per_disk_index_def ec_fi_def)
  have can: "\<forall>fi \<in> set ?fis. canonical_ids fi" using b by (auto simp: with_per_disk_index_def canonical_ids_def ec_fi_def)
  have unit: "0 < ?u" "even ?u" by (simp_all add: DEFAULT_EC_PER_SHARD_BYTES_def)
  have room': "stageable (st0 (backends ! i)) sid data_dir" if "i < length backends" for i
    using room [of i] fi [of i] that set(2) by (simp add: ec_room_def)
  let ?stripes = "stripes_of sz (n * ?u)"
  have len: "length backends = n + m" "?N \<le> length backends" using set(2) n(3) by simp_all
  obtain st2 where stage: "stage_shards eg \<lparr>er_data_shards = n, er_parity_shards = m\<rparr> (open_staging_sinks eg backends sid data_dir (?stripes * ?u)) rd src sz
      (n * ?u) ?stripes b backends ?N st0 = Some (Ok (eg_md5_hex eg (take sz (content src))), st2)"
    and staged: "\<And>i. i < length backends \<Longrightarrow> healthy (st2 (backends ! i)) \<and> lookup_node (dk_tree (st2 (backends ! i))) (staging_dir sid data_dir) = Some Dir \<and>
      nodes (staging_nodes sid data_dir) (st0 (backends ! i)) (st2 (backends ! i))"
    by (rule stage_succeeds [where st = st0 and sid = sid and b = b, OF ops set(1) len code n(1) unit src(1,2,3) refl dd room']) (assumption, rule that)
  have step: "\<exists>resp d. rename_data mc STAGING_VOL sid (?fis ! i) b k (st2 (backends ! i)) = Some (Ok resp, d) \<and>
      file_at (dk_tree d) (meta_path b k) = Some (encoded_to_vec (enc i))" if i: "i < length backends" for i
  proof -
    have j: "i < ?N" using i set(2) by simp
    show ?thesis
      by (rule staged_promotes [OF room [OF j] b(1), unfolded fi [OF j], OF dd]) (use staged [OF i] in auto)
  qed
  have fl: "length ?fis = length backends" "?N = length backends" using set(2) by (simp_all add: with_per_disk_index_def)
  have wf: "wf_tree (dk_tree (st2 (backends ! i)))" if "i < length backends" for i using staged [OF that] by (simp add: healthy_def)
  obtain st1 where promote: "promote_versions eg backends STAGING_VOL sid ?fis b k ?N st2 = Some (Ok (), st1)"
    and meta: "\<And>i. i < length backends \<Longrightarrow> file_at (dk_tree (st1 (backends ! i))) (meta_path b k) = Some (encoded_to_vec (enc i))"
    by (rule promote_writes [where st = st2 and sid = sid and raw = "\<lambda>i. encoded_to_vec (enc i)", OF ops set(1) fl b(1) can wf step]) (assumption, assumption, rule that)
  have sub: "usize_sub ?N (parity_of eg) = n" using nm N by (simp add: usize_sub_def)
  let ?info = "\<lparr>oi_bucket = b, oi_key = k, oi_size = sz, oi_etag = etag, oi_storage_class = Single, oi_modified_ms = now, oi_content_type = content_type,
       oi_version_id = v, oi_is_delete_marker = False\<rparr>"
  have new: "erasure_new n (parity_of eg) = Ok \<lparr>er_data_shards = n, er_parity_shards = m\<rparr>" using n(1) N(3) nm(2) by (simp add: erasure_new_def)
  have promote': "promote_versions eg backends STAGING_VOL sid (with_per_disk_index
      ((build_file_info b k (as_i64 sz) etag now content_type None (single_part_info etag (as_i64 shard) (as_i64 sz) now))\<lparr>fi_version_id := v, fi_data_dir := data_dir\<rparr>)
      (default_erasure_info (n mod 2 ^ 8) (parity_of eg mod 2 ^ 8) (?N mod 2 ^ 8)) ?N) b k ?N st2 = Some (Ok (), st1)"
    using promote unfolding ec_fi_def set_erasure_def sub .
  have "put_ec eg (Ok ()) data_dir sid b k sz rd src content_type now v backends ?N st0 = Some (Ok ?info, st1)"
    unfolding put_ec_def Let_def set(2) sub new stripes_fit [OF src(5) n(1,2)] shard
    using stage [folded etag] promote' by (simp add: eng_bind_def eng_of_def eng_try_def)
  then have "put_object eg (Ok ()) (Ok ()) now fresh data_dir sid b k sz rd src content_type st = Some (Ok ?info, st1)"
    using version backends src(4) by (simp add: put_object_def eng_bind_def eng_of_def with_set_def Let_def write_quorum_def)
  from that [OF this] meta set(2) show thesis by simp
qed

end
