(* ===== verification/Deployment.thy ===== *)
theory Deployment
  imports Put_Progress
begin

text \<open>
  A small concrete deployment that the round trips are applied to: one node with two drives, one data
  and one parity shard, on which a versioned bucket exists. The metadata codec and the erasure coder,
  which are libraries of the program, are a table and a mirror.
\<close>

subsection \<open>The deployment\<close>

definition rt_addr :: "nat \<Rightarrow> disk_addr" where
  "rt_addr i = \<lparr>da_node_id = 0, da_disk_idx = i\<rparr>"

definition rt_cluster :: cluster_config where
  "rt_cluster = \<lparr>cc_nodes = [\<lparr>na_id = 0, na_rpc_addr = ''n0'', na_disk_count = 2\<rparr>], cc_set_drive_count = 2,
     cc_default_parity_count = 1, cc_deployment_id = 0\<rparr>"

definition rt_crc :: "byte list \<Rightarrow> 32 word" where
  "rt_crc bs = word_of_nat (length bs)"

definition rt_id :: string where
  "rt_id = format_version_id_bytes (replicate 16 1)"

definition rt_dir :: string where
  "rt_dir = format_data_dir_bytes (replicate 16 2)"

text \<open>The bucket record on the drives, a small version and a version above the inline threshold.\<close>

definition rt_slot :: "file_info \<Rightarrow> nat \<Rightarrow> file_info" where
  "rt_slot fi i = fi\<lparr>fi_erasure := (default_erasure_info 1 1 2)\<lparr>ei_index := Suc i\<rparr>\<rparr>"

definition rt_bucket_fi :: "nat \<Rightarrow> file_info" where
  "rt_bucket_fi = rt_slot (inline_fi SYSTEM_BUCKET (bkt_meta_key ''b'') 17 ''e'' 5 None NULL_VERSION_ID [bucket_frame rt_crc [1]])"

definition rt_object_fi :: "nat \<Rightarrow> file_info" where
  "rt_object_fi = rt_slot (inline_fi ''b'' ''k'' 2 ''e'' 7 None rt_id [[4, 5]])"

definition rt_large_fi :: "nat \<Rightarrow> file_info" where
  "rt_large_fi = rt_slot (ec_fi ''b'' ''k'' 3 4 ''e'' 7 None rt_id rt_dir)"

definition rt_bodies :: "(byte list \<times> on_disk_meta) list" where
  "rt_bodies = [([8, 0], records_of [(rt_bucket_fi 0, 0, 17)]), ([8, 1], records_of [(rt_bucket_fi 1, 0, 17)]),
     ([9, 0], records_of [(rt_object_fi 0, 0, 2)]), ([9, 1], records_of [(rt_object_fi 1, 0, 2)]),
     ([10, 0], records_of [(rt_large_fi 0, 0, 0)]), ([10, 1], records_of [(rt_large_fi 1, 0, 0)])]"

definition rt_codec :: meta_codec where
  "rt_codec = \<lparr>mc_to_vec = (\<lambda>od. case find (\<lambda>e. snd e = od) rt_bodies of Some e \<Rightarrow> Ok (fst e) | None \<Rightarrow> Err ''unsupported''),
     mc_from_slice = (\<lambda>bs. case map_of rt_bodies bs of Some od \<Rightarrow> Ok od | None \<Rightarrow> Err ''bad body''),
     mc_xxh64 = (\<lambda>bs. word_of_nat (length bs))\<rparr>"

definition rt_drive :: "nat \<Rightarrow> disk" where
  "rt_drive i = \<lparr>dk_tree = [([''b''], Dir), ([STAGING_VOL], Dir), ([TRASH_DIRNAME], Dir), ([SYSTEM_BUCKET], Dir),
       ([SYSTEM_BUCKET, ''buckets''], Dir), ([SYSTEM_BUCKET, ''buckets'', ''b''], Dir), ([SYSTEM_BUCKET, ''buckets'', ''b'', ''.metadata.bin''], Dir),
       ([SYSTEM_BUCKET, ''buckets'', ''b'', ''.metadata.bin'', META_FILENAME],
          File (xl_head (mc_xxh64 rt_codec) [8, word_of_nat i] @ bucket_frame rt_crc [1]))],
     dk_calls = 0, dk_faults = (\<lambda>_. None), dk_names = show_nat\<rparr>"

definition rt_store :: "disk store" where
  "rt_store a = rt_drive (da_disk_idx a)"

definition rt_rs_encode :: rs_encoder where
  "rt_rs_encode n m unit shards = Ok (replicate m (hd shards))"

definition rt_rs_decode :: rs_decoder where
  "rt_rs_decode n m unit os rs = Ok (\<lambda>_. if rs = [] then None else Some (snd (hd rs)))"

definition rt_engine :: "(disk, local_file_sink, local_file_stream, byte list) engine" where
  "rt_engine = \<lparr>eg_cluster = rt_cluster, eg_disks = [rt_addr 0, rt_addr 1], eg_ops = local_backend rt_codec (\<lambda>n. n) (\<lambda>_. None), eg_inline_threshold = 2,
     eg_sip = (\<lambda>_. 0), eg_md5_hex = (\<lambda>_. ''e''), eg_blake_hex = (\<lambda>_. ''e''), eg_blake = (\<lambda>bs. bs), eg_orders = plain_orders,
     eg_sig_order = (\<lambda>ks. ks), eg_rs_encode = rt_rs_encode, eg_rs_decode = rt_rs_decode, eg_print = (\<lambda>_. ''error''),
     eg_bucket_to_vec = tiny_to_vec, eg_bucket_from_slice = tiny_from_slice, eg_crc32c = rt_crc,
     eg_part_to_vec = (\<lambda>_. Err ''unused''), eg_part_from_slice = (\<lambda>_. Err ''unused''), eg_hex_decode = (\<lambda>_. Err ''unused'')\<rparr>"

lemma rt_engine_fields [simp]:
  "eg_ops rt_engine = local_backend rt_codec (\<lambda>n. n) (\<lambda>_. None)" "eg_orders rt_engine = plain_orders" "eg_inline_threshold rt_engine = 2"
  "eg_bucket_from_slice rt_engine = tiny_from_slice" "eg_crc32c rt_engine = rt_crc" "eg_cluster rt_engine = rt_cluster"
  "eg_md5_hex rt_engine bs = ''e''" "eg_rs_encode rt_engine = rt_rs_encode" "eg_rs_decode rt_engine = rt_rs_decode"
  by (simp_all add: rt_engine_def)

lemma rt_contract: "rs_contract 1 1 rt_rs_encode rt_rs_decode"
proof -
  have "\<exists>f. rt_rs_decode 1 1 unit (present 0 os) (present 0 rs) = Ok f \<and> (\<forall>i < 1. os ! i = None \<longrightarrow> f i = Some (shards ! i))"
    if "length os = 1" "length rs = 1" "length shards = 1" "\<forall>i < 1. rs ! i = None \<or> rs ! i = Some (replicate 1 (hd shards) ! i)"
      "1 \<le> length (present 0 os) + length (present 0 rs)" for unit os rs and shards :: "byte list list"
    using that by (cases os; cases rs; cases shards; cases "hd os"; cases "hd rs") (auto simp: rt_rs_decode_def)
  moreover have "length (hd shards) = unit" if "length shards = 1" "\<forall>s \<in> set shards. length s = unit" for unit and shards :: "byte list list"
    using that by (cases shards) auto
  ultimately show ?thesis unfolding rs_contract_def by (auto simp: rt_rs_encode_def)
qed

subsection \<open>The records\<close>

lemma rt_slot_fields [simp]:
  "fi_version_id (rt_slot fi i) = fi_version_id fi" "fi_data_dir (rt_slot fi i) = fi_data_dir fi" "fi_deleted (rt_slot fi i) = fi_deleted fi"
  "fi_mod_time_ms (rt_slot fi i) = fi_mod_time_ms fi" "fi_size (rt_slot fi i) = fi_size fi" "fi_data (rt_slot fi i) = fi_data fi"
  "fi_parts (rt_slot fi i) = fi_parts fi" "fi_metadata (rt_slot fi i) = fi_metadata fi" "fi_meta_sys (rt_slot fi i) = fi_meta_sys fi"
  "fi_erasure (rt_slot fi i) = (default_erasure_info 1 1 2)\<lparr>ei_index := Suc i\<rparr>" "canonical_ids (rt_slot fi i) = canonical_ids fi"
  "inline_bytes (rt_slot fi i) = inline_bytes fi" "inline_frames (rt_slot fi i) = inline_frames fi"
  by (simp_all add: rt_slot_def canonical_ids_def inline_bytes_def inline_frames_def)

lemma rt_fields [simp]:
  "fi_version_id (rt_bucket_fi i) = ''null''" "fi_data_dir (rt_bucket_fi i) = []" "fi_deleted (rt_bucket_fi i) = False"
  "fi_mod_time_ms (rt_bucket_fi i) = 5" "fi_size (rt_bucket_fi i) = 17" "fi_data (rt_bucket_fi i) = Some [bucket_frame rt_crc [1]]"
  "fi_version_id (rt_object_fi i) = rt_id" "fi_data_dir (rt_object_fi i) = []" "fi_deleted (rt_object_fi i) = False"
  "fi_mod_time_ms (rt_object_fi i) = 7" "fi_size (rt_object_fi i) = 2" "fi_data (rt_object_fi i) = Some [[4, 5]]"
  "fi_version_id (rt_large_fi i) = rt_id" "fi_data_dir (rt_large_fi i) = rt_dir" "fi_deleted (rt_large_fi i) = False"
  "fi_mod_time_ms (rt_large_fi i) = 7" "fi_size (rt_large_fi i) = 3" "fi_data (rt_large_fi i) = None"
  by (simp_all add: rt_bucket_fi_def rt_object_fi_def rt_large_fi_def inline_fi_def ec_fi_def build_file_info_def file_info_default_def as_i64_def
      NULL_VERSION_ID_def Let_def)

lemma rt_erasure [simp]:
  "fi_erasure (rt_bucket_fi i) = (default_erasure_info 1 1 2)\<lparr>ei_index := Suc i\<rparr>" "fi_erasure (rt_object_fi i) = (default_erasure_info 1 1 2)\<lparr>ei_index := Suc i\<rparr>"
  "fi_erasure (rt_large_fi i) = (default_erasure_info 1 1 2)\<lparr>ei_index := Suc i\<rparr>"
  by (simp_all add: rt_bucket_fi_def rt_object_fi_def rt_large_fi_def)

lemma rt_dir_name: "data_name rt_dir" "rt_dir \<noteq> []" "length (replicate 16 (2 :: byte)) = 16"
proof -
  show "rt_dir \<noteq> []" by (simp add: rt_dir_def format_data_dir_eq_Nil)
  then show "data_name rt_dir" using data_dir_name [of "replicate 16 2"] by (simp add: rt_dir_def)
qed simp

lemma rt_encode_record:
  "encode_record (rt_bucket_fi i) l = Some (Ok \<lparr>vr_version_id = replicate 16 0, vr_ty = 0, vr_mod_time = 5, vr_data_dir = replicate 16 0,
     vr_size = 17, vr_erasure = encode_erasure (fi_erasure (rt_bucket_fi i)), vr_parts = map encode_part (fi_parts (rt_bucket_fi i)),
     vr_metadata = fi_metadata (rt_bucket_fi i), vr_meta_sys = fi_meta_sys (rt_bucket_fi i), vr_inline_offset = fst l, vr_inline_length = snd l\<rparr>)"
  "encode_record (rt_object_fi i) l = Some (Ok \<lparr>vr_version_id = replicate 16 1, vr_ty = 0, vr_mod_time = 7, vr_data_dir = replicate 16 0,
     vr_size = 2, vr_erasure = encode_erasure (fi_erasure (rt_object_fi i)), vr_parts = map encode_part (fi_parts (rt_object_fi i)),
     vr_metadata = fi_metadata (rt_object_fi i), vr_meta_sys = fi_meta_sys (rt_object_fi i), vr_inline_offset = fst l, vr_inline_length = snd l\<rparr>)"
  "encode_record (rt_large_fi i) l = Some (Ok \<lparr>vr_version_id = replicate 16 1, vr_ty = 0, vr_mod_time = 7, vr_data_dir = replicate 16 2,
     vr_size = 3, vr_erasure = encode_erasure (fi_erasure (rt_large_fi i)), vr_parts = map encode_part (fi_parts (rt_large_fi i)),
     vr_metadata = fi_metadata (rt_large_fi i), vr_meta_sys = fi_meta_sys (rt_large_fi i), vr_inline_offset = fst l, vr_inline_length = snd l\<rparr>)"
  by (simp_all add: encode_record_def parse_null rt_id_def rt_dir_def parse_format_version_id parse_format_data_dir)

lemma rt_codec_ok: "codec_ok rt_codec"
proof -
  have "typed_record v" if "(bs, od) \<in> set rt_bodies" "v \<in> set (od_versions od)" for bs od v
    using that by (auto simp: rt_bodies_def records_of_def rt_encode_record typed_record_def split: if_splits)
  then have "\<forall>body od. mc_from_slice rt_codec body = Ok od \<longrightarrow> (\<forall>v \<in> set (od_versions od). typed_record v)"
    by (auto simp: rt_codec_def split: option.splits dest: map_of_SomeD)
  moreover have "mc_from_slice rt_codec body = Ok od" if "mc_to_vec rt_codec od = Ok body" for od body
    using that by (auto simp: rt_codec_def rt_bodies_def split: option.splits if_splits)
  ultimately show ?thesis by (simp add: codec_ok_def)
qed

lemma rt_frame_length: "length (bucket_frame rt_crc [1]) = 17"
  by (simp add: bucket_frame_def BUCKET_META_MAGIC_def Let_def)

lemma rt_frame_some: "bucket_frame rt_crc [1] \<noteq> []"
  using rt_frame_length by auto

lemma rt_frames:
  "inline_frames (rt_bucket_fi i) = [bucket_frame rt_crc [1]]" "inline_frames (rt_object_fi i) = [[4, 5]]" "inline_frames (rt_large_fi i) = []"
  "inline_bytes (rt_bucket_fi i) = bucket_frame rt_crc [1]" "inline_bytes (rt_object_fi i) = [4, 5]" "inline_bytes (rt_large_fi i) = []"
  by (simp_all add: inline_frames_def inline_bytes_def rt_frame_some)

lemma rt_parts:
  "fi_parts (rt_bucket_fi i) = single_part_info ''e'' 17 17 5" "fi_parts (rt_object_fi i) = single_part_info ''e'' 2 2 7"
  "fi_parts (rt_large_fi i) = single_part_info ''e'' 4 3 7"
  by (simp_all add: rt_bucket_fi_def rt_object_fi_def rt_large_fi_def inline_fi_def ec_fi_def build_file_info_def as_i64_def Let_def)

lemma rt_valid:
  assumes "i < 2"
  shows "validate_for_encode (rt_bucket_fi i) = Ok ()" "validate_for_encode (rt_object_fi i) = Ok ()" "validate_for_encode (rt_large_fi i) = Ok ()"
  using assms rt_dir_name(2) unfolding validate_for_encode_Ok rt_erasure rt_parts
  by (simp_all add: has_inline_def frame_total_def erasure_ok_def rt_frame_length default_erasure_info_def DEFAULT_EC_PER_SHARD_BYTES_def single_part_info_def)

lemma rt_canonical: "canonical_ids (rt_bucket_fi i)" "canonical_ids (rt_object_fi i)" "canonical_ids (rt_large_fi i)"
proof -
  have "\<exists>c. length c = 16 \<and> ''null'' = format_version_id_bytes c" "\<exists>c. length c = 16 \<and> [] = format_data_dir_bytes c"
    by (rule exI [of _ "replicate 16 0"]; simp add: format_version_id_bytes_def format_data_dir_bytes_def NULL_VERSION_ID_def)+
  moreover have "\<exists>c. length c = 16 \<and> rt_id = format_version_id_bytes c" by (rule exI [of _ "replicate 16 1"]) (simp add: rt_id_def)
  moreover have "\<exists>c. length c = 16 \<and> rt_dir = format_data_dir_bytes c" by (rule exI [of _ "replicate 16 2"]) (simp add: rt_dir_def)
  ultimately show "canonical_ids (rt_bucket_fi i)" "canonical_ids (rt_object_fi i)" "canonical_ids (rt_large_fi i)" by (simp_all add: canonical_ids_def)
qed

text \<open>The bodies of the table are told apart by the size and the slot of their version.\<close>

definition rt_key :: "on_disk_meta \<Rightarrow> int \<times> nat" where
  "rt_key od = (vr_size (hd (od_versions od)), eb_index (vr_erasure (hd (od_versions od))))"

lemma rt_keys:
  "rt_key (records_of [(rt_bucket_fi i, l)]) = (17, Suc i)" "rt_key (records_of [(rt_object_fi i, l)]) = (2, Suc i)"
  "rt_key (records_of [(rt_large_fi i, l)]) = (3, Suc i)"
  by (simp_all add: rt_key_def records_of_def rt_encode_record encode_erasure_def)

lemma rt_bodies_distinct:
  "records_of [(rt_bucket_fi i, l)] \<noteq> records_of [(rt_object_fi j, l')]" "records_of [(rt_bucket_fi i, l)] \<noteq> records_of [(rt_large_fi j, l')]"
  "records_of [(rt_object_fi i, l)] \<noteq> records_of [(rt_large_fi j, l')]"
  "records_of [(rt_bucket_fi i, l)] = records_of [(rt_bucket_fi j, l)] \<longleftrightarrow> i = j"
  "records_of [(rt_object_fi i, l)] = records_of [(rt_object_fi j, l)] \<longleftrightarrow> i = j"
  "records_of [(rt_large_fi i, l)] = records_of [(rt_large_fi j, l)] \<longleftrightarrow> i = j"
  by (auto dest!: arg_cong [where f = rt_key] simp: rt_keys)

lemma rt_to_vec:
  assumes "i < 2"
  shows "mc_to_vec rt_codec (records_of [(rt_bucket_fi i, 0, 17)]) = Ok [8, word_of_nat i]"
    "mc_to_vec rt_codec (records_of [(rt_object_fi i, 0, 2)]) = Ok [9, word_of_nat i]"
    "mc_to_vec rt_codec (records_of [(rt_large_fi i, 0, 0)]) = Ok [10, word_of_nat i]"
proof -
  consider "i = 0" | "i = 1" using assms by force
  then show "mc_to_vec rt_codec (records_of [(rt_bucket_fi i, 0, 17)]) = Ok [8, word_of_nat i]"
    "mc_to_vec rt_codec (records_of [(rt_object_fi i, 0, 2)]) = Ok [9, word_of_nat i]"
    "mc_to_vec rt_codec (records_of [(rt_large_fi i, 0, 0)]) = Ok [10, word_of_nat i]"
    by (cases; simp add: rt_codec_def rt_bodies_def rt_bodies_distinct rt_bodies_distinct [symmetric])+
qed

lemma rt_encodes:
  assumes "i < 2"
  shows "encode_versions (mc_to_vec rt_codec) (mc_xxh64 rt_codec) [rt_bucket_fi i] =
     Some (Ok \<lparr>ex_head = xl_head (mc_xxh64 rt_codec) [8, word_of_nat i], ex_tail = [bucket_frame rt_crc [1]]\<rparr>)"
  "encode_versions (mc_to_vec rt_codec) (mc_xxh64 rt_codec) [rt_object_fi i] =
     Some (Ok \<lparr>ex_head = xl_head (mc_xxh64 rt_codec) [9, word_of_nat i], ex_tail = [[4, 5]]\<rparr>)"
  "encode_versions (mc_to_vec rt_codec) (mc_xxh64 rt_codec) [rt_large_fi i] =
     Some (Ok \<lparr>ex_head = xl_head (mc_xxh64 rt_codec) [10, word_of_nat i], ex_tail = []\<rparr>)"
  using rt_valid [OF assms] rt_to_vec [OF assms]
  by (simp_all add: encode_versions_def rt_frames Let_def rt_encode_record rt_frame_length records_of_def numeral_2_eq_2)

lemma rt_decodes:
  assumes "i < 2"
  shows "decode_all (mc_from_slice rt_codec) (mc_xxh64 rt_codec) (xl_head (mc_xxh64 rt_codec) [8, word_of_nat i] @ bucket_frame rt_crc [1]) =
    Ok [stored 1 (rt_bucket_fi i)]"
  using encoded_decodes [OF _ rt_encodes(1) [OF assms], of "mc_from_slice rt_codec"] rt_codec_ok rt_canonical
  by (simp add: codec_ok_def encoded_to_vec_def as_i32_def rt_frame_length)

subsection \<open>Reading the bucket record\<close>

lemma rt_healthy: "healthy (rt_drive i)" "dk_calls (rt_drive i) = 0"
  by (simp_all add: healthy_def wf_treeI rt_drive_def lookup_node_def)

lemma rt_segs: "segs (bkt_meta_key ''b'') = [''buckets'', ''b'', ''.metadata.bin'']" "segs SYSTEM_BUCKET = [SYSTEM_BUCKET]"
  by (simp_all add: segs_def bkt_meta_key_def SYSTEM_BUCKET_def)

lemma read_system_version:
  assumes "healthy d" "is_system_vol v" "lookup_node (dk_tree d) [v] = Some Dir" "file_at (dk_tree d) (meta_path v p) = Some bs"
    and "pick_version mc v p vid bs = Ok rec"
  shows "read_version mc v p vid True d = (Ok (file_info_from_record rec v p), d\<lparr>dk_calls := dk_calls d + 3\<rparr>)"
proof -
  have "read_file_at (dk_tree d) (meta_path v p) = Ok bs" using assms(1,4) by (simp add: read_file_at_Ok healthy_def)
  then show ?thesis
    using assms(1,5) by (simp add: read_version_def then_do_def try_do_def require_system_vol [OF assms(1-3)] fs_read_def query_def sys_healthy
        map_err_do_def of_result_def ret_def Let_def)
qed

lemma rt_bucket_read:
  assumes "i < 2"
  shows "read_version rt_codec SYSTEM_BUCKET (bkt_meta_key ''b'') None True (rt_drive i) =
     (Ok (file_info_from_record (stored 1 (rt_bucket_fi i)) SYSTEM_BUCKET (bkt_meta_key ''b'')), (rt_drive i)\<lparr>dk_calls := 3\<rparr>)"
proof -
  have f: "file_at (dk_tree (rt_drive i)) (meta_path SYSTEM_BUCKET (bkt_meta_key ''b'')) =
      Some (xl_head (mc_xxh64 rt_codec) [8, word_of_nat i] @ bucket_frame rt_crc [1])"
    by (simp add: file_at_def meta_path_def file_path_def vol_path_def rt_segs rt_drive_def lookup_node_def)
  have "is_system_vol SYSTEM_BUCKET" "lookup_node (dk_tree (rt_drive i)) [SYSTEM_BUCKET] = Some Dir"
    by (simp_all add: is_system_vol_def rt_drive_def lookup_node_def)
  then show ?thesis
    using read_system_version [OF rt_healthy(1) _ _ f, of rt_codec None "stored 1 (rt_bucket_fi i)"] rt_healthy(2)
    by (simp add: pick_version_def xl_decode_def rt_decodes [OF assms])
qed

lemma rt_addrs [simp]: "rt_addr i = rt_addr j \<longleftrightarrow> i = j" "da_disk_idx (rt_addr i) = i"
  by (simp_all add: rt_addr_def)

lemma rt_set: "set_backends rt_engine b k = Some (Ok [rt_addr 0, rt_addr 1])"
proof -
  have "all_disks rt_cluster = [rt_addr 0, rt_addr 1]" by (simp add: all_disks_def rt_cluster_def rt_addr_def upt_rec)
  then show ?thesis
    by (simp add: set_backends_def disks_for_def set_index_for_def num_sets_def set_disks_def total_disks_def)
      (simp add: rt_engine_def rt_cluster_def known_backend_def)
qed

lemma inline_drained:
  assumes "get_ok (\<lambda>_. False) stream"
  shows "drain_stream (get_read eg) [] stream = Some (Ok (get_content (\<lambda>_. []) stream))"
proof -
  have "byte_stream (get_read eg) (get_ok (\<lambda>_. False)) (get_content (\<lambda>_. []))"
    by (rule get_stream_content) (unfold_locales, simp)
  from byte_stream.drain_stream_content [OF this assms, of "[]"] show ?thesis by simp
qed

text \<open>The drives after the record was read.\<close>

definition rt_read :: "disk store" where
  "rt_read = rt_store(rt_addr 0 := (rt_drive 0)\<lparr>dk_calls := 3\<rparr>, rt_addr 1 := (rt_drive 1)\<lparr>dk_calls := 3\<rparr>)"

lemma rt_bucket_consensus:
  obtains i where "i < 2" "consensus_read rt_engine [rt_addr 0, rt_addr 1] SYSTEM_BUCKET (bkt_meta_key ''b'') None True rt_store =
    Some (Ok (i, file_info_from_record (stored 1 (rt_bucket_fi i)) SYSTEM_BUCKET (bkt_meta_key ''b'')), rt_read)"
proof -
  let ?k = "bkt_meta_key ''b''"
  let ?fi = "\<lambda>i. file_info_from_record (stored 1 (rt_bucket_fi i)) SYSTEM_BUCKET ?k"
  let ?rs = "[Ok (?fi 0), Ok (?fi 1)] :: (file_info, io_error) result list"
  have etag: "record_etag_matches (rt_bucket_fi i) ''e''" for i
    by (simp add: rt_bucket_fi_def rt_slot_def record_etag_matches_def inline_fi_def build_file_info_def Let_def)
  have valid: "erasure_is_valid (fi_erasure (?fi i)) \<and> voted_parity (length ?rs) (?fi i) = 1 \<and> record_etag_matches (?fi i) ''e'' \<and>
      contract_bytes (?fi i) = contract_bytes (?fi 0)" if "i < 2" for i
    using etag that by (simp add: erasure_is_valid_def default_erasure_info_def DEFAULT_EC_PER_SHARD_BYTES_def voted_parity_def)
      (simp add: rt_bucket_fi_def rt_slot_def contract_bytes_def)
  have votes: "\<exists>fi. ?rs ! j = Ok fi \<and> erasure_is_valid (fi_erasure fi) \<and> voted_parity (length ?rs) fi = 1 \<and> record_etag_matches fi ''e'' \<and>
      contract_bytes fi = contract_bytes (?fi 0)" if "j \<in> {0, 1}" for j
    using that valid [of 0] valid [of 1] by auto
  have small: "{0, 1} \<subseteq> {..<length ?rs}" "''e'' \<noteq> []" "length ?rs < 2 * card {0 :: nat, 1}" "usize_sub (length ?rs) 1 \<le> card {0 :: nat, 1}"
    "length ?rs - card {0 :: nat, 1} < max (length ?rs div 2) 1" by (simp_all add: usize_sub_def)
  have "\<exists>i fi. read_with_consensus plain_orders (eg_blake rt_engine) SYSTEM_BUCKET ?k ?rs = Ok (i, fi) \<and> i < length ?rs \<and> ?rs ! i = Ok fi"
    using majority_read [OF plain_orders small(1) votes small(2-5)] by blast
  then obtain i fi where r: "read_with_consensus plain_orders (eg_blake rt_engine) SYSTEM_BUCKET ?k ?rs = Ok (i, fi)" "i < length ?rs" "?rs ! i = Ok fi" by blast
  then have "i = 0 \<or> i = 1" by auto
  then have i: "read_with_consensus plain_orders (eg_blake rt_engine) SYSTEM_BUCKET ?k ?rs = Ok (i, ?fi i)" "i < 2" using r(1,3) by auto
  have "consensus_read rt_engine [rt_addr 0, rt_addr 1] SYSTEM_BUCKET ?k None True rt_store = Some (Ok (i, ?fi i), rt_read)"
    using i rt_bucket_read [of 0] rt_bucket_read [of 1]
    by (simp add: consensus_read_def eng_fan_def eng_of_def on_all_def local_backend_def rt_store_def rt_read_def fun_upd_def)
  then show thesis using that i(2) by blast
qed

lemma rt_bucket_meta: "get_bucket_meta rt_engine ''b'' rt_store = Some (Ok (bucket_meta_new 7 True), rt_read)"
proof -
  let ?k = "bkt_meta_key ''b''" and ?body = "bucket_frame rt_crc [1]"
  let ?fi = "\<lambda>i. file_info_from_record (stored 1 (rt_bucket_fi i)) SYSTEM_BUCKET ?k"
  obtain i where c: "consensus_read rt_engine [rt_addr 0, rt_addr 1] SYSTEM_BUCKET ?k None True rt_store = Some (Ok (i, ?fi i), rt_read)"
    by (rule rt_bucket_consensus)
  have d: "fi_size (?fi i) = int (length ?body)" "fi_data (?fi i) = (if ?body = [] then None else Some [?body])" "length ?body < 2 ^ 63"
    by (simp_all add: rt_frame_length rt_frame_some) (simp_all add: file_info_from_record_def stored_def rt_frames rt_frame_some)
  obtain window stream where g: "get_versioned rt_engine SYSTEM_BUCKET ?k None None rt_store = Some (Ok (to_object_info SYSTEM_BUCKET (?fi i), window, stream), rt_read)"
    "get_ok (\<lambda>_. False) stream" "get_content (\<lambda>_. []) stream = requested None (length ?body) ?body"
    using get_inline [OF rt_set c d(1,3,2), where rng = None] by blast
  have "drain_stream (get_read rt_engine) [] stream = Some (Ok ?body)"
    using inline_drained [OF g(2), of rt_engine] g(3) by (simp add: requested_def)
  moreover have "bucket_meta_decode tiny_from_slice rt_crc ?body = Ok (bucket_meta_new 7 True)"
    using frame_decodes [of "[1]" tiny_from_slice rt_crc] by (simp add: tiny_from_slice_def)
  ultimately show ?thesis
    using g(1) by (simp add: get_bucket_meta_def get_latest_def eng_bind_def eng_of_def)
qed

lemma rt_version: "resolve_put_version_id rt_engine rt_id ''b'' rt_store = Some (Ok rt_id, rt_read)"
  by (simp add: resolve_put_version_id_def eng_bind_def rt_bucket_meta eng_of_def next_version_id_def bucket_meta_new_def)

subsection \<open>The two PUTs\<close>

lemma rt_user_bucket: "user_bucket ''b''"
  using ex_volumes by (simp add: user_bucket_def)

lemma rt_engine_ok: "engine_ok rt_engine"
  by (simp add: engine_ok_def topology_ok_def rt_cluster_def total_disks_def all_disks_def) (auto simp: rt_engine_def rt_addr_def upt_rec)

lemma rt_backends:
  assumes "i < 2"
  shows "[rt_addr 0, rt_addr 1] ! i = rt_addr i" "rt_read (rt_addr i) = (rt_drive i)\<lparr>dk_calls := 3\<rparr>"
proof -
  have "i = 0 \<or> i = 1" using assms by auto
  then show "[rt_addr 0, rt_addr 1] ! i = rt_addr i" "rt_read (rt_addr i) = (rt_drive i)\<lparr>dk_calls := 3\<rparr>" by (auto simp: rt_read_def)
qed

lemma rt_room:
  shows "promotable (dk_tree (rt_drive i)) (file_path STAGING_VOL ''t'') (file_path ''b'' ''k'') []"
    "promotable (dk_tree (rt_drive i)) (file_path STAGING_VOL ''t'') (file_path ''b'' ''k'') rt_dir"
    "stageable ((rt_drive i)\<lparr>dk_calls := c\<rparr>) ''t'' rt_dir" "lookup_node (dk_tree (rt_drive i)) [''b''] = Some Dir"
    "versions_at rt_codec (dk_tree (rt_drive i)) (meta_path ''b'' ''k'') = Some []"
  using rt_healthy(1) [of i] rt_dir_name(1)
  by (simp_all add: promotable_def stageable_def clear_path_def file_path_def vol_path_def ex_segs versions_at_def file_at_def meta_path_def)
    (auto simp: rt_drive_def lookup_node_def nth_Cons take_Cons split: nat.splits)

lemma rt_small_rename:
  assumes "i < 2"
  shows "\<exists>resp d. rename_data rt_codec STAGING_VOL ''t'' (rt_object_fi i) ''b'' ''k'' (rt_read (rt_addr i)) = Some (Ok resp, d) \<and>
    file_at (dk_tree d) (meta_path ''b'' ''k'') = Some (xl_head (mc_xxh64 rt_codec) [9, word_of_nat i] @ [4, 5])"
proof (rule rename_data_healthy [OF _ ex_volumes(1-3), where d = "rt_read (rt_addr i)" and mc = rt_codec and sp = "''t''" and dp = "''k''" and fi = "rt_object_fi i"
      and existing = "[]"])
  show "healthy (rt_read (rt_addr i))" "lookup_node (dk_tree (rt_read (rt_addr i))) [''b''] = Some Dir"
    "promotable (dk_tree (rt_read (rt_addr i))) (file_path STAGING_VOL ''t'') (file_path ''b'' ''k'') (fi_data_dir (rt_object_fi i))"
    "versions_at rt_codec (dk_tree (rt_read (rt_addr i))) (meta_path ''b'' ''k'') = Some []"
    using rt_healthy(1) rt_room by (simp_all add: rt_backends(2) [OF assms])
  show "encode_versions (mc_to_vec rt_codec) (mc_xxh64 rt_codec) (merge_versions ''b'' ''k'' (rt_object_fi i) []) =
      Some (Ok \<lparr>ex_head = xl_head (mc_xxh64 rt_codec) [9, word_of_nat i], ex_tail = [[4, 5]]\<rparr>)"
    by (simp add: merge_versions_def rt_encodes(2) [OF assms])
qed (drule promoted_meta, auto simp: meta_path_def encoded_to_vec_def)

definition rt_info :: object_info where
  "rt_info = \<lparr>oi_bucket = ''b'', oi_key = ''k'', oi_size = 2, oi_etag = ''e'', oi_storage_class = Inline, oi_modified_ms = 7,
     oi_content_type = None, oi_version_id = rt_id, oi_is_delete_marker = False\<rparr>"

text \<open>What a later GET needs of the drives: their metadata is small, and they are not empty.\<close>

lemma rt_kept:
  assumes "\<And>i. i < 2 \<Longrightarrow> file_at (dk_tree (st (rt_addr i))) (meta_path ''b'' ''k'') = Some (xl_head (mc_xxh64 rt_codec) [x, y i] @ rest)" "length rest < 10"
    and "a \<in> set [rt_addr 0, rt_addr 1]"
  shows "meta_fits (st a) ''b'' ''k''" "dk_tree (st a) \<noteq> []"
proof -
  obtain i where i: "a = rt_addr i" "i < 2" using assms(3) by auto
  show "meta_fits (st a) ''b'' ''k''" using assms(1) [OF i(2)] assms(2) i(1) by (simp add: meta_fits_def length_xl_head)
  show "dk_tree (st a) \<noteq> []" using assms(1) [OF i(2)] i(1) by (auto simp: file_at_def lookup_node_def meta_path_def)
qed

lemma rt_put:
  obtains st1 where "put_object rt_engine (Ok ()) (Ok ()) 7 rt_id ''d'' ''t'' ''b'' ''k'' 2 rope_read [[4, 5, 6]] None rt_store = Some (Ok rt_info, st1)"
    "\<And>a. a \<in> set [rt_addr 0, rt_addr 1] \<Longrightarrow> meta_fits (st1 a) ''b'' ''k'' \<and> dk_tree (st1 a) \<noteq> []"
proof -
  let ?fis = "[rt_object_fi 0, rt_object_fi 1]" and ?backends = "[rt_addr 0, rt_addr 1]"
  let ?raw = "\<lambda>i. xl_head (mc_xxh64 rt_codec) [9, word_of_nat i] @ [4, 5]"
  have fis: "?fis ! i = rt_object_fi i" if "i < 2" for i
  proof -
    have "i = 0 \<or> i = 1" using that by auto
    then show ?thesis by auto
  qed
  have set: "distinct ?backends" "length ?fis = length ?backends" "2 = length ?backends" by simp_all
  have can: "\<forall>fi \<in> set ?fis. canonical_ids fi" using rt_canonical by simp
  have wf: "wf_tree (dk_tree (rt_read (?backends ! i)))" if "i < length ?backends" for i
    using rt_backends [of i] that rt_healthy(1) by (simp add: healthy_def)
  have step: "\<exists>resp d. rename_data rt_codec STAGING_VOL ''t'' (?fis ! i) ''b'' ''k'' (rt_read (?backends ! i)) = Some (Ok resp, d) \<and>
      file_at (dk_tree d) (meta_path ''b'' ''k'') = Some (?raw i)" if "i < length ?backends" for i
    using rt_small_rename [of i] rt_backends(1) [of i] fis [of i] that by simp
  obtain st1 where p: "promote_versions rt_engine ?backends STAGING_VOL ''t'' ?fis ''b'' ''k'' 2 rt_read = Some (Ok (), st1)"
    and meta: "\<And>i. i < length ?backends \<Longrightarrow> file_at (dk_tree (st1 (?backends ! i))) (meta_path ''b'' ''k'') = Some (?raw i)"
    by (rule promote_writes [where st = rt_read and sid = "''t''" and raw = ?raw and quorum = 2, OF rt_engine_fields(1) rt_codec_ok set rt_user_bucket can wf step])
      (assumption, assumption, rule that)
  have fi: "with_per_disk_index (inline_fi ''b'' ''k'' 2 ''e'' 7 None rt_id [[4, 5]]) (default_erasure_info 1 1 (length ?backends)) (length ?backends) = ?fis"
    unfolding set(3) [symmetric] by (simp add: with_per_disk_index_def rt_object_fi_def rt_slot_def upt_rec)
  have "drain_inline_payload (eg_md5_hex rt_engine) rope_read 2 [] 0 [[4, 5, 6]] = Ok ([[4, 5]], ''e'')"
    by (simp add: drain_inline_payload.simps)
  then have "put_inline rt_engine (Ok ()) ''t'' ''b'' ''k'' 2 rope_read [[4, 5, 6]] None 7 rt_id ?backends 2 rt_read = Some (Ok rt_info, st1)"
    using p fi by (simp add: put_inline_def eng_bind_def eng_of_def rt_cluster_def usize_sub_def Let_def inline_fi_def rt_info_def)
  then have "put_object rt_engine (Ok ()) (Ok ()) 7 rt_id ''d'' ''t'' ''b'' ''k'' 2 rope_read [[4, 5, 6]] None rt_store = Some (Ok rt_info, st1)"
    by (simp add: put_object_def eng_bind_def eng_of_def with_set_def rt_set rt_version Let_def write_quorum_def) (simp add: rt_cluster_def)
  moreover have "meta_fits (st1 a) ''b'' ''k'' \<and> dk_tree (st1 a) \<noteq> []" if "a \<in> set ?backends" for a
    using rt_kept [of st1 9 word_of_nat "[4, 5]" a] meta rt_backends(1) that by simp
  ultimately show thesis by (rule that)
qed

lemma rt_sizes: "set_size rt_engine = 2" "parity_of rt_engine = 1"
  by (simp_all add: rt_cluster_def)

lemma rt_large_room:
  assumes "i < set_size rt_engine"
  shows "ec_room rt_codec ''t'' ''b'' ''k'' (with_per_disk_index (ec_fi ''b'' ''k'' 3 4 ''e'' 7 None rt_id rt_dir)
      (set_erasure rt_engine (set_size rt_engine)) (set_size rt_engine) ! i) (rt_read ([rt_addr 0, rt_addr 1] ! i))
    \<lparr>ex_head = xl_head (mc_xxh64 rt_codec) [10, word_of_nat i], ex_tail = []\<rparr>"
proof -
  have i: "i < 2" using assms rt_sizes by simp
  then have fi: "with_per_disk_index (ec_fi ''b'' ''k'' 3 4 ''e'' 7 None rt_id rt_dir) (set_erasure rt_engine (set_size rt_engine)) (set_size rt_engine) ! i = rt_large_fi i"
    unfolding rt_sizes by (simp add: with_per_disk_index_def rt_large_fi_def rt_slot_def set_erasure_def usize_sub_def rt_cluster_def)
  show ?thesis unfolding fi rt_backends(1) [OF i] rt_backends(2) [OF i]
    using rt_room rt_encodes(3) [OF i] by (simp add: ec_room_def merge_versions_def)
qed

lemma rt_large_facts:
  "0 < parity_of rt_engine" "1 = set_size rt_engine - parity_of rt_engine" "1 = parity_of rt_engine" "rs_contract 1 1 (eg_rs_encode rt_engine) rt_rs_decode"
  "length (replicate 16 (2 :: byte)) = 16" "rt_dir = format_data_dir_bytes (replicate 16 2)" "rt_dir \<noteq> []"
  "length (replicate 16 (1 :: byte)) = 16" "rt_id = format_version_id_bytes (replicate 16 1)"
  "[] \<notin> set [[4, 5], [6, 7 :: byte]]" "3 \<le> length (concat [[4, 5], [6, 7 :: byte]])" "eg_inline_threshold rt_engine < 3" "3 < (2 :: nat) ^ 63"
  "shard_size 3 1 = Some 4" "''e'' = eg_md5_hex rt_engine (take 3 (concat [[4, 5], [6, 7]]))"
  using rt_contract rt_sizes rt_dir_name(2) by (simp_all add: rt_dir_def rt_id_def shard_size_def div_ceil_def)

lemma rt_put_large:
  obtains st1 where "put_object rt_engine (Ok ()) (Ok ()) 7 rt_id rt_dir ''t'' ''b'' ''k'' 3 rope_read [[4, 5], [6, 7]] None rt_store =
      Some (Ok (rt_info\<lparr>oi_size := 3, oi_storage_class := Single\<rparr>), st1)"
    "\<And>a. a \<in> set [rt_addr 0, rt_addr 1] \<Longrightarrow> meta_fits (st1 a) ''b'' ''k'' \<and> dk_tree (st1 a) \<noteq> []"
proof -
  let ?backends = "[rt_addr 0, rt_addr 1]" and ?enc = "\<lambda>i. \<lparr>ex_head = xl_head (mc_xxh64 rt_codec) [10, word_of_nat i], ex_tail = []\<rparr>"
  obtain st1 where p: "put_object rt_engine (Ok ()) (Ok ()) 7 rt_id rt_dir ''t'' ''b'' ''k'' 3 rope_read [[4, 5], [6, 7]] None rt_store = Some (Ok
      \<lparr>oi_bucket = ''b'', oi_key = ''k'', oi_size = 3, oi_etag = ''e'', oi_storage_class = Single, oi_modified_ms = 7, oi_content_type = None,
       oi_version_id = rt_id, oi_is_delete_marker = False\<rparr>, st1)"
    and meta: "\<And>i. i < set_size rt_engine \<Longrightarrow> file_at (dk_tree (st1 (?backends ! i))) (meta_path ''b'' ''k'') = Some (encoded_to_vec (?enc i))"
    by (rule ec_put_progress [where enc = ?enc and c' = "replicate 16 1" and b = "''b''" and k = "''k''" and sid = "''t''" and content_type = None,
          OF rt_engine_fields(1) rt_codec_ok rt_engine_ok rt_large_facts(1-4) rt_user_bucket rt_large_facts(5-9) rope.byte_stream_axioms rt_large_facts(10-13)
          rt_version rt_set rt_large_facts(14,15) rt_large_room])
      (assumption, rule that)
  have "meta_fits (st1 a) ''b'' ''k'' \<and> dk_tree (st1 a) \<noteq> []" if "a \<in> set ?backends" for a
    using rt_kept [of st1 10 word_of_nat "[]" a] meta rt_backends(1) that rt_sizes by (simp add: encoded_to_vec_def)
  with p show thesis by (intro that) (simp_all add: rt_info_def)
qed

end
