(* ===== verification/Round_Trip.thy ===== *)
theory Round_Trip
  imports Deployment
begin

text \<open>
  The round trips through the whole stack, engine to drives: what PUT reports as stored is what GET
  returns, for inline and for erasure-coded bodies, with drives failing or replaced in between.
\<close>

subsection \<open>From the records on the drives to the stream\<close>

context version_store
begin

lemma inline_kept_get:
  assumes "eg_ops eg = ops" "engine_ok eg" "user_bucket b" "sz < 2 ^ 63"
    and "set_backends eg b k = Some (Ok backends)" "distinct backends" "length backends = set_size eg"
    and "fi = inline_fi b k sz etag now content_type v frames" "etag \<noteq> []" "concat frames = body" "length body = sz"
    and "\<And>i. i < set_size eg \<Longrightarrow> lost (st (backends ! i)) \<or> inv (st (backends ! i)) \<and>
       kept (st (backends ! i)) b k (with_per_disk_index fi (set_erasure eg (set_size eg)) (set_size eg) ! i) \<and> fits (st (backends ! i)) b k"
    and "readable (set_size eg) (parity_of eg) U" "\<And>i. i \<in> U \<Longrightarrow> up (st (backends ! i)) \<and> \<not> lost (st (backends ! i))"
  shows "\<exists>info window stream st1. get_versioned eg b k (Some v) rng st = Some (Ok (info, window, stream), st1) \<and>
    oi_etag info = etag \<and> oi_size info = sz \<and> drain_stream (get_read eg) [] stream = Some (Ok (requested rng sz body))"
proof -
  let ?n = "set_size eg" and ?ei = "set_erasure eg (set_size eg)"
  let ?P = "if sz = 0 then ?n div 2 else parity_of eg"
  note fields = inline_fi_fields [OF assms(4), of b k etag now content_type v frames, folded assms(8)]
  have n: "0 < ?n" "?n \<le> 255" "2 * parity_of eg \<le> ?n" "all_orders (eg_orders eg)"
    using assms(2) by (auto simp: engine_ok_def topology_ok_def)
  have P: "voted_parity ?n (fi\<lparr>fi_erasure := ?ei\<rparr>) = ?P" "?P \<le> ?n"
    using fields(1,2) n set_erasure_valid(2) [OF assms(2), of 0] by (simp_all add: voted_parity_def)
  have U: "readable ?n ?P U" using assms(13) readable_half by auto
  obtain i m st1 where i: "consensus_read eg backends b k (Some (fi_version_id fi)) True st =
      Some (Ok (i, file_info_from_record (stored m (with_per_disk_index fi ?ei ?n ! i)) b k), st1)" "i < ?n"
    using consensus_reads [OF assms(1) n(4) assms(6) assms(7) [symmetric] assms(3) refl set_erasure_valid(1) [OF assms(2)] fields(4) assms(9) P
        assms(12) U assms(14)] by blast
  let ?r = "file_info_from_record (stored m (with_per_disk_index fi ?ei ?n ! i)) b k"
  have r: "with_per_disk_index fi ?ei ?n ! i = fi\<lparr>fi_erasure := ?ei\<lparr>ei_index := (i + 1) mod 2 ^ 8\<rparr>\<rparr>"
    using i(2) by (simp add: with_per_disk_index_def)
  have data: "fi_size ?r = int (length body)" "fi_data ?r = (if body = [] then None else Some [body])"
    unfolding r using fields(1,5) assms(10,11) by (simp_all add: file_info_from_record_def stored_def inline_bytes_def)
  have info: "oi_etag (to_object_info b ?r) = etag" "oi_size (to_object_info b ?r) = sz"
    using fields(1,4) data(1) assms(11) unfolding r
    by (simp_all add: to_object_info_def file_info_from_record_def stored_def record_etag_matches_def)
  obtain window stream where "get_versioned eg b k (Some v) rng st = Some (Ok (to_object_info b ?r, window, stream), st1)"
      "get_ok (\<lambda>_. False) stream" "get_content (\<lambda>_. []) stream = requested rng sz body"
    using get_inline [OF assms(5) i(1) data(1) _ data(2)] assms(4,11) fields(3) by fastforce
  then show ?thesis using info inline_drained [of stream eg]
    by (intro exI [of _ "to_object_info b ?r"] exI [of _ window] exI [of _ stream] exI [of _ st1]) simp
qed

end

subsection \<open>Properties\<close>

text \<open>
  C2: what an inline PUT reports as stored is what GET returns. Whatever faults the drives have while
  the PUT runs, if it succeeds, then later, with each drive of the set as it was or replaced by an empty
  one, and enough of the drives that kept their tree answering (the others may fail in any way), a GET of
  that version returns its etag and size and a stream of exactly the body, or of the requested range of it.
\<close>

theorem inline_put_then_get:
  assumes "eg_ops eg = local_backend mc grant fault" "codec_ok mc" "engine_ok eg" "\<forall>a. wf_tree (dk_tree (st a))" "user_bucket b"
    and "length uuid = 16" "fresh = format_version_id_bytes uuid" "byte_stream rd ok content" "ok src"
    and "sz \<le> eg_inline_threshold eg" "sz < 2 ^ 63"
    and "put_object eg lock fence now fresh data_dir staging_id b k sz rd src content_type st = Some (Ok info, st1)"
    and "set_backends eg b k = Some (Ok backends)"
    and "\<forall>a \<in> set backends. dk_tree (st2 a) = [] \<or> dk_tree (st2 a) = dk_tree (st1 a) \<and> meta_fits (st1 a) b k"
    and "readable (set_size eg) (parity_of eg) U" "\<forall>i \<in> U. dk_faults (st2 (backends ! i)) = (\<lambda>_. None) \<and> dk_tree (st2 (backends ! i)) \<noteq> []"
  shows "\<exists>info' window stream st3. get_opts eg b k (Some (oi_version_id info)) rng st2 = Some (Ok (info', window, stream), st3) \<and>
    oi_etag info' = oi_etag info \<and> oi_etag info = eg_md5_hex eg (take sz (content src)) \<and> oi_size info' = sz \<and>
    drain_stream (get_read eg) [] stream = Some (Ok (requested rng sz (take sz (content src))))"
proof -
  have inv: "\<forall>a. codec_ok mc \<and> wf_tree (dk_tree (st a))" using assms(2,4) by simp
  obtain bks frames where bks: "set_backends eg b k = Some (Ok bks)" "distinct bks" "length bks = set_size eg"
    and body: "oi_etag info = eg_md5_hex eg (take sz (content src))" "concat frames = take sz (content src)" "sz \<le> length (content src)"
    and stored: "\<And>i. i < set_size eg \<Longrightarrow> (codec_ok mc \<and> wf_tree (dk_tree (st1 (bks ! i)))) \<and> version_kept mc (st1 (bks ! i)) b k
       (with_per_disk_index (inline_fi b k sz (oi_etag info) now content_type (oi_version_id info) frames) (set_erasure eg (set_size eg)) (set_size eg) ! i)"
    by (rule local_store.inline_stored [OF assms(1,3) inv assms(5-10,12)]) (rule that)
  have bk: "distinct backends" "length backends = set_size eg" "bks = backends" using bks assms(13) by auto
  note kept = stored [unfolded bk(3)]
  have etag: "oi_etag info \<noteq> []" "length (take sz (content src)) = sz" using assms(3) body(1,3) by (simp_all add: engine_ok_def)
  have up: "i \<in> U \<Longrightarrow> dk_faults (st2 (backends ! i)) = (\<lambda>_. None) \<and> dk_tree (st2 (backends ! i)) \<noteq> []" for i using assms(16) by blast
  have "dk_tree (st2 (backends ! i)) = [] \<or> (codec_ok mc \<and> wf_tree (dk_tree (st2 (backends ! i)))) \<and> version_kept mc (st2 (backends ! i)) b k
      (with_per_disk_index (inline_fi b k sz (oi_etag info) now content_type (oi_version_id info) frames) (set_erasure eg (set_size eg)) (set_size eg) ! i) \<and>
      meta_fits (st2 (backends ! i)) b k" if "i < set_size eg" for i
    using kept [OF that] assms(14) [THEN bspec, of "backends ! i"] bk(2) that by (auto simp: version_kept_def meta_fits_def)
  from local_store.inline_kept_get [OF assms(1,3,5,11,13) bk(1,2) refl etag(1) body(2) etag(2) this assms(15) up] body(1)
  show ?thesis unfolding get_opts_def by blast
qed

theorem inline_put_then_get_witness:
  "\<exists>st1 info' window stream st3.
     put_object rt_engine (Ok ()) (Ok ()) 7 rt_id ''d'' ''t'' ''b'' ''k'' 2 rope_read [[4, 5, 6]] None rt_store = Some (Ok rt_info, st1) \<and>
     get_opts rt_engine ''b'' ''k'' (Some rt_id) (Some (Suffix 1)) (\<lambda>a. (st1 a)\<lparr>dk_faults := (\<lambda>_. None)\<rparr>) = Some (Ok (info', window, stream), st3) \<and>
     oi_etag info' = ''e'' \<and> oi_size info' = 2 \<and> drain_stream (get_read rt_engine) [] stream = Some (Ok [5])"
proof -
  obtain st1 where put: "put_object rt_engine (Ok ()) (Ok ()) 7 rt_id ''d'' ''t'' ''b'' ''k'' 2 rope_read [[4, 5, 6]] None rt_store = Some (Ok rt_info, st1)"
    and later: "\<And>a. a \<in> set [rt_addr 0, rt_addr 1] \<Longrightarrow> meta_fits (st1 a) ''b'' ''k'' \<and> dk_tree (st1 a) \<noteq> []" by (rule rt_put) (rule that)
  have r: "readable (set_size rt_engine) (parity_of rt_engine) {0, 1}" by (simp add: readable_def rt_cluster_def)
  have id: "length (replicate 16 (1 :: byte)) = 16" "rt_id = format_version_id_bytes (replicate 16 1)" by (simp_all add: rt_id_def)
  have wf: "\<forall>a. wf_tree (dk_tree (rt_store a))" using rt_healthy(1) by (simp add: healthy_def rt_store_def)
  from inline_put_then_get [where U = "{0, 1}" and rng = "Some (Suffix 1)" and ?st2.0 = "\<lambda>a. (st1 a)\<lparr>dk_faults := (\<lambda>_. None)\<rparr>",
      OF rt_engine_fields(1) rt_codec_ok rt_engine_ok wf rt_user_bucket id rope.byte_stream_axioms _ _ _ put rt_set _ r] later
  show ?thesis using put by (simp add: rt_info_def requested_def Let_def)
qed

text \<open>
  C1: what an erasure-coded PUT reports as stored is what GET returns. A PUT of a body above the
  inline threshold stages the shards, promotes them with the version and cleans up; if it succeeds on
  drives without faults, then later, with each drive of the set as it was or replaced by an empty one,
  and enough of the drives that kept their tree answering (the others may fail in any way), a GET of that
  version returns its etag and size and a stream of exactly the body, or of the requested range of it,
  rebuilt from the shards that are left.
\<close>

theorem ec_put_then_get:
  assumes "eg_ops eg = local_backend mc grant fault" "codec_ok mc" "engine_ok eg" "\<forall>a. healthy (st a)" "user_bucket b"
    and "length uuid = 16" "fresh = format_version_id_bytes uuid" "length c = 16" "data_dir = format_data_dir_bytes c" "data_dir \<noteq> []"
    and "byte_stream rd ok content" "ok src" "eg_inline_threshold eg < sz" "sz < 2 ^ 63"
    and "rs_contract (set_size eg - parity_of eg) (parity_of eg) (eg_rs_encode eg) (eg_rs_decode eg)"
    and "put_object eg lock fence now fresh data_dir staging_id b k sz rd src content_type st = Some (Ok info, st1)"
    and "set_backends eg b k = Some (Ok backends)"
    and "\<forall>a \<in> set backends. dk_tree (st2 a) = [] \<or> dk_tree (st2 a) = dk_tree (st1 a) \<and> meta_fits (st1 a) b k"
    and "readable (set_size eg) (parity_of eg) U" "\<forall>i \<in> U. dk_faults (st2 (backends ! i)) = (\<lambda>_. None) \<and> dk_tree (st2 (backends ! i)) \<noteq> []"
    and "fault = (\<lambda>_. None)"
  shows "\<exists>info' window stream st3. get_opts eg b k (Some (oi_version_id info)) rng st2 = Some (Ok (info', window, stream), st3) \<and>
    oi_etag info' = oi_etag info \<and> oi_etag info = eg_md5_hex eg (take sz (content src)) \<and> oi_size info' = sz \<and>
    drain_stream (get_read eg) [] stream = Some (Ok (requested rng sz (take sz (content src))))"
proof -
  let ?n = "set_size eg - parity_of eg" and ?m = "parity_of eg" and ?u = DEFAULT_EC_PER_SHARD_BYTES
  have sound: "\<forall>a. codec_ok mc \<and> healthy (st a)" using assms(2,4) by simp
  obtain bks shard ss where bks: "set_backends eg b k = Some (Ok bks)" "distinct bks" "length bks = set_size eg" "0 < ?n" "0 < ?m"
    and body: "oi_etag info = eg_md5_hex eg (take sz (content src))" "sz \<le> length (content src)" "length ss = stripes_of sz (?n * ?u)"
    "\<forall>sh \<in> set ss. good_stripe (eg_rs_decode eg) ?n ?m ?u sh" "take sz (payload ?n ss) = take sz (content src)"
    and stored: "\<And>i. i < set_size eg \<Longrightarrow> (codec_ok mc \<and> wf_tree (dk_tree (st1 (bks ! i)))) \<and> version_kept mc (st1 (bks ! i)) b k
       (with_per_disk_index (ec_fi b k sz shard (oi_etag info) now content_type (oi_version_id info) data_dir) (set_erasure eg (set_size eg)) (set_size eg) ! i) \<and>
       stored_at (st1 (bks ! i)) b (object_part k data_dir) (shard_file i ss)"
    by (rule local_shards.ec_stored [OF assms(1,3) sound assms(5-13) refl refl assms(15,16)]) (rule that)
  have bk: "distinct backends" "length backends = set_size eg" "bks = backends" using bks assms(17) by auto
  note kept = stored [unfolded bk(3)]
  have etag: "oi_etag info \<noteq> []" "length (take sz (content src)) = sz" "0 < sz" using assms(3,13) body(1,2) by (simp_all add: engine_ok_def)
  have up: "i \<in> U \<Longrightarrow> (dk_faults (st2 (backends ! i)) = (\<lambda>_. None) \<and> fault = (\<lambda>_. None)) \<and> dk_tree (st2 (backends ! i)) \<noteq> []" for i using assms(20,21) by blast
  have "dk_tree (st2 (backends ! i)) = [] \<or> (codec_ok mc \<and> wf_tree (dk_tree (st2 (backends ! i)))) \<and> version_kept mc (st2 (backends ! i)) b k
       (with_per_disk_index (ec_fi b k sz shard (oi_etag info) now content_type (oi_version_id info) data_dir) (set_erasure eg (set_size eg)) (set_size eg) ! i) \<and>
       meta_fits (st2 (backends ! i)) b k \<and> stored_at (st2 (backends ! i)) b (object_part k data_dir) (shard_file i ss)" if "i < set_size eg" for i
    using kept [OF that] assms(18) [THEN bspec, of "backends ! i"] bk(2) that by (auto simp: version_kept_def meta_fits_def stored_at_def)
  from local_shards.ec_kept_get [OF assms(1,3,5) etag(3) assms(14) bks(4,5) refl refl assms(17) bk(1,2) refl etag(1) assms(10) body(4,3,5) etag(2) this assms(19) up] body(1)
  show ?thesis unfolding get_opts_def by blast
qed

theorem ec_put_then_get_witness:
  "\<exists>st1 info' window stream st3.
     put_object rt_engine (Ok ()) (Ok ()) 7 rt_id rt_dir ''t'' ''b'' ''k'' 3 rope_read [[4, 5], [6, 7]] None rt_store =
       Some (Ok (rt_info\<lparr>oi_size := 3, oi_storage_class := Single\<rparr>), st1) \<and>
     get_opts rt_engine ''b'' ''k'' (Some rt_id) (Some (Suffix 2)) (\<lambda>a. (st1 a)\<lparr>dk_faults := (\<lambda>_. None)\<rparr>) = Some (Ok (info', window, stream), st3) \<and>
     oi_etag info' = ''e'' \<and> oi_size info' = 3 \<and> drain_stream (get_read rt_engine) [] stream = Some (Ok [5, 6])"
proof -
  obtain st1 where put: "put_object rt_engine (Ok ()) (Ok ()) 7 rt_id rt_dir ''t'' ''b'' ''k'' 3 rope_read [[4, 5], [6, 7]] None rt_store =
      Some (Ok (rt_info\<lparr>oi_size := 3, oi_storage_class := Single\<rparr>), st1)"
    and later: "\<And>a. a \<in> set [rt_addr 0, rt_addr 1] \<Longrightarrow> meta_fits (st1 a) ''b'' ''k'' \<and> dk_tree (st1 a) \<noteq> []" by (rule rt_put_large) (rule that)
  have r: "readable (set_size rt_engine) (parity_of rt_engine) {0, 1}" by (simp add: readable_def rt_cluster_def)
  have con: "rs_contract (set_size rt_engine - parity_of rt_engine) (parity_of rt_engine) (eg_rs_encode rt_engine) (eg_rs_decode rt_engine)"
    using rt_contract by (simp add: rt_cluster_def)
  have id: "length (replicate 16 (1 :: byte)) = 16" "rt_id = format_version_id_bytes (replicate 16 1)" by (simp_all add: rt_id_def)
  have dir: "rt_dir = format_data_dir_bytes (replicate 16 2)" by (simp add: rt_dir_def)
  have h: "\<forall>a. healthy (rt_store a)" using rt_healthy(1) by (simp add: rt_store_def)
  from ec_put_then_get [where U = "{0, 1}" and rng = "Some (Suffix 2)" and ?st2.0 = "\<lambda>a. (st1 a)\<lparr>dk_faults := (\<lambda>_. None)\<rparr>",
      OF rt_engine_fields(1) rt_codec_ok rt_engine_ok h rt_user_bucket id rt_dir_name(3) dir rt_dir_name(2) rope.byte_stream_axioms _ _ _ con put rt_set _ r] later
  show ?thesis using put by (simp add: rt_info_def requested_def Let_def)
qed

text \<open>
  C8: an erasure-coded PUT makes progress. If the bucket's record can be read, the drives of the set
  have no faults and room for the version (its paths are free, its metadata can be encoded), the coder
  keeps its contract and the source delivers the announced bytes, then the PUT succeeds and reports the
  body's etag, size and version.
\<close>

theorem ec_put_succeeds:
  assumes "eg_ops eg = local_backend mc grant fault" "codec_ok mc" "engine_ok eg" "0 < parity_of eg"
    and "n = set_size eg - parity_of eg" "m = parity_of eg" "rs_contract n m (eg_rs_encode eg) rs_decode"
    and "user_bucket b" "length c = 16" "data_dir = format_data_dir_bytes c" "data_dir \<noteq> []" "length c' = 16" "v = format_version_id_bytes c'"
    and "byte_stream rd ok content" "ok src" "sz \<le> length (content src)" "eg_inline_threshold eg < sz" "sz < 2 ^ 63"
    and "resolve_put_version_id eg fresh b st = Some (Ok v, st0)" "set_backends eg b k = Some (Ok backends)"
    and "shard_size sz n = Some shard" "etag = eg_md5_hex eg (take sz (content src))"
    and "\<forall>i < set_size eg. \<exists>enc. ec_room mc sid b k
      (with_per_disk_index (ec_fi b k sz shard etag now content_type v data_dir) (set_erasure eg (set_size eg)) (set_size eg) ! i) (st0 (backends ! i)) enc"
  shows "\<exists>st1. put_object eg (Ok ()) (Ok ()) now fresh data_dir sid b k sz rd src content_type st = Some (Ok
    \<lparr>oi_bucket = b, oi_key = k, oi_size = sz, oi_etag = etag, oi_storage_class = Single, oi_modified_ms = now, oi_content_type = content_type,
     oi_version_id = v, oi_is_delete_marker = False\<rparr>, st1)"
proof -
  obtain enc where enc: "\<And>i. i < set_size eg \<Longrightarrow> ec_room mc sid b k
      (with_per_disk_index (ec_fi b k sz shard etag now content_type v data_dir) (set_erasure eg (set_size eg)) (set_size eg) ! i) (st0 (backends ! i)) (enc i)"
    using assms(23) by metis
  show ?thesis by (rule ec_put_progress [where enc = enc, OF assms(1-22) enc]) auto
qed

theorem ec_put_succeeds_witness:
  "\<exists>st1. put_object rt_engine (Ok ()) (Ok ()) 7 rt_id rt_dir ''t'' ''b'' ''k'' 3 rope_read [[4, 5], [6, 7]] None rt_store = Some (Ok
    \<lparr>oi_bucket = ''b'', oi_key = ''k'', oi_size = 3, oi_etag = ''e'', oi_storage_class = Single, oi_modified_ms = 7, oi_content_type = None,
     oi_version_id = rt_id, oi_is_delete_marker = False\<rparr>, st1)"
proof (rule ec_put_succeeds [where sid = "''t''" and c' = "replicate 16 1" and content_type = None and now = 7 and b = "''b''" and k = "''k''", OF rt_engine_fields(1) rt_codec_ok rt_engine_ok
      rt_large_facts(1-4) rt_user_bucket rt_large_facts(5-9) rope.byte_stream_axioms rt_large_facts(10-13) rt_version rt_set rt_large_facts(14,15)])
  show "\<forall>i < set_size rt_engine. \<exists>enc. ec_room rt_codec ''t'' ''b'' ''k'' (with_per_disk_index (ec_fi ''b'' ''k'' 3 4 ''e'' 7 None rt_id rt_dir)
      (set_erasure rt_engine (set_size rt_engine)) (set_size rt_engine) ! i) (rt_read ([rt_addr 0, rt_addr 1] ! i)) enc"
    using rt_large_room by blast
qed

end
