(* ===== verification/Walk.thy ===== *)
theory Walk
  imports Object_Store
begin

text \<open>
  The walk of a volume, \<^verbatim>\<open>walk_dir_local_inner\<close> of \<^verbatim>\<open>local_fs.rs\<close>, ends: it calls itself only for an entry
  of the directory it has listed, so it is never deeper than the tree. The model bounds the depth of the
  calls, and the bound of \<open>walk_dir\<close> is never reached.
\<close>

definition same_tree :: "disk \<Rightarrow> disk \<Rightarrow> bool" where
  "same_tree d d' \<longleftrightarrow> dk_tree d' = dk_tree d"

interpretation unchanged: disk_preorder same_tree
  by unfold_locales (simp_all add: same_tree_def)

lemma unchanged_query: "keeps same_tree (query f)"
  by (auto simp: keeps_def same_tree_def query_def sys_def split: option.splits)

lemmas unchanged_calls = unchanged.keeps_combinators unchanged_query

lemma unchanged_require_vol: "\<not> is_system_vol v \<Longrightarrow> keeps same_tree (require_vol v)"
  unfolding require_vol_def fs_stat_def by (auto intro!: unchanged_calls split: sum.split node.split)

lemma unchanged_read_version: "\<not> is_system_vol v \<Longrightarrow> keeps same_tree (read_version mc v p vid rd)"
  unfolding read_version_def Let_def fs_read_def by (intro unchanged_calls unchanged_require_vol)

lemma unchanged_list_dir: "\<not> is_system_vol v \<Longrightarrow> keeps same_tree (list_dir v p n)"
  unfolding list_dir_def fs_read_dir_def by (auto intro!: unchanged_calls unchanged_require_vol split: sum.split)

lemma unchangedD: "keeps same_tree m \<Longrightarrow> m d = (r, d1) \<Longrightarrow> dk_tree d1 = dk_tree d"
  unfolding keeps_def same_tree_def by (metis snd_conv)

text \<open>Two walks of the children that agree give walks that agree.\<close>

lemma walk_entries_cong:
  assumes vol: "\<not> is_system_vol volume" and t: "dk_tree d = t"
    and agree: "\<And>name out d. name \<in> set names \<Longrightarrow> dk_tree d = t \<Longrightarrow>
      f (child_path dir name) out d = g (child_path dir name) out d \<and> dk_tree (snd (f (child_path dir name) out d)) = t"
  shows "walk_entries mc volume pf rec sa mk f dir names out d = walk_entries mc volume pf rec sa mk g dir names out d \<and>
    dk_tree (snd (walk_entries mc volume pf rec sa mk f dir names out d)) = t"
  using t agree
proof (induction names arbitrary: out d)
  case (Cons name names)
  let ?child = "child_path dir name"
  let ?w = "\<lambda>h. walk_entries mc volume pf rec sa mk h dir names"
  have "?w f o1 d1 = ?w g o1 d1 \<and> dk_tree (snd (?w f o1 d1)) = t" if "dk_tree d1 = t" for o1 d1
    by (rule Cons.IH [OF that]) (rule Cons.prems(2), simp_all)
  then have ih: "?w f o1 d1 = ?w g o1 d1" "dk_tree (snd (?w g o1 d1)) = t" if "dk_tree d1 = t" for o1 d1
    using that by metis+
  obtain r d1 where r: "read_version mc volume ?child None False d = (r, d1)" by fastforce
  have d1: "dk_tree d1 = t" using unchangedD [OF unchanged_read_version [OF vol] r] Cons.prems(1) by simp
  obtain s d2 where s: "f ?child out d1 = (s, d2)" "g ?child out d1 = (s, d2)" "dk_tree d2 = t"
    using Cons.prems(2) [of name d1 out] d1 by (cases "f ?child out d1") auto
  have next_entry: "then_do (f ?child out) (?w f) d1 = then_do (g ?child out) (?w g) d1 \<and> dk_tree (snd (then_do (f ?child out) (?w f) d1)) = t"
    using s ih [OF s(3)] by (cases s) (simp_all add: then_do_def)
  show ?case
  proof (cases "walk_full mk out \<or> walk_skip pf sa ?child")
    case True
    then show ?thesis using ih [OF Cons.prems(1)] Cons.prems(1) by (auto simp: Let_def ret_def)
  next
    case False
    show ?thesis
    proof (cases r)
      case (Inl e)
      then show ?thesis using False r next_entry ih [OF d1] by (cases e; cases rec) (simp_all add: Let_def try_do_def)
    next
      case (Inr fi)
      then show ?thesis using False r ih [OF d1] by (simp add: Let_def try_do_def)
    qed
  qed
qed (simp add: ret_def)

definition plain_tree :: "tree \<Rightarrow> bool" where
  "plain_tree t \<longleftrightarrow> (\<forall>(p, n) \<in> set t. \<forall>x \<in> set p. plain_name x)"

lemma fold_max_bound: "x \<in> set xs \<or> x \<le> a \<Longrightarrow> x \<le> fold max xs (a :: nat)"
proof (induction xs arbitrary: a)
  case (Cons y ys)
  then have "x \<in> set ys \<or> x \<le> max y a" by (simp only: set_simps insert_iff le_max_iff_disj) blast
  then show ?case using Cons.IH by (simp only: fold_simps)
qed simp

lemma depth_bound: "(p, n) \<in> set t \<Longrightarrow> length p \<le> tree_depth t"
  unfolding tree_depth_def by (rule fold_max_bound) force

lemma child_file_path:
  assumes "plain_name name"
  shows "file_path volume (child_path dir name) = file_path volume dir @ [name]"
  using assms segs_slash [of dir name] by (simp add: file_path_def child_path_def segs_plain)

lemma listed_child:
  assumes "list_dir volume dir 0 d = (Ok names, d1)" "name \<in> set names" "\<not> is_system_vol volume"
  shows "\<exists>n. (file_path volume dir @ [name], n) \<in> set (dk_tree d)"
proof -
  obtain d2 where v: "require_vol volume d = (Ok (), d2)" and r: "(case fs_read_dir (file_path volume dir) d2 of (r, d3) \<Rightarrow>
      (case r of Inr names \<Rightarrow> ret names | Inl e \<Rightarrow> if os_kind e = NotFound then ret [] else raise (io_of e)) d3) = (Ok names, d1)"
    using assms(1) by (auto simp: list_dir_def then_do_Ok try_do_def)
  have "dk_tree d2 = dk_tree d" using unchangedD [OF unchanged_require_vol [OF assms(3)] v] by simp
  moreover have "read_dir_at (dk_tree d2) (file_path volume dir) = Ok names"
    using r assms(2) by (auto simp: fs_read_dir_def ret_def raise_def split: prod.splits sum.splits if_splits dest: query_Ok)
  ultimately have "read_dir_at (dk_tree d) (file_path volume dir) = Ok names" by simp
  then obtain nd where "(case nd of Dir \<Rightarrow> Ok (children (dk_tree d) (file_path volume dir)) | File _ \<Rightarrow> Err ENOTDIR) = Ok names"
    unfolding read_dir_at_def and_then_eq_Ok by blast
  then have "name \<in> set (children (dk_tree d) (file_path volume dir))" using assms(2) by (cases nd) simp_all
  then obtain q n where "(q, n) \<in> set (dk_tree d)" "q \<noteq> []" "butlast q = file_path volume dir" "last q = name"
    by (auto simp: children_def map_filter_def split: if_splits)
  then show ?thesis by (metis append_butlast_last_id)
qed

lemma walk_inner_fuel:
  assumes "\<not> is_system_vol volume" "plain_tree t" "dk_tree d = t" "0 < n" "0 < m"
    and "tree_depth t < n + length (file_path volume dir)" "tree_depth t < m + length (file_path volume dir)"
  shows "walk_dir_inner n mc volume pf rec sa mk dir out d = walk_dir_inner m mc volume pf rec sa mk dir out d \<and>
    dk_tree (snd (walk_dir_inner n mc volume pf rec sa mk dir out d)) = t"
  using assms(3-7)
proof (induction n arbitrary: m dir out d)
  case (Suc n)
  obtain m' where m: "m = Suc m'" using Suc.prems(3) by (cases m) auto
  obtain r d1 where r: "list_dir volume dir 0 d = (r, d1)" by fastforce
  have d1: "dk_tree d1 = t" using unchangedD [OF unchanged_list_dir [OF assms(1)] r] Suc.prems(1) by simp
  let ?w = "\<lambda>n names. walk_entries mc volume pf rec sa mk (walk_dir_inner n mc volume pf rec sa mk) dir (sort names) out d1"
  have "?w n names = ?w m' names \<and> dk_tree (snd (?w n names)) = t" if names: "r = Ok names" for names
  proof (rule walk_entries_cong [OF assms(1) d1])
    fix name o1 and d2 :: disk
    assume "name \<in> set (sort names)" and d2: "dk_tree d2 = t"
    then obtain k where k: "(file_path volume dir @ [name], k) \<in> set t"
      using listed_child [of volume dir d names d1 name] r names assms(1) Suc.prems(1) by auto
    then have "plain_name name" using assms(2) by (fastforce simp: plain_tree_def)
    then have len: "length (file_path volume (child_path dir name)) = Suc (length (file_path volume dir))" by (simp add: child_file_path)
    have "Suc (length (file_path volume dir)) \<le> tree_depth t" using depth_bound [OF k] by simp
    then show "walk_dir_inner n mc volume pf rec sa mk (child_path dir name) o1 d2 = walk_dir_inner m' mc volume pf rec sa mk (child_path dir name) o1 d2 \<and>
        dk_tree (snd (walk_dir_inner n mc volume pf rec sa mk (child_path dir name) o1 d2)) = t"
      by (intro Suc.IH [OF d2]) (use Suc.prems(4,5) m len in simp_all)
  qed
  then have "?w n names = ?w m' names" "dk_tree (snd (?w m' names)) = t" if "r = Ok names" for names using that by metis+
  then show ?case using r d1 Suc.prems(1) m by (cases r) (simp_all add: then_do_def ret_def)
qed simp

text \<open>C34: The recursive walk of a volume ends.  The bound that the model puts on the depth of its calls, two more than the depth of the tree on
  the drive, is never reached: the walk with any larger bound has the same result, whatever calls of the operating system fail on the way.\<close>

theorem walk_dir_ends:
  assumes "\<not> is_system_vol volume" "plain_tree (dk_tree d)" "tree_depth (dk_tree d) + 2 \<le> fuel"
  shows "then_do (require_vol volume) (\<lambda>_. walk_dir_inner fuel mc volume prefix_filter recursive start_after max_keys base_dir []) d =
    walk_dir mc volume base_dir recursive prefix_filter start_after max_keys d"
proof -
  obtain r d1 where r: "require_vol volume d = (r, d1)" by fastforce
  have "dk_tree d1 = dk_tree d" using unchangedD [OF unchanged_require_vol [OF assms(1)] r] by simp
  then show ?thesis using walk_inner_fuel [OF assms(1,2), of d1 fuel "tree_depth (dk_tree d) + 2"] assms(3) r
    by (cases r) (simp_all add: walk_dir_def then_do_def)
qed

theorem walk_dir_ends_witness:
  "\<forall>mc. let d = \<lparr>dk_tree = [([''b''], Dir), ([''b'', ''x''], Dir), ([''b'', ''x'', ''y''], Dir)], dk_calls = 0, dk_faults = \<lambda>_. None, dk_names = \<lambda>_. []\<rparr> in
     tree_depth (dk_tree d) = 3 \<and>
     then_do (require_vol ''b'') (\<lambda>_. walk_dir_inner 100 mc ''b'' [] True None None [] []) d = walk_dir mc ''b'' [] True [] None None d"
  unfolding Let_def
proof (intro allI conjI)
  fix mc
  let ?d = "\<lparr>dk_tree = [([''b''], Dir), ([''b'', ''x''], Dir), ([''b'', ''x'', ''y''], Dir)], dk_calls = 0, dk_faults = \<lambda>_. None, dk_names = \<lambda>_. []\<rparr>"
  show depth: "tree_depth (dk_tree ?d) = 3" by (simp add: tree_depth_def)
  show "then_do (require_vol ''b'') (\<lambda>_. walk_dir_inner 100 mc ''b'' [] True None None [] []) ?d = walk_dir mc ''b'' [] True [] None None ?d"
    by (rule walk_dir_ends) (use depth in \<open>simp_all add: plain_tree_def plain_name_def is_system_vol_def STAGING_VOL_def MULTIPART_VOL_def SYSTEM_BUCKET_def\<close>)
qed

end
