(* ===== verification/Auth.thy ===== *)
theory Auth
  imports Object_Store
begin

text \<open>
  The authentication of requests, \<open>openlake_server/src/auth.rs\<close> and \<open>s3/middleware/sigv4.rs\<close>.

  The signing library (\<open>aws-sigv4\<close>), the calendar (\<open>time\<close>) and the hash are parameters: \<open>sign\<close> computes
  the signature of a request, \<open>sign_chunk\<close> that of one chunk of a body, \<open>parse_dt\<close> reads a timestamp.
  A request is given by what the code asks of it; a header is absent, not text, or text. Strings are
  sequences of UTF-8 bytes, and times are nanoseconds since the epoch.
\<close>

subsection \<open>Strings\<close>

text \<open>\<open>str::trim\<close> removes the characters with the property White\_Space, of one to three bytes.\<close>

definition white_space :: "string list" where
  "white_space = map (\<lambda>c. [c]) [CHR 0x09, CHR 0x0A, CHR 0x0B, CHR 0x0C, CHR 0x0D, CHR 0x20] @
     [[CHR 0xC2, CHR 0x85], [CHR 0xC2, CHR 0xA0], [CHR 0xE1, CHR 0x9A, CHR 0x80]] @
     map (\<lambda>n. [CHR 0xE2, CHR 0x80, char_of n]) ([0x80..<0x8B] @ [0xA8, 0xA9, 0xAF :: nat]) @
     [[CHR 0xE2, CHR 0x81, CHR 0x9F], [CHR 0xE3, CHR 0x80, CHR 0x80]]"

lemma white_space_ne [simp]: "[] \<notin> set white_space"
  by (auto simp: white_space_def)

function trim_start :: "string \<Rightarrow> string" where
  "trim_start s = (case find (\<lambda>w. prefix w s) white_space of None \<Rightarrow> s | Some w \<Rightarrow> trim_start (drop (length w) s))"
  by pat_completeness auto

termination
proof (relation "measure length")
  fix s w
  assume f: "find (\<lambda>w. prefix w s) white_space = Some w"
  then have "w \<in> set white_space" "prefix w s" by (auto simp: find_Some_iff)
  then have "w \<noteq> []" using white_space_ne by metis
  with \<open>prefix w s\<close> show "(drop (length w) s, s) \<in> measure length" by (cases w) (auto simp: prefix_def)
qed simp

declare trim_start.simps [simp del]

function trim_end :: "string \<Rightarrow> string" where
  "trim_end s = (case find (\<lambda>w. suffix w s) white_space of None \<Rightarrow> s | Some w \<Rightarrow> trim_end (take (length s - length w) s))"
  by pat_completeness auto

termination
proof (relation "measure length")
  fix s w
  assume f: "find (\<lambda>w. suffix w s) white_space = Some w"
  then have "w \<in> set white_space" "suffix w s" by (auto simp: find_Some_iff)
  then have "w \<noteq> []" using white_space_ne by metis
  with \<open>suffix w s\<close> show "(take (length s - length w) s, s) \<in> measure length" by (cases w) (auto simp: suffix_def)
qed simp

declare trim_end.simps [simp del]

definition utf8_trim :: "string \<Rightarrow> string" where
  "utf8_trim s = trim_end (trim_start s)"

definition strip_prefix :: "string \<Rightarrow> string \<Rightarrow> string option" where
  "strip_prefix p s = (if prefix p s then Some (drop (length p) s) else None)"

definition split_once :: "char \<Rightarrow> string \<Rightarrow> (string \<times> string) option" where
  "split_once c s = (case dropWhile (\<lambda>x. x \<noteq> c) s of [] \<Rightarrow> None | _ # rest \<Rightarrow> Some (takeWhile (\<lambda>x. x \<noteq> c) s, rest))"

text \<open>
  UTF-8: the length of the first character, or of the longest invalid start of one, as
  \<open>String::from_utf8_lossy\<close> takes them.
\<close>

definition byte_at :: "byte list \<Rightarrow> nat \<Rightarrow> nat" where
  "byte_at bs i = (if i < length bs then unat (bs ! i) else 0)"

definition utf8_cont :: "nat \<Rightarrow> bool" where
  "utf8_cont b \<longleftrightarrow> 0x80 \<le> b \<and> b \<le> 0xBF"

definition utf8_scan :: "byte list \<Rightarrow> bool \<times> nat" where
  "utf8_scan bs =
     (let b0 = byte_at bs 0; b1 = byte_at bs 1; b2 = byte_at bs 2; b3 = byte_at bs 3 in
      if b0 < 0x80 then (True, 1)
      else if 0xC2 \<le> b0 \<and> b0 \<le> 0xDF then (if utf8_cont b1 then (True, 2) else (False, 1))
      else if 0xE0 \<le> b0 \<and> b0 \<le> 0xEF
      then if (b0 = 0xE0 \<and> 0xA0 \<le> b1 \<and> b1 \<le> 0xBF) \<or> (0xE1 \<le> b0 \<and> b0 \<le> 0xEC \<and> utf8_cont b1) \<or>
              (b0 = 0xED \<and> 0x80 \<le> b1 \<and> b1 \<le> 0x9F) \<or> (0xEE \<le> b0 \<and> utf8_cont b1)
           then if utf8_cont b2 then (True, 3) else (False, 2)
           else (False, 1)
      else if 0xF0 \<le> b0 \<and> b0 \<le> 0xF4
      then if (b0 = 0xF0 \<and> 0x90 \<le> b1 \<and> b1 \<le> 0xBF) \<or> (0xF1 \<le> b0 \<and> b0 \<le> 0xF3 \<and> utf8_cont b1) \<or>
              (b0 = 0xF4 \<and> 0x80 \<le> b1 \<and> b1 \<le> 0x8F)
           then if utf8_cont b2 then if utf8_cont b3 then (True, 4) else (False, 3) else (False, 2)
           else (False, 1)
      else (False, 1))"

lemma utf8_scan_pos [simp]: "0 < snd (utf8_scan bs)"
  by (simp add: utf8_scan_def Let_def)

lemma scan_shorter: "(ok, k) = utf8_scan bs \<Longrightarrow> 0 < k"
  using utf8_scan_pos [of bs] by (metis snd_conv)

function utf8_lossy :: "byte list \<Rightarrow> byte list" where
  "utf8_lossy bs =
     (if bs = [] then []
      else let (ok, k) = utf8_scan bs in (if ok then take k bs else [0xEF, 0xBF, 0xBD]) @ utf8_lossy (drop k bs))"
  by pat_completeness auto

termination
  by (relation "measure length") (auto dest: scan_shorter)

function utf8_valid :: "byte list \<Rightarrow> bool" where
  "utf8_valid bs = (if bs = [] then True else let (ok, k) = utf8_scan bs in if ok then utf8_valid (drop k bs) else False)"
  by pat_completeness auto

termination
  by (relation "measure length") (auto dest: scan_shorter)

declare utf8_lossy.simps [simp del] utf8_valid.simps [simp del]

definition bytes_str :: "byte list \<Rightarrow> string" where
  "bytes_str bs = map (\<lambda>b. char_of (unat b)) bs"

subsection \<open>State and errors\<close>

definition ALGORITHM :: string where
  "ALGORITHM = ''AWS4-HMAC-SHA256''"

definition SERVICE :: string where
  "SERVICE = ''s3''"

definition NANOS :: nat where
  "NANOS = 10 ^ 9"

definition MAX_CLOCK_SKEW :: nat where
  "MAX_CLOCK_SKEW = 15 * 60 * NANOS"

record auth_state =
  au_region :: string
  au_keys :: "string \<rightharpoonup> string"

definition auth_state_new :: "string \<Rightarrow> (string \<times> string) list \<Rightarrow> auth_state" where
  "auth_state_new region creds = \<lparr>au_region = region, au_keys = fold (\<lambda>(access_key, secret_key) keys. keys(access_key \<mapsto> secret_key)) creds Map.empty\<rparr>"

definition secret_for :: "auth_state \<Rightarrow> string \<Rightarrow> string option" where
  "secret_for au access_key = au_keys au access_key"

datatype auth_error =
    MissingAuth
  | MalformedAuth string
  | MissingDate
  | BadDate string
  | RequestTimeSkewed
  | MissingContentSha
  | UnsupportedContentSha string
  | InvalidAccessKeyId string
  | SignatureMismatch
  | RegionMismatch string string
  | BadService string
  | MissingDecodedContentLength
  | ChunkSignatureMismatch
  | Signer string
  | BadAlgorithm string
  | MalformedPresigned string
  | BadExpires nat
  | PresignedExpired

fun show_auth_error :: "auth_error \<Rightarrow> string" where
  "show_auth_error MissingAuth = ''missing Authorization header''"
| "show_auth_error (MalformedAuth m) = ''malformed Authorization header: '' @ m"
| "show_auth_error MissingDate = ''missing x-amz-date''"
| "show_auth_error (BadDate m) = ''malformed x-amz-date: '' @ m"
| "show_auth_error RequestTimeSkewed = ''request timestamp outside allowed 15-minute skew''"
| "show_auth_error MissingContentSha = ''missing x-amz-content-sha256''"
| "show_auth_error (UnsupportedContentSha v) = ''unsupported x-amz-content-sha256 value: '' @ v"
| "show_auth_error (InvalidAccessKeyId k) = ''access key '' @ k @ '' is not recognized''"
| "show_auth_error SignatureMismatch = ''signature mismatch''"
| "show_auth_error (RegionMismatch req server) =
     ''scope region '' @ debug_str req @ '' does not match server region '' @ debug_str server"
| "show_auth_error (BadService v) = ''scope service '' @ debug_str v @ '' is not '' @ debug_str SERVICE"
| "show_auth_error MissingDecodedContentLength = ''missing x-amz-decoded-content-length for streaming body''"
| "show_auth_error ChunkSignatureMismatch = ''chunk signature mismatch''"
| "show_auth_error (Signer m) = ''internal signer error: '' @ m"
| "show_auth_error (BadAlgorithm a) = ''presigned URL X-Amz-Algorithm must be AWS4-HMAC-SHA256, got '' @ debug_str a"
| "show_auth_error (MalformedPresigned m) = ''malformed presigned URL: '' @ m"
| "show_auth_error (BadExpires n) = ''presigned URL X-Amz-Expires '' @ show_nat n @ '' out of range (1..=604800)''"
| "show_auth_error PresignedExpired = ''presigned URL has expired''"

fun status_and_code :: "auth_error \<Rightarrow> nat \<times> string" where
  "status_and_code MissingAuth = (403, ''AccessDenied'')"
| "status_and_code (MalformedAuth _) = (400, ''AuthorizationHeaderMalformed'')"
| "status_and_code MissingDate = (400, ''AuthorizationHeaderMalformed'')"
| "status_and_code (BadDate _) = (400, ''AuthorizationHeaderMalformed'')"
| "status_and_code RequestTimeSkewed = (403, ''RequestTimeTooSkewed'')"
| "status_and_code MissingContentSha = (400, ''MissingContentSHA256'')"
| "status_and_code (UnsupportedContentSha _) = (400, ''InvalidRequest'')"
| "status_and_code (InvalidAccessKeyId _) = (403, ''InvalidAccessKeyId'')"
| "status_and_code SignatureMismatch = (403, ''SignatureDoesNotMatch'')"
| "status_and_code (RegionMismatch _ _) = (400, ''AuthorizationHeaderMalformed'')"
| "status_and_code (BadService _) = (400, ''AuthorizationHeaderMalformed'')"
| "status_and_code MissingDecodedContentLength = (400, ''InvalidRequest'')"
| "status_and_code ChunkSignatureMismatch = (403, ''SignatureDoesNotMatch'')"
| "status_and_code (Signer _) = (500, ''InternalError'')"
| "status_and_code (BadAlgorithm _) = (400, ''InvalidRequest'')"
| "status_and_code (MalformedPresigned _) = (400, ''AuthorizationQueryParametersError'')"
| "status_and_code (BadExpires _) = (400, ''AuthorizationQueryParametersError'')"
| "status_and_code PresignedExpired = (403, ''AccessDenied'')"

subsection \<open>The Authorization header\<close>

record parsed_auth =
  pa_access_key :: string
  pa_scope_date :: string
  pa_scope_region :: string
  pa_scope_service :: string
  pa_signed_headers :: "string list"
  pa_signature :: string

definition auth_piece :: "string \<Rightarrow> string option \<times> string option \<times> string option \<Rightarrow> string option \<times> string option \<times> string option" where
  "auth_piece piece found =
     (let piece = utf8_trim piece; (credential, signed_headers, signature) = found in
      case strip_prefix ''Credential='' piece of
        Some v \<Rightarrow> (Some v, signed_headers, signature)
      | None \<Rightarrow>
          (case strip_prefix ''SignedHeaders='' piece of
             Some v \<Rightarrow> (credential, Some v, signature)
           | None \<Rightarrow>
               (case strip_prefix ''Signature='' piece of
                  Some v \<Rightarrow> (credential, signed_headers, Some v)
                | None \<Rightarrow> found)))"

definition parse_scope :: "auth_error \<Rightarrow> string \<Rightarrow> (string \<times> string \<times> string \<times> string, auth_error) result" where
  "parse_scope shape_error credential =
     (case split_on CHR ''/'' [] credential of
        [access_key, scope_date, scope_region, scope_service, t] \<Rightarrow>
          if t \<noteq> ''aws4_request'' then Err shape_error else Ok (access_key, scope_date, scope_region, scope_service)
      | _ \<Rightarrow> Err shape_error)"

definition parse_signed_headers :: "auth_error \<Rightarrow> string \<Rightarrow> (string list, auth_error) result" where
  "parse_signed_headers empty_error signed_headers =
     (let headers = map to_ascii_lowercase (filter (\<lambda>h. h \<noteq> []) (split_on CHR '';'' [] signed_headers)) in
      if headers = [] then Err empty_error else Ok headers)"

definition parse_authorization :: "string \<Rightarrow> (parsed_auth, auth_error) result" where
  "parse_authorization value =
     and_then (ok_or (MalformedAuth ''expected AWS4-HMAC-SHA256 algorithm'') (strip_prefix ALGORITHM value)) (\<lambda>rest.
     let (credential, signed_headers, signature) = fold auth_piece (split_on CHR '','' [] (trim_start rest)) (None, None, None) in
     and_then (ok_or (MalformedAuth ''Credential field missing'') credential) (\<lambda>credential.
     and_then (ok_or (MalformedAuth ''SignedHeaders field missing'') signed_headers) (\<lambda>signed_headers.
     and_then (ok_or (MalformedAuth ''Signature field missing'') signature) (\<lambda>signature.
     and_then (parse_scope (MalformedAuth ''Credential scope has wrong shape'') credential) (\<lambda>(access_key, scope_date, scope_region, scope_service).
     and_then (parse_signed_headers (MalformedAuth ''SignedHeaders must list >=1 header'') signed_headers) (\<lambda>headers.
       Ok \<lparr>pa_access_key = access_key, pa_scope_date = scope_date, pa_scope_region = scope_region, pa_scope_service = scope_service,
           pa_signed_headers = headers, pa_signature = signature\<rparr>))))))"

subsection \<open>Times\<close>

definition parse_amz_date :: "(string \<Rightarrow> (int, string) result) \<Rightarrow> string \<Rightarrow> (nat, auth_error) result" where
  "parse_amz_date parse_dt s =
     and_then (map_err (\<lambda>e. BadDate (debug_str s @ '': '' @ e)) (parse_dt s)) (\<lambda>unix.
       if unix < 0 then Err (BadDate (debug_str s @ '': pre-epoch'')) else Ok (nat unix * NANOS))"

definition check_skew :: "nat \<Rightarrow> nat \<Rightarrow> (unit, auth_error) result" where
  "check_skew now request_time =
     (let skew = (if request_time \<le> now then now - request_time else request_time - now) in
      if skew > MAX_CLOCK_SKEW then Err RequestTimeSkewed else Ok ())"

subsection \<open>Requests and signatures\<close>

datatype signable_body = UnsignedPayload | Precomputed string

record http_request =
  rq_method :: string
  rq_path :: string
  rq_query :: "string option"
  rq_path_and_query :: "string option"
  rq_header :: "string \<Rightarrow> string option option"

text \<open>What is signed; \<open>sr_expires\<close> is there when the signature goes into the query.\<close>

record sign_request =
  sr_method :: string
  sr_uri :: string
  sr_headers :: "(string \<times> string) list"
  sr_body :: signable_body
  sr_access_key :: string
  sr_secret :: string
  sr_region :: string
  sr_time :: nat
  sr_expires :: "nat option"

datatype signer_error = BuildParams string | BuildRequest string | SignError string

type_synonym signer = "sign_request \<Rightarrow> (string, signer_error) result"

fun show_signer_error :: "signer_error \<Rightarrow> string" where
  "show_signer_error (BuildParams e) = ''build signing params: '' @ e"
| "show_signer_error (BuildRequest e) = ''build signable request: '' @ e"
| "show_signer_error (SignError e) = ''sign: '' @ e"

definition constant_time_eq :: "byte list \<Rightarrow> byte list \<Rightarrow> bool" where
  "constant_time_eq a b = (length a = length b \<and> foldl (\<lambda>diff (x, y). diff OR (x XOR y)) 0 (zip a b) = 0)"

definition filtered_headers :: "http_request \<Rightarrow> string list \<Rightarrow> (string \<times> string) list" where
  "filtered_headers rq signed_headers =
     List.map_filter (\<lambda>name. case rq_header rq name of Some (Some value) \<Rightarrow> Some (name, value) | _ \<Rightarrow> None) signed_headers"

definition check_signature :: "signer \<Rightarrow> sign_request \<Rightarrow> string \<Rightarrow> (unit, auth_error) result" where
  "check_signature sign sr signature =
     and_then (map_err (\<lambda>e. Signer (show_signer_error e)) (sign sr)) (\<lambda>output.
       if constant_time_eq (str_bytes output) (str_bytes signature) then Ok () else Err SignatureMismatch)"

definition verify_seed :: "signer \<Rightarrow> http_request \<Rightarrow> string \<Rightarrow> parsed_auth \<Rightarrow> string \<Rightarrow> string \<Rightarrow> nat \<Rightarrow> signable_body
    \<Rightarrow> (unit, auth_error) result" where
  "verify_seed sign rq path_and_query parsed secret server_region request_time body =
     (if pa_scope_region parsed \<noteq> server_region then Err (RegionMismatch (pa_scope_region parsed) server_region)
      else if pa_scope_service parsed \<noteq> SERVICE then Err (BadService (pa_scope_service parsed))
      else check_signature sign
             \<lparr>sr_method = rq_method rq, sr_uri = path_and_query, sr_headers = filtered_headers rq (pa_signed_headers parsed), sr_body = body,
              sr_access_key = pa_access_key parsed, sr_secret = secret, sr_region = server_region, sr_time = request_time, sr_expires = None\<rparr>
             (pa_signature parsed))"

subsection \<open>Presigned URLs\<close>

record presigned_query = parsed_auth +
  pq_request_time :: nat
  pq_expires :: nat

definition pair_key :: "string \<Rightarrow> string" where
  "pair_key pair = (case split_once CHR ''='' pair of Some (k, _) \<Rightarrow> k | None \<Rightarrow> pair)"

definition has_presigned_query_params :: "http_request \<Rightarrow> bool" where
  "has_presigned_query_params rq =
     (case rq_query rq of
        None \<Rightarrow> False
      | Some q \<Rightarrow> list_ex (\<lambda>pair. to_ascii_lowercase (pair_key pair) = to_ascii_lowercase ''X-Amz-Algorithm'') (split_on CHR ''&'' [] q))"

definition hex_nibble :: "byte \<Rightarrow> byte option" where
  "hex_nibble b =
     (if 48 \<le> b \<and> b \<le> 57 then Some (b - 48)
      else if 97 \<le> b \<and> b \<le> 102 then Some (b - 97 + 10)
      else if 65 \<le> b \<and> b \<le> 70 then Some (b - 65 + 10)
      else None)"

fun percent_bytes :: "byte list \<Rightarrow> byte list" where
  "percent_bytes (a # b # c # bs) =
     (if a = 37
      then case (hex_nibble b, hex_nibble c) of
             (Some hi, Some lo) \<Rightarrow> (push_bit 4 hi OR lo) # percent_bytes bs
           | _ \<Rightarrow> a # percent_bytes (b # c # bs)
      else a # percent_bytes (b # c # bs))"
| "percent_bytes bs = bs"

definition percent_decode :: "string \<Rightarrow> string" where
  "percent_decode s = bytes_str (utf8_lossy (percent_bytes (str_bytes s)))"

text \<open>The values of the pairs, decoded; for a repeated key the last one counts.\<close>

definition query_pairs :: "string \<Rightarrow> (string \<times> string) list" where
  "query_pairs raw_query = map (\<lambda>(k, v). (k, percent_decode v)) (List.map_filter (split_once CHR ''='') (split_on CHR ''&'' [] raw_query))"

definition query_field :: "(string \<times> string) list \<Rightarrow> string \<Rightarrow> (string, auth_error) result" where
  "query_field pairs k = ok_or (MalformedPresigned (k @ '' missing'')) (map_of (rev pairs) k)"

definition parse_presigned_query :: "(string \<Rightarrow> (int, string) result) \<Rightarrow> http_request \<Rightarrow> (presigned_query, auth_error) result" where
  "parse_presigned_query parse_dt rq =
     and_then (ok_or (MalformedPresigned ''missing query string'') (rq_query rq)) (\<lambda>raw_query.
     let pairs = query_pairs raw_query in
     and_then (query_field pairs ''X-Amz-Algorithm'') (\<lambda>algorithm.
     and_then (query_field pairs ''X-Amz-Credential'') (\<lambda>credential.
     and_then (query_field pairs ''X-Amz-Date'') (\<lambda>date.
     and_then (query_field pairs ''X-Amz-Expires'') (\<lambda>expires_raw.
     and_then (query_field pairs ''X-Amz-SignedHeaders'') (\<lambda>signed_hdrs.
     and_then (query_field pairs ''X-Amz-Signature'') (\<lambda>signature.
     if algorithm \<noteq> ALGORITHM then Err (BadAlgorithm algorithm)
     else and_then (ok_or (MalformedPresigned ''X-Amz-Expires not an integer'') (parse_uint 64 expires_raw)) (\<lambda>expires.
     if expires = 0 \<or> expires > 604800 then Err (BadExpires expires)
     else and_then (parse_scope (MalformedPresigned ''X-Amz-Credential scope has wrong shape'') credential) (\<lambda>(access_key, scope_date, scope_region, scope_service).
     and_then (parse_signed_headers (MalformedPresigned ''X-Amz-SignedHeaders must list >=1 header'') signed_hdrs) (\<lambda>headers.
     and_then (parse_amz_date parse_dt date) (\<lambda>request_time.
       Ok \<lparr>pa_access_key = access_key, pa_scope_date = scope_date, pa_scope_region = scope_region, pa_scope_service = scope_service,
           pa_signed_headers = headers, pa_signature = signature, pq_request_time = request_time, pq_expires = expires\<rparr>)))))))))))"

fun join_str :: "string \<Rightarrow> string list \<Rightarrow> string" where
  "join_str sep [] = []"
| "join_str sep [s] = s"
| "join_str sep (s # t # ss) = s @ sep @ join_str sep (t # ss)"

definition strip_amz_query_params :: "http_request \<Rightarrow> string" where
  "strip_amz_query_params rq =
     (case rq_query rq of
        None \<Rightarrow> rq_path rq
      | Some q \<Rightarrow>
          let kept = filter (\<lambda>pair. \<not> prefix ''X-Amz-'' (pair_key pair) \<and> \<not> prefix ''x-amz-'' (pair_key pair)) (split_on CHR ''&'' [] q) in
          if kept = [] then rq_path rq else rq_path rq @ ''?'' @ join_str ''&'' kept)"

definition verify_presigned :: "signer \<Rightarrow> nat \<Rightarrow> http_request \<Rightarrow> presigned_query \<Rightarrow> string \<Rightarrow> string \<Rightarrow> (unit, auth_error) result" where
  "verify_presigned sign now rq parsed secret server_region =
     (if pa_scope_region parsed \<noteq> server_region then Err (RegionMismatch (pa_scope_region parsed) server_region)
      else if pa_scope_service parsed \<noteq> SERVICE then Err (BadService (pa_scope_service parsed))
      else if length (pa_scope_date parsed) < 8 \<or> length (pa_scope_date parsed) > 8
      then Err (MalformedPresigned ''X-Amz-Credential date must be YYYYMMDD'')
      else if now \<le> pq_request_time parsed \<and> pq_request_time parsed - now > MAX_CLOCK_SKEW then Err RequestTimeSkewed
      else if now > pq_request_time parsed + pq_expires parsed * NANOS then Err PresignedExpired
      else check_signature sign
             \<lparr>sr_method = rq_method rq, sr_uri = strip_amz_query_params rq, sr_headers = filtered_headers rq (pa_signed_headers parsed),
              sr_body = UnsignedPayload, sr_access_key = pa_access_key parsed, sr_secret = secret, sr_region = server_region,
              sr_time = pq_request_time parsed, sr_expires = Some (pq_expires parsed)\<rparr>
             (pa_signature parsed))"

subsection \<open>The check of every request\<close>

definition SHA_UNSIGNED :: string where
  "SHA_UNSIGNED = ''UNSIGNED-PAYLOAD''"

definition SHA_STREAMING :: string where
  "SHA_STREAMING = ''STREAMING-AWS4-HMAC-SHA256-PAYLOAD''"

definition SHA_STREAMING_TRAILER :: string where
  "SHA_STREAMING_TRAILER = ''STREAMING-AWS4-HMAC-SHA256-PAYLOAD-TRAILER''"

definition SHA_STREAMING_UNSIGNED_TRAILER :: string where
  "SHA_STREAMING_UNSIGNED_TRAILER = ''STREAMING-UNSIGNED-PAYLOAD-TRAILER''"

definition path_and_query :: "http_request \<Rightarrow> string" where
  "path_and_query rq = (case rq_path_and_query rq of Some p \<Rightarrow> p | None \<Rightarrow> rq_path rq)"

definition is_hex_sha256 :: "string \<Rightarrow> bool" where
  "is_hex_sha256 s = (length s = 64 \<and> list_all (\<lambda>c. hex_val c \<noteq> None) s)"

definition signable_body_from_headers :: "http_request \<Rightarrow> (signable_body, auth_error) result" where
  "signable_body_from_headers rq =
     (case rq_header rq ''x-amz-content-sha256'' of
        None \<Rightarrow> Ok UnsignedPayload
      | Some None \<Rightarrow> Err (UnsupportedContentSha ''non-ASCII'')
      | Some (Some raw) \<Rightarrow>
          if raw = SHA_UNSIGNED then Ok UnsignedPayload
          else if raw = SHA_STREAMING then Ok (Precomputed SHA_STREAMING)
          else if raw = SHA_STREAMING_TRAILER then Ok (Precomputed SHA_STREAMING_TRAILER)
          else if raw = SHA_STREAMING_UNSIGNED_TRAILER then Ok (Precomputed SHA_STREAMING_UNSIGNED_TRAILER)
          else if is_hex_sha256 raw then Ok (Precomputed raw)
          else Err (UnsupportedContentSha raw))"

definition presigned_check :: "signer \<Rightarrow> (string \<Rightarrow> (int, string) result) \<Rightarrow> nat \<Rightarrow> auth_state \<Rightarrow> http_request \<Rightarrow> (unit, auth_error) result" where
  "presigned_check sign parse_dt now au rq =
     and_then (parse_presigned_query parse_dt rq) (\<lambda>parsed.
     and_then (ok_or (InvalidAccessKeyId (pa_access_key parsed)) (secret_for au (pa_access_key parsed))) (\<lambda>secret.
       verify_presigned sign now rq parsed secret (au_region au)))"

definition header_check :: "signer \<Rightarrow> (string \<Rightarrow> (int, string) result) \<Rightarrow> nat \<Rightarrow> auth_state \<Rightarrow> http_request \<Rightarrow> (unit, auth_error) result" where
  "header_check sign parse_dt now au rq =
     and_then (ok_or MissingAuth (rq_header rq ''authorization'')) (\<lambda>auth_text.
     and_then (ok_or (MalformedAuth ''Authorization not ASCII'') auth_text) (\<lambda>auth_value.
     and_then (parse_authorization auth_value) (\<lambda>parsed.
     and_then (ok_or MissingDate (rq_header rq ''x-amz-date'')) (\<lambda>date_text.
     and_then (ok_or (BadDate ''non-ASCII'') date_text) (\<lambda>amz_date.
     and_then (parse_amz_date parse_dt amz_date) (\<lambda>request_time.
     and_then (check_skew now request_time) (\<lambda>_.
     if length amz_date < 8 \<or> pa_scope_date parsed \<noteq> take 8 amz_date
     then Err (MalformedAuth ''scope date does not match x-amz-date'')
     else and_then (ok_or (InvalidAccessKeyId (pa_access_key parsed)) (secret_for au (pa_access_key parsed))) (\<lambda>secret.
     and_then (signable_body_from_headers rq) (\<lambda>body.
       verify_seed sign rq (path_and_query rq) parsed secret (au_region au) request_time body)))))))))"

definition run_check :: "signer \<Rightarrow> (string \<Rightarrow> (int, string) result) \<Rightarrow> nat \<Rightarrow> auth_state \<Rightarrow> http_request \<Rightarrow> (unit, auth_error) result" where
  "run_check sign parse_dt now au rq =
     (if rq_header rq ''authorization'' = None \<and> has_presigned_query_params rq
      then presigned_check sign parse_dt now au rq else header_check sign parse_dt now au rq)"

subsection \<open>Comparison of signatures\<close>

lemma xor_zero: "a XOR b = 0 \<longleftrightarrow> a = (b :: byte)"
proof -
  have "a = (a XOR b) XOR b" by (simp add: xor.assoc)
  then show ?thesis by (metis xor_self_eq xor.left_neutral)
qed

lemma diff_zero: "foldl (\<lambda>diff (x, y). diff OR (x XOR y)) (d :: byte) zs = 0 \<longleftrightarrow> d = 0 \<and> (\<forall>(x, y) \<in> set zs. x = y)"
  by (induction zs arbitrary: d) (auto simp: or_eq_0_iff xor_zero)

lemma constant_time_eq_iff: "constant_time_eq a b \<longleftrightarrow> a = b"
  unfolding constant_time_eq_def diff_zero list.rel_eq [symmetric] list_all2_iff by simp

lemma str_bytes_inject [simp]: "str_bytes s = str_bytes t \<longleftrightarrow> s = t"
proof -
  have "inj (\<lambda>c :: char. word_of_nat (of_char c) :: byte)"
  proof (rule injI)
    fix c d :: char
    assume "(word_of_nat (of_char c) :: byte) = word_of_nat (of_char d)"
    then have "unat (word_of_nat (of_char c) :: byte) = unat (word_of_nat (of_char d) :: byte)" by simp
    then have "(of_char c :: nat) = of_char d" by (simp add: unat_of_nat take_bit_eq_mod)
    then show "c = d" by simp
  qed
  then show ?thesis unfolding str_bytes_def by (rule inj_map_eq_map)
qed

lemma check_signature_Ok: "check_signature sign sr signature = Ok () \<longleftrightarrow> sign sr = Ok signature"
  by (auto simp: check_signature_def constant_time_eq_iff and_then_eq_Ok map_err_eq_Ok split: if_splits)

subsection \<open>The canonical header\<close>

definition graphic :: "char \<Rightarrow> bool" where
  "graphic c \<longleftrightarrow> (0x21 :: nat) \<le> of_char c \<and> of_char c \<le> (0x7E :: nat)"

definition auth_token :: "string \<Rightarrow> bool" where
  "auth_token s \<longleftrightarrow> s \<noteq> [] \<and> list_all (\<lambda>c. graphic c \<and> c \<notin> {CHR ''/'', CHR '','', CHR '';''}) s"

text \<open>The header that a client writes for its access key, scope, signed headers and signature.\<close>

definition canonical_auth :: "parsed_auth \<Rightarrow> string" where
  "canonical_auth p = ALGORITHM @ '' Credential='' @
     join_str ''/'' [pa_access_key p, pa_scope_date p, pa_scope_region p, pa_scope_service p, ''aws4_request''] @
     '', SignedHeaders='' @ join_str '';'' (pa_signed_headers p) @ '', Signature='' @ pa_signature p"

definition auth_fields_ok :: "parsed_auth \<Rightarrow> bool" where
  "auth_fields_ok p \<longleftrightarrow> list_all auth_token [pa_access_key p, pa_scope_date p, pa_scope_region p, pa_scope_service p, pa_signature p] \<and>
     pa_signed_headers p \<noteq> [] \<and> list_all (\<lambda>h. auth_token h \<and> to_ascii_lowercase h = h) (pa_signed_headers p)"

lemma ws_ends: "w \<in> set white_space \<Longrightarrow> w \<noteq> [] \<and> \<not> graphic (hd w) \<and> \<not> graphic (last w)"
  by (auto simp: white_space_def graphic_def)

lemma trim_start_graphic: "graphic c \<Longrightarrow> trim_start (c # s) = c # s"
proof -
  assume "graphic c"
  then have "find (\<lambda>w. prefix w (c # s)) white_space = None" using ws_ends by (fastforce simp: find_None_iff prefix_Cons)
  then show ?thesis by (subst trim_start.simps) simp
qed

lemma trim_start_space: "trim_start (CHR '' '' # s) = trim_start s"
proof -
  have "find (\<lambda>w. prefix w (CHR '' '' # s)) white_space = Some [CHR '' '']"
    by (simp add: white_space_def)
  then show ?thesis by (subst trim_start.simps) simp
qed

lemma trim_end_graphic: "graphic c \<Longrightarrow> trim_end (s @ [c]) = s @ [c]"
proof -
  assume c: "graphic c"
  have "\<not> suffix w (s @ [c])" if "w \<in> set white_space" for w
    using ws_ends [OF that] c by (cases w rule: rev_cases) (auto simp: suffix_def)
  then have "find (\<lambda>w. suffix w (s @ [c])) white_space = None" by (simp add: find_None_iff)
  then show ?thesis by (subst trim_end.simps) simp
qed

lemma trim_piece:
  assumes "graphic c" "s = c # t" "s = u @ [d]" "graphic d"
  shows "utf8_trim s = s" "utf8_trim (CHR '' '' # s) = s"
proof -
  have "trim_start s = s" using trim_start_graphic assms(1,2) by simp
  moreover have "trim_end s = s" using trim_end_graphic assms(3,4) by simp
  ultimately show "utf8_trim s = s" "utf8_trim (CHR '' '' # s) = s" by (simp_all add: utf8_trim_def trim_start_space)
qed

lemma split_on_free: "c \<notin> set s \<Longrightarrow> split_on c acc s = [rev acc @ s]"
  by (induction s arbitrary: acc) auto

lemma split_join:
  assumes "ss \<noteq> []" "\<forall>s \<in> set ss. c \<notin> set s"
  shows "split_on c [] (join_str [c] ss) = ss"
  using assms
proof (induction "[c]" ss rule: join_str.induct)
  case (3 s t ss)
  then have "split_on c [] (s @ c # join_str [c] (t # ss)) = [s] @ (t # ss)" by (simp add: split_on_append split_on_free)
  then show ?case by simp
qed (auto simp: split_on_free)

lemma set_join: "set (join_str sep ss) \<subseteq> set sep \<union> \<Union> (set ` set ss)"
  by (induction sep ss rule: join_str.induct) auto

lemma token_graphic: "auth_token s \<Longrightarrow> c \<in> set s \<Longrightarrow> graphic c" "auth_token s \<Longrightarrow> CHR '','' \<notin> set s" "auth_token s \<Longrightarrow> CHR ''/'' \<notin> set s"
  "auth_token s \<Longrightarrow> CHR '';'' \<notin> set s" "auth_token s \<Longrightarrow> s \<noteq> []"
  by (auto simp: auth_token_def list_all_iff)

lemma last_graphic:
  assumes "\<forall>c \<in> set s. graphic c" "s \<noteq> []"
  obtains u d where "s = u @ [d]" "graphic d"
  using assms by (cases s rule: rev_cases) auto

lemma join_graphic:
  assumes "\<forall>s \<in> set ss. auth_token s" "graphic c" "ss \<noteq> []"
  shows "\<forall>d \<in> set (join_str [c] ss). graphic d" "join_str [c] ss \<noteq> []"
proof -
  show "\<forall>d \<in> set (join_str [c] ss). graphic d" using set_join [of "[c]" ss] assms token_graphic(1) by auto
  show "join_str [c] ss \<noteq> []" using assms token_graphic(5) by (induction "[c]" ss rule: join_str.induct) auto
qed

lemma auth_pieces:
  assumes "\<forall>d \<in> set v. graphic d" "v \<noteq> []"
  shows "auth_piece (''Credential='' @ v) (a, b, c) = (Some v, b, c)" "auth_piece ('' SignedHeaders='' @ v) (a, b, c) = (a, Some v, c)"
    "auth_piece ('' Signature='' @ v) (a, b, c) = (a, b, Some v)"
proof -
  obtain u d where u: "v = u @ [d]" "graphic d" by (rule last_graphic [OF assms])
  have g: "graphic (CHR ''C'')" "graphic (CHR ''S'')" by (simp_all add: graphic_def)
  have t: "utf8_trim (''Credential='' @ v) = ''Credential='' @ v" "utf8_trim ('' SignedHeaders='' @ v) = ''SignedHeaders='' @ v"
    "utf8_trim ('' Signature='' @ v) = ''Signature='' @ v"
    using trim_piece(1) [OF g(1), of "''Credential='' @ v" "''redential='' @ v" "''Credential='' @ u" d]
      trim_piece(2) [OF g(2), of "''SignedHeaders='' @ v" "''ignedHeaders='' @ v" "''SignedHeaders='' @ u" d]
      trim_piece(2) [OF g(2), of "''Signature='' @ v" "''ignature='' @ v" "''Signature='' @ u" d] u
    by simp_all
  show "auth_piece (''Credential='' @ v) (a, b, c) = (Some v, b, c)" "auth_piece ('' SignedHeaders='' @ v) (a, b, c) = (a, Some v, c)"
    "auth_piece ('' Signature='' @ v) (a, b, c) = (a, b, Some v)"
    unfolding auth_piece_def Let_def t by (simp_all add: strip_prefix_def)
qed

lemma split_three: "c \<notin> set u \<Longrightarrow> c \<notin> set v \<Longrightarrow> c \<notin> set w \<Longrightarrow> split_on c [] (u @ c # v @ c # w) = [u, v, w]"
  by (simp add: split_on_append split_on_free)

lemma join_comma_free: "\<forall>s \<in> set ss. auth_token s \<Longrightarrow> c \<noteq> CHR '','' \<Longrightarrow> CHR '','' \<notin> set (join_str [c] ss)"
  using set_join [of "[c]" ss] token_graphic(2) by auto

text \<open>The loop over the comma-separated pieces finds the three parts, whatever text free of commas and blanks they are.\<close>

lemma fold_auth_pieces:
  assumes cred: "\<forall>d \<in> set cred. graphic d" "cred \<noteq> []" "CHR '','' \<notin> set cred"
    and hdrs: "\<forall>d \<in> set hdrs. graphic d" "hdrs \<noteq> []" "CHR '','' \<notin> set hdrs"
    and sig: "\<forall>d \<in> set sig. graphic d" "sig \<noteq> []" "CHR '','' \<notin> set sig"
  shows "fold auth_piece (split_on CHR '','' [] (''Credential='' @ cred @ '', SignedHeaders='' @ hdrs @ '', Signature='' @ sig)) (None, None, None) =
    (Some cred, Some hdrs, Some sig)"
proof -
  have free: "CHR '','' \<notin> set (''Credential='' @ cred)" "CHR '','' \<notin> set ('' SignedHeaders='' @ hdrs)" "CHR '','' \<notin> set ('' Signature='' @ sig)"
    using cred(3) hdrs(3) sig(3) by simp_all
  have "split_on CHR '','' [] ((''Credential='' @ cred) @ CHR '','' # ('' SignedHeaders='' @ hdrs) @ CHR '','' # ('' Signature='' @ sig)) =
      [''Credential='' @ cred, '' SignedHeaders='' @ hdrs, '' Signature='' @ sig]"
    by (rule split_three [OF free])
  moreover have "(''Credential='' @ cred) @ CHR '','' # ('' SignedHeaders='' @ hdrs) @ CHR '','' # ('' Signature='' @ sig) =
      ''Credential='' @ cred @ '', SignedHeaders='' @ hdrs @ '', Signature='' @ sig" by simp
  ultimately show ?thesis
    by (simp only: fold.simps comp_apply id_apply auth_pieces(1) [OF cred(1,2)] auth_pieces(2) [OF hdrs(1,2)] auth_pieces(3) [OF sig(1,2)])
qed

lemma parse_canonical:
  assumes "auth_fields_ok p"
  shows "parse_authorization (canonical_auth p) = Ok p"
proof -
  let ?fields = "[pa_access_key p, pa_scope_date p, pa_scope_region p, pa_scope_service p, ''aws4_request'']"
  define cred hdrs where "cred = join_str ''/'' ?fields" and "hdrs = join_str '';'' (pa_signed_headers p)"
  have aws: "auth_token ''aws4_request''" by (simp add: auth_token_def graphic_def)
  have tok: "\<forall>s \<in> set ?fields. auth_token s" "\<forall>h \<in> set (pa_signed_headers p). auth_token h" "pa_signed_headers p \<noteq> []" "auth_token (pa_signature p)"
    using assms aws by (simp_all add: auth_fields_ok_def list_all_iff)
  have g: "graphic (CHR ''/'')" "graphic (CHR '';'')" by (simp_all add: graphic_def)
  have c: "\<forall>d \<in> set cred. graphic d" "cred \<noteq> []" "CHR '','' \<notin> set cred"
    unfolding cred_def by (rule join_graphic [OF tok(1) g(1)] join_comma_free [OF tok(1)], simp)+
  have h: "\<forall>d \<in> set hdrs. graphic d" "hdrs \<noteq> []" "CHR '','' \<notin> set hdrs"
    unfolding hdrs_def by (rule join_graphic [OF tok(2) g(2) tok(3)])+ (rule join_comma_free [OF tok(2)], simp)
  have s: "\<forall>d \<in> set (pa_signature p). graphic d" "pa_signature p \<noteq> []" "CHR '','' \<notin> set (pa_signature p)" using token_graphic tok(4) by blast+
  have start: "strip_prefix ALGORITHM (canonical_auth p) = Some ('' Credential='' @ cred @ '', SignedHeaders='' @ hdrs @ '', Signature='' @ pa_signature p)"
    by (simp only: canonical_auth_def strip_prefix_def cred_def hdrs_def) simp
  have trimmed: "trim_start ('' Credential='' @ x) = ''Credential='' @ x" for x
    by (simp add: trim_start_space trim_start_graphic graphic_def)
  have scope: "split_on CHR ''/'' [] cred = ?fields" unfolding cred_def by (rule split_join) (use tok(1) token_graphic(3) in blast)+
  have names: "split_on CHR '';'' [] hdrs = pa_signed_headers p" unfolding hdrs_def by (rule split_join) (use tok(2,3) token_graphic(4) in blast)+
  have "filter (\<lambda>h. h \<noteq> []) (pa_signed_headers p) = pa_signed_headers p" using tok(2) token_graphic(5) by (simp add: filter_id_conv)
  moreover have "map to_ascii_lowercase (pa_signed_headers p) = pa_signed_headers p" using assms by (simp add: auth_fields_ok_def list_all_iff map_idI)
  ultimately have hs: "parse_signed_headers e hdrs = Ok (pa_signed_headers p)" for e using tok(3) by (simp add: parse_signed_headers_def names)
  have sc: "parse_scope e cred = Ok (pa_access_key p, pa_scope_date p, pa_scope_region p, pa_scope_service p)" for e
    unfolding parse_scope_def scope by simp
  show ?thesis
    by (simp only: parse_authorization_def start ok_or_def option.case and_then_Ok trimmed fold_auth_pieces [OF c h s] Let_def prod.case hs sc) simp
qed

subsection \<open>What an accepted request has shown\<close>

lemma ok_or_Ok [simp]: "ok_or e x = Ok a \<longleftrightarrow> x = Some a"
  by (cases x) (simp_all add: ok_or_def)

lemma check_skew_Ok: "check_skew now t = Ok () \<longleftrightarrow> now \<le> t + MAX_CLOCK_SKEW \<and> t \<le> now + MAX_CLOCK_SKEW"
  by (auto simp: check_skew_def Let_def)

lemma verify_seed_Ok:
  "verify_seed sign rq pq p secret region t body = Ok () \<longleftrightarrow>
     pa_scope_region p = region \<and> pa_scope_service p = SERVICE \<and>
     sign \<lparr>sr_method = rq_method rq, sr_uri = pq, sr_headers = filtered_headers rq (pa_signed_headers p), sr_body = body,
           sr_access_key = pa_access_key p, sr_secret = secret, sr_region = region, sr_time = t, sr_expires = None\<rparr> = Ok (pa_signature p)"
  by (simp add: verify_seed_def check_signature_Ok)

lemma verify_presigned_Ok:
  "verify_presigned sign now rq p secret region = Ok () \<longleftrightarrow>
     pa_scope_region p = region \<and> pa_scope_service p = SERVICE \<and> length (pa_scope_date p) = 8 \<and>
     pq_request_time p \<le> now + MAX_CLOCK_SKEW \<and> now \<le> pq_request_time p + pq_expires p * NANOS \<and>
     sign \<lparr>sr_method = rq_method rq, sr_uri = strip_amz_query_params rq, sr_headers = filtered_headers rq (pa_signed_headers p),
           sr_body = UnsignedPayload, sr_access_key = pa_access_key p, sr_secret = secret, sr_region = region,
           sr_time = pq_request_time p, sr_expires = Some (pq_expires p)\<rparr> = Ok (pa_signature p)"
  by (auto simp: verify_presigned_def check_signature_Ok)

lemma parse_presigned_expires: "parse_presigned_query parse_dt rq = Ok p \<Longrightarrow> 0 < pq_expires p \<and> pq_expires p \<le> 604800"
  by (auto simp: parse_presigned_query_def Let_def and_then_eq_Ok split: if_splits prod.splits)

lemma presigned_check_Ok:
  "presigned_check sign parse_dt now au rq = Ok () \<longleftrightarrow>
     (\<exists>p secret. parse_presigned_query parse_dt rq = Ok p \<and> secret_for au (pa_access_key p) = Some secret \<and>
        verify_presigned sign now rq p secret (au_region au) = Ok ())"
  by (simp add: presigned_check_def and_then_eq_Ok)

lemma header_check_Ok:
  "header_check sign parse_dt now au rq = Ok () \<longleftrightarrow>
     (\<exists>auth_value p amz_date t secret body.
        rq_header rq ''authorization'' = Some (Some auth_value) \<and> parse_authorization auth_value = Ok p \<and>
        rq_header rq ''x-amz-date'' = Some (Some amz_date) \<and> parse_amz_date parse_dt amz_date = Ok t \<and>
        check_skew now t = Ok () \<and> 8 \<le> length amz_date \<and> pa_scope_date p = take 8 amz_date \<and>
        secret_for au (pa_access_key p) = Some secret \<and> signable_body_from_headers rq = Ok body \<and>
        verify_seed sign rq (path_and_query rq) p secret (au_region au) t body = Ok ())"
  by (auto simp: header_check_def and_then_eq_Ok not_less)


text \<open>C27: For a request that carries the Authorization header which a signing client writes, with any access key, scope, signed headers
  and signature made of graphic characters without separators, the middleware reads back exactly these fields: it accepts the request if and
  only if the clock, the scope and the access key are right and the signature is the one that the secret key gives.\<close>

theorem canonical_request_check:
  assumes p: "auth_fields_ok p" and auth: "rq_header rq ''authorization'' = Some (Some (canonical_auth p))"
    and date: "rq_header rq ''x-amz-date'' = Some (Some amz_date)" "parse_dt amz_date = Ok (int unix)"
    and body: "signable_body_from_headers rq = Ok body"
  shows "run_check sign parse_dt now au rq = Ok () \<longleftrightarrow>
     now \<le> unix * NANOS + MAX_CLOCK_SKEW \<and> unix * NANOS \<le> now + MAX_CLOCK_SKEW \<and> 8 \<le> length amz_date \<and> pa_scope_date p = take 8 amz_date \<and>
     pa_scope_region p = au_region au \<and> pa_scope_service p = SERVICE \<and>
     (\<exists>secret. secret_for au (pa_access_key p) = Some secret \<and>
        sign \<lparr>sr_method = rq_method rq, sr_uri = path_and_query rq, sr_headers = filtered_headers rq (pa_signed_headers p), sr_body = body,
              sr_access_key = pa_access_key p, sr_secret = secret, sr_region = au_region au, sr_time = unix * NANOS, sr_expires = None\<rparr> =
          Ok (pa_signature p))"
proof -
  have "run_check sign parse_dt now au rq = header_check sign parse_dt now au rq" using auth by (simp add: run_check_def)
  moreover have "parse_amz_date parse_dt amz_date = Ok (unix * NANOS)" using date(2) by (simp add: parse_amz_date_def map_err_def)
  ultimately show ?thesis
    using auth date body parse_canonical [OF p] by (auto simp: header_check_Ok verify_seed_Ok check_skew_Ok)
qed

text \<open>The request of an example client, for a signer that puts the secret before the method.\<close>

definition example_parsed :: parsed_auth where
  "example_parsed = \<lparr>pa_access_key = ''AK'', pa_scope_date = ''20240102'', pa_scope_region = ''eu'', pa_scope_service = ''s3'',
     pa_signed_headers = [''host''], pa_signature = ''sk-GET''\<rparr>"

definition example_request :: http_request where
  "example_request = \<lparr>rq_method = ''GET'', rq_path = ''/b/k'', rq_query = None, rq_path_and_query = None,
     rq_header = (\<lambda>name. map_option Some (map_of [(''authorization'', canonical_auth example_parsed), (''x-amz-date'', ''20240102T000000Z'')] name))\<rparr>"

theorem canonical_request_check_witness:
  "run_check (\<lambda>sr. Ok (sr_secret sr @ ''-'' @ sr_method sr)) (\<lambda>_. Ok 1704153600) (1704153700 * NANOS)
     (auth_state_new ''eu'' [(''AK'', ''sk'')]) example_request = Ok ()"
proof -
  have fields: "auth_fields_ok example_parsed"
    by (simp add: auth_fields_ok_def example_parsed_def auth_token_def graphic_def to_ascii_lowercase_def)
  show ?thesis
    by (subst canonical_request_check [OF fields, where amz_date = "''20240102T000000Z''" and unix = 1704153600 and body = UnsignedPayload])
      (simp_all add: example_request_def signable_body_from_headers_def example_parsed_def auth_state_new_def secret_for_def SERVICE_def
        MAX_CLOCK_SKEW_def NANOS_def)
qed

end
