(* ===== verification/Body_Source.thy ===== *)
theory Body_Source
  imports Auth
begin

text \<open>
  The body of a PUT, \<^verbatim>\<open>openlake_server/src/s3/body_source.rs\<close> and the streaming half of
  \<^verbatim>\<open>auth.rs\<close>: the adapter over the frames of the HTTP body, the stream that hashes what passes
  through it, the decoder of the aws-chunked framing with its chain of signatures, and the choice
  between them (\<^verbatim>\<open>build_body_source\<close> of \<^verbatim>\<open>s3/handlers/objects.rs\<close>).

  \<open>None\<close> is a panic, which aborts the server in its release profile. SHA-256 and the signature of a
  chunk are parameters.
\<close>

subsection \<open>The frames of a body\<close>

datatype body_frame = Data "byte list" | Trailers | FrameErr string

record axum_body =
  ab_frames :: "body_frame list"
  ab_leftover :: "byte list"
  ab_eof :: bool

definition axum_new :: "body_frame list \<Rightarrow> axum_body" where
  "axum_new body = \<lparr>ab_frames = body, ab_leftover = [], ab_eof = False\<rparr>"

function axum_read :: "axum_body reader" where
  "axum_read a =
     (if ab_leftover a \<noteq> [] then (Ok (ab_leftover a), a\<lparr>ab_leftover := []\<rparr>)
      else if ab_eof a then (Ok [], a)
      else case ab_frames a of
             [] \<Rightarrow> (Ok [], a\<lparr>ab_eof := True\<rparr>)
           | Data d # fs \<Rightarrow> axum_read (a\<lparr>ab_frames := fs, ab_leftover := d\<rparr>)
           | Trailers # fs \<Rightarrow> axum_read (a\<lparr>ab_frames := fs\<rparr>)
           | FrameErr e # fs \<Rightarrow> (Err (Io OtherKind e), a\<lparr>ab_frames := fs\<rparr>))"
  by pat_completeness auto

termination
  by (relation "measure (\<lambda>a. length (ab_frames a))") auto

declare axum_read.simps [simp del]

text \<open>A read that delivers data uses up a frame or the rest of one.\<close>

definition axum_size :: "axum_body \<Rightarrow> nat" where
  "axum_size a = 2 * length (ab_frames a) + (if ab_leftover a = [] then 0 else 1)"

lemma axum_read_smaller: "axum_read a = (Ok c, a1) \<Longrightarrow> c \<noteq> [] \<Longrightarrow> axum_size a1 < axum_size a"
proof (induction a rule: axum_read.induct)
  case (1 a)
  show ?case
  proof (cases "ab_leftover a \<noteq> [] \<or> ab_eof a \<or> ab_frames a = []")
    case True
    then show ?thesis using 1(3,4) by (subst (asm) axum_read.simps) (auto simp: axum_size_def split: if_splits)
  next
    case False
    then obtain f fs where f: "ab_frames a = f # fs" "ab_leftover a = []" "\<not> ab_eof a" by (cases "ab_frames a") auto
    show ?thesis
    proof (cases f)
      case (Data d)
      then have "axum_read (a\<lparr>ab_frames := fs, ab_leftover := d\<rparr>) = (Ok c, a1)" using 1(3) f by (subst (asm) axum_read.simps) simp
      then have "axum_size a1 < axum_size (a\<lparr>ab_frames := fs, ab_leftover := d\<rparr>)" using 1(1) [of f fs] 1(4) f Data by simp
      then show ?thesis using f by (simp add: axum_size_def split: if_splits)
    next
      case Trailers
      then have "axum_read (a\<lparr>ab_frames := fs\<rparr>) = (Ok c, a1)" using 1(3) f by (subst (asm) axum_read.simps) simp
      then have "axum_size a1 < axum_size (a\<lparr>ab_frames := fs\<rparr>)" using 1(2) [of f fs] 1(4) f Trailers by simp
      then show ?thesis using f by (simp add: axum_size_def split: if_splits)
    next
      case (FrameErr e)
      then show ?thesis using 1(3) f by (subst (asm) axum_read.simps) simp
    qed
  qed
qed

subsection \<open>Hashing what passes\<close>

record 's sha_stream =
  sv_inner :: 's
  sv_expected :: "byte list"
  sv_hashed :: "byte list"
  sv_eof :: bool

definition sha_new :: "'s \<Rightarrow> string \<Rightarrow> ('s sha_stream, auth_error) result" where
  "sha_new inner expected_hex =
     (if length expected_hex \<noteq> 64 then Err (UnsupportedContentSha expected_hex)
      else Ok \<lparr>sv_inner = inner, sv_expected = str_bytes (to_ascii_lowercase expected_hex), sv_hashed = [], sv_eof = False\<rparr>)"

text \<open>\<open>sha256_hex\<close> gives the digest as hexadecimal digits; at the end the hasher starts afresh.\<close>

definition sha_read :: "(byte list \<Rightarrow> byte list) \<Rightarrow> 's reader \<Rightarrow> 's sha_stream reader" where
  "sha_read sha256_hex rd t =
     (if sv_eof t then (Ok [], t)
      else case rd (sv_inner t) of
             (Inl e, s1) \<Rightarrow> (Err e, t\<lparr>sv_inner := s1\<rparr>)
           | (Inr chunk, s1) \<Rightarrow>
               if chunk \<noteq> [] then (Ok chunk, t\<lparr>sv_inner := s1, sv_hashed := sv_hashed t @ chunk\<rparr>)
               else (if constant_time_eq (sha256_hex (sv_hashed t)) (sv_expected t) then Ok [] else Err (Decode ''sha256 mismatch''),
                     t\<lparr>sv_inner := s1, sv_hashed := [], sv_eof := True\<rparr>))"

subsection \<open>The aws-chunked framing\<close>

fun find_crlf :: "byte list \<Rightarrow> nat option" where
  "find_crlf (a # b # bs) = (if a = 13 \<and> b = 10 then Some 0 else map_option Suc (find_crlf (b # bs)))"
| "find_crlf _ = None"

text \<open>\<open>usize::from_str_radix\<close> in base 16.\<close>

fun parse_hex_digits :: "nat \<Rightarrow> string \<Rightarrow> nat option" where
  "parse_hex_digits acc [] = Some acc"
| "parse_hex_digits acc (c # cs) = (case hex_val c of None \<Rightarrow> None | Some d \<Rightarrow> parse_hex_digits (16 * acc + d) cs)"

definition parse_hex :: "string \<Rightarrow> nat option" where
  "parse_hex s =
     (let ds = (case s of [] \<Rightarrow> [] | c # cs \<Rightarrow> if c = CHR ''+'' then cs else s) in
      if ds = [] then None
      else case parse_hex_digits 0 ds of None \<Rightarrow> None | Some n \<Rightarrow> if n < 2 ^ 64 then Some n else None)"

record chunk_key =
  ck_access_key :: string
  ck_secret :: string
  ck_region :: string
  ck_time :: nat

datatype chunk_error = StreamingParams string | SignChunk string

type_synonym chunk_signer = "chunk_key \<Rightarrow> string \<Rightarrow> byte list \<Rightarrow> (string, chunk_error) result"

fun show_chunk_error :: "chunk_error \<Rightarrow> string" where
  "show_chunk_error (StreamingParams e) = ''build streaming params: '' @ e"
| "show_chunk_error (SignChunk e) = ''sign_chunk: '' @ e"

definition verify_chunk :: "chunk_signer \<Rightarrow> byte list \<Rightarrow> string \<Rightarrow> string \<Rightarrow> chunk_key \<Rightarrow> (string, auth_error) result" where
  "verify_chunk sign_chunk chunk prev_signature given_signature ck =
     and_then (map_err (\<lambda>e. Signer (show_chunk_error e)) (sign_chunk ck prev_signature chunk)) (\<lambda>output.
       if constant_time_eq (str_bytes output) (str_bytes given_signature) then Ok output else Err ChunkSignatureMismatch)"

record chunked_body =
  cb_inner :: axum_body
  cb_carry :: "byte list"
  cb_chunk_buf :: "byte list"
  cb_chunk_pos :: nat
  cb_running_sig :: string
  cb_key :: chunk_key
  cb_finished :: bool

definition chunked_new :: "body_frame list \<Rightarrow> string \<Rightarrow> chunk_key \<Rightarrow> chunked_body" where
  "chunked_new body seed_signature ck =
     \<lparr>cb_inner = axum_new body, cb_carry = [], cb_chunk_buf = [], cb_chunk_pos = 0, cb_running_sig = seed_signature, cb_key = ck,
      cb_finished = False\<rparr>"

function ensure_in_carry :: "nat \<Rightarrow> chunked_body \<Rightarrow> (unit, io_error) result \<times> chunked_body" where
  "ensure_in_carry need c =
     (if length (cb_carry c) < need
      then case axum_read (cb_inner c) of
             (Inl e, inner) \<Rightarrow> (Err e, c\<lparr>cb_inner := inner\<rparr>)
           | (Inr chunk, inner) \<Rightarrow>
               if chunk = [] then (Err (Io UnexpectedEof ''aws-chunked: body ended mid-chunk''), c\<lparr>cb_inner := inner\<rparr>)
               else ensure_in_carry need (c\<lparr>cb_inner := inner, cb_carry := cb_carry c @ chunk\<rparr>)
      else (Ok (), c))"
  by pat_completeness auto

termination
  by (relation "measure (\<lambda>(need, c). need - length (cb_carry c))") (auto simp flip: length_greater_0_conv)

declare ensure_in_carry.simps [simp del]

text \<open>The size and the signature that a header line declares.\<close>

definition parse_chunk_header :: "string \<Rightarrow> (nat \<times> string, io_error) result" where
  "parse_chunk_header line =
     and_then (ok_or (Decode (''aws-chunked: header missing '' @ [CHR 0x27, CHR '';'', CHR 0x27])) (split_once CHR '';'' line)) (\<lambda>(size_hex, sig).
     and_then (ok_or (Decode ''aws-chunked: bad chunk size'') (parse_hex (utf8_trim size_hex))) (\<lambda>sz.
     and_then (ok_or (Decode ''aws-chunked: missing chunk-signature'') (strip_prefix ''chunk-signature='' sig)) (\<lambda>sig.
       Ok (sz, utf8_trim sig))))"

text \<open>
  The payload of a chunk whose header has been read. The sum \<open>size + 2\<close> wraps around; a payload
  slice beyond the carry, or one whose end has wrapped, panics.
\<close>

definition take_chunk :: "chunk_signer \<Rightarrow> nat \<Rightarrow> string \<Rightarrow> chunked_body \<Rightarrow> ((bool, io_error) result \<times> chunked_body) option" where
  "take_chunk sign_chunk sz sig c =
     (let need = (sz + 2) mod 2 ^ 64 in
      case ensure_in_carry need c of
        (Inl e, c1) \<Rightarrow> Some (Err e, c1)
      | (Inr _, c1) \<Rightarrow>
          let carry = cb_carry c1; payload = take sz carry in
          if length carry < sz then None
          else (case verify_chunk sign_chunk payload (cb_running_sig c1) sig (cb_key c1) of
             Inl e \<Rightarrow> Some (Err (Decode (''aws-chunked: '' @ show_auth_error e)), c1)
           | Inr new_running \<Rightarrow>
               if need < sz then None
               else if take (need - sz) (drop sz carry) \<noteq> [13, 10]
               then Some (Err (Decode ''aws-chunked: chunk not CRLF-terminated''), c1)
               else Some (Ok (sz \<noteq> 0),
                 c1\<lparr>cb_chunk_buf := payload, cb_chunk_pos := 0, cb_carry := drop need carry, cb_running_sig := new_running\<rparr>)))"

definition header_chunk :: "chunk_signer \<Rightarrow> nat \<Rightarrow> chunked_body \<Rightarrow> ((bool, io_error) result \<times> chunked_body) option" where
  "header_chunk sign_chunk p c =
     (let raw = take p (cb_carry c); c1 = c\<lparr>cb_carry := drop (p + 2) (cb_carry c)\<rparr> in
      if \<not> utf8_valid raw then Some (Err (Decode ''aws-chunked: header not utf-8''), c)
      else case parse_chunk_header (bytes_str raw) of
             Inl e \<Rightarrow> Some (Err e, c1)
           | Inr (sz, sig) \<Rightarrow> take_chunk sign_chunk sz sig c1)"

function fetch_chunk :: "chunk_signer \<Rightarrow> chunked_body \<Rightarrow> ((bool, io_error) result \<times> chunked_body) option" where
  "fetch_chunk sign_chunk c =
     (case find_crlf (cb_carry c) of
        Some p \<Rightarrow> header_chunk sign_chunk p c
      | None \<Rightarrow>
          (case axum_read (cb_inner c) of
             (Inl e, inner) \<Rightarrow> Some (Err e, c\<lparr>cb_inner := inner\<rparr>)
           | (Inr chunk, inner) \<Rightarrow>
               if chunk = [] then Some (Err (Io UnexpectedEof ''aws-chunked: body ended before chunk header''), c\<lparr>cb_inner := inner\<rparr>)
               else let c1 = c\<lparr>cb_inner := inner, cb_carry := cb_carry c @ chunk\<rparr> in
                 if length (cb_carry c1) = length (cb_carry c)
                 then Some (Err (Decode ''aws-chunked: header read made no progress''), c1)
                 else fetch_chunk sign_chunk c1))"
  by pat_completeness auto

termination
proof (relation "measure (\<lambda>(_, c). axum_size (cb_inner c))")
  fix c :: chunked_body and r inner chunk c1 and sign_chunk :: chunk_signer
  assume "(r, inner) = axum_read (cb_inner c)" "r = Ok chunk" "chunk \<noteq> []" "c1 = c\<lparr>cb_inner := inner, cb_carry := cb_carry c @ chunk\<rparr>"
  then show "((sign_chunk, c1), sign_chunk, c) \<in> measure (\<lambda>(_, c). axum_size (cb_inner c))"
    using axum_read_smaller [of "cb_inner c" chunk inner] by simp
qed simp

declare fetch_chunk.simps [simp del]

definition chunked_read :: "chunk_signer \<Rightarrow> chunked_body \<Rightarrow> ((byte list, io_error) result \<times> chunked_body) option" where
  "chunked_read sign_chunk c =
     (let serve = (\<lambda>c. Some (Ok (drop (cb_chunk_pos c) (cb_chunk_buf c)), c\<lparr>cb_chunk_pos := length (cb_chunk_buf c)\<rparr>)) in
      if cb_finished c then Some (Ok [], c)
      else if cb_chunk_pos c \<ge> length (cb_chunk_buf c)
      then case fetch_chunk sign_chunk c of
             None \<Rightarrow> None
           | Some (Inl e, c1) \<Rightarrow> Some (Err e, c1)
           | Some (Inr live, c1) \<Rightarrow> if \<not> live then Some (Ok [], c1\<lparr>cb_finished := True\<rparr>) else serve c1
      else serve c)"

subsection \<open>The choice of a body\<close>

datatype body_source = Plain axum_body | HexSha "axum_body sha_stream" | Chunked chunked_body

definition plain :: "body_frame list \<Rightarrow> body_source" where
  "plain body = Plain (axum_new body)"

definition hex_sha :: "body_frame list \<Rightarrow> string \<Rightarrow> (body_source, io_error) result" where
  "hex_sha body expected_hex = map_err (\<lambda>e. InvalidArgument (show_auth_error e)) (and_then (sha_new (axum_new body) expected_hex) (\<lambda>s. Ok (HexSha s)))"

definition chunked :: "body_frame list \<Rightarrow> string \<Rightarrow> chunk_key \<Rightarrow> body_source" where
  "chunked body seed_signature ck = Chunked (chunked_new body seed_signature ck)"

fun body_read :: "(byte list \<Rightarrow> byte list) \<Rightarrow> chunk_signer \<Rightarrow> body_source \<Rightarrow> ((byte list, io_error) result \<times> body_source) option" where
  "body_read sha256_hex sign_chunk (Plain s) = Some (map_prod id Plain (axum_read s))"
| "body_read sha256_hex sign_chunk (HexSha s) = Some (map_prod id HexSha (sha_read sha256_hex axum_read s))"
| "body_read sha256_hex sign_chunk (Chunked s) = map_option (map_prod id Chunked) (chunked_read sign_chunk s)"

datatype app_error = AuthError auth_error | StorageError storage_error | BadRequest string | Malformed string | NotImplemented string

definition build_body_source :: "(string \<Rightarrow> (int, string) result) \<Rightarrow> auth_state \<Rightarrow> http_request \<Rightarrow> body_frame list \<Rightarrow> nat
    \<Rightarrow> (nat \<times> body_source, app_error) result" where
  "build_body_source parse_dt au rq body content_length =
     and_then (ok_or (AuthError MissingContentSha) (Option.bind (rq_header rq ''x-amz-content-sha256'') id)) (\<lambda>content_sha.
     let decoded_len = Option.bind (Option.bind (rq_header rq ''x-amz-decoded-content-length'') id) (parse_uint 64) in
     if content_sha = SHA_UNSIGNED then Ok (content_length, plain body)
     else if content_sha = SHA_STREAMING
     then and_then (ok_or (AuthError MissingAuth) (rq_header rq ''authorization'')) (\<lambda>auth_hdr.
          and_then (ok_or (AuthError (MalformedAuth ''Authorization not ASCII'')) auth_hdr) (\<lambda>auth_hdr.
          and_then (map_err AuthError (parse_authorization auth_hdr)) (\<lambda>parsed.
          and_then (ok_or (AuthError MissingDate) (rq_header rq ''x-amz-date'')) (\<lambda>amz_date.
          and_then (ok_or (AuthError (BadDate ''non-ASCII'')) amz_date) (\<lambda>amz_date.
          and_then (map_err AuthError (parse_amz_date parse_dt amz_date)) (\<lambda>request_time.
          and_then (ok_or (AuthError (InvalidAccessKeyId (pa_access_key parsed))) (secret_for au (pa_access_key parsed))) (\<lambda>secret.
          and_then (ok_or (AuthError MissingDecodedContentLength) decoded_len) (\<lambda>decoded.
            Ok (decoded, chunked body (pa_signature parsed)
              \<lparr>ck_access_key = pa_access_key parsed, ck_secret = secret, ck_region = au_region au, ck_time = request_time\<rparr>)))))))))
     else if content_sha = SHA_STREAMING_TRAILER
     then Err (NotImplemented ''STREAMING-AWS4-HMAC-SHA256-PAYLOAD-TRAILER: chunked + trailer-header checksum mode pending implementation'')
     else if content_sha = SHA_STREAMING_UNSIGNED_TRAILER
     then Err (NotImplemented ''STREAMING-UNSIGNED-PAYLOAD-TRAILER: chunked unsigned + trailer-header checksum mode pending implementation'')
     else if is_hex_sha256 content_sha
     then and_then (map_err (\<lambda>_. BadRequest ''PUT body initialization failed'') (hex_sha body content_sha)) (\<lambda>s. Ok (content_length, s))
     else Err (AuthError (UnsupportedContentSha content_sha)))"

end
