(* ===== verification/Chunked_Wire.thy ===== *)
theory Chunked_Wire
  imports Body_Source
begin

text \<open>
  The aws-chunked framing as a client writes it, and what the decoder makes of it: however the wire
  is cut into frames, the decoder delivers the chunks that were framed; and whatever is on the wire,
  what it delivers is covered by the chain of signatures.
\<close>

subsection \<open>Frames\<close>

fun frame_data :: "body_frame \<Rightarrow> byte list" where
  "frame_data (Data d) = d"
| "frame_data _ = []"

definition axum_ok :: "axum_body \<Rightarrow> bool" where
  "axum_ok a = list_all (\<lambda>f. case f of FrameErr _ \<Rightarrow> False | _ \<Rightarrow> True) (ab_frames a)"

definition axum_content :: "axum_body \<Rightarrow> byte list" where
  "axum_content a = ab_leftover a @ (if ab_eof a then [] else concat (map frame_data (ab_frames a)))"

lemma axum_read_law:
  assumes "axum_ok a"
  shows "\<exists>c a'. axum_read a = (Ok c, a') \<and> axum_ok a' \<and> axum_content a = c @ axum_content a' \<and> (c = [] \<longrightarrow> axum_content a = [])"
  using assms
proof (induction a rule: axum_read.induct)
  case (1 a)
  show ?case
  proof (cases "ab_leftover a \<noteq> [] \<or> ab_eof a \<or> ab_frames a = []")
    case True
    let ?a = "if ab_leftover a \<noteq> [] then a\<lparr>ab_leftover := []\<rparr> else a\<lparr>ab_eof := True\<rparr>"
    have "axum_read a = (Ok (ab_leftover a), ?a)" using True by (subst axum_read.simps) auto
    moreover have "axum_ok ?a \<and> axum_content a = ab_leftover a @ axum_content ?a \<and> (ab_leftover a = [] \<longrightarrow> axum_content a = [])"
      using True 1(3) by (auto simp: axum_ok_def axum_content_def)
    ultimately show ?thesis by blast
  next
    case False
    then obtain f fs where f: "ab_frames a = f # fs" "ab_leftover a = []" "\<not> ab_eof a" by (cases "ab_frames a") auto
    show ?thesis
    proof (cases f)
      case (Data d)
      then have r: "axum_read a = axum_read (a\<lparr>ab_frames := fs, ab_leftover := d\<rparr>)" using f by (subst axum_read.simps) simp
      have "axum_content (a\<lparr>ab_frames := fs, ab_leftover := d\<rparr>) = axum_content a" using f Data by (simp add: axum_content_def)
      then show ?thesis using 1(1) [of f fs] 1(3) f Data unfolding r by (auto simp: axum_ok_def)
    next
      case Trailers
      then have r: "axum_read a = axum_read (a\<lparr>ab_frames := fs\<rparr>)" using f by (subst axum_read.simps) simp
      have "axum_content (a\<lparr>ab_frames := fs\<rparr>) = axum_content a" using f Trailers by (simp add: axum_content_def)
      then show ?thesis using 1(2) [of f fs] 1(3) f Trailers unfolding r by (auto simp: axum_ok_def)
    qed (use f 1(3) in \<open>simp add: axum_ok_def\<close>)
  qed
qed

interpretation axum: byte_stream axum_read axum_ok axum_content
  by unfold_locales (rule axum_read_law)

lemma ensure_in_carry_content:
  assumes "axum_ok (cb_inner c)" "need \<le> length (cb_carry c @ axum_content (cb_inner c))"
  shows "\<exists>inner more. ensure_in_carry need c = (Ok (), c\<lparr>cb_inner := inner, cb_carry := cb_carry c @ more\<rparr>) \<and>
    axum_ok inner \<and> more @ axum_content inner = axum_content (cb_inner c) \<and> need \<le> length (cb_carry c @ more)"
  using assms
proof (induction need c rule: ensure_in_carry.induct)
  case (1 need c)
  show ?case
  proof (cases "length (cb_carry c) < need")
    case False
    then show ?thesis using 1(2) by (intro exI [of _ "cb_inner c"] exI [of _ "[]"]) (simp add: ensure_in_carry.simps [of need c])
  next
    case True
    then obtain d inner where d: "axum_read (cb_inner c) = (Ok d, inner)" "d \<noteq> []" "axum_ok inner" "axum_content (cb_inner c) = d @ axum_content inner"
      using 1(2,3) by (auto elim: axum.read_cases)
    let ?c = "c\<lparr>cb_inner := inner, cb_carry := cb_carry c @ d\<rparr>"
    have step: "ensure_in_carry need c = ensure_in_carry need ?c" using True d by (subst ensure_in_carry.simps) simp
    obtain i m where "ensure_in_carry need ?c = (Ok (), ?c\<lparr>cb_inner := i, cb_carry := cb_carry ?c @ m\<rparr>)" "axum_ok i"
      "m @ axum_content i = axum_content inner" "need \<le> length (cb_carry ?c @ m)"
      using 1(1) [OF True d(1) [symmetric] refl d(2)] 1(3) d(3,4) by auto
    then show ?thesis unfolding step using d(4) by (intro exI [of _ i] exI [of _ "d @ m"]) simp
  qed
qed

subsection \<open>The wire format\<close>

fun show_hex :: "nat \<Rightarrow> string" where
  "show_hex n = (if n < 16 then [hex_char n] else show_hex (n div 16) @ [hex_char (n mod 16)])"

declare show_hex.simps [simp del]

definition chunk_line :: "nat \<Rightarrow> string \<Rightarrow> string" where
  "chunk_line sz sig = show_hex sz @ '';chunk-signature='' @ sig"

definition chunk_wire :: "string \<Rightarrow> byte list \<Rightarrow> byte list" where
  "chunk_wire sig p = str_bytes (chunk_line (length p) sig) @ [13, 10] @ p @ [13, 10]"

text \<open>A body of chunks, each signed after the one before it, closed by an empty chunk.\<close>

primrec chunked_wire :: "chunk_signer \<Rightarrow> chunk_key \<Rightarrow> string \<Rightarrow> byte list list \<Rightarrow> (byte list, chunk_error) result" where
  "chunked_wire sign_chunk ck prev [] = and_then (sign_chunk ck prev []) (\<lambda>s. Ok (chunk_wire s []))"
| "chunked_wire sign_chunk ck prev (p # ps) =
     and_then (sign_chunk ck prev p) (\<lambda>s. and_then (chunked_wire sign_chunk ck s ps) (\<lambda>rest. Ok (chunk_wire s p @ rest)))"

definition hex_text :: "string \<Rightarrow> bool" where
  "hex_text s \<longleftrightarrow> s \<noteq> [] \<and> list_all (\<lambda>c. hex_val c \<noteq> None) s"

lemma hex_val_graphic: "hex_val c \<noteq> None \<Longrightarrow> graphic c \<and> c \<noteq> CHR '';'' \<and> c \<noteq> CHR ''+''"
  by (auto simp: hex_val_def graphic_def Let_def split: if_splits)

lemma hex_text_trim: "hex_text s \<Longrightarrow> utf8_trim s = s"
proof -
  assume h: "hex_text s"
  then obtain c t where c: "s = c # t" "graphic c" using hex_val_graphic by (cases s) (auto simp: hex_text_def)
  moreover obtain u d where "s = u @ [d]" "graphic d" using h hex_val_graphic by (cases s rule: rev_cases) (auto simp: hex_text_def)
  ultimately show ?thesis using trim_piece(1) by blast
qed

lemma parse_hex_digits_append:
  "parse_hex_digits acc (xs @ ys) = (case parse_hex_digits acc xs of None \<Rightarrow> None | Some n \<Rightarrow> parse_hex_digits n ys)"
  by (induction xs arbitrary: acc) (auto split: option.splits)

lemma show_hex_digits: "parse_hex_digits 0 (show_hex n) = Some n" "hex_text (show_hex n)"
proof (induction n rule: show_hex.induct)
  case (1 n)
  { case 1 show ?case by (subst show_hex.simps) (simp add: "1.IH" parse_hex_digits_append hex_val_hex_char) }
  { case 2 show ?case using "1.IH"(2) by (subst show_hex.simps) (simp add: hex_text_def hex_val_hex_char) }
qed

lemma parse_hex_show: "n < 2 ^ 64 \<Longrightarrow> parse_hex (show_hex n) = Some n"
proof -
  assume n: "n < 2 ^ 64"
  obtain c cs where c: "show_hex n = c # cs" "c \<noteq> CHR ''+''"
    using show_hex_digits(2) [of n] hex_val_graphic by (cases "show_hex n") (auto simp: hex_text_def)
  then show ?thesis using n show_hex_digits(1) [of n] by (simp add: parse_hex_def)
qed

lemma parse_chunk_line: "n < 2 ^ 64 \<Longrightarrow> hex_text sig \<Longrightarrow> parse_chunk_header (chunk_line n sig) = Ok (n, sig)"
proof -
  assume n: "n < 2 ^ 64" and sig: "hex_text sig"
  have free: "\<forall>c \<in> set (show_hex n). c \<noteq> CHR '';''" using show_hex_digits(2) [of n] hex_val_graphic by (auto simp: hex_text_def list_all_iff)
  then have "split_once CHR '';'' (chunk_line n sig) = Some (show_hex n, ''chunk-signature='' @ sig)"
    by (simp add: split_once_def chunk_line_def takeWhile_append2 dropWhile_append2)
  then show ?thesis
    by (simp add: parse_chunk_header_def ok_or_def hex_text_trim [OF show_hex_digits(2)] parse_hex_show [OF n] strip_prefix_def hex_text_trim [OF sig])
qed

lemma chunk_line_ascii: "hex_text sig \<Longrightarrow> c \<in> set (chunk_line n sig) \<Longrightarrow> graphic c"
  using show_hex_digits(2) [of n] hex_val_graphic by (auto simp: chunk_line_def hex_text_def list_all_iff graphic_def)

lemma str_bytes_ascii:
  assumes "\<forall>c \<in> set s. graphic c"
  shows "13 \<notin> set (str_bytes s)" "utf8_valid (str_bytes s)" "bytes_str (str_bytes s) = s"
proof -
  have u: "unat (word_of_nat (of_char c) :: byte) = of_char c" for c :: char by (simp add: unat_of_nat take_bit_eq_mod)
  show "bytes_str (str_bytes s) = s" by (simp add: bytes_str_def str_bytes_def u comp_def)
  have "word_of_nat (of_char c) \<noteq> (13 :: byte)" if "graphic c" for c
  proof
    assume "word_of_nat (of_char c) = (13 :: byte)"
    then have "(of_char c :: nat) = unat (13 :: byte)" using u [of c] by simp
    then show False using that by (simp add: graphic_def)
  qed
  then show "13 \<notin> set (str_bytes s)" using assms unfolding str_bytes_def by fastforce
  show "utf8_valid (str_bytes s)" using assms
  proof (induction s)
    case (Cons c s)
    have "byte_at (str_bytes (c # s)) 0 < 128" using Cons(2) by (simp add: byte_at_def str_bytes_def u graphic_def)
    then have "utf8_scan (str_bytes (c # s)) = (True, 1)" by (simp add: utf8_scan_def)
    then show ?case using Cons by (subst utf8_valid.simps) (simp add: str_bytes_def)
  qed (simp add: str_bytes_def utf8_valid.simps)
qed

lemma find_crlf_first: "13 \<notin> set h \<Longrightarrow> find_crlf (h @ 13 # 10 # r) = Some (length h)"
proof (induction h)
  case (Cons a h)
  then show ?case by (cases h) auto
qed simp

lemma find_crlf_more: "find_crlf xs = Some p \<Longrightarrow> find_crlf (xs @ ys) = Some p \<and> p + 2 \<le> length xs"
proof (induction xs arbitrary: p rule: find_crlf.induct)
  case (1 a b bs)
  then show ?case by (cases "a = 13 \<and> b = 10") (auto split: if_splits)
qed auto

text \<open>The decoder takes one chunk off the wire, wherever the frames end.\<close>

lemma take_chunk_wire:
  assumes "axum_ok (cb_inner c)" "cb_carry c @ axum_content (cb_inner c) = p @ [13, 10] @ rest"
    and "sign_chunk (cb_key c) (cb_running_sig c) p = Ok s" "length p + 2 < 2 ^ 64"
  shows "\<exists>inner carry. take_chunk sign_chunk (length p) s c = Some (Ok (p \<noteq> []),
      c\<lparr>cb_inner := inner, cb_carry := carry, cb_chunk_buf := p, cb_chunk_pos := 0, cb_running_sig := s\<rparr>) \<and>
    axum_ok inner \<and> carry @ axum_content inner = rest"
proof -
  let ?need = "length p + 2"
  obtain inner more where e: "ensure_in_carry ?need c = (Ok (), c\<lparr>cb_inner := inner, cb_carry := cb_carry c @ more\<rparr>)"
    "axum_ok inner" "more @ axum_content inner = axum_content (cb_inner c)" "?need \<le> length (cb_carry c @ more)"
    using ensure_in_carry_content [OF assms(1), of ?need] assms(2) by auto
  define carry where "carry = cb_carry c @ more"
  have w: "carry @ axum_content inner = p @ [13, 10] @ rest" using e(3) assms(2) by (simp add: carry_def)
  have l: "?need \<le> length carry" using e(4) by (simp add: carry_def)
  have "take ?need (carry @ axum_content inner) = p @ [13, 10]" unfolding w by simp
  then have t: "take ?need carry = p @ [13, 10]" using l by simp
  have tk: "take (length p) carry = p" using arg_cong [OF t, of "take (length p)"] by simp
  have dr: "take 2 (drop (length p) carry) = [13, 10]" using arg_cong [OF t, of "drop (length p)"] by (simp add: drop_take)
  have "drop ?need (carry @ axum_content inner) = rest" unfolding w by simp
  then have r: "drop ?need carry @ axum_content inner = rest" using l by simp
  have "verify_chunk sign_chunk p (cb_running_sig c) s (cb_key c) = Ok s"
    using assms(3) by (simp add: verify_chunk_def constant_time_eq_iff)
  then have "take_chunk sign_chunk (length p) s c = Some (Ok (p \<noteq> []),
      c\<lparr>cb_inner := inner, cb_carry := drop ?need carry, cb_chunk_buf := p, cb_chunk_pos := 0, cb_running_sig := s\<rparr>)"
    using assms(4) e(1) l tk dr by (simp add: take_chunk_def Let_def carry_def [symmetric])
  then show ?thesis using r e(2) by blast
qed

lemma fetch_chunk_wire:
  assumes "axum_ok (cb_inner c)" "cb_carry c @ axum_content (cb_inner c) = chunk_wire s p @ rest"
    and "sign_chunk (cb_key c) (cb_running_sig c) p = Ok s" "length p + 2 < 2 ^ 64" "hex_text s"
  shows "\<exists>inner carry. fetch_chunk sign_chunk c = Some (Ok (p \<noteq> []),
      c\<lparr>cb_inner := inner, cb_carry := carry, cb_chunk_buf := p, cb_chunk_pos := 0, cb_running_sig := s\<rparr>) \<and>
    axum_ok inner \<and> carry @ axum_content inner = rest"
  using assms
proof (induction "axum_size (cb_inner c)" arbitrary: c rule: less_induct)
  case less
  let ?line = "chunk_line (length p) s"
  have g: "\<forall>x \<in> set ?line. graphic x" using chunk_line_ascii [OF less.prems(5)] by blast
  have w: "cb_carry c @ axum_content (cb_inner c) = str_bytes ?line @ 13 # 10 # p @ [13, 10] @ rest"
    using less.prems(2) by (simp add: chunk_wire_def)
  have first: "find_crlf (cb_carry c @ axum_content (cb_inner c)) = Some (length ?line)"
    unfolding w using find_crlf_first [OF str_bytes_ascii(1) [OF g]] by (simp add: str_bytes_def)
  show ?case
  proof (cases "find_crlf (cb_carry c)")
    case (Some q)
    then have q: "q = length ?line" "q + 2 \<le> length (cb_carry c)" using find_crlf_more [OF Some] first by auto
    have tk: "take q (cb_carry c) = str_bytes ?line"
      using arg_cong [OF w, of "take q"] q by (simp add: str_bytes_def)
    let ?c = "c\<lparr>cb_carry := drop (q + 2) (cb_carry c)\<rparr>"
    have "cb_carry ?c @ axum_content (cb_inner ?c) = p @ [13, 10] @ rest"
      using arg_cong [OF w, of "drop (q + 2)"] q by (simp add: str_bytes_def)
    then obtain inner carry where "take_chunk sign_chunk (length p) s ?c = Some (Ok (p \<noteq> []),
        ?c\<lparr>cb_inner := inner, cb_carry := carry, cb_chunk_buf := p, cb_chunk_pos := 0, cb_running_sig := s\<rparr>)"
      "axum_ok inner" "carry @ axum_content inner = rest"
      using take_chunk_wire [of ?c p rest sign_chunk s] less.prems(1,3,4) by auto
    moreover have "fetch_chunk sign_chunk c = take_chunk sign_chunk (length p) s ?c"
      using Some less.prems(4,5) str_bytes_ascii(2,3) [OF g] tk
      by (subst fetch_chunk.simps) (simp add: header_chunk_def Let_def parse_chunk_line)
    ultimately show ?thesis by auto
  next
    case None
    then have "axum_content (cb_inner c) \<noteq> []" using first by auto
    then obtain d inner where d: "axum_read (cb_inner c) = (Ok d, inner)" "d \<noteq> []" "axum_ok inner" "axum_content (cb_inner c) = d @ axum_content inner"
      using less.prems(1) by (auto elim: axum.read_cases)
    let ?c = "c\<lparr>cb_inner := inner, cb_carry := cb_carry c @ d\<rparr>"
    have "fetch_chunk sign_chunk c = fetch_chunk sign_chunk ?c" using None d by (subst fetch_chunk.simps) (simp add: Let_def)
    moreover have "axum_size (cb_inner ?c) < axum_size (cb_inner c)" using axum_read_smaller [OF d(1,2)] by simp
    ultimately show ?thesis using less.hyps [of ?c] less.prems d(3,4) by simp
  qed
qed

subsection \<open>Reading a framed body\<close>

text \<open>The chunks still to be delivered are on the wire, signed after the running signature.\<close>

definition decodes :: "chunk_signer \<Rightarrow> byte list list \<Rightarrow> chunked_body \<Rightarrow> bool" where
  "decodes sign_chunk ps c \<longleftrightarrow>
     (\<forall>ck prev p s. sign_chunk ck prev p = Ok s \<longrightarrow> hex_text s) \<and> list_all (\<lambda>p. p \<noteq> [] \<and> length p + 2 < 2 ^ 64) ps \<and>
     \<not> cb_finished c \<and> length (cb_chunk_buf c) \<le> cb_chunk_pos c \<and> axum_ok (cb_inner c) \<and>
     chunked_wire sign_chunk (cb_key c) (cb_running_sig c) ps = Ok (cb_carry c @ axum_content (cb_inner c))"

lemma decodes_next:
  assumes "decodes sign_chunk (p # ps) c"
  obtains c1 where "chunked_read sign_chunk c = Some (Ok p, c1)" "p \<noteq> []" "decodes sign_chunk ps c1"
proof -
  obtain s rest where s: "sign_chunk (cb_key c) (cb_running_sig c) p = Ok s" "chunked_wire sign_chunk (cb_key c) s ps = Ok rest"
    "cb_carry c @ axum_content (cb_inner c) = chunk_wire s p @ rest"
    using assms by (auto simp: decodes_def and_then_eq_Ok)
  have h: "hex_text s" "axum_ok (cb_inner c)" "length p + 2 < 2 ^ 64" "p \<noteq> []" "\<not> cb_finished c" "length (cb_chunk_buf c) \<le> cb_chunk_pos c"
    using assms s(1) by (auto simp: decodes_def)
  obtain inner carry where f: "fetch_chunk sign_chunk c = Some (Ok (p \<noteq> []),
      c\<lparr>cb_inner := inner, cb_carry := carry, cb_chunk_buf := p, cb_chunk_pos := 0, cb_running_sig := s\<rparr>)"
    "axum_ok inner" "carry @ axum_content inner = rest"
    using fetch_chunk_wire [where sign_chunk = sign_chunk, OF h(2) s(3,1) h(3,1)] by blast
  let ?c = "c\<lparr>cb_inner := inner, cb_carry := carry, cb_chunk_buf := p, cb_chunk_pos := length p, cb_running_sig := s\<rparr>"
  have "chunked_read sign_chunk c = Some (Ok p, ?c)" using f(1) h(4-6) by (simp add: chunked_read_def Let_def)
  moreover have "decodes sign_chunk ps ?c" using assms s(2) f(2,3) by (simp add: decodes_def)
  ultimately show thesis using h(4) by (intro that)
qed

lemma decodes_end:
  assumes "decodes sign_chunk [] c"
  obtains c1 where "chunked_read sign_chunk c = Some (Ok [], c1)" "cb_finished c1"
proof -
  obtain s where s: "sign_chunk (cb_key c) (cb_running_sig c) [] = Ok s" "cb_carry c @ axum_content (cb_inner c) = chunk_wire s [] @ []"
    using assms by (auto simp: decodes_def and_then_eq_Ok)
  have h: "hex_text s" "axum_ok (cb_inner c)" "\<not> cb_finished c" "length (cb_chunk_buf c) \<le> cb_chunk_pos c"
    using assms s(1) by (auto simp: decodes_def)
  obtain c1 where "fetch_chunk sign_chunk c = Some (Ok False, c1)" using fetch_chunk_wire [where sign_chunk = sign_chunk, OF h(2) s(2,1) _ h(1)] by auto
  then show thesis using h(3,4) by (intro that [of "c1\<lparr>cb_finished := True\<rparr>"]) (simp_all add: chunked_read_def Let_def)
qed

lemma decodes_new:
  assumes "\<And>ck prev p s. sign_chunk ck prev p = Ok s \<Longrightarrow> hex_text s" "list_all (\<lambda>p. p \<noteq> [] \<and> length p + 2 < 2 ^ 64) ps"
    and "list_all (\<lambda>f. case f of FrameErr _ \<Rightarrow> False | _ \<Rightarrow> True) body"
    and "chunked_wire sign_chunk ck seed ps = Ok (concat (map frame_data body))"
  shows "decodes sign_chunk ps (chunked_new body seed ck)"
  using assms by (auto simp: decodes_def chunked_new_def axum_new_def axum_ok_def axum_content_def)

text \<open>The results of \<open>n\<close> reads in a row, up to the first error.\<close>

primrec read_chunks :: "chunk_signer \<Rightarrow> nat \<Rightarrow> chunked_body \<Rightarrow> ((byte list list, io_error) result \<times> chunked_body) option" where
  "read_chunks sign_chunk 0 c = Some (Ok [], c)"
| "read_chunks sign_chunk (Suc n) c =
     (case chunked_read sign_chunk c of
        None \<Rightarrow> None
      | Some (Inl e, c1) \<Rightarrow> Some (Err e, c1)
      | Some (Inr p, c1) \<Rightarrow>
          (case read_chunks sign_chunk n c1 of
             None \<Rightarrow> None
           | Some (Inl e, c2) \<Rightarrow> Some (Err e, c2)
           | Some (Inr ps, c2) \<Rightarrow> Some (Ok (p # ps), c2)))"

lemma read_finished: "cb_finished c \<Longrightarrow> read_chunks sign_chunk n c = Some (Ok (replicate n []), c)"
  by (induction n) (simp_all add: chunked_read_def)

lemma read_decodes: "decodes sign_chunk ps c \<Longrightarrow> \<exists>c1. read_chunks sign_chunk (length ps + Suc n) c = Some (Ok (ps @ replicate (Suc n) []), c1)"
proof (induction ps arbitrary: c)
  case Nil
  obtain c1 where "chunked_read sign_chunk c = Some (Ok [], c1)" "cb_finished c1" by (rule decodes_end [OF Nil])
  then show ?case using read_finished [of c1] by simp
next
  case (Cons p ps)
  obtain c1 where "chunked_read sign_chunk c = Some (Ok p, c1)" "decodes sign_chunk ps c1" by (rule decodes_next [OF Cons.prems])
  then show ?case using Cons.IH [of c1] by auto
qed

text \<open>C13: An aws-chunked body is decoded as it was framed.  The client signs every chunk after the one before it and writes the size, the
  signature, the bytes and the line ends; however this text is cut into the frames of the HTTP body, with empty frames and trailers in between,
  reading the body delivers the chunks one by one, then the end, for as long as it is read.\<close>

theorem chunked_round_trip:
  assumes "\<And>ck prev p s. sign_chunk ck prev p = Ok s \<Longrightarrow> hex_text s" "list_all (\<lambda>p. p \<noteq> [] \<and> length p + 2 < 2 ^ 64) ps"
    and "list_all (\<lambda>f. case f of FrameErr _ \<Rightarrow> False | _ \<Rightarrow> True) body"
    and "chunked_wire sign_chunk ck seed ps = Ok (concat (map frame_data body))"
  shows "\<exists>c1. read_chunks sign_chunk (length ps + Suc n) (chunked_new body seed ck) = Some (Ok (ps @ replicate (Suc n) []), c1)"
  by (rule read_decodes [OF decodes_new [OF assms]])

text \<open>A signer for examples: the hexadecimal digit of the length after the previous signature.\<close>

definition example_chunk_signer :: chunk_signer where
  "example_chunk_signer ck prev p = Ok (hex_char (length p mod 16) # filter (\<lambda>c. hex_val c \<noteq> None) prev)"

lemma example_hex_text: "example_chunk_signer ck prev p = Ok s \<Longrightarrow> hex_text s"
  by (auto simp: example_chunk_signer_def hex_text_def hex_val_hex_char list_all_iff)

definition example_key :: chunk_key where
  "example_key = \<lparr>ck_access_key = ''AK'', ck_secret = ''sk'', ck_region = ''eu'', ck_time = 0\<rparr>"

definition example_wire :: "byte list" where
  "example_wire = str_bytes ''2;chunk-signature=2f'' @ [13, 10, 4, 5, 13, 10] @ str_bytes ''1;chunk-signature=12f'' @ [13, 10, 6, 13, 10] @
     str_bytes ''0;chunk-signature=012f'' @ [13, 10, 13, 10]"

lemma example_chunked_wire: "chunked_wire example_chunk_signer example_key ''f'' [[4, 5], [6]] = Ok example_wire"
  by (simp add: example_chunk_signer_def example_wire_def chunk_wire_def chunk_line_def show_hex.simps hex_char_def hex_val_def str_bytes_def
      char_of_def bit_0)

theorem chunked_round_trip_witness:
  "\<exists>c1. read_chunks example_chunk_signer 4
     (chunked_new [Data (take 5 example_wire), Trailers, Data [], Data (drop 5 example_wire)] ''f'' example_key) = Some (Ok [[4, 5], [6], [], []], c1)"
proof -
  let ?body = "[Data (take 5 example_wire), Trailers, Data [], Data (drop 5 example_wire)]" and ?ps = "[[4, 5], [6 :: byte]]"
  have "chunked_wire example_chunk_signer example_key ''f'' ?ps = Ok (concat (map frame_data ?body))" unfolding example_chunked_wire by simp
  then have "\<exists>c1. read_chunks example_chunk_signer (length ?ps + Suc 1) (chunked_new ?body ''f'' example_key) = Some (Ok (?ps @ replicate (Suc 1) []), c1)"
    by (intro chunked_round_trip) (auto intro: example_hex_text)
  moreover have "length ?ps + Suc 1 = 4" "?ps @ replicate (Suc 1) [] = [[4, 5], [6], [], []]" by simp_all
  ultimately show ?thesis by (simp only:)
qed

subsection \<open>The chain of signatures\<close>

text \<open>The signature after a sequence of chunks.\<close>

primrec chain_sig :: "chunk_signer \<Rightarrow> chunk_key \<Rightarrow> string \<Rightarrow> byte list list \<Rightarrow> (string, chunk_error) result" where
  "chain_sig sign_chunk ck prev [] = Ok prev"
| "chain_sig sign_chunk ck prev (p # ps) = and_then (sign_chunk ck prev p) (\<lambda>s. chain_sig sign_chunk ck s ps)"

text \<open>
  A wire that begins with the given chunks, each under a header line that declares its size and its
  signature, where the signature is the one of the chunk after the signature before it.
\<close>

inductive signed_wire :: "chunk_signer \<Rightarrow> chunk_key \<Rightarrow> string \<Rightarrow> byte list list \<Rightarrow> byte list \<Rightarrow> bool" for sign_chunk ck where
  signed_nil: "signed_wire sign_chunk ck prev [] wire"
| signed_chunk: "parse_chunk_header (bytes_str line) = Ok (length p, sig) \<Longrightarrow> sign_chunk ck prev p = Ok sig \<Longrightarrow>
    signed_wire sign_chunk ck sig ps wire \<Longrightarrow> signed_wire sign_chunk ck prev (p # ps) (line @ [13, 10] @ p @ [13, 10] @ wire)"

definition cb_pending :: "chunked_body \<Rightarrow> byte list" where
  "cb_pending c = cb_carry c @ axum_content (cb_inner c)"

lemma axum_read_content: "axum_read a = (Ok d, a1) \<Longrightarrow> axum_content a = d @ axum_content a1"
proof (induction a rule: axum_read.induct)
  case (1 a)
  show ?case
  proof (cases "ab_leftover a \<noteq> [] \<or> ab_eof a \<or> ab_frames a = []")
    case True
    then show ?thesis using 1(3) by (subst (asm) axum_read.simps) (auto simp: axum_content_def split: if_splits)
  next
    case False
    then obtain f fs where f: "ab_frames a = f # fs" "ab_leftover a = []" "\<not> ab_eof a" by (cases "ab_frames a") auto
    then show ?thesis using 1 by (cases f) (simp_all add: axum_read.simps [of a] axum_content_def)
  qed
qed

lemma ensure_pending: "ensure_in_carry need c = (Ok (), c1) \<Longrightarrow> cb_pending c1 = cb_pending c"
proof (induction need c rule: ensure_in_carry.induct)
  case (1 need c)
  show ?case
  proof (cases "length (cb_carry c) < need")
    case True
    then obtain d inner where d: "axum_read (cb_inner c) = (Ok d, inner)" "d \<noteq> []"
      "ensure_in_carry need (c\<lparr>cb_inner := inner, cb_carry := cb_carry c @ d\<rparr>) = (Ok (), c1)"
      using 1(2) by (subst (asm) ensure_in_carry.simps) (auto split: prod.splits sum.splits if_splits)
    then show ?thesis using 1(1) [OF True d(1) [symmetric] refl d(2)] axum_read_content [OF d(1)] by (simp add: cb_pending_def)
  qed (use 1(2) in \<open>simp add: ensure_in_carry.simps\<close>)
qed

lemma find_crlf_split: "find_crlf xs = Some p \<Longrightarrow> xs = take p xs @ [13, 10] @ drop (p + 2) xs"
  by (induction xs arbitrary: p rule: find_crlf.induct) (auto split: if_splits)

lemma ensure_keeps:
  "ensure_in_carry need c = (r, c1) \<Longrightarrow> cb_key c1 = cb_key c \<and> cb_running_sig c1 = cb_running_sig c \<and> cb_finished c1 = cb_finished c"
proof (induction need c rule: ensure_in_carry.induct)
  case (1 need c)
  then show ?case by (subst (asm) (2) ensure_in_carry.simps) (auto split: if_splits prod.splits sum.splits)
qed

lemma take_chunk_signed:
  assumes "take_chunk sign_chunk sz sig c = Some (Ok live, c1)"
  shows "sign_chunk (cb_key c) (cb_running_sig c) (cb_chunk_buf c1) = Ok (cb_running_sig c1)" "cb_key c1 = cb_key c" "cb_finished c1 = cb_finished c"
    "cb_chunk_pos c1 = 0" "live \<longleftrightarrow> cb_chunk_buf c1 \<noteq> []" "cb_running_sig c1 = sig" "length (cb_chunk_buf c1) = sz"
    "cb_pending c = cb_chunk_buf c1 @ [13, 10] @ cb_pending c1"
proof -
  let ?need = "(sz + 2) mod 2 ^ 64"
  obtain c2 where e: "ensure_in_carry ((sz + 2) mod 2 ^ 64) c = (Ok (), c2)"
    using assms by (cases "ensure_in_carry ((sz + 2) mod 2 ^ 64) c") (auto simp: take_chunk_def Let_def split: sum.splits)
  have len: "sz \<le> length (cb_carry c2)" using assms e by (simp add: take_chunk_def Let_def split: if_splits)
  obtain s where v: "verify_chunk sign_chunk (take sz (cb_carry c2)) (cb_running_sig c2) sig (cb_key c2) = Ok s"
    and c1: "c1 = c2\<lparr>cb_chunk_buf := take sz (cb_carry c2), cb_chunk_pos := 0, cb_carry := drop ((sz + 2) mod 2 ^ 64) (cb_carry c2), cb_running_sig := s\<rparr>"
    and live: "live = (sz \<noteq> 0)" and crlf: "take (?need - sz) (drop sz (cb_carry c2)) = [13, 10]"
    using assms e len by (auto simp: take_chunk_def Let_def split: sum.splits if_splits)
  have "sign_chunk (cb_key c2) (cb_running_sig c2) (take sz (cb_carry c2)) = Ok s" and s: "s = sig"
    using v by (auto simp: verify_chunk_def constant_time_eq_iff and_then_eq_Ok map_err_eq_Ok split: if_splits)
  with ensure_keeps [OF e] c1 show "sign_chunk (cb_key c) (cb_running_sig c) (cb_chunk_buf c1) = Ok (cb_running_sig c1)" "cb_key c1 = cb_key c"
    "cb_finished c1 = cb_finished c" "cb_chunk_pos c1 = 0" by simp_all
  show "live \<longleftrightarrow> cb_chunk_buf c1 \<noteq> []" "cb_running_sig c1 = sig" "length (cb_chunk_buf c1) = sz" using len live c1 s by auto
  have "2 \<le> ?need - sz" using arg_cong [OF crlf, of length] by simp
  then have need: "?need = sz + 2" using mod_less_eq_dividend [of "sz + 2" "2 ^ 64"] by linarith
  then have "drop sz (cb_carry c2) = [13, 10] @ drop ?need (cb_carry c2)"
    using crlf append_take_drop_id [of 2 "drop sz (cb_carry c2)"] by (simp add: add.commute)
  then have "cb_carry c2 = take sz (cb_carry c2) @ [13, 10] @ drop ?need (cb_carry c2)" by (metis append_take_drop_id)
  then have "cb_pending c2 = cb_chunk_buf c1 @ [13, 10] @ cb_pending c1" using c1 by (simp add: cb_pending_def)
  then show "cb_pending c = cb_chunk_buf c1 @ [13, 10] @ cb_pending c1" using ensure_pending [OF e] by simp
qed

lemma fetch_chunk_signed:
  assumes "fetch_chunk sign_chunk c = Some (Ok live, c1)"
  shows "sign_chunk (cb_key c) (cb_running_sig c) (cb_chunk_buf c1) = Ok (cb_running_sig c1) \<and> cb_key c1 = cb_key c \<and> cb_finished c1 = cb_finished c \<and>
    cb_chunk_pos c1 = 0 \<and> (live \<longleftrightarrow> cb_chunk_buf c1 \<noteq> []) \<and>
    (\<exists>line. parse_chunk_header (bytes_str line) = Ok (length (cb_chunk_buf c1), cb_running_sig c1) \<and>
      cb_pending c = line @ [13, 10] @ cb_chunk_buf c1 @ [13, 10] @ cb_pending c1)"
  using assms
proof (induction sign_chunk c rule: fetch_chunk.induct)
  case (1 sign_chunk c)
  show ?case
  proof (cases "find_crlf (cb_carry c)")
    case (Some q)
    then have "header_chunk sign_chunk q c = Some (Ok live, c1)" using 1(2) by (subst (asm) fetch_chunk.simps) simp
    then obtain sz sig where t: "take_chunk sign_chunk sz sig (c\<lparr>cb_carry := drop (q + 2) (cb_carry c)\<rparr>) = Some (Ok live, c1)"
      and h: "parse_chunk_header (bytes_str (take q (cb_carry c))) = Ok (sz, sig)"
      by (auto simp: header_chunk_def Let_def split: if_splits sum.splits)
    have "cb_pending c = take q (cb_carry c) @ [13, 10] @ cb_pending (c\<lparr>cb_carry := drop (q + 2) (cb_carry c)\<rparr>)"
      using find_crlf_split [OF Some] by (simp add: cb_pending_def)
    then show ?thesis using take_chunk_signed [OF t] h by auto
  next
    case None
    then obtain d inner where d: "axum_read (cb_inner c) = (Ok d, inner)" "d \<noteq> []"
      using 1(2) by (subst (asm) fetch_chunk.simps) (auto split: prod.splits sum.splits if_splits)
    then have "fetch_chunk sign_chunk (c\<lparr>cb_inner := inner, cb_carry := cb_carry c @ d\<rparr>) = Some (Ok live, c1)"
      using 1(2) None by (subst (asm) fetch_chunk.simps) (simp add: Let_def)
    moreover have "cb_pending (c\<lparr>cb_inner := inner, cb_carry := cb_carry c @ d\<rparr>) = cb_pending c"
      using axum_read_content [OF d(1)] by (simp add: cb_pending_def)
    ultimately show ?thesis using 1(1) [OF None d(1) [symmetric] refl d(2) refl] d(2) by simp
  qed
qed

lemma read_chunks_chain:
  assumes "\<not> cb_finished c" "length (cb_chunk_buf c) \<le> cb_chunk_pos c" "read_chunks sign_chunk n c = Some (Ok ps, c1)"
  shows "chain_sig sign_chunk (cb_key c) (cb_running_sig c) (takeWhile (\<lambda>p. p \<noteq> []) ps @ (if [] \<in> set ps then [[]] else [])) = Ok (cb_running_sig c1) \<and>
    signed_wire sign_chunk (cb_key c) (cb_running_sig c) (takeWhile (\<lambda>p. p \<noteq> []) ps @ (if [] \<in> set ps then [[]] else [])) (cb_pending c) \<and>
    concat ps = concat (takeWhile (\<lambda>p. p \<noteq> []) ps)"
  using assms
proof (induction n arbitrary: c ps)
  case (Suc n)
  obtain p c2 qs where r: "chunked_read sign_chunk c = Some (Ok p, c2)" "read_chunks sign_chunk n c2 = Some (Ok qs, c1)" "ps = p # qs"
    using Suc.prems(3) by (auto split: option.splits prod.splits sum.splits)
  obtain live c3 where f: "fetch_chunk sign_chunk c = Some (Ok live, c3)"
    and p: "if live then p = drop (cb_chunk_pos c3) (cb_chunk_buf c3) \<and> c2 = c3\<lparr>cb_chunk_pos := length (cb_chunk_buf c3)\<rparr>
      else p = [] \<and> c2 = c3\<lparr>cb_finished := True\<rparr>"
    using r(1) Suc.prems(1,2) by (auto simp: chunked_read_def Let_def split: option.splits prod.splits sum.splits if_splits)
  note s = fetch_chunk_signed [OF f]
  obtain line where line: "parse_chunk_header (bytes_str line) = Ok (length (cb_chunk_buf c3), cb_running_sig c3)"
    "cb_pending c = line @ [13, 10] @ cb_chunk_buf c3 @ [13, 10] @ cb_pending c3" using s by blast
  have pend: "cb_pending c2 = cb_pending c3" using p by (auto simp: cb_pending_def split: if_splits)
  have wire: "signed_wire sign_chunk (cb_key c) (cb_running_sig c) (cb_chunk_buf c3 # xs) (cb_pending c)"
    if "signed_wire sign_chunk (cb_key c) (cb_running_sig c3) xs (cb_pending c3)" for xs
    unfolding line(2) using signed_chunk [OF line(1) _ that] s by blast
  show ?case
  proof (cases live)
    case True
    then have "p = cb_chunk_buf c3" "p \<noteq> []" using p s by auto
    then show ?thesis using Suc.IH [of c2 qs] r(2,3) p s True Suc.prems(1) pend wire by simp
  next
    case False
    then have "read_chunks sign_chunk n c2 = Some (Ok (replicate n []), c2)" using read_finished p by simp
    then have "qs = replicate n []" "c1 = c2" using r(2) by simp_all
    then show ?thesis using p s r(3) False wire [OF signed_nil] by auto
  qed
qed (simp add: signed_nil)

text \<open>C9: Whatever a client sends, every byte that the decoder of an aws-chunked body delivers is in a chunk whose signature has been checked.
  After any number of reads without an error, the chunks that were delivered form a chain: each is signed with the secret key after the signature
  of the one before it, the first after the signature of the request, and a body that was read to its end is closed by a signed empty chunk.
  The client has sent these signatures: the bytes of the body begin with the delivered chunks, each under a header that declares its size and
  its signature in the chain.\<close>

theorem chunked_body_signed:
  assumes "read_chunks sign_chunk n (chunked_new body seed ck) = Some (Ok ps, c1)"
  shows "chain_sig sign_chunk ck seed (takeWhile (\<lambda>p. p \<noteq> []) ps @ (if [] \<in> set ps then [[]] else [])) = Ok (cb_running_sig c1) \<and>
    signed_wire sign_chunk ck seed (takeWhile (\<lambda>p. p \<noteq> []) ps @ (if [] \<in> set ps then [[]] else [])) (axum_content (axum_new body)) \<and>
    concat ps = concat (takeWhile (\<lambda>p. p \<noteq> []) ps)"
  using read_chunks_chain [OF _ _ assms] by (simp add: chunked_new_def cb_pending_def)

theorem chunked_body_signed_witness:
  "\<exists>c1. read_chunks example_chunk_signer 3 (chunked_new [Data example_wire] ''f'' example_key) = Some (Ok [[4, 5], [6], []], c1) \<and>
     chain_sig example_chunk_signer example_key ''f'' [[4, 5], [6], []] = Ok (cb_running_sig c1)"
proof -
  let ?ps = "[[4, 5], [6 :: byte]]"
  have "decodes example_chunk_signer ?ps (chunked_new [Data example_wire] ''f'' example_key)"
    by (rule decodes_new) (auto intro: example_hex_text simp only: example_chunked_wire, simp_all)
  then obtain c1 where "read_chunks example_chunk_signer (length ?ps + Suc 0) (chunked_new [Data example_wire] ''f'' example_key) =
      Some (Ok (?ps @ replicate (Suc 0) []), c1)" using read_decodes by blast
  moreover have "length ?ps + Suc 0 = 3" "?ps @ replicate (Suc 0) [] = [[4, 5], [6], []]" by simp_all
  ultimately have r: "read_chunks example_chunk_signer 3 (chunked_new [Data example_wire] ''f'' example_key) = Some (Ok [[4, 5], [6], []], c1)"
    by (simp only:)
  then show ?thesis using chunked_body_signed [OF r] by auto
qed

text \<open>C35: A chunk that declares a size within two of the largest 64-bit number brings the server down.  The size of the chunk with its line end
  wraps around, so the decoder stops reading after one byte at most, and then takes a slice of the declared size: the read panics, whatever the
  signature, before any signature of the chunk is checked.\<close>

theorem oversized_chunk_panics:
  assumes "2 ^ 64 \<le> sz + 2" "sz < 2 ^ 64" "hex_text sig"
  shows "chunked_read sign_chunk (chunked_new [Data (str_bytes (chunk_line sz sig) @ [13, 10, b])] seed ck) = None"
proof -
  let ?line = "chunk_line sz sig" and ?c = "chunked_new [Data (str_bytes (chunk_line sz sig) @ [13, 10, b])] seed ck"
  have g: "\<forall>x \<in> set ?line. graphic x" using chunk_line_ascii [OF assms(3)] by blast
  have first: "find_crlf (str_bytes ?line @ [13, 10, b]) = Some (length ?line)"
    using find_crlf_first [OF str_bytes_ascii(1) [OF g]] by (simp add: str_bytes_def)
  let ?c1 = "?c\<lparr>cb_inner := \<lparr>ab_frames = [], ab_leftover = [], ab_eof = False\<rparr>, cb_carry := str_bytes ?line @ [13, 10, b]\<rparr>"
  have "axum_read (cb_inner ?c) = (Ok (str_bytes ?line @ [13, 10, b]), \<lparr>ab_frames = [], ab_leftover = [], ab_eof = False\<rparr>)"
    by (simp add: chunked_new_def axum_new_def axum_read.simps)
  then have "fetch_chunk sign_chunk ?c = fetch_chunk sign_chunk ?c1"
    by (subst fetch_chunk.simps) (simp add: chunked_new_def Let_def)
  also have "\<dots> = header_chunk sign_chunk (length ?line) ?c1" by (subst fetch_chunk.simps) (simp add: first)
  also have "\<dots> = take_chunk sign_chunk sz sig (?c1\<lparr>cb_carry := [b]\<rparr>)"
    using str_bytes_ascii(2,3) [OF g] parse_chunk_line [OF assms(2,3)] by (simp add: header_chunk_def Let_def str_bytes_def)
  also have "\<dots> = None"
  proof -
    have "(sz + 2) mod 2 ^ 64 \<le> 1" "1 < sz" using assms(1,2) by (auto simp: mod_if)
    then show ?thesis by (simp add: take_chunk_def Let_def ensure_in_carry.simps)
  qed
  finally show ?thesis by (simp add: chunked_read_def chunked_new_def)
qed

theorem oversized_chunk_panics_witness:
  "chunked_read example_chunk_signer (chunked_new [Data (str_bytes (chunk_line (2 ^ 64 - 1) ''0'') @ [13, 10, 0])] ''f'' example_key) = None"
  by (rule oversized_chunk_panics) (simp_all add: hex_text_def hex_val_def)

end
