(* ===== verification/Body_Put.thy ===== *)
theory Body_Put
  imports Deployment Chunked_Wire
begin

text \<open>
  A PUT reads its body only as far as it needs to. The locale \<open>stream_follows\<close> is the contract
  between two streams of which the second delivers whatever data the first does; in it, a PUT that
  succeeds on the first stream has the same result, on the same drives, on the second.
\<close>

subsection \<open>Steps that succeed alike\<close>

definition succeeds_as :: "('a, 'd) eng \<Rightarrow> ('a, 'd) eng \<Rightarrow> bool" where
  "succeeds_as m m' \<longleftrightarrow> (\<forall>st x st1. m st = Some (Ok x, st1) \<longrightarrow> m' st = Some (Ok x, st1))"

lemma succeeds_as_refl [intro, simp]: "succeeds_as m m"
  by (simp add: succeeds_as_def)

lemma succeeds_as_bind [intro]: "succeeds_as m m' \<Longrightarrow> (\<And>x. succeeds_as (f x) (f' x)) \<Longrightarrow> succeeds_as (eng_bind m f) (eng_bind m' f')"
  unfolding succeeds_as_def
proof (intro allI impI)
  fix st y st2
  assume m: "\<forall>st x st1. m st = Some (Ok x, st1) \<longrightarrow> m' st = Some (Ok x, st1)"
    and f: "\<And>x. \<forall>st y st1. f x st = Some (Ok y, st1) \<longrightarrow> f' x st = Some (Ok y, st1)" and b: "eng_bind m f st = Some (Ok y, st2)"
  obtain x st0 where "m st = Some (Ok x, st0)" "f x st0 = Some (Ok y, st2)" using eng_bind_Ok [OF b] by blast
  then show "eng_bind m' f' st = Some (Ok y, st2)" using m f by (simp add: eng_bind_def)
qed

lemma succeeds_as_of: "(\<And>x. r = Ok x \<Longrightarrow> r' = Ok x) \<Longrightarrow> succeeds_as (eng_of r) (eng_of r')"
  by (simp add: succeeds_as_def eng_of_Ok)

lemma succeeds_as_cleanup:
  "succeeds_as m m' \<Longrightarrow> succeeds_as (eng_try m (\<lambda>r st. Some (r, if is_ok r then st else f st))) (eng_try m' (\<lambda>r st. Some (r, if is_ok r then st else f st)))"
  by (auto simp: succeeds_as_def eng_try_def is_ok_def split: option.splits)

lemma succeeds_as_set: "(\<And>bs. succeeds_as (f bs) (f' bs)) \<Longrightarrow> succeeds_as (with_set eg b k f) (with_set eg b k f')"
  by (auto simp: succeeds_as_def with_set_def split: option.splits sum.splits)

subsection \<open>Streams that follow another\<close>

locale stream_follows =
  fixes rd :: "'s reader" and rd' :: "'t reader" and follows :: "'s \<Rightarrow> 't \<Rightarrow> bool"
  assumes follow_law: "follows s t \<Longrightarrow> rd s = (Ok c, s1) \<Longrightarrow> c \<noteq> [] \<Longrightarrow> \<exists>t1. rd' t = (Ok c, t1) \<and> follows s1 t1"
begin

lemma drain_follows:
  assumes "follows s t" "drain_inline_payload md5_hex rd n frames k s = Ok x"
  shows "drain_inline_payload md5_hex rd' n frames k t = Ok x"
  using assms
proof (induction "n - k" arbitrary: frames k s t rule: less_induct)
  case less
  show ?case
  proof (cases "k < n")
    case True
    obtain c s1 where c: "rd s = (Ok c, s1)" "c \<noteq> []"
      using less.prems(2) True by (subst (asm) drain_inline_payload.simps) (auto split: prod.splits sum.splits if_splits)
    obtain t1 where t: "rd' t = (Ok c, t1)" "follows s1 t1" using follow_law [OF less.prems(1) c] by blast
    let ?f = "take (min (n - k) (length c)) c"
    have "drain_inline_payload md5_hex rd n (frames @ [?f]) (k + length ?f) s1 = Ok x"
      using less.prems(2) True c by (subst (asm) drain_inline_payload.simps) (simp add: Let_def)
    then have "drain_inline_payload md5_hex rd' n (frames @ [?f]) (k + length ?f) t1 = Ok x"
      using less.hyps True c(2) t(2) by (simp flip: length_greater_0_conv)
    then show ?thesis using True t(1) c(2) by (subst drain_inline_payload.simps) (simp add: Let_def)
  qed (use less.prems in \<open>simp add: drain_inline_payload.simps [of _ _ n]\<close>)
qed

lemma fill_follows:
  assumes "follows s t" "fill_stripe rd sz consumed want buf carry s = (Ok x, s1)"
  shows "\<exists>t1. fill_stripe rd' sz consumed want buf carry t = (Ok x, t1) \<and> follows s1 t1"
  using assms
proof (induction "want - length buf" arbitrary: buf carry s t rule: less_induct)
  case less
  show ?case
  proof (cases "length buf < want")
    case True
    then obtain c s2 where c: "(if carry = [] then rd s else (Ok carry, s)) = (Ok c, s2)" "c \<noteq> []"
      using less.prems(2) by (subst (asm) fill_stripe.simps) (auto split: prod.splits sum.splits if_splits)
    obtain t2 where t: "(if carry = [] then rd' t else (Ok carry, t)) = (Ok c, t2)" "follows s2 t2"
      using follow_law [OF less.prems(1), of c s2] c less.prems(1) by (cases "carry = []") auto
    let ?n = "min (want - length buf) (length c)"
    have "fill_stripe rd sz consumed want (buf @ take ?n c) (drop ?n c) s2 = (Ok x, s1)"
      using less.prems(2) True c by (subst (asm) fill_stripe.simps) (simp add: Let_def)
    then have "\<exists>t1. fill_stripe rd' sz consumed want (buf @ take ?n c) (drop ?n c) t2 = (Ok x, t1) \<and> follows s1 t1"
      using less.hyps [of "buf @ take ?n c"] True c(2) t(2) by (simp flip: length_greater_0_conv)
    then show ?thesis using True t(1) c(2) by (subst fill_stripe.simps) (simp add: Let_def)
  qed (use less.prems in \<open>auto simp: fill_stripe.simps [of _ _ _ want]\<close>)
qed

lemma write_follows:
  assumes "follows s t" "write_stripes rs_encode md5_hex rd wr ec sz stripe_data n consumed hashed carry s ks = (Ok etag, ks1, s1)"
  shows "\<exists>t1. write_stripes rs_encode md5_hex rd' wr ec sz stripe_data n consumed hashed carry t ks = (Ok etag, ks1, t1)"
  using assms
proof (induction n arbitrary: consumed hashed carry s t ks)
  case (Suc n)
  let ?want = "min (sz - consumed) stripe_data"
  obtain buf carry1 s2 where f: "fill_stripe rd sz consumed ?want [] carry s = (Ok (buf, carry1), s2)"
    using Suc.prems(2) by (auto simp: Let_def split: prod.splits sum.splits)
  obtain t2 where t: "fill_stripe rd' sz consumed ?want [] carry t = (Ok (buf, carry1), t2)" "follows s2 t2"
    using fill_follows [OF Suc.prems(1) f] by blast
  obtain shards ks2 where w: "encode_stripe rs_encode ec (buf @ replicate (stripe_data - ?want) 0) = Ok shards" "write_shards wr ks shards = (ks2, None)"
    using Suc.prems(2) f by (auto simp: Let_def split: prod.splits sum.splits option.splits)
  have "write_stripes rs_encode md5_hex rd wr ec sz stripe_data n (consumed + ?want) (hashed @ buf) carry1 s2 ks2 = (Ok etag, ks1, s1)"
    using Suc.prems(2) f w by (simp add: Let_def)
  then show ?case using Suc.IH [OF t(2)] t(1) w by (simp add: Let_def)
qed simp

lemma stage_follows:
  assumes "follows s t"
  shows "succeeds_as (stage_shards eg ec open_sinks rd s sz stripe_data stripes bucket backends quorum)
    (stage_shards eg ec open_sinks rd' t sz stripe_data stripes bucket backends quorum)"
proof -
  have "write_to_sinks eg ec rd' t sz stripe_data stripes backends sinks st = (Ok etag, ks, st1)"
    if "write_to_sinks eg ec rd s sz stripe_data stripes backends sinks st = (Ok etag, ks, st1)" for sinks st etag ks st1
    using that write_follows [OF assms]
    by (fastforce simp: write_to_sinks_def encode_and_write_stripes_def split: prod.splits)
  then have "succeeds_as
      (\<lambda>st. case write_to_sinks eg ec rd s sz stripe_data stripes backends sinks st of
         (Inl e, _, st1) \<Rightarrow> Some (Err (map_bucket_or_io bucket e), st1) | (Inr etag, sinks1, st1) \<Rightarrow> f etag sinks1 st1)
      (\<lambda>st. case write_to_sinks eg ec rd' t sz stripe_data stripes backends sinks st of
         (Inl e, _, st1) \<Rightarrow> Some (Err (map_bucket_or_io bucket e), st1) | (Inr etag, sinks1, st1) \<Rightarrow> f etag sinks1 st1)" for sinks f
    by (auto simp: succeeds_as_def split: prod.splits sum.splits)
  then show ?thesis unfolding stage_shards_def by (intro succeeds_as_bind) auto
qed

lemma put_follows:
  assumes "follows s t" "put_object eg lock fence now fresh data_dir staging_id bucket key sz rd s content_type st = Some (Ok info, st1)"
  shows "put_object eg lock fence now fresh data_dir staging_id bucket key sz rd' t content_type st = Some (Ok info, st1)"
proof -
  have "succeeds_as (put_inline eg fence staging_id bucket key sz rd s content_type now v bs q)
      (put_inline eg fence staging_id bucket key sz rd' t content_type now v bs q)" for v bs q
    unfolding put_inline_def Let_def
    by (intro succeeds_as_bind succeeds_as_of) (auto simp: map_err_eq_Ok intro: drain_follows [OF assms(1)])
  moreover have "succeeds_as (put_ec eg fence data_dir staging_id bucket key sz rd s content_type now v bs q)
      (put_ec eg fence data_dir staging_id bucket key sz rd' t content_type now v bs q)" for v bs q
    unfolding put_ec_def Let_def
    by (intro succeeds_as_bind succeeds_as_refl) (auto split: option.split intro!: succeeds_as_cleanup succeeds_as_bind stage_follows [OF assms(1)])
  ultimately have "succeeds_as (put_object eg lock fence now fresh data_dir staging_id bucket key sz rd s content_type)
      (put_object eg lock fence now fresh data_dir staging_id bucket key sz rd' t content_type)"
    unfolding put_object_def Let_def by (intro succeeds_as_bind succeeds_as_set succeeds_as_refl) simp
  then show ?thesis using assms(2) by (simp add: succeeds_as_def)
qed

end

subsection \<open>The declared digest\<close>

text \<open>Until its end is reached, the hashing stream delivers what the stream below it does, and nothing else.\<close>

definition sha_follows :: "'s \<Rightarrow> 's sha_stream \<Rightarrow> bool" where
  "sha_follows s t \<longleftrightarrow> sv_inner t = s \<and> \<not> sv_eof t"

interpretation hashing: stream_follows rd "sha_read sha256_hex rd" sha_follows for sha256_hex and rd :: "'s reader"
  by unfold_locales (simp add: sha_follows_def sha_read_def)

interpretation hashed: stream_follows "sha_read sha256_hex rd" rd "\<lambda>t s. sha_follows s t" for sha256_hex and rd :: "'s reader"
  by unfold_locales (auto simp: sha_follows_def sha_read_def split: prod.splits sum.splits if_splits)

text \<open>C30: The digest that a client declares for the body of a PUT has no effect on a PUT that succeeds.  The hashing stream compares the
  digest only when it is read at its end, and a PUT stops reading as soon as it has the declared number of bytes: for every declared digest and
  every hash function, the PUT through the hashing stream succeeds exactly when the PUT of the bare body does, with the same result and the
  same drives, also when the digest of the body differs from the declared one.\<close>

theorem declared_digest_unchecked:
  assumes "sha_new src expected_hex = Ok t"
  shows "put_object eg lock fence now fresh data_dir staging_id bucket key sz (sha_read sha256_hex rd) t content_type st = Some (Ok info, st1) \<longleftrightarrow>
    put_object eg lock fence now fresh data_dir staging_id bucket key sz rd src content_type st = Some (Ok info, st1)"
proof -
  have f: "sha_follows src t" using assms by (auto simp: sha_new_def sha_follows_def split: if_splits)
  show ?thesis by (rule iffI) (erule hashed.put_follows [OF f], erule hashing.put_follows [OF f])
qed

theorem declared_digest_unchecked_witness:
  "\<exists>t st1. sha_new [[4, 5, 6]] (replicate 64 CHR ''0'') = Ok t \<and> str_bytes (replicate 64 CHR ''f'') \<noteq> sv_expected t \<and>
     put_object rt_engine (Ok ()) (Ok ()) 7 rt_id ''d'' ''t'' ''b'' ''k'' 2 (sha_read (\<lambda>_. str_bytes (replicate 64 CHR ''f'')) rope_read) t None rt_store =
       Some (Ok rt_info, st1)"
proof -
  obtain st1 where put: "put_object rt_engine (Ok ()) (Ok ()) 7 rt_id ''d'' ''t'' ''b'' ''k'' 2 rope_read [[4, 5, 6]] None rt_store = Some (Ok rt_info, st1)"
    by (rule rt_put) (rule that)
  obtain t where t: "sha_new [[4, 5, 6 :: byte]] (replicate 64 CHR ''0'') = Ok t" "sv_expected t = str_bytes (to_ascii_lowercase (replicate 64 CHR ''0''))"
    by (simp add: sha_new_def)
  have "hd (to_ascii_lowercase (replicate 64 CHR ''0'')) \<noteq> hd (replicate 64 CHR ''f'')" by (simp add: to_ascii_lowercase_def)
  then have "str_bytes (replicate 64 CHR ''f'') \<noteq> sv_expected t" unfolding t(2) str_bytes_inject by metis
  then show ?thesis
    using t(1) put declared_digest_unchecked [OF t(1), of rt_engine "Ok ()" "Ok ()" 7 rt_id "''d''" "''t''" "''b''" "''k''" 2
        "\<lambda>_. str_bytes (replicate 64 CHR ''f'')" rope_read None rt_store rt_info st1] by blast
qed

subsection \<open>A chunked body\<close>

fun source_decodes :: "chunk_signer \<Rightarrow> byte list list \<Rightarrow> body_source \<Rightarrow> bool" where
  "source_decodes sign_chunk ps (Chunked c) = decodes sign_chunk ps c"
| "source_decodes sign_chunk ps _ = False"

lemma source_decodes_next:
  assumes "source_decodes sign_chunk ps b" "rope_read ps = (Ok p, qs)" "p \<noteq> []"
  shows "\<exists>b1. body_read sha256_hex sign_chunk b = Some (Ok p, b1) \<and> source_decodes sign_chunk qs b1"
proof -
  obtain c where c: "b = Chunked c" "decodes sign_chunk ps c" using assms(1) by (cases b) auto
  moreover have ps: "ps = p # qs" using assms(2,3) by (cases ps) auto
  ultimately obtain c1 where "chunked_read sign_chunk c = Some (Ok p, c1)" "decodes sign_chunk qs c1" by (auto elim: decodes_next)
  then show ?thesis using c(1) by auto
qed

interpretation decoding: stream_follows rope_read "\<lambda>b. the (body_read sha256_hex sign_chunk b)" "source_decodes sign_chunk" for sha256_hex sign_chunk
  by unfold_locales (metis option.sel source_decodes_next)



end
