(* ===== verification/Rpc.thy ===== *)
theory Rpc
  imports Body_Source Lock_Plane
begin

text \<open>
  The calls between nodes: the envelope of \<^verbatim>\<open>crates/openlake_io/src/rpc.rs\<close> and the server that
  routes it to the drives and the lock table of a node, \<^verbatim>\<open>openlake_server/src/rpc_server.rs\<close>.

  A request has the fields that an implementation of the storage trait reads; those that every
  implementation ignores (\<^verbatim>\<open>orig_volume\<close>, the \<^verbatim>\<open>recursive\<close> flag of a batch, the options of \<^verbatim>\<open>update_metadata\<close>) are left out, as are the
  requests for the capacity and the format of a disk. The serialisation (bincode) and the HTTP
  library are parameters. The server is the one built without RDMA.
\<close>

subsection \<open>The envelope\<close>

datatype rpc_request =
    RqMakeVol nat string
  | RqStatVol nat string
  | RqListVols nat
  | RqDeleteVol nat string bool
  | RqListDir nat string string nat
  | RqWalkDir nat string string bool string "string option" "nat option"
  | RqCreateFileStream nat string string nat
  | RqReadFileStream nat string string nat nat
  | RqRenameFile nat string string string string
  | RqCheckFile nat string string
  | RqDelete nat string string bool
  | RqDeleteBatch nat string "string list"
  | RqWriteMetadata nat string string file_info
  | RqUpdateMetadata nat string string file_info
  | RqReadVersion nat string string "string option" bool
  | RqDeleteVersion nat string string file_info bool bool
  | RqRenameData nat string string file_info string string
  | RqVerifyFile nat string string
  | RqWriteFile nat string string "byte list"
  | RqReadFile nat string string
  | RqMakeDirAll nat string string
  | RqLockAcquire string string nat
  | RqLockRelease string string
  | RqLockRefresh string string

datatype wire_error =
    WVolumeNotFound string
  | WVolumeExists string
  | WVolumeNotEmpty string
  | WFileNotFound string string
  | WFileAlreadyExists string string
  | WOther string

datatype rpc_response =
    RsOk
  | RsVol string
  | RsVols "string list"
  | RsStrings "string list"
  | RsFile file_info
  | RsWalked "(string \<times> file_info) list"
  | RsDeleteBatchResult "wire_error option list"
  | RsRenamed rename_data_resp
  | RsFileBytes "byte list option"
  | RsLockGranted
  | RsLockDenied
  | RsLockRefreshed
  | RsLockNotFound
  | RsErr wire_error

fun to_wire :: "io_error \<Rightarrow> wire_error" where
  "to_wire (VolumeNotFound v) = WVolumeNotFound v"
| "to_wire (VolumeExists v) = WVolumeExists v"
| "to_wire (VolumeNotEmpty v) = WVolumeNotEmpty v"
| "to_wire (FileNotFound v p) = WFileNotFound v p"
| "to_wire (FileAlreadyExists v p) = WFileAlreadyExists v p"
| "to_wire e = WOther (show_io_error e)"

fun from_wire :: "wire_error \<Rightarrow> io_error" where
  "from_wire (WVolumeNotFound v) = VolumeNotFound v"
| "from_wire (WVolumeExists v) = VolumeExists v"
| "from_wire (WVolumeNotEmpty v) = VolumeNotEmpty v"
| "from_wire (WFileNotFound v p) = FileNotFound v p"
| "from_wire (WFileAlreadyExists v p) = FileAlreadyExists v p"
| "from_wire (WOther s) = Decode s"

record rpc_codec =
  rc_enc_req :: "rpc_request \<Rightarrow> (byte list, string) result"
  rc_dec_req :: "byte list \<Rightarrow> (rpc_request, string) result"
  rc_enc_resp :: "rpc_response \<Rightarrow> (byte list, string) result"
  rc_dec_resp :: "byte list \<Rightarrow> (rpc_response, string) result"

definition enc_request :: "rpc_codec \<Rightarrow> rpc_request \<Rightarrow> (byte list, io_error) result" where
  "enc_request c r = map_err Encode (rc_enc_req c r)"

definition dec_request :: "rpc_codec \<Rightarrow> byte list \<Rightarrow> (rpc_request, io_error) result" where
  "dec_request c b = map_err Decode (rc_dec_req c b)"

definition dec_response :: "rpc_codec \<Rightarrow> byte list \<Rightarrow> (rpc_response, io_error) result" where
  "dec_response c b = map_err Decode (rc_dec_resp c b)"

text \<open>\<open>unwrap_or_default\<close>: a response that does not encode is sent as an empty body.\<close>

definition response_body :: "rpc_codec \<Rightarrow> rpc_response \<Rightarrow> byte list" where
  "response_body c r = (case rc_enc_resp c r of Inl _ \<Rightarrow> [] | Inr b \<Rightarrow> b)"

subsection \<open>The node\<close>

definition UNARY_BODY_LIMIT :: nat where
  "UNARY_BODY_LIMIT = 8 * 1024 * 1024"

definition STREAM_REQ_LIMIT :: nat where
  "STREAM_REQ_LIMIT = 64 * 1024"

record 'd rpc_node =
  rn_disks :: "'d list"
  rn_locks :: lock_server

definition disk_at :: "'d list \<Rightarrow> nat \<Rightarrow> ('d, io_error) result" where
  "disk_at disks disk_idx =
     (if disk_idx < length disks then Ok (disks ! disk_idx)
      else Err (InvalidArgument (''disk_idx '' @ show_nat disk_idx @ '' out of range (this node owns '' @ show_nat (length disks) @ '' disks)'')))"

definition fold_unit :: "(unit, io_error) result \<Rightarrow> rpc_response" where
  "fold_unit r = (case r of Inl e \<Rightarrow> RsErr (to_wire e) | Inr _ \<Rightarrow> RsOk)"

definition fold_ok :: "('a \<Rightarrow> rpc_response) \<Rightarrow> ('a, io_error) result \<Rightarrow> rpc_response" where
  "fold_ok f r = (case r of Inl e \<Rightarrow> RsErr (to_wire e) | Inr x \<Rightarrow> f x)"

text \<open>An operation on the disk of a request; an operation that panics ends the server.\<close>

definition on_disk_panicking :: "nat \<Rightarrow> (('a, io_error) result \<Rightarrow> rpc_response) \<Rightarrow> ('a, 'd) panicking_op \<Rightarrow> 'd rpc_node
    \<Rightarrow> (rpc_response \<times> 'd rpc_node) option" where
  "on_disk_panicking disk_idx reply f n =
     (case disk_at (rn_disks n) disk_idx of
        Inl e \<Rightarrow> Some (RsErr (to_wire e), n)
      | Inr d \<Rightarrow> (case f d of None \<Rightarrow> None | Some (r, d1) \<Rightarrow> Some (reply r, n\<lparr>rn_disks := (rn_disks n)[disk_idx := d1]\<rparr>)))"

definition on_disk :: "nat \<Rightarrow> (('a, io_error) result \<Rightarrow> rpc_response) \<Rightarrow> ('a, 'd) drive_op \<Rightarrow> 'd rpc_node
    \<Rightarrow> (rpc_response \<times> 'd rpc_node) option" where
  "on_disk disk_idx reply f = on_disk_panicking disk_idx reply (\<lambda>d. Some (f d))"

definition batch_result :: "(unit, io_error) result \<Rightarrow> wire_error option" where
  "batch_result r = (case r of Inl e \<Rightarrow> Some (to_wire e) | Inr _ \<Rightarrow> None)"

fun dispatch :: "('d, 'k, 's) backend \<Rightarrow> nat \<Rightarrow> rpc_request \<Rightarrow> 'd rpc_node \<Rightarrow> (rpc_response \<times> 'd rpc_node) option" where
  "dispatch ops now (RqMakeVol i v) n = on_disk i fold_unit (bk_make_vol ops v) n"
| "dispatch ops now (RqStatVol i v) n = on_disk i (fold_ok RsVol) (bk_stat_vol ops v) n"
| "dispatch ops now (RqListVols i) n = on_disk i (fold_ok RsVols) (bk_list_vols ops) n"
| "dispatch ops now (RqDeleteVol i v force) n = on_disk i fold_unit (bk_delete_vol ops v force) n"
| "dispatch ops now (RqListDir i v dir cnt) n = on_disk i (fold_ok RsStrings) (bk_list_dir ops v dir cnt) n"
| "dispatch ops now (RqWalkDir i v dir rec pf sa mk) n = on_disk i (fold_ok RsWalked) (bk_walk_dir ops v dir rec pf sa mk) n"
| "dispatch ops now (RqCreateFileStream _ _ _ _) n = Some (RsErr (to_wire (InvalidArgument ''streaming variant routed through unary dispatch'')), n)"
| "dispatch ops now (RqReadFileStream _ _ _ _ _) n = Some (RsErr (to_wire (InvalidArgument ''streaming variant routed through unary dispatch'')), n)"
| "dispatch ops now (RqRenameFile i sv sp dv dp) n = on_disk i fold_unit (bk_rename_file ops sv sp dv dp) n"
| "dispatch ops now (RqCheckFile i v p) n = on_disk i fold_unit (bk_check_file ops v p) n"
| "dispatch ops now (RqDelete i v p rec) n = on_disk i fold_unit (bk_delete ops v p rec) n"
| "dispatch ops now (RqDeleteBatch i v ps) n = on_disk i (fold_ok (\<lambda>per_key. RsDeleteBatchResult (map batch_result per_key))) (bk_delete_batch ops v ps) n"
| "dispatch ops now (RqWriteMetadata i v p fi) n = on_disk_panicking i fold_unit (bk_write_metadata ops v p fi) n"
| "dispatch ops now (RqUpdateMetadata i v p fi) n = on_disk_panicking i fold_unit (bk_update_metadata ops v p fi) n"
| "dispatch ops now (RqReadVersion i v p vid rd) n = on_disk i (fold_ok RsFile) (bk_read_version ops v p vid rd) n"
| "dispatch ops now (RqDeleteVersion i v p fi force undo_write) n =
     on_disk i fold_unit (bk_delete_version ops v p fi \<lparr>do_force_del_marker = force, do_undo_write = undo_write\<rparr>) n"
| "dispatch ops now (RqRenameData i sv sp fi dv dp) n = on_disk_panicking i (fold_ok RsRenamed) (bk_rename_data ops sv sp fi dv dp) n"
| "dispatch ops now (RqVerifyFile i v p) n = on_disk i fold_unit (bk_verify_file ops v p) n"
| "dispatch ops now (RqWriteFile i v p bs) n = on_disk i fold_unit (bk_write_file ops v p bs) n"
| "dispatch ops now (RqReadFile i v p) n = on_disk i (fold_ok RsFileBytes) (bk_read_file ops v p) n"
| "dispatch ops now (RqMakeDirAll i v p) n = on_disk i fold_unit (bk_make_dir_all ops v p) n"
| "dispatch ops now (RqLockAcquire r u ttl) n =
     (case ls_acquire now r u ttl (rn_locks n) of (ok, l) \<Rightarrow> Some (if ok then RsLockGranted else RsLockDenied, n\<lparr>rn_locks := l\<rparr>))"
| "dispatch ops now (RqLockRelease r u) n = Some (RsOk, n\<lparr>rn_locks := ls_release r u (rn_locks n)\<rparr>)"
| "dispatch ops now (RqLockRefresh r u) n =
     (case ls_refresh now r u (rn_locks n) of (ok, l) \<Rightarrow> Some (if ok then RsLockRefreshed else RsLockNotFound, n\<lparr>rn_locks := l\<rparr>))"

subsection \<open>The unary route\<close>

text \<open>A status and a body; \<open>too_large\<close> is the text of the library for a body beyond the limit.\<close>

type_synonym http_reply = "nat \<times> byte list"

definition error_response :: "rpc_codec \<Rightarrow> nat \<Rightarrow> io_error \<Rightarrow> http_reply" where
  "error_response c status e = (status, response_body c (RsErr (to_wire e)))"

fun is_streaming :: "rpc_request \<Rightarrow> bool" where
  "is_streaming (RqCreateFileStream _ _ _ _) = True"
| "is_streaming (RqReadFileStream _ _ _ _ _) = True"
| "is_streaming _ = False"

definition handle_unary :: "rpc_codec \<Rightarrow> string \<Rightarrow> ('d, 'k, 's) backend \<Rightarrow> nat \<Rightarrow> byte list \<Rightarrow> 'd rpc_node
    \<Rightarrow> (http_reply \<times> 'd rpc_node) option" where
  "handle_unary c too_large ops now body n =
     (if length body > UNARY_BODY_LIMIT then Some (error_response c 413 (Io OtherKind too_large), n)
      else case dec_request c body of
             Inl e \<Rightarrow> Some (error_response c 400 e, n)
           | Inr r \<Rightarrow>
               if is_streaming r then Some (error_response c 400 (InvalidArgument ''streaming variant routed to /v1/rpc''), n)
               else map_option (\<lambda>(resp, n1). ((200, response_body c resp), n1)) (dispatch ops now r n))"

subsection \<open>The streaming routes\<close>

fun pump_body :: "('d, 'k, 's) backend \<Rightarrow> nat \<Rightarrow> nat \<Rightarrow> body_frame list \<Rightarrow> 'k \<Rightarrow> 'd \<Rightarrow> (unit, io_error) result \<times> 'k \<times> 'd" where
  "pump_body ops expected moved frames k d =
     (if moved < expected
      then case frames of
             [] \<Rightarrow> (Err (Io UnexpectedEof (''stream-write body ended at '' @ show_nat moved @ ''/'' @ show_nat expected)), k, d)
           | Data bs # fs \<Rightarrow>
               if bs = [] then pump_body ops expected moved fs k d
               else let chunk = take (min (expected - moved) (length bs)) bs in
                 (case bk_write_all ops chunk k d of
                    (Inl e, k1, d1) \<Rightarrow> (Err e, k1, d1)
                  | (Inr _, k1, d1) \<Rightarrow> pump_body ops expected (moved + length chunk) fs k1 d1)
           | Trailers # fs \<Rightarrow> pump_body ops expected moved fs k d
           | FrameErr e # fs \<Rightarrow> (Err (Io OtherKind e), k, d)
      else (Ok (), k, d))"

declare pump_body.simps [simp del]

text \<open>The stream is finished whether or not the body was complete; the error of the body comes first.\<close>

definition write_stream :: "('d, 'k, 's) backend \<Rightarrow> string \<Rightarrow> string \<Rightarrow> nat \<Rightarrow> body_frame list \<Rightarrow> (unit, 'd) drive_op" where
  "write_stream ops volume path sz frames d =
     (case bk_create_file_writer ops volume path sz d of
        (Inl e, d1) \<Rightarrow> (Err e, d1)
      | (Inr k, d1) \<Rightarrow>
          (case pump_body ops sz 0 frames k d1 of
             (pumped, k2, d2) \<Rightarrow> (case bk_finish ops k2 d2 of (finished, _, d3) \<Rightarrow> (and_then pumped (\<lambda>_. finished), d3))))"

text \<open>\<open>env\<close> is the envelope header after base64, absent or undecodable.\<close>

definition handle_stream_write :: "rpc_codec \<Rightarrow> ('d, 'k, 's) backend \<Rightarrow> (byte list, string) result option \<Rightarrow> body_frame list \<Rightarrow> 'd rpc_node
    \<Rightarrow> http_reply \<times> 'd rpc_node" where
  "handle_stream_write c ops env frames n =
     (case env of
        None \<Rightarrow> (error_response c 400 (InvalidArgument ''missing x-openlake-rpc header''), n)
      | Some (Inl e) \<Rightarrow> (error_response c 400 (InvalidArgument (''decode x-openlake-rpc: '' @ e)), n)
      | Some (Inr bytes) \<Rightarrow>
          (case dec_request c bytes of
             Inl e \<Rightarrow> (error_response c 400 e, n)
           | Inr (RqCreateFileStream i volume path sz) \<Rightarrow>
               (case disk_at (rn_disks n) i of
                  Inl e \<Rightarrow> (error_response c 400 e, n)
                | Inr d \<Rightarrow>
                    (case write_stream ops volume path sz frames d of
                       (r, d1) \<Rightarrow> (case r of Inl e \<Rightarrow> error_response c 500 e | Inr _ \<Rightarrow> (200, response_body c RsOk),
                                  n\<lparr>rn_disks := (rn_disks n)[i := d1]\<rparr>)))
           | Inr _ \<Rightarrow> (error_response c 400 (InvalidArgument ''expected CreateFileStream envelope''), n)))"

text \<open>The frames of the body of a read: at most \<open>len\<close> bytes, up to the first error.\<close>

function serve_frames :: "'s reader \<Rightarrow> nat \<Rightarrow> nat \<Rightarrow> 's \<Rightarrow> (byte list, string) result list" where
  "serve_frames rd len sent s =
     (if len \<le> sent then []
      else case rd s of
             (Inl e, _) \<Rightarrow> [Err (show_io_error e)]
           | (Inr b, s1) \<Rightarrow>
               if b = [] then []
               else let frame = take (min (len - sent) (length b)) b in Ok frame # serve_frames rd len (sent + length frame) s1)"
  by pat_completeness auto

termination
  by (relation "measure (\<lambda>(rd, len, sent, s). len - sent)") (auto simp flip: length_greater_0_conv)

declare serve_frames.simps [simp del]

definition handle_stream_read :: "rpc_codec \<Rightarrow> string \<Rightarrow> ('d, 'k, 's) backend \<Rightarrow> byte list \<Rightarrow> 'd rpc_node
    \<Rightarrow> (http_reply + (byte list, string) result list) \<times> 'd rpc_node" where
  "handle_stream_read c too_large ops body n =
     (if length body > STREAM_REQ_LIMIT then (Inl (error_response c 413 (Io OtherKind too_large)), n)
      else case dec_request c body of
             Inl e \<Rightarrow> (Inl (error_response c 400 e), n)
           | Inr (RqReadFileStream i volume path off len) \<Rightarrow>
               (case disk_at (rn_disks n) i of
                  Inl e \<Rightarrow> (Inl (error_response c 400 e), n)
                | Inr d \<Rightarrow>
                    (case bk_read_file_stream ops volume path off len d of
                       (Inl e, d1) \<Rightarrow> (Inl (error_response c 500 e), n\<lparr>rn_disks := (rn_disks n)[i := d1]\<rparr>)
                     | (Inr s, d1) \<Rightarrow> (Inr (serve_frames (bk_read ops) len 0 s), n\<lparr>rn_disks := (rn_disks n)[i := d1]\<rparr>)))
           | Inr _ \<Rightarrow> (Inl (error_response c 400 (InvalidArgument ''expected ReadFileStream envelope'')), n))"

end
