(* ===== verification/Remote_Backend.thy ===== *)
theory Remote_Backend
  imports Rpc
begin

text \<open>
  A drive of another node, \<^verbatim>\<open>RemoteBackend\<close> of \<^verbatim>\<open>crates/openlake_io/src/remote_fs.rs\<close>: the storage trait
  implemented by calls to the node that has the drive.

  The state of a remote drive is the node behind it with the fate of the calls to come: a call may not
  arrive, its reply may get lost, and the body of a reply may break off. A peer that panics is a
  connection that closes. The peer handles the body of a streamed write when the sink is finished, so a
  connection that breaks shows there and not in a write before it.
\<close>

subsection \<open>Calls\<close>

datatype net_event = NetUp | NetDown string | NetReplyLost string | NetCut nat string

record 'd remote =
  rm_node :: "'d rpc_node"
  rm_net :: "nat \<Rightarrow> net_event"
  rm_sent :: nat

text \<open>What the libraries provide: the codec, the header encoding, and the texts of their errors.\<close>

record rpc_env =
  rv_codec :: rpc_codec
  rv_header :: "byte list \<Rightarrow> (byte list, string) result"
  rv_too_large :: string
  rv_closed :: string
  rv_status :: "nat \<Rightarrow> string"
  rv_debug :: "rpc_response \<Rightarrow> string"

definition unexpected :: "rpc_env \<Rightarrow> rpc_response \<Rightarrow> io_error" where
  "unexpected v resp = Decode (''unexpected response variant: '' @ rv_debug v resp)"

definition is_success :: "nat \<Rightarrow> bool" where
  "is_success status \<longleftrightarrow> 200 \<le> status \<and> status < 300"

definition remote_error :: "rpc_env \<Rightarrow> string \<Rightarrow> nat \<Rightarrow> byte list \<Rightarrow> io_error" where
  "remote_error v what status bytes =
     (case dec_response (rv_codec v) bytes of Inr (RsErr e) \<Rightarrow> from_wire e | _ \<Rightarrow> Io OtherKind (what @ rv_status v status))"

text \<open>The message of a reply that did not arrive whole.\<close>

fun reply_lost :: "net_event \<Rightarrow> string option" where
  "reply_lost (NetReplyLost m) = Some m"
| "reply_lost (NetCut _ m) = Some m"
| "reply_lost _ = None"

definition unary :: "rpc_env \<Rightarrow> ('d, 'k, 's) backend \<Rightarrow> nat \<Rightarrow> rpc_request \<Rightarrow> (rpc_response, 'd remote) drive_op" where
  "unary v ops now rq r =
     (case enc_request (rv_codec v) rq of
        Inl e \<Rightarrow> (Err e, r)
      | Inr body \<Rightarrow>
          let ev = rm_net r (rm_sent r); r1 = r\<lparr>rm_sent := Suc (rm_sent r)\<rparr> in
          (case ev of
             NetDown m \<Rightarrow> (Err (Io OtherKind m), r1)
           | _ \<Rightarrow>
               (case handle_unary (rv_codec v) (rv_too_large v) ops now body (rm_node r) of
                  None \<Rightarrow> (Err (Io OtherKind (rv_closed v)), r1)
                | Some ((status, bytes), n1) \<Rightarrow>
                    (case reply_lost ev of
                       Some m \<Rightarrow> Err (Io OtherKind m)
                     | None \<Rightarrow> if is_success status then dec_response (rv_codec v) bytes
                               else Err (remote_error v ''rpc http status: '' status bytes),
                     r1\<lparr>rm_node := n1\<rparr>))))"

definition call_unit :: "rpc_env \<Rightarrow> ('d, 'k, 's) backend \<Rightarrow> nat \<Rightarrow> rpc_request \<Rightarrow> (unit, 'd remote) drive_op" where
  "call_unit v ops now rq r =
     (case unary v ops now rq r of
        (x, r1) \<Rightarrow> (and_then x (\<lambda>resp. case resp of RsOk \<Rightarrow> Ok () | RsErr e \<Rightarrow> Err (from_wire e) | other \<Rightarrow> Err (unexpected v other)), r1))"

definition call_typed :: "rpc_env \<Rightarrow> ('d, 'k, 's) backend \<Rightarrow> nat \<Rightarrow> rpc_request \<Rightarrow> (rpc_response \<Rightarrow> 'a option) \<Rightarrow> ('a, 'd remote) drive_op" where
  "call_typed v ops now rq variant r =
     (case unary v ops now rq r of
        (x, r1) \<Rightarrow> (and_then x (\<lambda>resp. case variant resp of
                      Some y \<Rightarrow> Ok y
                    | None \<Rightarrow> (case resp of RsErr e \<Rightarrow> Err (from_wire e) | other \<Rightarrow> Err (unexpected v other))), r1))"

fun as_vol where "as_vol (RsVol v) = Some v" | "as_vol _ = None"
fun as_vols where "as_vols (RsVols v) = Some v" | "as_vols _ = None"
fun as_strings where "as_strings (RsStrings v) = Some v" | "as_strings _ = None"
fun as_file where "as_file (RsFile v) = Some v" | "as_file _ = None"
fun as_walked where "as_walked (RsWalked v) = Some v" | "as_walked _ = None"
fun as_renamed where "as_renamed (RsRenamed v) = Some v" | "as_renamed _ = None"
fun as_bytes where "as_bytes (RsFileBytes v) = Some v" | "as_bytes _ = None"

text \<open>A batch that fails as a whole has no case of its own.\<close>

definition remote_delete_batch :: "rpc_env \<Rightarrow> ('d, 'k, 's) backend \<Rightarrow> nat \<Rightarrow> string \<Rightarrow> string list
    \<Rightarrow> ((unit, io_error) result list, 'd remote) drive_op" where
  "remote_delete_batch v ops i volume paths r =
     (case unary v ops 0 (RqDeleteBatch i volume paths) r of
        (x, r1) \<Rightarrow> (and_then x (\<lambda>resp. case resp of
                      RsDeleteBatchResult per_key \<Rightarrow> Ok (map (\<lambda>e. case e of None \<Rightarrow> Ok () | Some e \<Rightarrow> Err (from_wire e)) per_key)
                    | other \<Rightarrow> Err (unexpected v other)), r1))"

subsection \<open>Locks\<close>

definition remote_lock_acquire :: "rpc_env \<Rightarrow> ('d, 'k, 's) backend \<Rightarrow> nat \<Rightarrow> string \<Rightarrow> string \<Rightarrow> nat \<Rightarrow> (bool, 'd remote) drive_op" where
  "remote_lock_acquire v ops now resource uid ttl_ms =
     call_typed v ops now (RqLockAcquire resource uid ttl_ms)
       (\<lambda>resp. case resp of RsLockGranted \<Rightarrow> Some True | RsLockDenied \<Rightarrow> Some False | _ \<Rightarrow> None)"

definition remote_lock_release :: "rpc_env \<Rightarrow> ('d, 'k, 's) backend \<Rightarrow> nat \<Rightarrow> string \<Rightarrow> string \<Rightarrow> (unit, 'd remote) drive_op" where
  "remote_lock_release v ops now resource uid = call_unit v ops now (RqLockRelease resource uid)"

definition remote_lock_refresh :: "rpc_env \<Rightarrow> ('d, 'k, 's) backend \<Rightarrow> nat \<Rightarrow> string \<Rightarrow> string \<Rightarrow> (bool, 'd remote) drive_op" where
  "remote_lock_refresh v ops now resource uid =
     call_typed v ops now (RqLockRefresh resource uid)
       (\<lambda>resp. case resp of RsLockRefreshed \<Rightarrow> Some True | RsLockNotFound \<Rightarrow> Some False | _ \<Rightarrow> None)"

subsection \<open>Streams\<close>

record remote_stream =
  rr_frames :: "(byte list, string) result list"
  rr_remaining :: nat

function remote_read :: "remote_stream reader" where
  "remote_read s =
     (if rr_remaining s = 0 then (Ok [], s)
      else case rr_frames s of
             [] \<Rightarrow> (Err (Io UnexpectedEof (''remote stream truncated, '' @ show_nat (rr_remaining s) @ '' bytes missing'')), s)
           | Inl e # fs \<Rightarrow> (Err (Io OtherKind e), s\<lparr>rr_frames := fs\<rparr>)
           | Inr buf # fs \<Rightarrow>
               if buf = [] then remote_read (s\<lparr>rr_frames := fs\<rparr>)
               else if length buf > rr_remaining s
               then (Err (Io OtherKind (''remote read overran by '' @ show_nat (length buf - rr_remaining s) @ '' bytes'')), s\<lparr>rr_frames := fs\<rparr>)
               else (Ok buf, s\<lparr>rr_frames := fs, rr_remaining := rr_remaining s - length buf\<rparr>))"
  by pat_completeness auto

termination
  by (relation "measure (\<lambda>s. length (rr_frames s))") auto

declare remote_read.simps [simp del]

definition remote_read_file_stream :: "rpc_env \<Rightarrow> ('d, 'k, 's) backend \<Rightarrow> nat \<Rightarrow> string \<Rightarrow> string \<Rightarrow> nat \<Rightarrow> nat \<Rightarrow> (remote_stream, 'd remote) drive_op" where
  "remote_read_file_stream v ops i volume path off len r =
     (case enc_request (rv_codec v) (RqReadFileStream i volume path off len) of
        Inl e \<Rightarrow> (Err e, r)
      | Inr body \<Rightarrow>
          let ev = rm_net r (rm_sent r); r1 = r\<lparr>rm_sent := Suc (rm_sent r)\<rparr> in
          (case ev of
             NetDown m \<Rightarrow> (Err (Io OtherKind m), r1)
           | _ \<Rightarrow>
               (case handle_stream_read (rv_codec v) (rv_too_large v) ops body (rm_node r) of
                  (reply, n1) \<Rightarrow>
                    (case (ev, reply) of
                       (NetReplyLost m, _) \<Rightarrow> Err (Io OtherKind m)
                     | (NetCut k m, Inr frames) \<Rightarrow> Ok \<lparr>rr_frames = take k frames @ [Err m], rr_remaining = len\<rparr>
                     | (_, Inr frames) \<Rightarrow> Ok \<lparr>rr_frames = frames, rr_remaining = len\<rparr>
                     | (NetCut k m, Inl _) \<Rightarrow> Err (Io OtherKind m)
                     | (_, Inl (status, bytes)) \<Rightarrow> Err (remote_error v ''read_file_stream http '' status bytes),
                     r1\<lparr>rm_node := n1\<rparr>))))"

record remote_sink =
  rk_disk :: nat
  rk_volume :: string
  rk_path :: string
  rk_expected :: nat
  rk_body :: "byte list list"
  rk_written :: nat
  rk_finished :: bool

definition remote_create_file_writer :: "rpc_env \<Rightarrow> nat \<Rightarrow> string \<Rightarrow> string \<Rightarrow> nat \<Rightarrow> (remote_sink, 'd remote) drive_op" where
  "remote_create_file_writer v i volume path sz r =
     (and_then (enc_request (rv_codec v) (RqCreateFileStream i volume path sz)) (\<lambda>_.
        Ok \<lparr>rk_disk = i, rk_volume = volume, rk_path = path, rk_expected = sz, rk_body = [], rk_written = 0, rk_finished = False\<rparr>), r)"

definition remote_write_all :: "byte list \<Rightarrow> remote_sink \<Rightarrow> 'd remote \<Rightarrow> (unit, io_error) result \<times> remote_sink \<times> 'd remote" where
  "remote_write_all buf k r =
     (if rk_finished k then (Err (Io OtherKind ''write after finish''), k, r)
      else if buf = [] then (Ok (), k, r)
      else (Ok (), k\<lparr>rk_body := rk_body k @ [buf], rk_written := rk_written k + length buf\<rparr>, r))"

text \<open>The request of the sink with the body that it has sent, and \<open>rest\<close> after it.\<close>

definition send_stream :: "rpc_env \<Rightarrow> ('d, 'k, 's) backend \<Rightarrow> remote_sink \<Rightarrow> body_frame list \<Rightarrow> (http_reply, 'd remote) drive_op" where
  "send_stream v ops k rest r =
     (case enc_request (rv_codec v) (RqCreateFileStream (rk_disk k) (rk_volume k) (rk_path k) (rk_expected k)) of
        Inl e \<Rightarrow> (Err e, r)
      | Inr env \<Rightarrow>
          let ev = rm_net r (rm_sent r); r1 = r\<lparr>rm_sent := Suc (rm_sent r)\<rparr> in
          (case ev of
             NetDown m \<Rightarrow> (Err (Io OtherKind m), r1)
           | _ \<Rightarrow>
               (case handle_stream_write (rv_codec v) ops (Some (rv_header v env)) (map Data (rk_body k) @ rest) (rm_node r) of
                  (reply, n1) \<Rightarrow> (case reply_lost ev of Some m \<Rightarrow> Err (Io OtherKind m) | None \<Rightarrow> Ok reply, r1\<lparr>rm_node := n1\<rparr>))))"

text \<open>A sink that was not filled gives up its request, and the body breaks off.\<close>

definition remote_finish :: "rpc_env \<Rightarrow> ('d, 'k, 's) backend \<Rightarrow> remote_sink \<Rightarrow> 'd remote \<Rightarrow> (unit, io_error) result \<times> remote_sink \<times> 'd remote" where
  "remote_finish v ops k r =
     (if rk_finished k then (Ok (), k, r)
      else let k1 = k\<lparr>rk_finished := True\<rparr> in
        if rk_written k \<noteq> rk_expected k
        then (Err (Io UnexpectedEof (''create_file_writer: wrote '' @ show_nat (rk_written k) @ ''/'' @ show_nat (rk_expected k))), k1,
              snd (send_stream v ops k [FrameErr (rv_closed v)] r))
        else (case send_stream v ops k [] r of
                (x, r1) \<Rightarrow>
                  (and_then x (\<lambda>(status, bytes).
                     if \<not> is_success status then Err (remote_error v ''create_file http '' status bytes)
                     else and_then (dec_response (rv_codec v) bytes) (\<lambda>resp. case resp of
                            RsOk \<Rightarrow> Ok () | RsErr e \<Rightarrow> Err (from_wire e) | other \<Rightarrow> Err (unexpected v other))), k1, r1)))"

subsection \<open>The remote drive\<close>

text \<open>Counts are sent as 32-bit numbers.\<close>

definition remote_backend :: "rpc_env \<Rightarrow> ('d, 'k, 's) backend \<Rightarrow> nat \<Rightarrow> ('d remote, remote_sink, remote_stream) backend" where
  "remote_backend v ops i =
     \<lparr>bk_make_vol = (\<lambda>vol. call_unit v ops 0 (RqMakeVol i vol)),
      bk_list_vols = call_typed v ops 0 (RqListVols i) as_vols,
      bk_stat_vol = (\<lambda>vol. call_typed v ops 0 (RqStatVol i vol) as_vol),
      bk_delete_vol = (\<lambda>vol force. call_unit v ops 0 (RqDeleteVol i vol force)),
      bk_list_dir = (\<lambda>vol dir cnt. call_typed v ops 0 (RqListDir i vol dir (cnt mod 2 ^ 32)) as_strings),
      bk_read_file_stream = remote_read_file_stream v ops i, bk_read = remote_read,
      bk_create_file_writer = remote_create_file_writer v i, bk_write_all = remote_write_all, bk_finish = remote_finish v ops,
      bk_rename_file = (\<lambda>sv sp dv dp. call_unit v ops 0 (RqRenameFile i sv sp dv dp)),
      bk_check_file = (\<lambda>vol p. call_unit v ops 0 (RqCheckFile i vol p)),
      bk_delete = (\<lambda>vol p rec. call_unit v ops 0 (RqDelete i vol p rec)),
      bk_delete_batch = remote_delete_batch v ops i,
      bk_write_metadata = (\<lambda>vol p fi r. Some (call_unit v ops 0 (RqWriteMetadata i vol p fi) r)),
      bk_read_version = (\<lambda>vol p vid rd. call_typed v ops 0 (RqReadVersion i vol p vid rd) as_file),
      bk_walk_dir = (\<lambda>vol dir rec pf sa mk. call_typed v ops 0 (RqWalkDir i vol dir rec pf sa (map_option (\<lambda>n. n mod 2 ^ 32) mk)) as_walked),
      bk_update_metadata = (\<lambda>vol p fi r. Some (call_unit v ops 0 (RqUpdateMetadata i vol p fi) r)),
      bk_delete_version = (\<lambda>vol p fi opts. call_unit v ops 0 (RqDeleteVersion i vol p fi (do_force_del_marker opts) (do_undo_write opts))),
      bk_rename_data = (\<lambda>sv sp fi dv dp r. Some (call_typed v ops 0 (RqRenameData i sv sp fi dv dp) as_renamed r)),
      bk_verify_file = (\<lambda>vol p. call_unit v ops 0 (RqVerifyFile i vol p)),
      bk_write_file = (\<lambda>vol p bs. call_unit v ops 0 (RqWriteFile i vol p bs)),
      bk_read_file = (\<lambda>vol p. call_typed v ops 0 (RqReadFile i vol p) as_bytes),
      bk_make_dir_all = (\<lambda>vol p. call_unit v ops 0 (RqMakeDirAll i vol p))\<rparr>"

end
