(* ===== verification/Remote_Read.thy ===== *)
theory Remote_Read
  imports Remote_Backend Shard_Store
begin

text \<open>
  What a remote drive keeps of the drive behind it. A call that arrives and is answered has the effect and
  the result of the call on the peer's drive, with the error as the wire carries it; the streams carry the
  same bytes. What the wire does not carry, the kind of most errors and of a failing connection, changes
  the verdict of a read by consensus.
\<close>

subsection \<open>Errors on the wire\<close>

definition over_wire :: "io_error \<Rightarrow> io_error" where
  "over_wire e = from_wire (to_wire e)"

lemma over_wire_carried:
  "over_wire (VolumeNotFound v) = VolumeNotFound v" "over_wire (VolumeExists v) = VolumeExists v"
  "over_wire (VolumeNotEmpty v) = VolumeNotEmpty v" "over_wire (FileNotFound v p) = FileNotFound v p"
  "over_wire (FileAlreadyExists v p) = FileAlreadyExists v p"
  by (simp_all add: over_wire_def)

lemma over_wire_other: "over_wire (FileVersionNotFound v p i) = Decode (show_io_error (FileVersionNotFound v p i))"
  by (simp add: over_wire_def)

subsection \<open>Calls that are delivered\<close>

text \<open>The network carries the next call, and the codec gives back what it was given.\<close>

definition delivered :: "rpc_env \<Rightarrow> 'd remote \<Rightarrow> rpc_request \<Rightarrow> rpc_response \<Rightarrow> bool" where
  "delivered v r rq resp \<longleftrightarrow> rm_net r (rm_sent r) = NetUp \<and>
     (\<exists>b. rc_enc_req (rv_codec v) rq = Ok b \<and> length b \<le> UNARY_BODY_LIMIT \<and> rc_dec_req (rv_codec v) b = Ok rq) \<and>
     (\<exists>b. rc_enc_resp (rv_codec v) resp = Ok b \<and> rc_dec_resp (rv_codec v) b = Ok resp)"

definition answered :: "'d remote \<Rightarrow> nat \<Rightarrow> 'd \<Rightarrow> 'd remote" where
  "answered r i d = r\<lparr>rm_sent := Suc (rm_sent r), rm_node := (rm_node r)\<lparr>rn_disks := (rn_disks (rm_node r))[i := d]\<rparr>\<rparr>"

lemma unary_delivered:
  assumes "delivered v r rq resp" "\<not> is_streaming rq" "dispatch ops now rq (rm_node r) = Some (resp, n1)"
  shows "unary v ops now rq r = (Ok resp, r\<lparr>rm_sent := Suc (rm_sent r), rm_node := n1\<rparr>)"
proof -
  obtain b c where b: "rc_enc_req (rv_codec v) rq = Ok b" "length b \<le> UNARY_BODY_LIMIT" "rc_dec_req (rv_codec v) b = Ok rq"
    and c: "rc_enc_resp (rv_codec v) resp = Ok c" "rc_dec_resp (rv_codec v) c = Ok resp" and up: "rm_net r (rm_sent r) = NetUp"
    using assms(1) by (auto simp: delivered_def)
  have "handle_unary (rv_codec v) (rv_too_large v) ops now b (rm_node r) = Some ((200, c), n1)"
    using b(2,3) c(1) assms(2,3) by (simp add: handle_unary_def dec_request_def response_body_def)
  then show ?thesis using b(1) c(2) up by (simp add: unary_def enc_request_def dec_response_def is_success_def Let_def)
qed

lemma on_disk_Some:
  assumes "i < length (rn_disks n)" "f (rn_disks n ! i) = Some (res, d1)"
  shows "on_disk_panicking i reply f n = Some (reply res, n\<lparr>rn_disks := (rn_disks n)[i := d1]\<rparr>)"
  using assms by (simp add: on_disk_panicking_def disk_at_def)

lemma call_unit_delivered:
  assumes "delivered v r rq (fold_unit res)" "\<not> is_streaming rq" "i < length (rn_disks (rm_node r))"
    and "dispatch ops now rq (rm_node r) = on_disk_panicking i fold_unit f (rm_node r)" "f (rn_disks (rm_node r) ! i) = Some (res, d1)"
  shows "call_unit v ops now rq r = (map_err over_wire res, answered r i d1)"
proof -
  have "unary v ops now rq r = (Ok (fold_unit res), answered r i d1)"
    using unary_delivered [OF assms(1,2)] on_disk_Some [where f = f, OF assms(3,5)] assms(4) by (simp add: answered_def)
  then show ?thesis by (cases res) (simp_all add: call_unit_def fold_unit_def over_wire_def)
qed

lemma call_typed_delivered:
  assumes "delivered v r rq (fold_ok g res)" "\<not> is_streaming rq" "i < length (rn_disks (rm_node r))"
    and "dispatch ops now rq (rm_node r) = on_disk_panicking i (fold_ok g) f (rm_node r)" "f (rn_disks (rm_node r) ! i) = Some (res, d1)"
    and "\<And>x. variant (g x) = Some x" "\<And>e. variant (RsErr e) = None"
  shows "call_typed v ops now rq variant r = (map_err over_wire res, answered r i d1)"
proof -
  have "unary v ops now rq r = (Ok (fold_ok g res), answered r i d1)"
    using unary_delivered [OF assms(1,2)] on_disk_Some [where f = f, OF assms(3,5)] assms(4) by (simp add: answered_def)
  then show ?thesis using assms(6,7) by (cases res) (simp_all add: call_typed_def fold_ok_def over_wire_def)
qed


text \<open>An example: one node with one empty drive, and a codec for a single exchange.\<close>

definition example_disk :: disk where
  "example_disk = \<lparr>dk_tree = [], dk_calls = 0, dk_faults = \<lambda>_. None, dk_names = \<lambda>_. []\<rparr>"

definition example_remote :: "disk remote" where
  "example_remote = \<lparr>rm_node = \<lparr>rn_disks = [example_disk], rn_locks = \<lparr>ls_locks = \<lambda>_. None, ls_validity = 0\<rparr>\<rparr>, rm_net = \<lambda>_. NetUp, rm_sent = 0\<rparr>"

definition example_env :: "rpc_request \<Rightarrow> rpc_response \<Rightarrow> rpc_env" where
  "example_env rq resp =
     \<lparr>rv_codec = \<lparr>rc_enc_req = \<lambda>_. Ok [1], rc_dec_req = \<lambda>_. Ok rq, rc_enc_resp = \<lambda>_. Ok [2], rc_dec_resp = \<lambda>_. Ok resp\<rparr>,
      rv_header = Ok, rv_too_large = [], rv_closed = [], rv_status = show_nat, rv_debug = \<lambda>_. []\<rparr>"

lemma example_delivered: "delivered (example_env rq resp) example_remote rq resp"
  by (simp add: delivered_def example_env_def example_remote_def UNARY_BODY_LIMIT_def)


subsection \<open>Streams\<close>

definition remote_ok :: "remote_stream \<Rightarrow> bool" where
  "remote_ok s \<longleftrightarrow> list_all is_ok (rr_frames s) \<and> length (concat (map projr (rr_frames s))) = rr_remaining s"

definition remote_content :: "remote_stream \<Rightarrow> byte list" where
  "remote_content s = concat (map projr (rr_frames s))"

lemma remote_read_law:
  assumes "remote_ok s"
  shows "\<exists>c s'. remote_read s = (Ok c, s') \<and> remote_ok s' \<and> remote_content s = c @ remote_content s' \<and> (c = [] \<longrightarrow> remote_content s = [])"
  using assms
proof (induction s rule: remote_read.induct)
  case (1 s)
  show ?case
  proof (cases "rr_remaining s = 0")
    case True
    then have "remote_content s = []" using 1(2) by (simp add: remote_ok_def remote_content_def)
    then show ?thesis using True 1(2) by (intro exI [of _ "[]"] exI [of _ s]) (simp add: remote_read.simps)
  next
    case False
    then obtain buf fs where f: "rr_frames s = Inr buf # fs" using 1(2)
      by (cases "rr_frames s"; cases "hd (rr_frames s)") (auto simp: remote_ok_def is_ok_def)
    show ?thesis
    proof (cases "buf = []")
      case True
      have "remote_ok (s\<lparr>rr_frames := fs\<rparr>)" "remote_content (s\<lparr>rr_frames := fs\<rparr>) = remote_content s"
        using 1(2) f True by (simp_all add: remote_ok_def remote_content_def)
      moreover have "remote_read s = remote_read (s\<lparr>rr_frames := fs\<rparr>)" using False f True by (subst remote_read.simps) simp
      ultimately show ?thesis using 1(1) [OF False f refl True] by simp
    next
      case nonempty: False
      let ?s = "s\<lparr>rr_frames := fs, rr_remaining := rr_remaining s - length buf\<rparr>"
      have "remote_read s = (Ok buf, ?s)" using 1(2) False f nonempty by (subst remote_read.simps) (auto simp: remote_ok_def)
      moreover have "remote_ok ?s" "remote_content s = buf @ remote_content ?s" using 1(2) f by (auto simp: remote_ok_def remote_content_def)
      ultimately show ?thesis using nonempty by blast
    qed
  qed
qed

interpretation remote: byte_stream remote_read remote_ok remote_content
  by unfold_locales (rule remote_read_law)

context byte_stream
begin

lemma serve_frames_content:
  assumes "ok s" "len - sent \<le> length (content s)"
  shows "list_all is_ok (serve_frames rd len sent s) \<and> concat (map projr (serve_frames rd len sent s)) = take (len - sent) (content s)"
  using assms
proof (induction "len - sent" arbitrary: sent s rule: less_induct)
  case less
  show ?case
  proof (cases "len \<le> sent")
    case True
    then show ?thesis by (simp add: serve_frames.simps)
  next
    case False
    then obtain c s1 where c: "rd s = (Ok c, s1)" "c \<noteq> []" "ok s1" "content s = c @ content s1"
      using less.prems by (auto elim: read_cases)
    let ?n = "min (len - sent) (length c)"
    have step: "serve_frames rd len sent s = Ok (take ?n c) # serve_frames rd len (sent + ?n) s1"
      using False c(1,2) by (subst serve_frames.simps) (simp add: Let_def)
    have "len - (sent + ?n) < len - sent" using False c(2) by (cases c) auto
    moreover have "len - (sent + ?n) \<le> length (content s1)" using less.prems(2) c(4) by auto
    moreover have "take (len - sent) (content s) = take ?n c @ take (len - (sent + ?n)) (content s1)"
      using c(4) by (cases "len - sent \<le> length c") simp_all
    ultimately show ?thesis using less.hyps [of "sent + ?n" s1] c(3) step by (simp add: is_ok_def)
  qed
qed

end

text \<open>C12: Reading a file of a remote drive delivers the bytes of the file.  If the peer's drive opens the file as a well-behaved stream with at
  least the requested bytes, the stream that the caller gets has exactly the requested bytes, whatever the chunks in which they travel.\<close>

theorem remote_read_same_bytes:
  assumes "byte_stream (bk_read ops) ok content" "i < length (rn_disks (rm_node r))" "rm_net r (rm_sent r) = NetUp"
    and "bk_read_file_stream ops vol path off len (rn_disks (rm_node r) ! i) = (Ok s, d1)" "ok s" "len \<le> length (content s)"
    and "rc_enc_req (rv_codec v) (RqReadFileStream i vol path off len) = Ok b" "length b \<le> STREAM_REQ_LIMIT"
      "rc_dec_req (rv_codec v) b = Ok (RqReadFileStream i vol path off len)"
  shows "\<exists>t t'. bk_read_file_stream (remote_backend v ops i) vol path off len r = (Ok t, answered r i d1) \<and>
    read_full (bk_read (remote_backend v ops i)) want t = (Ok (take want (take len (content s))), t')"
proof -
  let ?t = "\<lparr>rr_frames = serve_frames (bk_read ops) len 0 s, rr_remaining = len\<rparr>"
  have f: "list_all is_ok (rr_frames ?t)" "concat (map projr (rr_frames ?t)) = take len (content s)"
    using byte_stream.serve_frames_content [OF assms(1,5), of len 0] assms(6) by simp_all
  then have "remote_ok ?t" using assms(6) by (simp add: remote_ok_def)
  then obtain t' where "read_full remote_read want ?t = (Ok (take want (remote_content ?t)), t')"
    using remote.read_full_content by blast
  moreover have "handle_stream_read (rv_codec v) (rv_too_large v) ops b (rm_node r) =
      (Inr (rr_frames ?t), (rm_node r)\<lparr>rn_disks := (rn_disks (rm_node r))[i := d1]\<rparr>)"
    using assms(2,4,8,9) by (simp add: handle_stream_read_def dec_request_def disk_at_def)
  then have "bk_read_file_stream (remote_backend v ops i) vol path off len r = (Ok ?t, answered r i d1)"
    using assms(3,7) by (simp add: remote_backend_def remote_read_file_stream_def enc_request_def Let_def answered_def)
  ultimately show ?thesis using f(2) by (auto simp: remote_backend_def remote_content_def)
qed

definition example_file_remote :: "disk remote" where
  "example_file_remote = example_remote\<lparr>rm_node := (rm_node example_remote)\<lparr>rn_disks :=
     [example_disk\<lparr>dk_tree := [([''b''], Dir), ([''b'', ''f''], File [1, 2, 3, 4])]\<rparr>]\<rparr>\<rparr>"

theorem remote_read_same_bytes_witness:
  "\<forall>mc. \<exists>t t' r'. bk_read_file_stream (remote_backend (example_env (RqReadFileStream 0 ''b'' ''f'' 1 2) RsOk) (local_backend mc id (\<lambda>_. None)) 0)
       ''b'' ''f'' 1 2 example_file_remote = (Ok t, r') \<and>
     read_full remote_read 9 t = (Ok [2, 3], t')"
proof
  fix mc
  let ?ops = "local_backend mc id (\<lambda>_. None)" and ?d = "rn_disks (rm_node example_file_remote) ! 0" and ?v = "example_env (RqReadFileStream 0 ''b'' ''f'' 1 2) RsOk"
  let ?s = "\<lparr>lfs_file = [1, 2, 3, 4], lfs_pos = 1, lfs_end = 1 + 2, lfs_grant = id, lfs_fault = \<lambda>_. None\<rparr>"
  have bs: "byte_stream (bk_read ?ops) (\<lambda>s. \<forall>i. lfs_fault s i = None) stream_rest" by (simp add: local_backend_def local_src.byte_stream_axioms)
  have "fst (bk_read_file_stream ?ops ''b'' ''f'' 1 2 ?d) = Ok ?s"
    by (simp add: local_backend_def read_file_stream_def require_vol_def is_system_vol_def STAGING_VOL_def MULTIPART_VOL_def SYSTEM_BUCKET_def
        vol_path_def file_path_def segs_plain plain_name_def then_do_def try_do_def map_err_do_def fs_stat_def fs_read_def query_def sys_def
        stat_def lookup_node_def read_file_at_def ret_def example_file_remote_def example_remote_def example_disk_def ok_or_def)
  then obtain d1 where o: "bk_read_file_stream ?ops ''b'' ''f'' 1 2 ?d = (Ok ?s, d1)" by (metis eq_fst_iff)
  obtain t t' where "bk_read_file_stream (remote_backend ?v ?ops 0) ''b'' ''f'' 1 2 example_file_remote = (Ok t, answered example_file_remote 0 d1)"
    "read_full (bk_read (remote_backend ?v ?ops 0)) 9 t = (Ok (take 9 (take 2 (stream_rest ?s))), t')"
    using remote_read_same_bytes [OF bs _ _ o, of ?v "[1]" 9]
    by (auto simp: example_file_remote_def example_remote_def example_env_def STREAM_REQ_LIMIT_def)
  then show "\<exists>t t' r'. bk_read_file_stream (remote_backend ?v ?ops 0) ''b'' ''f'' 1 2 example_file_remote = (Ok t, r') \<and>
      read_full remote_read 9 t = (Ok [2, 3], t')"
    by (auto simp: remote_backend_def)
qed

subsection \<open>Errors and the consensus\<close>

text \<open>An error that half of the drives report, and more than any other, is the verdict of a read.\<close>

lemma consensus_error:
  assumes iter: "is_order (ord_tag ords)" and votes: "votes = List.map_filter error_vote results"
    and half: "max (length results div 2) 1 \<le> count_list votes tag" and most: "\<And>t. t \<noteq> tag \<Longrightarrow> count_list votes t < count_list votes tag"
  shows "\<exists>e. Inl e \<in> set results \<and> error_tag e = tag \<and> read_with_consensus ords blake b k results = Err (map_object_missing b k e)"
proof -
  obtain c eo where d: "dominant_error (ord_tag ords) (errs_of results) = (c, eo)" by fastforce
  have "votes \<noteq> []" using half by auto
  then obtain e where e: "eo = Some e" using dominant_error_None [OF iter, of results c] d votes by (cases eo) auto
  note s = dominant_error_Some [OF iter d [unfolded e]]
  have "error_tag e = tag" using s most [of "error_tag e"] votes by (metis leD)
  moreover have "max (length results div 2) 1 \<le> c" using s half votes \<open>error_tag e = tag\<close> by simp
  then have "read_with_consensus ords blake b k results = Err (map_object_missing b k e)"
    using d e by (simp add: read_with_consensus_def)
  ultimately show ?thesis using s by blast
qed

lemma votes_of_one_tag:
  assumes "\<And>a. a \<in> set answers \<Longrightarrow> f a = (if P a then None else Some tag)"
  shows "List.map_filter f answers = replicate (length (filter (\<lambda>a. \<not> P a) answers)) tag"
  using assms by (induction answers) (simp_all add: map_filter_simps)

lemma count_two_tags:
  assumes "s \<noteq> t" "\<And>a. a \<in> set answers \<Longrightarrow> f a = Some (if P a then s else t)"
  shows "count_list (List.map_filter f answers) y =
    (if y = s then length (filter P answers) else if y = t then length (filter (\<lambda>a. \<not> P a) answers) else 0)"
  using assms by (induction answers) (auto simp: map_filter_simps)

definition unreachable :: "'d remote \<Rightarrow> bool" where
  "unreachable r = (case rm_net r (rm_sent r) of NetDown _ \<Rightarrow> True | _ \<Rightarrow> False)"

text \<open>Whatever keeps a call from being answered, the caller sees an error without a kind.\<close>

lemma unreachable_read:
  assumes "unreachable r" "rc_enc_req (rv_codec v) (RqReadVersion i b k vid rd) = Ok body"
  shows "\<exists>m. fst (bk_read_version (remote_backend v ops i) b k vid rd r) = Err (Io OtherKind m)"
  using assms by (auto simp: unreachable_def remote_backend_def call_typed_def unary_def enc_request_def Let_def split: net_event.splits)

text \<open>C31: Drives that cannot be reached vote on the result of a read.  The code means to leave them out, but it recognises them by the kinds
  \<open>ConnectionRefused\<close> and \<open>TimedOut\<close>, and the error of a failed call to another node never has a kind.  So when half of the drives of a set
  cannot be reached, the read fails with such an error although all the other drives answer with their version of the object.\<close>

theorem unreachable_half_fails_read:
  assumes "is_order (ord_tag ords)" "max (length answers div 2) 1 \<le> length (filter (\<lambda>a. \<not> is_ok a) answers)"
    and "\<forall>a \<in> set answers. is_ok a \<or> (\<exists>i r body. unreachable r \<and> rc_enc_req (rv_codec v) (RqReadVersion i b k vid rd) = Ok body \<and>
      a = fst (bk_read_version (remote_backend v ops i) b k vid rd r))"
  shows "\<exists>m. read_with_consensus ords blake b k answers = Err (SIo (Io OtherKind m))"
proof -
  have shape: "is_ok a \<or> (\<exists>m. a = Err (Io OtherKind m))" if a: "a \<in> set answers" for a
  proof -
    consider "is_ok a" | i r body where "unreachable r" "rc_enc_req (rv_codec v) (RqReadVersion i b k vid rd) = Ok body"
      "a = fst (bk_read_version (remote_backend v ops i) b k vid rd r)"
      using assms(3) a by blast
    then show ?thesis
    proof cases
      case 2
      show ?thesis unfolding 2(3) by (rule disjI2, rule unreachable_read [OF 2(1,2)])
    qed simp
  qed
  have "error_vote a = (if is_ok a then None else Some ''Io'')" if "a \<in> set answers" for a
    using shape [OF that] by (cases a) (auto simp: error_vote_def is_ok_def)
  then have votes: "List.map_filter error_vote answers = replicate (length (filter (\<lambda>a. \<not> is_ok a) answers)) ''Io''"
    by (rule votes_of_one_tag)
  have "\<exists>e. Inl e \<in> set answers \<and> error_tag e = ''Io'' \<and> read_with_consensus ords blake b k answers = Err (map_object_missing b k e)"
    by (rule consensus_error [OF assms(1) votes [symmetric]]) (use assms(2) in \<open>auto simp: count_list_replicate\<close>)
  then obtain e where e: "Inl e \<in> set answers" "read_with_consensus ords blake b k answers = Err (map_object_missing b k e)" by blast
  obtain m where "e = Io OtherKind m" using shape [OF e(1)] by (auto simp: is_ok_def)
  then show ?thesis using e(2) by (simp add: map_object_missing_def)
qed

definition example_unreachable :: "disk remote" where
  "example_unreachable = example_remote\<lparr>rm_net := \<lambda>_. NetDown ''connection refused''\<rparr>"

theorem unreachable_half_fails_read_witness:
  "\<forall>mc grant fault fi. \<exists>m. read_with_consensus plain_orders id ''b'' ''k'' ([Ok fi, Ok fi] @
     map (\<lambda>i. fst (bk_read_version (remote_backend (example_env (RqListVols 0) RsOk) (local_backend mc grant fault) i) ''b'' ''k'' None False
       example_unreachable)) [0, 1]) = Err (SIo (Io OtherKind m))"
proof (intro allI)
  fix mc grant fault fi
  let ?v = "example_env (RqListVols 0) RsOk" and ?ops = "local_backend mc grant fault"
  let ?answers = "[Ok fi, Ok fi] @ map (\<lambda>i. fst (bk_read_version (remote_backend ?v ?ops i) ''b'' ''k'' None False example_unreachable)) [0, 1]"
  have u: "unreachable example_unreachable" by (simp add: unreachable_def example_unreachable_def)
  have en: "rc_enc_req (rv_codec ?v) rq = Ok [1]" for rq by (simp add: example_env_def)
  have no: "\<not> is_ok (fst (bk_read_version (remote_backend ?v ?ops i) ''b'' ''k'' None False example_unreachable))" for i
    using unreachable_read [where ops = ?ops and i = i and b = "''b''" and k = "''k''" and vid = None and rd = False, OF u en]
    by (auto simp: is_ok_def)
  show "\<exists>m. read_with_consensus plain_orders id ''b'' ''k'' ?answers = Err (SIo (Io OtherKind m))"
  proof (rule unreachable_half_fails_read [where v = ?v and ops = ?ops and vid = None and rd = False])
    show "is_order (ord_tag plain_orders)" using plain_orders unfolding all_orders_def by blast
    show "max (length ?answers div 2) 1 \<le> length (filter (\<lambda>a. \<not> is_ok a) ?answers)" using no by (simp add: is_ok_def)
    show "\<forall>a \<in> set ?answers. is_ok a \<or> (\<exists>i r body. unreachable r \<and> rc_enc_req (rv_codec ?v) (RqReadVersion i ''b'' ''k'' None False) = Ok body \<and>
        a = fst (bk_read_version (remote_backend ?v ?ops i) ''b'' ''k'' None False r))"
      using u en by (auto simp: is_ok_def)
  qed
qed

text \<open>C32: A missing version looks different on another node.  The wire has no case for it: a drive of another node that reports it gives the
  caller an undecodable message instead.  Where the drives on other nodes outnumber the local ones, reading a version that no drive has fails with
  an internal error and not with \<open>VersionNotFound\<close>, which the same read gives when all the drives are local.\<close>

theorem remote_missing_version:
  assumes "is_order (ord_tag ords)" "missing = FileVersionNotFound b k w"
    and "\<forall>a \<in> set answers. a = Err missing \<or> (\<exists>i r d1. i < length (rn_disks (rm_node r)) \<and>
      bk_read_version ops b k vid rd (rn_disks (rm_node r) ! i) = (Err missing, d1) \<and>
      delivered v r (RqReadVersion i b k vid rd) (fold_ok RsFile (Err missing)) \<and>
      a = fst (bk_read_version (remote_backend v ops i) b k vid rd r))"
    and "length (filter (\<lambda>a. a = Err missing) answers) < length (filter (\<lambda>a. a \<noteq> Err missing) answers)"
  shows "read_with_consensus ords blake b k answers = Err (SIo (Decode (show_io_error missing))) \<and>
    read_with_consensus ords blake b k (replicate (Suc n) (Err missing)) = Err (VersionNotFound b k w)"
proof -
  have shape: "a = Err (Decode (show_io_error missing))" if a: "a \<in> set answers" "a \<noteq> Err missing" for a
  proof -
    obtain i r d1 where r: "i < length (rn_disks (rm_node r))" "bk_read_version ops b k vid rd (rn_disks (rm_node r) ! i) = (Err missing, d1)"
      "delivered v r (RqReadVersion i b k vid rd) (fold_ok RsFile (Err missing))"
      "a = fst (bk_read_version (remote_backend v ops i) b k vid rd r)"
      using assms(3) a by blast
    have "call_typed v ops 0 (RqReadVersion i b k vid rd) as_file r = (map_err over_wire (Err missing), answered r i d1)"
      by (rule call_typed_delivered [where f = "\<lambda>d. Some (bk_read_version ops b k vid rd d)", OF r(3) _ r(1)])
        (use r(2) in \<open>simp_all add: on_disk_def\<close>)
    then show ?thesis using r(4) assms(2) by (simp add: remote_backend_def over_wire_other)
  qed
  have "error_vote a = Some (if a = Err missing then ''FileVersionNotFound'' else ''Decode'')" if "a \<in> set answers" for a
    by (cases "a = Err missing") (simp_all add: error_vote_def assms(2) shape [OF that])
  note count = count_two_tags [where f = error_vote and P = "\<lambda>a. a = Err missing", OF _ this, simplified]
  have n: "length answers = length (filter (\<lambda>a. a = Err missing) answers) + length (filter (\<lambda>a. a \<noteq> Err missing) answers)"
    by (simp add: sum_length_filter_compl)
  have "\<exists>e. Inl e \<in> set answers \<and> error_tag e = ''Decode'' \<and> read_with_consensus ords blake b k answers = Err (map_object_missing b k e)"
    by (rule consensus_error [OF assms(1) refl]) (use assms(4) n in \<open>auto simp: count\<close>)
  then obtain e where e: "Inl e \<in> set answers" "error_tag e = ''Decode''" "read_with_consensus ords blake b k answers = Err (map_object_missing b k e)"
    by blast
  have "Inl e \<noteq> Err missing" using e(2) assms(2) by (cases "e = missing") simp_all
  then have "e = Decode (show_io_error missing)" using shape [OF e(1)] by simp
  then have "read_with_consensus ords blake b k answers = Err (SIo (Decode (show_io_error missing)))"
    using e(3) by (simp add: map_object_missing_def)
  moreover have all_local: "List.map_filter error_vote (replicate (Suc n) (Err missing)) = replicate (Suc n) ''FileVersionNotFound''"
    by (subst votes_of_one_tag [where P = "\<lambda>_. False" and tag = "''FileVersionNotFound''"]) (auto simp: error_vote_def assms(2))
  have "\<exists>e. (Inl e :: (file_info, io_error) result) \<in> set (replicate (Suc n) (Err missing)) \<and> error_tag e = ''FileVersionNotFound'' \<and>
      read_with_consensus ords blake b k (replicate (Suc n) (Err missing)) = Err (map_object_missing b k e)"
    by (rule consensus_error [OF assms(1) all_local [symmetric]]) (auto simp: count_list_replicate)
  ultimately show ?thesis using assms(2) by (auto simp: map_object_missing_def)
qed

definition missing_everywhere :: "io_error \<Rightarrow> ('d, 'k, 's) backend \<Rightarrow> ('d, 'k, 's) backend" where
  "missing_everywhere e ops = ops\<lparr>bk_read_version := \<lambda>b k vid rd d. (Err e, d)\<rparr>"

theorem remote_missing_version_witness:
  "\<forall>mc grant fault. read_with_consensus plain_orders id ''b'' ''k'' [fst (bk_read_version
     (remote_backend (example_env (RqReadVersion 0 ''b'' ''k'' (Some ''v'') False) (RsErr (to_wire (FileVersionNotFound ''b'' ''k'' ''v''))))
       (missing_everywhere (FileVersionNotFound ''b'' ''k'' ''v'') (local_backend mc grant fault)) 0)
     ''b'' ''k'' (Some ''v'') False example_remote)] = Err (SIo (Decode (show_io_error (FileVersionNotFound ''b'' ''k'' ''v''))))"
proof (intro allI)
  fix mc grant fault
  let ?e = "FileVersionNotFound ''b'' ''k'' ''v''" and ?rq = "RqReadVersion 0 ''b'' ''k'' (Some ''v'') False"
  let ?v = "example_env ?rq (RsErr (to_wire ?e))" and ?ops = "missing_everywhere ?e (local_backend mc grant fault)"
  let ?a = "fst (bk_read_version (remote_backend ?v ?ops 0) ''b'' ''k'' (Some ''v'') False example_remote)"
  have del: "delivered ?v example_remote ?rq (fold_ok RsFile (Err ?e))" using example_delivered by (simp add: fold_ok_def)
  have behind: "bk_read_version ?ops ''b'' ''k'' (Some ''v'') False d = (Err ?e, d)" for d by (simp add: missing_everywhere_def)
  have "call_typed ?v ?ops 0 ?rq as_file example_remote = (map_err over_wire (Err ?e), answered example_remote 0 (rn_disks (rm_node example_remote) ! 0))"
    by (rule call_typed_delivered [where f = "\<lambda>d. Some (bk_read_version ?ops ''b'' ''k'' (Some ''v'') False d)", OF del])
      (simp_all add: on_disk_def behind example_remote_def)
  then have no: "?a \<noteq> Err ?e" by (simp add: remote_backend_def over_wire_other)
  show "read_with_consensus plain_orders id ''b'' ''k'' [?a] = Err (SIo (Decode (show_io_error ?e)))"
  proof (rule conjunct1, rule remote_missing_version [where v = ?v and ops = ?ops and vid = "Some ''v''" and rd = False and w = "''v''"])
    show "is_order (ord_tag plain_orders)" using plain_orders unfolding all_orders_def by blast
    show "length (filter (\<lambda>a. a = Err ?e) [?a]) < length (filter (\<lambda>a. a \<noteq> Err ?e) [?a])" using no by simp
    have "0 < length (rn_disks (rm_node example_remote))" by (simp add: example_remote_def)
    then show "\<forall>a \<in> set [?a]. a = Err ?e \<or> (\<exists>i r d1. i < length (rn_disks (rm_node r)) \<and>
        bk_read_version ?ops ''b'' ''k'' (Some ''v'') False (rn_disks (rm_node r) ! i) = (Err ?e, d1) \<and>
        delivered ?v r (RqReadVersion i ''b'' ''k'' (Some ''v'') False) (fold_ok RsFile (Err ?e)) \<and>
        a = fst (bk_read_version (remote_backend ?v ?ops i) ''b'' ''k'' (Some ''v'') False r))"
      using del behind by auto
  qed simp
qed

end
