(* ===== verification/Spec2Isabelle.thy ===== *)
theory Spec2Isabelle
  imports Kv_Engine Lock_Plane Format Round_Trip Walk Body_Put Remote_Read
begin

text \<open>
  Verification of OpenLake, an erasure-coded object store with an S3 interface and a key-value cache
  (\<^verbatim>\<open>src/crates\<close>).

  \<^bold>\<open>The program.\<close> A node has drives and a lock table. A request of an S3 client is authenticated
  (\<^verbatim>\<open>openlake_server\<close>), its body is turned into a stream, and the engine (\<^verbatim>\<open>openlake_storage\<close>) acts on the
  drives of the erasure set in which the object is placed: it takes a lock by vote, writes one shard per
  drive to a staging area, promotes the version on every drive, and reads it back by a vote over the
  metadata. A drive is a directory of the node (\<^verbatim>\<open>openlake_io/src/local_fs.rs\<close>) or is reached through another
  node (\<^verbatim>\<open>remote_fs.rs\<close>). The key-value cache is a separate service of the same server.

  \<^bold>\<open>Conventions\<close> (\<open>Prelude\<close>). A fallible function returns a sum, \<open>Ok\<close> or \<open>Err\<close>; \<open>None\<close> is a panic. A structure is
  a record, an enumeration a datatype, a trait object a record of methods. State is passed explicitly.
  Lengths and counters are naturals, with the wrap-around written out where the code relies on the width. Clocks, fresh
  identifiers, the order in which a hash map is visited and schedules of faults are arguments, so a theorem
  holds for all of them. Libraries outside of the repository are parameters: Reed-Solomon, MD5, SHA-256,
  BLAKE3, SipHash, xxHash and CRC, MessagePack and bincode, the signer of AWS requests, the calendar.
  What a theorem relies on of them is a hypothesis with a name, such as \<open>rs_contract\<close> or \<open>codec_ok\<close>, and its
  witness has an instance.

  \<^bold>\<open>Key-value cache.\<close>
  \<^item> \<open>Slot_Pool\<close>: \<^verbatim>\<open>SlotPool\<close> of \<^verbatim>\<open>kv.rs\<close>, whose recency list is kept in index arrays. It refines an abstract cache with a
    list, and free, pending and bound slots are a partition.
  \<^item> \<open>Kv_Engine\<close>: the slabs, \<^verbatim>\<open>serve_tcp\<close> and \<^verbatim>\<open>kv_engine.rs\<close> against the locale \<open>kv_slab_contract\<close>. The engine does not
    panic, a stored key is found, and the RDMA client identifiers stay in their range.

  \<^bold>\<open>Cluster.\<close>
  \<^item> \<open>Cluster\<close>: \<^verbatim>\<open>cluster.rs\<close>, disks, sets and placement. The sets are a partition of the disks.
  \<^item> \<open>Format\<close>: \<^verbatim>\<open>format.rs\<close>, the polling loop of the bootstrap, one step per look at the disks. Nodes agree on
    the deployment, and a formatted cluster boots.
  \<^item> \<open>Lock_Plane\<close>: \<^verbatim>\<open>lock_server.rs\<close> and \<^verbatim>\<open>dsync.rs\<close>, with links that lose messages. Locks exclude each other
    within their validity.

  \<^bold>\<open>One drive.\<close>
  \<^item> \<open>Io_Types\<close>, \<open>Streams\<close>: the errors, records and byte streams (\<^verbatim>\<open>error.rs\<close>, \<^verbatim>\<open>types.rs\<close>, \<^verbatim>\<open>stream.rs\<close>); the locale
    \<open>byte_stream\<close> is the contract of a stream.
  \<^item> \<open>Posix_Fs\<close>: the file system calls with a fault per call. \<open>Xl_Meta\<close>: the metadata file, \<^verbatim>\<open>xl_meta.rs\<close>, its round
    trip and the strictness of its decoder.
  \<^item> \<open>Local_Fs\<close>, \<open>Local_Promote\<close>, \<open>Walk\<close>: the operations of \<^verbatim>\<open>local_fs.rs\<close>. A promotion is atomic whatever call fails, the
    promoted version is read, what undo restores is stated for each case, and the walk of a volume ends.

  \<^bold>\<open>Engine.\<close>
  \<^item> \<open>Erasure\<close>, \<open>Ec_Stream\<close>: \<^verbatim>\<open>ec.rs\<close> and the stripes of \<^verbatim>\<open>engine.rs\<close>. Any sufficient set of shards gives the range that was asked for.
  \<^item> \<open>Consensus\<close>, \<open>Listing\<close>: the votes over the drives and the merge of the walks.
  \<^item> \<open>Backend\<close>, \<open>Object_Engine\<close>, \<open>Bucket_Engine\<close>, \<open>Multipart_Engine\<close>: the storage trait and the operations of
    \<^verbatim>\<open>engine.rs\<close> on all the drives of a set.
  \<^item> \<open>Object_Store\<close>, \<open>Put_Get\<close>, \<open>Shard_Store\<close>, \<open>Put_Progress\<close>: what the engine relies on of a drive, the locales \<open>version_store\<close>
    and \<open>shard_store\<close>, interpreted on the local drive. \<open>Deployment\<close> is a concrete cluster and \<open>Round_Trip\<close> has the
    theorems of the whole stack: what a PUT acknowledges, a GET returns, and on healthy drives a PUT succeeds.

  \<^bold>\<open>Server.\<close>
  \<^item> \<open>Auth\<close>: \<^verbatim>\<open>auth.rs\<close> and \<^verbatim>\<open>sigv4.rs\<close>. Exactly the requests with a right signature are accepted.
  \<^item> \<open>Body_Source\<close>, \<open>Chunked_Wire\<close>, \<open>Body_Put\<close>: \<^verbatim>\<open>body_source.rs\<close>. The decoder of chunked bodies inverts the framing and delivers
    only signed chunks; a PUT of the decoded body is a PUT of the payload.
  \<^item> \<open>Rpc\<close>, \<open>Remote_Backend\<close>, \<open>Remote_Read\<close>: \<^verbatim>\<open>rpc.rs\<close>, \<^verbatim>\<open>rpc_server.rs\<close> and \<^verbatim>\<open>remote_fs.rs\<close>. A call that is
    answered is the call on the peer's drive; what the wire loses of an error changes the verdict of a read.

  \<^bold>\<open>Bounds.\<close> The only fuel is the depth of \<open>walk_dir_inner\<close>; \<open>walk_dir\<close> gives it the depth of the tree and two
  more, and \<open>Walk\<close> shows that on a tree of plain names no larger bound changes the result. Every other loop is a total function, with a
  measure where the recursion is not structural.

  \<^bold>\<open>Not modelled.\<close> The round trips of the whole stack are proved for local drives. The futures of a fan-out act on
  different drives and are run in order; two engine operations are not interleaved, and the lock is an
  outcome that an operation is given. Left out are the handlers, XML documents and routes of S3 beyond the
  choice of the body, configuration, start-up, TLS and metrics, the RDMA transport, the allocator and shared memory, the
  key-value client, the command line tool, the vLLM connector and the vendored HTTP libraries: input and output,
  bindings, or code that depends on devices and foreign interfaces. Of the modelled files, the cache of open
  handles, the scrub of the staging area and the capacity of a disk are left out, and so are the requests for
  the capacity and the format of a disk of another node.
\<close>

end
